(* ===== verification/Prelude.thy ===== *)
theory Prelude
  imports Main "HOL-Library.Char_ord" "HOL-Library.List_Lexorder"
    "HOL-Library.Product_Lexorder" "HOL-Library.AList"
begin

text \<open>
  The shared ground of the development: the result type that stands for Rust's
  \<open>Result\<close>, text as the UTF-8 bytes of a Rust \<open>String\<close> with the operations of the
  standard library the components use, numbers read from and written to text, and the
  iterator operations whose choice among equals matters (\<open>max_by_key\<close> takes the last).
\<close>

named_theorems text_simps \<open>equations for the text operations\<close>
named_theorems guard_dests \<open>what a successful check lets a caller conclude\<close>

section \<open>Results\<close>

text \<open>\<open>Inl\<close> is \<open>Err\<close> and \<open>Inr\<close> is \<open>Ok\<close>.\<close>

type_synonym ('e, 'a) result = "'e + 'a"

definition bind_result :: "('e, 'a) result \<Rightarrow> ('a \<Rightarrow> ('e, 'b) result) \<Rightarrow> ('e, 'b) result" where
  "bind_result r f = (case r of Inl e \<Rightarrow> Inl e | Inr a \<Rightarrow> f a)"

lemma bind_result_simps [simp]:
  "bind_result (Inl e) f = Inl e"
  "bind_result (Inr a) f = f a"
  by (simp_all add: bind_result_def)

lemma bind_result_Inr [guard_dests]:
  "bind_result r f = Inr b \<Longrightarrow> \<exists>a. r = Inr a \<and> f a = Inr b"
  by (cases r) auto

section \<open>Text\<close>

text \<open>
  A Rust \<open>String\<close> is its UTF-8 bytes, one \<^typ>\<open>char\<close> each, so that \<open>s.len()\<close> is \<open>length\<close>,
  comparison is by bytes and splitting at an ASCII character is splitting at a byte.
  Where the source counts characters, a character is a byte that does not continue another
  one with the continuation bytes after it.
\<close>

definition code :: "char \<Rightarrow> nat" where
  "code c = of_char c"

definition is_cont :: "char \<Rightarrow> bool" where
  "is_cont c \<longleftrightarrow> code c div 64 = 2"

function chars :: "string \<Rightarrow> string list" where
  "chars [] = []"
| "chars (b # bs) = (b # takeWhile is_cont bs) # chars (dropWhile is_cont bs)"
  by pat_completeness auto
termination
  by (relation "measure length") (auto simp: length_dropWhile_le less_Suc_eq_le)

definition char_count :: "string \<Rightarrow> nat" where
  "char_count s = length (chars s)"

definition take_chars :: "nat \<Rightarrow> string \<Rightarrow> string" where
  "take_chars n s = concat (take n (chars s))"

definition is_ascii_digit :: "char \<Rightarrow> bool" where
  "is_ascii_digit c \<longleftrightarrow> 48 \<le> code c \<and> code c \<le> 57"

definition is_ascii_lower :: "char \<Rightarrow> bool" where
  "is_ascii_lower c \<longleftrightarrow> 97 \<le> code c \<and> code c \<le> 122"

definition is_ascii_upper :: "char \<Rightarrow> bool" where
  "is_ascii_upper c \<longleftrightarrow> 65 \<le> code c \<and> code c \<le> 90"

definition ascii_lower :: "char \<Rightarrow> char" where
  "ascii_lower c = (if is_ascii_upper c then char_of (code c + 32) else c)"

definition to_ascii_lowercase :: "string \<Rightarrow> string" where
  "to_ascii_lowercase s = map ascii_lower s"

text \<open>The encodings of Unicode's white space, which \<open>trim\<close> and \<open>split_whitespace\<close> use.\<close>

definition white_space :: "string list" where
  "white_space = map (map char_of)
     ([[9], [10], [11], [12], [13], [32], [194, 133], [194, 160], [225, 154, 128]]
      @ map (\<lambda>i. [226, 128, 128 + i]) [0, 1, 2, 3, 4, 5, 6, 7, 8, 9, 10 :: nat]
      @ [[226, 128, 168], [226, 128, 169], [226, 128, 175], [226, 129, 159], [227, 128, 128]])"

definition is_white :: "string \<Rightarrow> bool" where
  "is_white c \<longleftrightarrow> c \<in> set white_space"

definition trim_start :: "string \<Rightarrow> string" where
  "trim_start s = concat (dropWhile is_white (chars s))"

definition trim_end :: "string \<Rightarrow> string" where
  "trim_end s = concat (rev (dropWhile is_white (rev (chars s))))"

definition trim :: "string \<Rightarrow> string" where
  "trim s = concat (rev (dropWhile is_white (rev (dropWhile is_white (chars s)))))"

text \<open>\<open>split_whitespace\<close>: the runs of characters between white space.\<close>

fun words_of :: "string list \<Rightarrow> string \<Rightarrow> string list" where
  "words_of [] acc = (if acc = [] then [] else [acc])"
| "words_of (c # cs) acc =
     (if is_white c then (if acc = [] then words_of cs [] else acc # words_of cs [])
      else words_of cs (acc @ c))"

definition split_whitespace :: "string \<Rightarrow> string list" where
  "split_whitespace s = words_of (chars s) []"

text \<open>\<open>split\<close> at a one-byte separator: always at least one piece, which may be empty.\<close>

fun split_on :: "(char \<Rightarrow> bool) \<Rightarrow> string \<Rightarrow> string list" where
  "split_on p [] = [[]]"
| "split_on p (c # cs) =
     (if p c then [] # split_on p cs
      else (case split_on p cs of [] \<Rightarrow> [[c]] | w # ws \<Rightarrow> (c # w) # ws))"

fun strip_prefix :: "string \<Rightarrow> string \<Rightarrow> string option" where
  "strip_prefix [] s = Some s"
| "strip_prefix (p # ps) [] = None"
| "strip_prefix (p # ps) (c # cs) = (if p = c then strip_prefix ps cs else None)"

definition starts_with :: "string \<Rightarrow> string \<Rightarrow> bool" where
  "starts_with p s \<longleftrightarrow> strip_prefix p s \<noteq> None"

definition ends_with :: "string \<Rightarrow> string \<Rightarrow> bool" where
  "ends_with p s \<longleftrightarrow> starts_with (rev p) (rev s)"

fun contains_str :: "string \<Rightarrow> string \<Rightarrow> bool" where
  "contains_str p [] = (p = [])"
| "contains_str p (c # cs) = (starts_with p (c # cs) \<or> contains_str p cs)"

text \<open>\<open>split_once\<close> and \<open>rsplit_once\<close>: what stands before and after the first and the last occurrence.\<close>

fun split_once :: "string \<Rightarrow> string \<Rightarrow> (string \<times> string) option" where
  "split_once p [] = (if p = [] then Some ([], []) else None)"
| "split_once p (c # cs) = (case strip_prefix p (c # cs) of
      Some r \<Rightarrow> Some ([], r)
    | None \<Rightarrow> map_option (\<lambda>(a, b). (c # a, b)) (split_once p cs))"

definition rsplit_once :: "string \<Rightarrow> string \<Rightarrow> (string \<times> string) option" where
  "rsplit_once p s = map_option (\<lambda>(a, b). (rev b, rev a)) (split_once (rev p) (rev s))"

text \<open>\<open>find\<close> of a text: the first position where it stands; \<open>replace\<close> of a text that is not empty, from left to right.\<close>

fun find_str :: "string \<Rightarrow> string \<Rightarrow> nat option" where
  "find_str p [] = (if p = [] then Some 0 else None)"
| "find_str p (c # cs) = (if starts_with p (c # cs) then Some 0 else map_option Suc (find_str p cs))"

fun str_replace_from :: "nat \<Rightarrow> string \<Rightarrow> string \<Rightarrow> string \<Rightarrow> string" where
  "str_replace_from skip p r [] = []"
| "str_replace_from (Suc skip) p r (c # cs) = str_replace_from skip p r cs"
| "str_replace_from 0 p r (c # cs) =
     (if starts_with p (c # cs) then r @ str_replace_from (length p - 1) p r cs else c # str_replace_from 0 p r cs)"

definition str_replace :: "string \<Rightarrow> string \<Rightarrow> string \<Rightarrow> string" where
  "str_replace p r s = str_replace_from 0 p r s"

text \<open>\<open>lines\<close>: pieces ended by a line feed, a carriage return before it dropped, and no
  empty piece after the last one.\<close>

definition drop_cr :: "string \<Rightarrow> string" where
  "drop_cr l = (if l \<noteq> [] \<and> code (last l) = 13 then butlast l else l)"

definition newline :: string where
  "newline = [char_of (10 :: nat)]"

fun line_pieces :: "string \<Rightarrow> string \<Rightarrow> string list" where
  "line_pieces [] acc = (if acc = [] then [] else [acc])"
| "line_pieces (c # cs) acc =
     (if code c = 10 then drop_cr acc # line_pieces cs [] else line_pieces cs (acc @ [c]))"

definition text_lines :: "string \<Rightarrow> string list" where
  "text_lines s = line_pieces s []"

fun join :: "string \<Rightarrow> string list \<Rightarrow> string" where
  "join sep [] = []"
| "join sep [x] = x"
| "join sep (x # y # ys) = x @ sep @ join sep (y # ys)"

section \<open>Numbers in text\<close>

fun show_nat :: "nat \<Rightarrow> string" where
  "show_nat n = (if n < 10 then [char_of (48 + n)] else show_nat (n div 10) @ [char_of (48 + n mod 10)])"

declare show_nat.simps [simp del]

text \<open>\<open>{:0w}\<close>: padded with zeros to a width.\<close>

definition show_padded :: "nat \<Rightarrow> nat \<Rightarrow> string" where
  "show_padded w n = (let s = show_nat n in replicate (w - length s) (char_of (48 :: nat)) @ s)"

definition digits_value :: "string \<Rightarrow> nat" where
  "digits_value s = foldl (\<lambda>n c. 10 * n + (code c - 48)) 0 s"

text \<open>
  \<open>str::parse\<close> of an unsigned integer below \<open>bound\<close>: an optional plus sign, then at least
  one digit and nothing else; a value that does not fit is an error.
\<close>

definition parse_unsigned :: "nat \<Rightarrow> string \<Rightarrow> nat option" where
  "parse_unsigned bound s =
     (let d = (case s of [] \<Rightarrow> [] | c # cs \<Rightarrow> if c = CHR ''+'' then cs else s)
      in if d \<noteq> [] \<and> list_all is_ascii_digit d \<and> digits_value d < bound
         then Some (digits_value d) else None)"

abbreviation parse_u32 :: "string \<Rightarrow> nat option" where
  "parse_u32 \<equiv> parse_unsigned (2 ^ 32)"

abbreviation parse_u64 :: "string \<Rightarrow> nat option" where
  "parse_u64 \<equiv> parse_unsigned (2 ^ 64)"

section \<open>Iterators\<close>

text \<open>\<open>Iterator::max_by_key\<close>: the last of the elements with the greatest key.\<close>

fun max_by_key_from :: "('a \<Rightarrow> 'k::linorder) \<Rightarrow> 'a \<Rightarrow> 'a list \<Rightarrow> 'a" where
  "max_by_key_from f m [] = m"
| "max_by_key_from f m (x # xs) = max_by_key_from f (if f m \<le> f x then x else m) xs"

definition max_by_key :: "('a \<Rightarrow> 'k::linorder) \<Rightarrow> 'a list \<Rightarrow> 'a option" where
  "max_by_key f xs = (case xs of [] \<Rightarrow> None | x # xs' \<Rightarrow> Some (max_by_key_from f x xs'))"

definition list_max :: "'a::linorder list \<Rightarrow> 'a option" where
  "list_max xs = max_by_key (\<lambda>x. x) xs"

text \<open>\<open>Iterator::position\<close>.\<close>

fun position :: "('a \<Rightarrow> bool) \<Rightarrow> 'a list \<Rightarrow> nat option" where
  "position p [] = None"
| "position p (x # xs) = (if p x then Some 0 else map_option Suc (position p xs))"

section \<open>Lemmas\<close>

lemma concat_chars [simp]: "concat (chars s) = s"
  by (induction s rule: chars.induct) auto

lemma char_count_le: "char_count s \<le> length s"
  unfolding char_count_def
proof (induction s rule: chars.induct)
  case (2 b bs)
  have "length (dropWhile is_cont bs) \<le> length bs" by (rule length_dropWhile_le)
  with 2 show ?case by simp
qed simp

lemma split_on_nonempty [simp]: "split_on p s \<noteq> []"
  by (cases s) (auto split: list.splits)

lemma strip_prefix_Some: "strip_prefix p s = Some r \<longleftrightarrow> s = p @ r"
  by (induction p s rule: strip_prefix.induct) auto

lemma strip_prefix_append [simp]: "strip_prefix p (p @ s) = Some s"
  by (simp add: strip_prefix_Some)

lemma starts_with_iff: "starts_with p s \<longleftrightarrow> (\<exists>r. s = p @ r)"
  by (auto simp: starts_with_def strip_prefix_Some dest: not_None_eq[THEN iffD1])

lemma max_by_key_from_in: "max_by_key_from f m xs \<in> insert m (set xs)"
  by (induction xs arbitrary: m) (auto split: if_splits)

lemma max_by_key_from_ge:
  "f m \<le> f (max_by_key_from f m xs) \<and> (\<forall>x \<in> set xs. f x \<le> f (max_by_key_from f m xs))"
proof (induction xs arbitrary: m)
  case (Cons x xs)
  show ?case
    using Cons [of x] Cons [of m] by (auto intro: order_trans)
qed simp

lemma max_by_key_None [simp]: "max_by_key f xs = None \<longleftrightarrow> xs = []"
  by (simp add: max_by_key_def split: list.splits)

lemma max_by_key_Nil [simp]: "max_by_key f [] = None"
  by (simp add: max_by_key_def)

lemma max_by_key_SomeD:
  assumes "max_by_key f xs = Some m"
  shows "m \<in> set xs" and "x \<in> set xs \<Longrightarrow> f x \<le> f m"
  using assms max_by_key_from_in [of f] max_by_key_from_ge [of f]
  by (auto simp: max_by_key_def split: list.splits)

lemma list_max_None [simp]: "list_max xs = None \<longleftrightarrow> xs = []"
  by (simp add: list_max_def)

lemma list_max_Nil [simp]: "list_max [] = None"
  by (simp add: list_max_def)

lemma list_max_SomeD:
  assumes "list_max xs = Some m"
  shows "m \<in> set xs" and "x \<in> set xs \<Longrightarrow> x \<le> m"
  using assms max_by_key_SomeD [of "\<lambda>x. x"] by (auto simp: list_max_def)

lemma list_max_SomeI:
  assumes "m \<in> set xs" and "\<And>x. x \<in> set xs \<Longrightarrow> x \<le> m"
  shows "list_max xs = Some m"
proof (cases "list_max xs")
  case None
  with assms(1) show ?thesis by simp
next
  case (Some m')
  with assms list_max_SomeD [OF Some] show ?thesis by (auto intro: order_antisym)
qed

lemma position_Some:
  "position p xs = Some i \<Longrightarrow> i < length xs \<and> p (xs ! i) \<and> (\<forall>j < i. \<not> p (xs ! j))"
proof (induction xs arbitrary: i)
  case (Cons x xs)
  then show ?case
    by (auto split: if_splits simp: nth_Cons split: nat.splits)
qed simp

lemma position_None: "position p xs = None \<longleftrightarrow> (\<forall>x \<in> set xs. \<not> p x)"
  by (induction xs) auto

lemma position_NoneD: "position p xs = None \<Longrightarrow> x \<in> set xs \<Longrightarrow> \<not> p x"
  by (simp add: position_None)

lemma find_SomeD: "List.find p xs = Some x \<Longrightarrow> x \<in> set xs \<and> p x"
  by (auto simp: find_Some_iff)

lemma code_char_of [simp]: "n < 256 \<Longrightarrow> code (char_of n) = n"
  by (simp add: code_def)

lemma white_first_byte: "is_white (c # cs) \<Longrightarrow> code c \<in> {9, 10, 11, 12, 13, 32, 194, 225, 226, 227}"
  by (auto simp: is_white_def white_space_def)

text \<open>On ASCII text a character is a byte.\<close>

lemma chars_ascii: "list_all (\<lambda>c. code c < 128) s \<Longrightarrow> chars s = map (\<lambda>c. [c]) s"
proof (induction s)
  case (Cons c s)
  have "takeWhile is_cont s = [] \<and> dropWhile is_cont s = s"
    using Cons.prems by (cases s) (auto simp: is_cont_def)
  with Cons show ?case by simp
qed simp

lemma eq_char_of: "n < 256 \<Longrightarrow> c = char_of n \<longleftrightarrow> code c = n"
  by (auto simp: code_def)

lemma is_white_byte: "is_white [c] \<longleftrightarrow> code c \<in> {9, 10, 11, 12, 13, 32}"
proof -
  have "is_white [c] \<longleftrightarrow> c = char_of (9 :: nat) \<or> c = char_of (10 :: nat) \<or> c = char_of (11 :: nat) \<or>
      c = char_of (12 :: nat) \<or> c = char_of (13 :: nat) \<or> c = char_of (32 :: nat)"
    by (simp add: is_white_def white_space_def)
  then show ?thesis by (simp add: eq_char_of)
qed

lemma trim_nonempty:
  assumes "code c \<notin> {9, 10, 11, 12, 13, 32, 194, 225, 226, 227}"
  shows "trim (c # cs) \<noteq> []"
proof -
  let ?w = "c # takeWhile is_cont cs" and ?ws = "chars (dropWhile is_cont cs)"
  have w: "\<not> is_white ?w" using assms white_first_byte by blast
  then have "\<exists>ys. dropWhile is_white (rev ?ws @ [?w]) = ys @ [?w]"
    by (induction "rev ?ws") (auto simp: dropWhile_append)
  with w show ?thesis by (auto simp: trim_def)
qed

lemma sorted_le_last: "sorted xs \<Longrightarrow> x \<in> set xs \<Longrightarrow> x \<le> last xs"
  by (induction xs) auto

section \<open>Printing and reading numbers\<close>

lemma digits_value_snoc: "digits_value (s @ [c]) = 10 * digits_value s + (code c - 48)"
  by (simp add: digits_value_def)

lemma show_nat_digits: "list_all is_ascii_digit (show_nat n)"
proof (induction n rule: show_nat.induct)
  case (1 n)
  have "n mod 10 < 10" by simp
  then have "is_ascii_digit (char_of (48 + n mod 10))" "n < 10 \<Longrightarrow> is_ascii_digit (char_of (48 + n))"
    by (simp_all add: is_ascii_digit_def)
  with 1 show ?case by (subst show_nat.simps) auto
qed

lemma show_nat_nonempty [simp]: "show_nat n \<noteq> []"
  by (subst show_nat.simps) simp

lemma digits_show_nat [simp]: "digits_value (show_nat n) = n"
proof (induction n rule: show_nat.induct)
  case (1 n)
  show ?case
  proof (cases "n < 10")
    case True
    then show ?thesis by (subst show_nat.simps) (simp add: digits_value_def)
  next
    case False
    have "n mod 10 < 10" by simp
    with False 1 show ?thesis by (subst show_nat.simps) (simp add: digits_value_snoc)
  qed
qed

lemma show_nat_length: "n < 10 ^ k \<Longrightarrow> 0 < k \<Longrightarrow> length (show_nat n) \<le> k"
proof (induction k arbitrary: n)
  case (Suc k)
  show ?case
  proof (cases "n < 10")
    case True
    then show ?thesis by (subst show_nat.simps) simp
  next
    case False
    with Suc.prems have "n div 10 < 10 ^ k" "0 < k" by (cases k; simp add: less_mult_imp_div_less mult.commute)+
    with Suc.IH [of "n div 10"] False show ?thesis by (subst show_nat.simps) simp
  qed
qed simp

lemma digits_zeros: "digits_value (replicate k (char_of (48 :: nat)) @ s) = digits_value s"
  by (induction k) (simp_all add: digits_value_def)

lemma show_padded_props:
  "digits_value (show_padded w n) = n" "list_all is_ascii_digit (show_padded w n)" "show_padded w n \<noteq> []"
  "n < 10 ^ w \<Longrightarrow> 0 < w \<Longrightarrow> length (show_padded w n) = w"
  using show_nat_digits [of n] show_nat_length [of n w]
  by (auto simp: show_padded_def Let_def digits_zeros is_ascii_digit_def list_all_iff)

lemma digit_not_plus: "is_ascii_digit c \<Longrightarrow> c \<noteq> CHR ''+''"
  by (auto simp: is_ascii_digit_def code_def)

lemma parse_show_padded: "n < bound \<Longrightarrow> parse_unsigned bound (show_padded w n) = Some n"
  using show_padded_props [of w n]
  by (cases "show_padded w n") (auto simp: parse_unsigned_def Let_def dest: digit_not_plus)

end
