(* ===== verification/Tables.thy ===== *)
theory Tables
  imports Prelude
begin

text \<open>
  The two kinds of keyed collections the program keeps its state in.

  An ordered table stands for a redb table and for a \<open>BTreeMap\<close>: iteration is in key
  order, so it is a list of bindings sorted by key.  A hash table stands for a \<open>HashMap\<close>,
  whose iteration order is unspecified: it is a list of bindings with distinct keys in some
  order, and no theorem depends on which.

  The interface both provide is the locale \<open>kv_table\<close>; the components' lemmas about
  what a read sees after a write are its lemmas, through the interpretations
  \<open>ot\<close> (ordered) and \<open>ht\<close> (hash).
\<close>

named_theorems table_simps \<open>reads after writes\<close>

type_synonym ('k, 'v) table = "('k \<times> 'v) list"

section \<open>The operations\<close>

abbreviation t_get :: "('k, 'v) table \<Rightarrow> 'k \<Rightarrow> 'v option" where
  "t_get \<equiv> map_of"

fun t_put :: "'k::linorder \<Rightarrow> 'v \<Rightarrow> ('k, 'v) table \<Rightarrow> ('k, 'v) table" where
  "t_put k v [] = [(k, v)]"
| "t_put k v (b # t) =
     (if k < fst b then (k, v) # b # t
      else if k = fst b then (k, v) # t
      else b # t_put k v t)"

definition t_del :: "'k \<Rightarrow> ('k, 'v) table \<Rightarrow> ('k, 'v) table" where
  "t_del k t = filter (\<lambda>b. fst b \<noteq> k) t"

definition h_put :: "'k \<Rightarrow> 'v \<Rightarrow> ('k, 'v) table \<Rightarrow> ('k, 'v) table" where
  "h_put k v t = AList.update k v t"

definition keys :: "('k, 'v) table \<Rightarrow> 'k list" where
  "keys t = map fst t"

definition vals :: "('k, 'v) table \<Rightarrow> 'v list" where
  "vals t = map snd t"

definition ordered :: "('k::linorder, 'v) table \<Rightarrow> bool" where
  "ordered t \<longleftrightarrow> sorted_wrt (<) (keys t)"

definition hashed :: "('k, 'v) table \<Rightarrow> bool" where
  "hashed t \<longleftrightarrow> distinct (keys t)"

section \<open>The interface\<close>

locale kv_table =
  fixes get :: "'t \<Rightarrow> 'k \<Rightarrow> 'v option"
    and put :: "'k \<Rightarrow> 'v \<Rightarrow> 't \<Rightarrow> 't"
    and del :: "'k \<Rightarrow> 't \<Rightarrow> 't"
    and items :: "'t \<Rightarrow> ('k \<times> 'v) list"
    and ok :: "'t \<Rightarrow> bool"
  assumes get_put: "get (put k v t) k' = (if k' = k then Some v else get t k')"
    and get_del: "get (del k t) k' = (if k' = k then None else get t k')"
    and ok_put: "ok t \<Longrightarrow> ok (put k v t)"
    and ok_del: "ok t \<Longrightarrow> ok (del k t)"
    and items_get: "ok t \<Longrightarrow> (k, v) \<in> set (items t) \<longleftrightarrow> get t k = Some v"
begin

lemma get_put_same: "get (put k v t) k = Some v"
  by (simp add: get_put)

lemma get_put_other: "k' \<noteq> k \<Longrightarrow> get (put k v t) k' = get t k'"
  by (simp add: get_put)

lemma get_del_same: "get (del k t) k = None"
  by (simp add: get_del)

lemma get_put_all:
  assumes "\<And>k v. get t k = Some v \<Longrightarrow> P k v" and "P k v" and "get (put k v t) k' = Some v'"
  shows "P k' v'"
  using assms by (auto simp: get_put split: if_splits)

lemma items_put:
  assumes "ok t"
  shows "set (items (put k v t)) = insert (k, v) {b \<in> set (items t). fst b \<noteq> k}"
proof -
  have "(k', v') \<in> set (items (put k v t)) \<longleftrightarrow>
      (k', v') \<in> insert (k, v) {b \<in> set (items t). fst b \<noteq> k}" for k' v'
    using assms items_get [OF ok_put [OF assms]] items_get [OF assms] by (auto simp: get_put)
  then show ?thesis by auto
qed

lemma items_del:
  assumes "ok t"
  shows "set (items (del k t)) = {b \<in> set (items t). fst b \<noteq> k}"
proof -
  have "(k', v') \<in> set (items (del k t)) \<longleftrightarrow> (k', v') \<in> {b \<in> set (items t). fst b \<noteq> k}" for k' v'
    using assms items_get [OF ok_del [OF assms]] items_get [OF assms] by (auto simp: get_del)
  then show ?thesis by auto
qed

end

section \<open>The two providers\<close>

lemma t_get_put: "t_get (t_put k v t) k' = (if k' = k then Some v else t_get t k')"
  by (induction t) auto

lemma t_get_del: "t_get (t_del k t) k' = (if k' = k then None else t_get t k')"
  by (induction t) (auto simp: t_del_def)

lemma h_get_put: "t_get (h_put k v t) k' = (if k' = k then Some v else t_get t k')"
  by (simp add: h_put_def update_conv')

lemma keys_t_put: "set (keys (t_put k v t)) = insert k (set (keys t))"
  by (induction t) (auto simp: keys_def)

lemma ordered_Cons: "ordered (b # t) \<longleftrightarrow> (\<forall>k \<in> set (keys t). fst b < k) \<and> ordered t"
  by (auto simp: ordered_def keys_def)

lemma ordered_t_put: "ordered t \<Longrightarrow> ordered (t_put k v t)"
  by (induction t) (auto simp: ordered_Cons keys_t_put, auto simp: ordered_def keys_def)

lemma ordered_t_del: "ordered t \<Longrightarrow> ordered (t_del k t)"
  by (induction t) (auto simp: ordered_Cons t_del_def keys_def ordered_def)

lemma ordered_distinct: "ordered t \<Longrightarrow> distinct (keys t)"
  by (auto simp: ordered_def strict_sorted_iff)

lemma items_map_of: "distinct (keys t) \<Longrightarrow> (k, v) \<in> set t \<longleftrightarrow> t_get t k = Some v"
  by (auto simp: keys_def dest: map_of_SomeD)

interpretation ot: kv_table t_get t_put t_del "\<lambda>t. t" ordered
  by unfold_locales
     (simp_all add: t_get_put t_get_del ordered_t_put ordered_t_del items_map_of ordered_distinct)

interpretation ht: kv_table t_get h_put t_del "\<lambda>t. t" hashed
proof
  show "hashed (h_put k v t)" if "hashed t" for k :: 'a and v :: 'b and t
    using that distinct_update [of t k v] by (simp add: hashed_def h_put_def keys_def)
  show "hashed (t_del k t)" if "hashed t" for k :: 'a and t :: "('a, 'b) table"
    using that by (simp add: hashed_def t_del_def keys_def distinct_map_filter)
qed (simp_all add: h_get_put t_get_del hashed_def items_map_of)

lemma vals_get: "hashed t \<Longrightarrow> v \<in> set (vals t) \<longleftrightarrow> (\<exists>k. t_get t k = Some v)"
  by (force simp: vals_def image_iff simp flip: ht.items_get)

lemmas [table_simps] = ot.get_put ot.get_del ht.get_put

lemma t_put_twice [simp]: "t_put k v (t_put k w t) = t_put k v t"
  by (induction t) auto

lemma ordered_Nil [simp]: "ordered []"
  by (simp add: ordered_def keys_def)

lemma hashed_Nil [simp]: "hashed []"
  by (simp add: hashed_def keys_def)

end
