(* ===== verification/Acl.thy ===== *)
theory Acl
  imports Tables
begin

text \<open>
  Tenancy and access control (\<open>crates/localspace-core/src/acl.rs\<close>): principals and
  levels, workspaces with their members, documents that follow their workspace or are
  tightened below it, and the one check every read, tool call and sync message goes through.
  The two \<open>HashMap\<close>s of \<open>AccessControl\<close> are hash tables.

  The lemmas say what a level held on a document is made of, that a tightening only narrows,
  that someone the workspace no longer holds holds nothing, and that break-glass reaches one
  workspace.  The interface the callers of the check rely on is the locale \<open>access_gate\<close>.
\<close>

section \<open>Data\<close>

datatype principal = User string | Group string | Workspace

datatype level = View | Comment | Edit | Owner

fun level_rank :: "level \<Rightarrow> nat" where
  "level_rank View = 0"
| "level_rank Comment = 1"
| "level_rank Edit = 2"
| "level_rank Owner = 3"

lemma level_rank_inj: "level_rank a = level_rank b \<longleftrightarrow> a = b"
  by (cases a; cases b) auto

instantiation level :: linorder
begin

definition less_eq_level :: "level \<Rightarrow> level \<Rightarrow> bool" where
  "less_eq_level a b \<longleftrightarrow> level_rank a \<le> level_rank b"

definition less_level :: "level \<Rightarrow> level \<Rightarrow> bool" where
  "less_level a b \<longleftrightarrow> level_rank a < level_rank b"

instance
  by standard (auto simp: less_eq_level_def less_level_def level_rank_inj)

end

fun level_label :: "level \<Rightarrow> string" where
  "level_label View = ''view''"
| "level_label Comment = ''comment''"
| "level_label Edit = ''edit''"
| "level_label Owner = ''owner''"

record break_glass =
  bg_workspace :: string
  bg_reason :: string

record identity =
  i_user :: string
  i_groups :: "string list"
  i_break_glass :: "break_glass option"

record acl =
  entries :: "(principal \<times> level) list"

datatype agent_writes = Direct | Proposal

record workspace =
  ws_id :: string
  ws_name :: string
  personal_to :: "string option"
  default_acl :: acl
  ws_agent_writes :: agent_writes
  ws_created_ms :: nat
  ws_created_by :: string

record document_meta =
  d_id :: string
  d_workspace :: string
  d_acl :: "acl option"
  d_title :: string

datatype denied =
    NoSuchDocument string
  | NoSuchWorkspace string
  | Insufficient level "level option"

record access_control =
  workspaces :: "(string, workspace) table"
  documents :: "(string, document_meta) table"

section \<open>Operations\<close>

definition identity_user :: "string \<Rightarrow> identity" where
  "identity_user u = \<lparr>i_user = u, i_groups = [], i_break_glass = None\<rparr>"

definition in_group :: "identity \<Rightarrow> string \<Rightarrow> identity" where
  "in_group i g = i\<lparr>i_groups := i_groups i @ [g]\<rparr>"

fun id_matches :: "identity \<Rightarrow> principal \<Rightarrow> bool" where
  "id_matches i (User u) = (u = i_user i)"
| "id_matches i (Group g) = (g \<in> set (i_groups i))"
| "id_matches i Workspace = False"

definition owned_by :: "string \<Rightarrow> acl" where
  "owned_by u = \<lparr>entries = [(User u, Owner)]\<rparr>"

definition grant :: "acl \<Rightarrow> principal \<Rightarrow> level \<Rightarrow> acl" where
  "grant a p l = a\<lparr>entries := entries a @ [(p, l)]\<rparr>"

definition level_for :: "acl \<Rightarrow> identity \<Rightarrow> level option" where
  "level_for a i = list_max (map snd (filter (\<lambda>(p, _). id_matches i p) (entries a)))"

definition allows :: "acl \<Rightarrow> identity \<Rightarrow> level \<Rightarrow> bool" where
  "allows a i need = (case level_for a i of None \<Rightarrow> False | Some l \<Rightarrow> need \<le> l)"

definition ws_personal :: "string \<Rightarrow> workspace" where
  "ws_personal u = \<lparr>ws_id = ''ws_'' @ u, ws_name = u @ [char_of (39 :: nat)] @ ''s workspace'',
     personal_to = Some u, default_acl = owned_by u, ws_agent_writes = Direct,
     ws_created_ms = 0, ws_created_by = u\<rparr>"

definition ws_shared_by :: "string \<Rightarrow> string \<Rightarrow> string \<Rightarrow> nat \<Rightarrow> workspace" where
  "ws_shared_by wid name owner now = \<lparr>ws_id = wid, ws_name = name, personal_to = None,
     default_acl = owned_by owner, ws_agent_writes = Proposal, ws_created_ms = now,
     ws_created_by = owner\<rparr>"

definition ws_shared :: "string \<Rightarrow> string \<Rightarrow> string \<Rightarrow> workspace" where
  "ws_shared wid name owner_group = \<lparr>ws_id = wid, ws_name = name, personal_to = None,
     default_acl = grant \<lparr>entries = []\<rparr> (Group owner_group) Edit, ws_agent_writes = Proposal,
     ws_created_ms = 0, ws_created_by = ''''\<rparr>"

definition level_of :: "workspace \<Rightarrow> identity \<Rightarrow> level option" where
  "level_of w i = level_for (default_acl w) i"

definition set_member :: "workspace \<Rightarrow> principal \<Rightarrow> level \<Rightarrow> workspace" where
  "set_member w p l =
     w\<lparr>default_acl := \<lparr>entries = filter (\<lambda>(q, _). q \<noteq> p) (entries (default_acl w)) @ [(p, l)]\<rparr>\<rparr>"

text \<open>The flag says whether the principal was a member.\<close>

definition remove_member :: "workspace \<Rightarrow> principal \<Rightarrow> bool \<times> workspace" where
  "remove_member w p =
     (let kept = filter (\<lambda>(q, _). q \<noteq> p) (entries (default_acl w))
      in (length kept \<noteq> length (entries (default_acl w)), w\<lparr>default_acl := \<lparr>entries = kept\<rparr>\<rparr>))"

definition ac_new :: access_control where
  "ac_new = \<lparr>workspaces = [], documents = []\<rparr>"

definition add_workspace :: "access_control \<Rightarrow> workspace \<Rightarrow> access_control" where
  "add_workspace ac w = ac\<lparr>workspaces := h_put (ws_id w) w (workspaces ac)\<rparr>"

definition get_workspace :: "access_control \<Rightarrow> string \<Rightarrow> workspace option" where
  "get_workspace ac wid = t_get (workspaces ac) wid"

definition add_document ::
  "access_control \<Rightarrow> string \<Rightarrow> string \<Rightarrow> string \<Rightarrow> acl option \<Rightarrow> access_control" where
  "add_document ac doc ws title a =
     ac\<lparr>documents := h_put doc \<lparr>d_id = doc, d_workspace = ws, d_acl = a, d_title = title\<rparr> (documents ac)\<rparr>"

definition get_document :: "access_control \<Rightarrow> string \<Rightarrow> document_meta option" where
  "get_document ac doc = t_get (documents ac) doc"

definition held :: "access_control \<Rightarrow> document_meta \<Rightarrow> identity \<Rightarrow> level option" where
  "held ac m i =
     (case t_get (workspaces ac) (d_workspace m) of
        None \<Rightarrow> None
      | Some ws \<Rightarrow>
          (case level_of ws i of
             None \<Rightarrow> None
           | Some in_workspace \<Rightarrow>
               (case d_acl m of
                  None \<Rightarrow> Some in_workspace
                | Some own \<Rightarrow>
                    (case list_max (map snd (filter (\<lambda>(p, _). p = Workspace \<or> id_matches i p) (entries own))) of
                       None \<Rightarrow> None
                     | Some tightened \<Rightarrow> Some (min tightened in_workspace)))))"

definition glass_opens :: "identity \<Rightarrow> string \<Rightarrow> bool" where
  "glass_opens i ws = (case i_break_glass i of None \<Rightarrow> False | Some g \<Rightarrow> bg_workspace g = ws)"

definition check :: "access_control \<Rightarrow> identity \<Rightarrow> string \<Rightarrow> level \<Rightarrow> (denied, level) result" where
  "check ac i doc need =
     (case t_get (documents ac) doc of
        None \<Rightarrow> Inl (NoSuchDocument doc)
      | Some m \<Rightarrow>
          if t_get (workspaces ac) (d_workspace m) = None then Inl (NoSuchWorkspace (d_workspace m))
          else let h = (if glass_opens i (d_workspace m) then Some Owner else held ac m i)
               in (case h of
                     Some l \<Rightarrow> if need \<le> l then Inr l else Inl (Insufficient need h)
                   | None \<Rightarrow> Inl (Insufficient need h)))"

definition visible_documents :: "access_control \<Rightarrow> identity \<Rightarrow> document_meta list" where
  "visible_documents ac i =
     filter (\<lambda>d. glass_opens i (d_workspace d) \<or> held ac d i \<noteq> None) (vals (documents ac))"

definition level_in :: "access_control \<Rightarrow> string \<Rightarrow> identity \<Rightarrow> level option" where
  "level_in ac ws i = Option.bind (t_get (workspaces ac) ws) (\<lambda>w. level_of w i)"

text \<open>The workspace's own level for a principal, and the first entry a tightening may not have.\<close>

definition principal_level :: "workspace \<Rightarrow> principal \<Rightarrow> level option" where
  "principal_level w p = list_max (map snd (filter (\<lambda>(q, _). q = p) (entries (default_acl w))))"

fun refuse_entries :: "workspace \<Rightarrow> (principal \<times> level) list \<Rightarrow> string option" where
  "refuse_entries w [] = None"
| "refuse_entries w ((p, l) # es) =
     (case principal_level w p of
        Some h \<Rightarrow>
          if l \<le> h then refuse_entries w es
          else Some (''a document cannot give more than its workspace does: `'' @ level_label h
                     @ ''` there, `'' @ level_label l @ ''` asked'')
      | None \<Rightarrow> Some ''a document cannot give access to someone its workspace does not'')"

definition set_document_acl ::
  "access_control \<Rightarrow> string \<Rightarrow> acl option \<Rightarrow> (string, access_control) result" where
  "set_document_acl ac doc a =
     (case t_get (documents ac) doc of
        None \<Rightarrow> Inl (''no document `'' @ doc @ ''`'')
      | Some m \<Rightarrow>
          let done = Inr (ac\<lparr>documents := h_put doc (m\<lparr>d_acl := a\<rparr>) (documents ac)\<rparr>)
          in (case a of
                None \<Rightarrow> done
              | Some own \<Rightarrow>
                  (case t_get (workspaces ac) (d_workspace m) of
                     None \<Rightarrow> Inl (''no workspace `'' @ d_workspace m @ ''`'')
                   | Some ws \<Rightarrow>
                       (case refuse_entries ws (entries own) of
                          Some why \<Rightarrow> Inl why
                        | None \<Rightarrow> done))))"

definition doc_agent_writes :: "access_control \<Rightarrow> string \<Rightarrow> agent_writes" where
  "doc_agent_writes ac doc =
     (case Option.bind (t_get (documents ac) doc) (\<lambda>d. t_get (workspaces ac) (d_workspace d)) of
        None \<Rightarrow> Direct
      | Some w \<Rightarrow> ws_agent_writes w)"

fun denied_text :: "denied \<Rightarrow> string" where
  "denied_text (NoSuchDocument d) = ''no document `'' @ d @ ''`''"
| "denied_text (NoSuchWorkspace w) = ''no workspace `'' @ w @ ''`''"
| "denied_text (Insufficient need (Some l)) =
     ''needs `'' @ level_label need @ ''` on this document; you hold `'' @ level_label l @ ''`''"
| "denied_text (Insufficient need None) = ''needs `'' @ level_label need @ ''` on this document''"

section \<open>The specification of the check\<close>

text \<open>
  What a person may do, without maxima and caps: hold a level at least as high through some
  entry of the workspace and, on a tightened document, through some entry of the tightening
  too, where "everyone in the workspace" names every member; or be inside the workspace with a
  reason.
\<close>

definition named_in :: "(principal \<Rightarrow> bool) \<Rightarrow> acl \<Rightarrow> level \<Rightarrow> bool" where
  "named_in m a need \<longleftrightarrow> (\<exists>p l. (p, l) \<in> set (entries a) \<and> m p \<and> need \<le> l)"

definition may :: "workspace \<Rightarrow> document_meta \<Rightarrow> identity \<Rightarrow> level \<Rightarrow> bool" where
  "may w m i need \<longleftrightarrow>
     glass_opens i (d_workspace m) \<or>
     named_in (id_matches i) (default_acl w) need \<and>
     (case d_acl m of None \<Rightarrow> True
      | Some own \<Rightarrow> named_in (\<lambda>p. p = Workspace \<or> id_matches i p) own need)"

section \<open>Lemmas\<close>

lemma level_bounds [simp]: "View \<le> l" "l \<le> Owner"
  by (cases l; simp add: less_eq_level_def)+

lemma max_entry_ge:
  "(\<exists>h. list_max (map snd (filter (\<lambda>(p, _). m p) (entries a))) = Some h \<and> need \<le> h) \<longleftrightarrow> named_in m a need"
proof
  assume "\<exists>h. list_max (map snd (filter (\<lambda>(p, _). m p) (entries a))) = Some h \<and> need \<le> h"
  then show "named_in m a need"
    by (force simp: named_in_def dest: list_max_SomeD(1))
next
  assume "named_in m a need"
  then obtain p l where pl: "(p, l) \<in> set (entries a)" "m p" "need \<le> l"
    by (auto simp: named_in_def)
  let ?ls = "map snd (filter (\<lambda>(p, _). m p) (entries a))"
  from pl have l: "l \<in> set ?ls" by force
  then obtain h where h: "list_max ?ls = Some h"
    by (metis empty_iff empty_set list_max_None not_None_eq)
  with l pl(3) list_max_SomeD(2) [OF h] show "\<exists>h. list_max ?ls = Some h \<and> need \<le> h"
    by (auto intro: order_trans)
qed

lemma max_entry_None:
  "list_max (map snd (filter (\<lambda>(p, _). m p) es)) = None \<longleftrightarrow> (\<forall>(p, l) \<in> set es. \<not> m p)"
  by (auto simp: filter_empty_conv)

lemma level_of_ge: "(\<exists>h. level_of w i = Some h \<and> need \<le> h) \<longleftrightarrow> named_in (id_matches i) (default_acl w) need"
  by (simp add: level_of_def level_for_def max_entry_ge)

lemma allows_iff: "allows a i need \<longleftrightarrow> named_in (id_matches i) a need"
  by (simp add: allows_def level_for_def split: option.splits flip: max_entry_ge)

lemma check_Inr_iff [guard_dests]:
  "check ac i doc need = Inr l \<longleftrightarrow>
     (\<exists>m w. t_get (documents ac) doc = Some m \<and> t_get (workspaces ac) (d_workspace m) = Some w \<and>
        need \<le> l \<and> (if glass_opens i (d_workspace m) then l = Owner else held ac m i = Some l))"
  by (auto simp: check_def Let_def split: option.splits if_splits)

lemma held_ge:
  assumes "t_get (workspaces ac) (d_workspace m) = Some w"
  shows "(\<exists>l. held ac m i = Some l \<and> need \<le> l) \<longleftrightarrow>
     named_in (id_matches i) (default_acl w) need \<and>
     (case d_acl m of None \<Rightarrow> True
      | Some own \<Rightarrow> named_in (\<lambda>p. p = Workspace \<or> id_matches i p) own need)"
  using assms
  by (auto simp: held_def level_of_def level_for_def simp flip: max_entry_ge split: option.splits)

lemma held_SomeD:
  assumes "held ac m i = Some l"
  obtains w lw where "t_get (workspaces ac) (d_workspace m) = Some w"
    and "level_of w i = Some lw" and "l \<le> lw"
  using assms by (fastforce simp: held_def split: option.splits)

text \<open>The interface the callers of the check use.\<close>

locale access_gate =
  fixes gate :: "'c \<Rightarrow> identity \<Rightarrow> string \<Rightarrow> level \<Rightarrow> (denied, level) result"
  assumes enough: "gate c i d need = Inr l \<Longrightarrow> need \<le> l"
    and lower: "gate c i d need = Inr l \<Longrightarrow> need' \<le> l \<Longrightarrow> gate c i d need' = Inr l"
begin

lemma edit_may_view: "gate c i d Edit = Inr l \<Longrightarrow> gate c i d View = Inr l"
  by (erule lower) simp

lemma view_refused_all_refused: "gate c i d View = Inl e \<Longrightarrow> \<exists>e'. gate c i d need = Inl e'"
  by (cases "gate c i d need") (auto dest: lower [where need' = View])

lemma level_unique: "gate c i d n = Inr l \<Longrightarrow> gate c i d n' = Inr l' \<Longrightarrow> l = l'"
  using lower [of c i d n l View] lower [of c i d n' l' View] by simp

end

interpretation acl_gate: access_gate check
  by unfold_locales (auto simp: check_Inr_iff)

text \<open>
  (C1) The check lets a request through exactly when the specification says the person may: a
  member entry of the workspace high enough, and an entry of the tightening high enough when the
  document has one, or break-glass on that workspace.
\<close>

theorem check_refines_may:
  assumes "get_document ac doc = Some m" and "get_workspace ac (d_workspace m) = Some w"
  shows "(\<exists>l. check ac i doc need = Inr l) \<longleftrightarrow> may w m i need"
proof (cases "glass_opens i (d_workspace m)")
  case True
  with assms show ?thesis by (simp add: check_Inr_iff may_def get_document_def get_workspace_def)
next
  case False
  with assms held_ge [of ac m w i need] show ?thesis
    by (auto simp: check_Inr_iff may_def get_document_def get_workspace_def)
qed

definition demo_ac :: access_control where
  "demo_ac =
     add_document
       (add_document
         (add_workspace ac_new (set_member (ws_shared ''ws_fin'' ''Finance'' ''finance'') (User ''cfo'') Owner))
         ''d_shared'' ''ws_fin'' ''Q4'' None)
       ''d_tight'' ''ws_fin'' ''Comp'' (Some (owned_by ''cfo''))"

lemmas demo_defs = demo_ac_def add_document_def add_workspace_def ac_new_def ws_shared_def
  set_member_def grant_def owned_by_def h_put_def get_document_def get_workspace_def

theorem check_refines_may_witness:
  "\<exists>m w. get_document demo_ac ''d_tight'' = Some m \<and> get_workspace demo_ac (d_workspace m) = Some w \<and>
     \<not> (\<exists>l. check demo_ac (in_group (identity_user ''bob'') ''finance'') ''d_tight'' View = Inr l)"
proof -
  obtain m w where m: "get_document demo_ac ''d_tight'' = Some m" "d_acl m = Some (owned_by ''cfo'')"
    and w: "get_workspace demo_ac (d_workspace m) = Some w"
    by (simp add: demo_defs)
  have "\<not> may w m (in_group (identity_user ''bob'') ''finance'') View"
    using m(2) by (simp add: may_def named_in_def owned_by_def in_group_def identity_user_def glass_opens_def)
  with m(1) w check_refines_may [OF m(1) w] show ?thesis by blast
qed

text \<open>
  What retrieval shows is exactly what the check would let the person view, as long as every
  document's workspace is there.
\<close>

theorem visible_iff_check:
  assumes "hashed (documents ac)" and "\<forall>d m. get_document ac d = Some m \<longrightarrow> d_id m = d"
    and "\<forall>d m. get_document ac d = Some m \<longrightarrow> get_workspace ac (d_workspace m) \<noteq> None"
  shows "m \<in> set (visible_documents ac i) \<longleftrightarrow>
     get_document ac (d_id m) = Some m \<and> (\<exists>l. check ac i (d_id m) View = Inr l)"
proof -
  have vals: "m \<in> set (vals (documents ac)) \<longleftrightarrow> t_get (documents ac) (d_id m) = Some m"
    using assms(1,2) by (auto simp: vals_get get_document_def)
  show ?thesis
  proof
    assume "m \<in> set (visible_documents ac i)"
    with vals have "t_get (documents ac) (d_id m) = Some m"
      and "glass_opens i (d_workspace m) \<or> held ac m i \<noteq> None"
      by (auto simp: visible_documents_def)
    then show "get_document ac (d_id m) = Some m \<and> (\<exists>l. check ac i (d_id m) View = Inr l)"
      using assms(3) by (auto simp: check_Inr_iff get_document_def get_workspace_def)
  next
    assume "get_document ac (d_id m) = Some m \<and> (\<exists>l. check ac i (d_id m) View = Inr l)"
    then show "m \<in> set (visible_documents ac i)"
      using vals by (auto simp: check_Inr_iff visible_documents_def get_document_def split: if_splits)
  qed
qed

theorem visible_iff_check_witness:
  "\<exists>m. m \<in> set (visible_documents demo_ac (identity_user ''cfo'')) \<and> d_id m = ''d_tight'' \<and>
     (\<exists>l. check demo_ac (identity_user ''cfo'') (d_id m) View = Inr l)"
proof -
  let ?m = "\<lparr>d_id = ''d_tight'', d_workspace = ''ws_fin'', d_acl = Some (owned_by ''cfo''), d_title = ''Comp''\<rparr>"
  have h: "hashed (documents demo_ac)"
    and ids: "\<forall>d m. get_document demo_ac d = Some m \<longrightarrow> d_id m = d"
    and ws: "\<forall>d m. get_document demo_ac d = Some m \<longrightarrow> get_workspace demo_ac (d_workspace m) \<noteq> None"
    by (auto simp: demo_defs hashed_def keys_def)
  have "?m \<in> set (visible_documents demo_ac (identity_user ''cfo''))"
    by (auto simp: visible_documents_def vals_def demo_defs held_def level_of_def level_for_def
        identity_user_def list_max_def max_by_key_def)
  with visible_iff_check [OF h ids ws, of ?m "identity_user ''cfo''"] show ?thesis by force
qed

text \<open>
  (C2) A document never gives more than its workspace: outside break-glass, whatever level the check
  answers, the workspace itself holds the person at that level or above, whether the document is
  tightened or not and whatever the tightening says.
\<close>

theorem document_never_loosens:
  assumes "check ac i doc need = Inr l" and "get_document ac doc = Some m"
    and "\<not> glass_opens i (d_workspace m)"
  shows "\<exists>lw. level_in ac (d_workspace m) i = Some lw \<and> l \<le> lw"
  using assms by (auto simp: check_Inr_iff get_document_def level_in_def elim: held_SomeD)

theorem document_never_loosens_witness:
  "check demo_ac (identity_user ''cfo'') ''d_tight'' Edit = Inr Owner \<and>
   (\<exists>lw. level_in demo_ac ''ws_fin'' (identity_user ''cfo'') = Some lw \<and> Owner \<le> lw)"
proof -
  have c: "check demo_ac (identity_user ''cfo'') ''d_tight'' Edit = Inr Owner"
    by (simp add: demo_defs check_def held_def level_of_def level_for_def identity_user_def
        list_max_def max_by_key_def glass_opens_def less_eq_level_def min_def)
  obtain m where m: "get_document demo_ac ''d_tight'' = Some m" "d_workspace m = ''ws_fin''"
    by (simp add: demo_defs)
  have "\<not> glass_opens (identity_user ''cfo'') (d_workspace m)"
    by (simp add: glass_opens_def identity_user_def)
  from c document_never_loosens [OF c m(1) this] m(2) show ?thesis by simp
qed

text \<open>
  Removing a principal through whom alone a person was in the workspace takes every level from
  them on every document of that workspace at once, tightened documents that still name them
  included.
\<close>

theorem removed_member_holds_nothing:
  assumes "get_workspace ac (ws_id w) = Some w"
    and "\<forall>(q, l) \<in> set (entries (default_acl w)). q \<noteq> p \<longrightarrow> \<not> id_matches i q"
    and "get_document ac doc = Some m" and "d_workspace m = ws_id w"
    and "\<not> glass_opens i (ws_id w)"
  shows "check (add_workspace ac (snd (remove_member w p))) i doc need = Inl (Insufficient need None)"
proof -
  let ?w = "snd (remove_member w p)" and ?ac = "add_workspace ac (snd (remove_member w p))"
  have id: "ws_id ?w = ws_id w" by (simp add: remove_member_def Let_def)
  have "level_of ?w i = None"
    using assms(2)
    by (force simp: level_of_def level_for_def filter_empty_conv remove_member_def Let_def)
  moreover have "t_get (workspaces ?ac) (ws_id w) = Some ?w"
    by (simp add: add_workspace_def id ht.get_put_same)
  ultimately have "held ?ac m i = None"
    using assms(4) by (simp add: held_def)
  with assms(3-5) \<open>t_get (workspaces ?ac) (ws_id w) = Some ?w\<close> show ?thesis
    by (simp add: check_def get_document_def add_workspace_def Let_def)
qed

theorem removed_member_holds_nothing_witness:
  "\<exists>w. get_workspace demo_ac ''ws_fin'' = Some w \<and>
     check (add_workspace demo_ac (snd (remove_member w (User ''cfo'')))) (identity_user ''cfo'') ''d_tight'' View
       = Inl (Insufficient View None)"
proof -
  let ?w = "set_member (ws_shared ''ws_fin'' ''Finance'' ''finance'') (User ''cfo'') Owner"
  have w: "get_workspace demo_ac (ws_id ?w) = Some ?w" "ws_id ?w = ''ws_fin''"
    by (simp_all add: demo_defs)
  obtain m where m: "get_document demo_ac ''d_tight'' = Some m" "d_workspace m = ws_id ?w"
    by (simp add: demo_defs)
  have others: "\<forall>(q, l) \<in> set (entries (default_acl ?w)).
      q \<noteq> User ''cfo'' \<longrightarrow> \<not> id_matches (identity_user ''cfo'') q"
    by (simp add: demo_defs identity_user_def)
  have "\<not> glass_opens (identity_user ''cfo'') (ws_id ?w)"
    by (simp add: glass_opens_def identity_user_def)
  from removed_member_holds_nothing [OF w(1) others m this] w show ?thesis by auto
qed

lemma refuse_entries_None:
  "refuse_entries w es = None \<longleftrightarrow> (\<forall>(p, l) \<in> set es. \<exists>h. principal_level w p = Some h \<and> l \<le> h)"
  by (induction w es rule: refuse_entries.induct) (auto split: option.splits)

lemma set_document_acl_Inr:
  assumes "set_document_acl ac doc a = Inr ac'"
  obtains m where "get_document ac doc = Some m"
    and "ac' = ac\<lparr>documents := h_put doc (m\<lparr>d_acl := a\<rparr>) (documents ac)\<rparr>"
    and "\<And>own. a = Some own \<Longrightarrow> \<exists>w. get_workspace ac (d_workspace m) = Some w \<and>
           (\<forall>(p, l) \<in> set (entries own). \<exists>h. principal_level w p = Some h \<and> l \<le> h)"
  using assms
  by (auto simp: set_document_acl_def Let_def get_document_def get_workspace_def refuse_entries_None
      split: option.splits)

text \<open>
  A tightening that Core takes names only principals the workspace names, each at or below its
  level there; it changes that document and no other, and it narrows: whoever passes the check
  afterwards passed it, at the same level or above, with the tightening cleared.
\<close>

theorem tightening_narrows:
  assumes "set_document_acl ac doc (Some own) = Inr ac'" and "set_document_acl ac doc None = Inr ac0"
  shows "(\<exists>m w. get_document ac doc = Some m \<and> get_workspace ac (d_workspace m) = Some w \<and>
           (\<forall>(p, l) \<in> set (entries own). \<exists>h. principal_level w p = Some h \<and> l \<le> h)) \<and>
         (\<forall>d. d \<noteq> doc \<longrightarrow> get_document ac' d = get_document ac d) \<and>
         (\<forall>i need l. check ac' i doc need = Inr l \<longrightarrow> (\<exists>l'. check ac0 i doc need = Inr l' \<and> l \<le> l'))"
proof -
  obtain m where m: "get_document ac doc = Some m"
    and ac': "ac' = ac\<lparr>documents := h_put doc (m\<lparr>d_acl := Some own\<rparr>) (documents ac)\<rparr>"
    and within: "\<exists>w. get_workspace ac (d_workspace m) = Some w \<and>
           (\<forall>(p, l) \<in> set (entries own). \<exists>h. principal_level w p = Some h \<and> l \<le> h)"
    by (rule set_document_acl_Inr [OF assms(1)]) auto
  have ac0: "ac0 = ac\<lparr>documents := h_put doc (m\<lparr>d_acl := None\<rparr>) (documents ac)\<rparr>"
    by (rule set_document_acl_Inr [OF assms(2)]) (use m in auto)
  have "\<exists>l'. check ac0 i doc need = Inr l' \<and> l \<le> l'" if c: "check ac' i doc need = Inr l" for i need l
  proof (cases "glass_opens i (d_workspace m)")
    case True
    with c show ?thesis by (auto simp: check_Inr_iff ac' ac0 ht.get_put_same)
  next
    case False
    with c have h: "held ac' (m\<lparr>d_acl := Some own\<rparr>) i = Some l" and "need \<le> l"
      by (auto simp: check_Inr_iff ac' ht.get_put_same)
    then obtain lw where "held ac0 (m\<lparr>d_acl := None\<rparr>) i = Some lw" "l \<le> lw"
      by (auto simp: held_def ac' ac0 split: option.splits)
    with c False \<open>need \<le> l\<close> show ?thesis
      by (auto simp: check_Inr_iff ac' ac0 ht.get_put_same intro: order_trans)
  qed
  with m within show ?thesis
    by (auto simp: ac' get_document_def ht.get_put_other)
qed

theorem tightening_narrows_witness:
  "\<exists>ac'. set_document_acl demo_ac ''d_shared'' (Some (grant \<lparr>entries = []\<rparr> (Group ''finance'') View)) = Inr ac' \<and>
     get_document ac' ''d_tight'' = get_document demo_ac ''d_tight''"
proof -
  let ?a = "grant \<lparr>entries = []\<rparr> (Group ''finance'') View"
  have "\<exists>ac'. set_document_acl demo_ac ''d_shared'' (Some ?a) = Inr ac'"
    by (simp add: set_document_acl_def demo_defs principal_level_def list_max_def max_by_key_def less_eq_level_def)
  then obtain ac' where ac': "set_document_acl demo_ac ''d_shared'' (Some ?a) = Inr ac'" by blast
  have "\<exists>ac0. set_document_acl demo_ac ''d_shared'' None = Inr ac0"
    by (simp add: set_document_acl_def demo_defs)
  then obtain ac0 where "set_document_acl demo_ac ''d_shared'' None = Inr ac0" by blast
  from tightening_narrows [OF ac' this] ac' show ?thesis by auto
qed

text \<open>
  Break-glass reaches one workspace: on a document of any other workspace the check answers as it
  would without it, and in its own workspace it answers owner on every document.
\<close>

theorem break_glass_confined:
  assumes "i_break_glass i = Some g" and "get_document ac doc = Some m"
    and "get_workspace ac (d_workspace m) \<noteq> None"
  shows "check ac i doc need =
     (if d_workspace m = bg_workspace g then Inr Owner else check ac (i\<lparr>i_break_glass := None\<rparr>) doc need)"
proof -
  have "id_matches (i\<lparr>i_break_glass := None\<rparr>) p = id_matches i p" for p
    by (cases p) auto
  then have "held ac m (i\<lparr>i_break_glass := None\<rparr>) = held ac m i"
    by (simp add: held_def level_of_def level_for_def cong: option.case_cong)
  with assms show ?thesis
    by (auto simp: check_def Let_def glass_opens_def get_document_def get_workspace_def)
qed

theorem break_glass_confined_witness:
  "check demo_ac (identity_user ''boss''\<lparr>i_break_glass := Some \<lparr>bg_workspace = ''ws_fin'', bg_reason = ''incident''\<rparr>\<rparr>)
     ''d_tight'' Owner = Inr Owner"
proof -
  let ?g = "\<lparr>bg_workspace = ''ws_fin'', bg_reason = ''incident''\<rparr>"
  let ?i = "identity_user ''boss''\<lparr>i_break_glass := Some ?g\<rparr>"
  have g: "i_break_glass ?i = Some ?g" by simp
  obtain m where m: "get_document demo_ac ''d_tight'' = Some m" "d_workspace m = ''ws_fin''"
    by (simp add: demo_defs)
  have "get_workspace demo_ac (d_workspace m) \<noteq> None"
    using m(2) by (simp add: demo_defs)
  from break_glass_confined [OF g m(1) this, of Owner] m(2) show ?thesis by simp
qed

text \<open>
  Tightening a document to "everyone in the workspace" through Core is always refused, in a
  workspace whose own members are users and groups: the refusal compares principals literally and the
  workspace's list does not hold that principal, although the check itself reads such a tightening as
  naming every member.
\<close>

theorem everyone_tightening_refused:
  assumes "get_document ac doc = Some m" and "get_workspace ac (d_workspace m) = Some w"
    and "\<forall>(p, l) \<in> set (entries (default_acl w)). p \<noteq> Workspace"
  shows "set_document_acl ac doc (Some (grant \<lparr>entries = []\<rparr> Workspace l)) =
     Inl ''a document cannot give access to someone its workspace does not''"
proof -
  have "principal_level w Workspace = None"
    using assms(3) by (auto simp: principal_level_def filter_empty_conv)
  with assms(1,2) show ?thesis
    by (simp add: set_document_acl_def grant_def get_document_def get_workspace_def)
qed

theorem everyone_tightening_refused_witness:
  "set_document_acl demo_ac ''d_shared'' (Some (grant \<lparr>entries = []\<rparr> Workspace View)) =
     Inl ''a document cannot give access to someone its workspace does not''"
proof -
  obtain m w where m: "get_document demo_ac ''d_shared'' = Some m"
    and w: "get_workspace demo_ac (d_workspace m) = Some w"
    and e: "entries (default_acl w) = [(Group ''finance'', Edit), (User ''cfo'', Owner)]"
    by (simp add: demo_defs)
  from e have "\<forall>(p, l) \<in> set (entries (default_acl w)). p \<noteq> Workspace" by simp
  from everyone_tightening_refused [OF m w this] show ?thesis .
qed

end
