(* ===== verification/Json.thy ===== *)
theory Json
  imports Prelude Complex_Main
begin

text \<open>
  JSON values as the program holds them (\<open>serde_json::Value\<close>).  Numbers keep serde's three
  representations, since \<open>is_u64\<close>, \<open>is_i64\<close> and \<open>is_number\<close> tell them apart; a float is
  the rational it denotes.  An object is its bindings in iteration order.  How a value is
  written as text is serde's, and a parameter of the definitions that measure it.
\<close>

datatype number = PosInt nat | NegInt int | Float rat

datatype json =
    JNull
  | JBool bool
  | JNum number
  | JStr string
  | JArr "json list"
  | JObj "(string \<times> json) list"

fun as_object :: "json \<Rightarrow> (string \<times> json) list option" where
  "as_object (JObj kvs) = Some kvs"
| "as_object _ = None"

fun as_array :: "json \<Rightarrow> json list option" where
  "as_array (JArr xs) = Some xs"
| "as_array _ = None"

fun as_str :: "json \<Rightarrow> string option" where
  "as_str (JStr s) = Some s"
| "as_str _ = None"

definition jget :: "json \<Rightarrow> string \<Rightarrow> json option" where
  "jget j k = (case j of JObj kvs \<Rightarrow> map_of kvs k | _ \<Rightarrow> None)"

definition is_string :: "json \<Rightarrow> bool" where
  "is_string j \<longleftrightarrow> (case j of JStr _ \<Rightarrow> True | _ \<Rightarrow> False)"

definition is_number :: "json \<Rightarrow> bool" where
  "is_number j \<longleftrightarrow> (case j of JNum _ \<Rightarrow> True | _ \<Rightarrow> False)"

definition is_u64 :: "json \<Rightarrow> bool" where
  "is_u64 j \<longleftrightarrow> (case j of JNum (PosInt _) \<Rightarrow> True | _ \<Rightarrow> False)"

definition is_i64 :: "json \<Rightarrow> bool" where
  "is_i64 j \<longleftrightarrow> (case j of JNum (PosInt n) \<Rightarrow> n < 2 ^ 63 | JNum (NegInt _) \<Rightarrow> True | _ \<Rightarrow> False)"

definition is_boolean :: "json \<Rightarrow> bool" where
  "is_boolean j \<longleftrightarrow> (case j of JBool _ \<Rightarrow> True | _ \<Rightarrow> False)"

definition is_array :: "json \<Rightarrow> bool" where
  "is_array j \<longleftrightarrow> (case j of JArr _ \<Rightarrow> True | _ \<Rightarrow> False)"

definition is_object :: "json \<Rightarrow> bool" where
  "is_object j \<longleftrightarrow> (case j of JObj _ \<Rightarrow> True | _ \<Rightarrow> False)"

definition is_null :: "json \<Rightarrow> bool" where
  "is_null j \<longleftrightarrow> j = JNull"

end
