(* ===== verification/Dag.thy ===== *)
theory Dag
  imports Tables Json
begin

text \<open>
  The version DAG and the content-addressed blob store (\<open>crates/localspace-core/src/dag.rs\<close>).
  The four redb tables are ordered tables: commits by id, the append order, blobs by hash,
  and the slots \<open>head:<doc>\<close> and \<open>redo:<doc>\<close> of the meta table.  What redb stores as bytes
  is kept as the value it encodes, and a database that cannot be read or written is not modelled.
  The hash is a parameter (blake3, printed as hexadecimal); the clock is an argument.

  The lemmas: every operation keeps the invariant \<open>dag_inv\<close>, under which heads, parents and redo
  stacks always point at commits of the same document whose content is in the store; undo gives back
  the bytes from before the commit, redo puts the commit back, and dropping a run takes each
  document it touched to where it stood before the run.
\<close>

section \<open>Data\<close>

datatype author = ByUser | ByAgent | ByHarness

record commit =
  c_id :: string
  c_parent :: "string option"
  c_doc :: string
  c_harness :: string
  c_tool :: string
  c_params :: json
  c_doc_hash :: string
  c_diff_summary :: string
  c_author :: author
  c_at_ms :: nat
  c_run :: "string option"

datatype slot = Head string | Redo "string list"

record dag =
  commits :: "(string, commit) table"
  order :: "(nat, string) table"
  blobs :: "(string, string) table"
  meta :: "(string, slot) table"

record revert =
  r_doc :: string
  r_bytes :: "string option"
  r_undone :: "string list"
  r_summary :: string

definition dag_empty :: dag where
  "dag_empty = \<lparr>commits = [], order = [], blobs = [], meta = []\<rparr>"

definition usize_max :: nat where
  "usize_max = 2 ^ 64 - 1"

section \<open>Operations\<close>

definition head_key :: "string \<Rightarrow> string" where
  "head_key doc = ''head:'' @ doc"

definition redo_key :: "string \<Rightarrow> string" where
  "redo_key doc = ''redo:'' @ doc"

definition put_blob :: "(string \<Rightarrow> string) \<Rightarrow> string \<Rightarrow> dag \<Rightarrow> string \<times> dag" where
  "put_blob hash bytes st = (hash bytes, st\<lparr>blobs := t_put (hash bytes) bytes (blobs st)\<rparr>)"

definition get_blob :: "dag \<Rightarrow> string \<Rightarrow> string option" where
  "get_blob st h = t_get (blobs st) h"

definition head :: "dag \<Rightarrow> string \<Rightarrow> string option" where
  "head st doc = (case t_get (meta st) (head_key doc) of Some (Head h) \<Rightarrow> Some h | _ \<Rightarrow> None)"

definition redo_stack :: "dag \<Rightarrow> string \<Rightarrow> string list" where
  "redo_stack st doc = (case t_get (meta st) (redo_key doc) of Some (Redo r) \<Rightarrow> r | _ \<Rightarrow> [])"

definition get_commit :: "dag \<Rightarrow> string \<Rightarrow> commit option" where
  "get_commit st cid = t_get (commits st) cid"

text \<open>\<open>{:?}\<close> of the parent; a commit id is \<open>c\<close> and hexadecimal digits, which need no escape.\<close>

definition debug_parent :: "string option \<Rightarrow> string" where
  "debug_parent p = (case p of None \<Rightarrow> ''None''
     | Some i \<Rightarrow> ''Some('' @ [char_of (34 :: nat)] @ i @ [char_of (34 :: nat)] @ '')'')"

definition commit_id ::
  "(string \<Rightarrow> string) \<Rightarrow> string \<Rightarrow> string \<Rightarrow> string \<Rightarrow> string option \<Rightarrow> nat \<Rightarrow> string" where
  "commit_id hash doc tool doc_hash parent now =
     ''c'' @ take 12 (hash (doc @ tool @ doc_hash @ debug_parent parent @ show_nat now))"

text \<open>The clock is read twice: once into the id (\<open>now\<close>) and once into the record (\<open>now'\<close>).\<close>

definition dag_commit ::
  "(string \<Rightarrow> string) \<Rightarrow> dag \<Rightarrow> string \<Rightarrow> string \<Rightarrow> string \<Rightarrow> json \<Rightarrow> string \<Rightarrow> string \<Rightarrow> author \<Rightarrow>
   string option \<Rightarrow> nat \<Rightarrow> nat \<Rightarrow> commit \<times> dag" where
  "dag_commit hash st doc harness tool params doc_bytes diff_summary author run now now' =
     (let (doc_hash, st1) = put_blob hash doc_bytes st;
          parent = head st1 doc;
          cid = commit_id hash doc tool doc_hash parent now;
          c = \<lparr>c_id = cid, c_parent = parent, c_doc = doc, c_harness = harness, c_tool = tool,
               c_params = params, c_doc_hash = doc_hash, c_diff_summary = diff_summary,
               c_author = author, c_at_ms = now', c_run = run\<rparr>;
          next = (if order st1 = [] then 0 else fst (last (order st1)) + 1)
      in (c, st1\<lparr>commits := t_put cid c (commits st1), order := t_put next cid (order st1),
                 meta := t_del (redo_key doc) (t_put (head_key doc) (Head cid) (meta st1))\<rparr>))"

fun history_walk :: "dag \<Rightarrow> nat \<Rightarrow> commit list \<Rightarrow> string list \<Rightarrow> commit list" where
  "history_walk st limit out [] = out"
| "history_walk st limit out (cid # ids) =
     (let out' = (case get_commit st cid of Some c \<Rightarrow> out @ [c] | None \<Rightarrow> out)
      in if limit \<le> length out' then out' else history_walk st limit out' ids)"

definition history :: "dag \<Rightarrow> nat \<Rightarrow> commit list" where
  "history st limit = history_walk st limit [] (rev (vals (order st)))"

definition last_touched_doc :: "dag \<Rightarrow> string option" where
  "last_touched_doc st = (case history st 1 of [] \<Rightarrow> None | c # _ \<Rightarrow> Some (c_doc c))"

definition set_head :: "string \<Rightarrow> string option \<Rightarrow> (string, slot) table \<Rightarrow> (string, slot) table" where
  "set_head doc p m = (case p of Some h \<Rightarrow> t_put (head_key doc) (Head h) m | None \<Rightarrow> t_del (head_key doc) m)"

definition missing :: "string \<Rightarrow> string \<Rightarrow> string" where
  "missing what cid = what @ '' '' @ cid @ '' missing from the DAG''"

definition undo :: "dag \<Rightarrow> string \<Rightarrow> (string, revert) result \<times> dag" where
  "undo st doc =
     (case head st doc of
        None \<Rightarrow> (Inl ''nothing to undo'', st)
      | Some head_id \<Rightarrow>
          (case get_commit st head_id of
             None \<Rightarrow> (Inl (missing ''commit'' head_id), st)
           | Some h \<Rightarrow>
               (case (case c_parent h of
                        None \<Rightarrow> Inr None
                      | Some p \<Rightarrow>
                          (case get_commit st p of
                             None \<Rightarrow> Inl (missing ''parent'' p)
                           | Some parent \<Rightarrow> Inr (get_blob st (c_doc_hash parent)))) of
                  Inl e \<Rightarrow> (Inl e, st)
                | Inr bytes \<Rightarrow>
                    (Inr \<lparr>r_doc = doc, r_bytes = bytes, r_undone = [head_id],
                          r_summary = ''undid: '' @ c_diff_summary h\<rparr>,
                     st\<lparr>meta := t_put (redo_key doc) (Redo (redo_stack st doc @ [head_id]))
                                  (set_head doc (c_parent h) (meta st))\<rparr>))))"

text \<open>The table is written before the commit is looked up, so a missing one is an error after the write.\<close>

definition redo :: "dag \<Rightarrow> string \<Rightarrow> (string, revert) result \<times> dag" where
  "redo st doc =
     (if redo_stack st doc = [] then (Inl ''nothing to redo'', st)
      else
        let cid = last (redo_stack st doc);
            st' = st\<lparr>meta := t_put (redo_key doc) (Redo (butlast (redo_stack st doc)))
                              (t_put (head_key doc) (Head cid) (meta st))\<rparr>
        in (case get_commit st' cid of
              None \<Rightarrow> (Inl (missing ''commit'' cid), st')
            | Some c \<Rightarrow>
                (Inr \<lparr>r_doc = doc, r_bytes = get_blob st' (c_doc_hash c), r_undone = [cid],
                      r_summary = ''redid: '' @ c_diff_summary c\<rparr>, st')))"

text \<open>One document of a dropped run; \<open>None\<close> is the \<open>expect\<close> that panics.\<close>

definition drop_doc :: "dag \<Rightarrow> string \<Rightarrow> commit list \<Rightarrow> string \<Rightarrow> (revert \<times> dag) option" where
  "drop_doc st run in_run doc =
     (case List.find (\<lambda>c. c_doc c = doc) (rev in_run) of
        None \<Rightarrow> None
      | Some first \<Rightarrow>
          let bytes = (case c_parent first of
                         None \<Rightarrow> None
                       | Some p \<Rightarrow> (case get_commit st p of
                                     None \<Rightarrow> None
                                   | Some parent \<Rightarrow> get_blob st (c_doc_hash parent)));
              undone = map c_id (filter (\<lambda>c. c_doc c = doc) in_run)
          in Some (\<lparr>r_doc = doc, r_bytes = bytes, r_undone = undone,
                    r_summary = ''dropped run '' @ run @ '': '' @ show_nat (length undone) @ '' commits''\<rparr>,
                   st\<lparr>meta := t_del (redo_key doc) (set_head doc (c_parent first) (meta st))\<rparr>))"

fun drop_docs :: "dag \<Rightarrow> string \<Rightarrow> commit list \<Rightarrow> string list \<Rightarrow> (revert list \<times> dag) option" where
  "drop_docs st run in_run [] = Some ([], st)"
| "drop_docs st run in_run (d # ds) =
     (case drop_doc st run in_run d of
        None \<Rightarrow> None
      | Some (r, st') \<Rightarrow> map_option (\<lambda>(rs, st''). (r # rs, st'')) (drop_docs st' run in_run ds))"

datatype drop_outcome = Dropped "revert list" | NoSuchRun string | Panicked

definition drop_run :: "dag \<Rightarrow> string \<Rightarrow> drop_outcome \<times> dag" where
  "drop_run st run =
     (let in_run = filter (\<lambda>c. c_run c = Some run) (history st usize_max)
      in if in_run = [] then (NoSuchRun (''no commits belong to run `'' @ run @ ''`''), st)
         else (case drop_docs st run in_run (remdups_adj (sort (map c_doc in_run))) of
                 None \<Rightarrow> (Panicked, st)
               | Some (rs, st') \<Rightarrow> (Dropped rs, st')))"

section \<open>The invariant\<close>

text \<open>The redo stack, top first, is the chain of commits that leads on from the head.\<close>

fun redo_chain :: "(string \<Rightarrow> commit option) \<Rightarrow> string \<Rightarrow> string option \<Rightarrow> string list \<Rightarrow> bool" where
  "redo_chain g doc h [] = True"
| "redo_chain g doc h (r # rs) =
     (case g r of None \<Rightarrow> False
      | Some c \<Rightarrow> c_doc c = doc \<and> c_parent c = h \<and> redo_chain g doc (Some r) rs)"

definition head_ok :: "(string \<Rightarrow> commit option) \<Rightarrow> string \<Rightarrow> string option \<Rightarrow> bool" where
  "head_ok g doc h \<longleftrightarrow> (\<forall>i. h = Some i \<longrightarrow> (\<exists>c. g i = Some c \<and> c_doc c = doc))"

definition log_ok :: "dag \<Rightarrow> bool" where
  "log_ok st \<longleftrightarrow> ordered (order st) \<and> distinct (vals (order st)) \<and>
     set (vals (order st)) = {i. get_commit st i \<noteq> None}"

definition commit_ok :: "dag \<Rightarrow> commit \<Rightarrow> bool" where
  "commit_ok st c \<longleftrightarrow> get_blob st (c_doc_hash c) \<noteq> None \<and> head_ok (get_commit st) (c_doc c) (c_parent c) \<and>
     (\<forall>p i j. c_parent c = Some p \<longrightarrow> (i, p) \<in> set (order st) \<longrightarrow> (j, c_id c) \<in> set (order st) \<longrightarrow> i < j)"

definition dag_inv :: "dag \<Rightarrow> bool" where
  "dag_inv st \<longleftrightarrow> log_ok st \<and>
     (\<forall>i c. get_commit st i = Some c \<longrightarrow> c_id c = i \<and> commit_ok st c) \<and>
     (\<forall>doc. head_ok (get_commit st) doc (head st doc)) \<and>
     (\<forall>doc. redo_chain (get_commit st) doc (head st doc) (rev (redo_stack st doc)))"

definition content :: "dag \<Rightarrow> string \<Rightarrow> string option" where
  "content st i = Option.bind (get_commit st i) (\<lambda>c. get_blob st (c_doc_hash c))"

text \<open>The bytes do not collide with other bytes in the store.\<close>

definition collision_free :: "(string \<Rightarrow> string) \<Rightarrow> dag \<Rightarrow> string \<Rightarrow> bool" where
  "collision_free hash st b \<longleftrightarrow> (\<forall>b'. get_blob st (hash b) = Some b' \<longrightarrow> b' = b)"

section \<open>Effects of the operations\<close>

lemma slot_keys [simp]:
  "head_key d = head_key d' \<longleftrightarrow> d = d'" "redo_key d = redo_key d' \<longleftrightarrow> d = d'"
  "head_key d \<noteq> redo_key d'" "redo_key d' \<noteq> head_key d"
  by (simp_all add: head_key_def redo_key_def)

lemma t_get_set_head:
  "t_get (set_head doc p m) k =
     (if k = head_key doc then map_option Head p else t_get m k)"
  by (cases p) (simp_all add: set_head_def table_simps)

lemmas slot_defs = head_def redo_stack_def t_get_set_head table_simps

locale blob_store =
  fixes hash :: "string \<Rightarrow> string" and put :: "string \<Rightarrow> 's \<Rightarrow> 's" and get :: "'s \<Rightarrow> string \<Rightarrow> string option"
  assumes get_put: "get (put b s) h = (if h = hash b then Some b else get s h)"
begin

lemma put_idem: "get (put b (put b s)) h = get (put b s) h"
  by (simp add: get_put)

lemma kept:
  assumes "get s h = Some b'" and "\<And>b'. get s (hash b) = Some b' \<Longrightarrow> b' = b"
  shows "get (put b s) h = Some b'"
  using assms by (auto simp: get_put)

lemma never_lost: "get s h \<noteq> None \<Longrightarrow> get (put b s) h \<noteq> None"
  by (simp add: get_put)

end

interpretation dag_blobs: blob_store hash "\<lambda>b st. snd (put_blob hash b st)" get_blob for hash
  by unfold_locales (simp add: put_blob_def get_blob_def table_simps)

lemma put_blob_frame [simp]:
  "commits (snd (put_blob hash b st)) = commits st" "order (snd (put_blob hash b st)) = order st"
  "meta (snd (put_blob hash b st)) = meta st"
  by (simp_all add: put_blob_def)

text \<open>The commit a call records, and its id.\<close>

definition new_id :: "(string \<Rightarrow> string) \<Rightarrow> dag \<Rightarrow> string \<Rightarrow> string \<Rightarrow> string \<Rightarrow> nat \<Rightarrow> string" where
  "new_id hash st doc tool bytes now = commit_id hash doc tool (hash bytes) (head st doc) now"

lemma t_put_last:
  "\<forall>k' \<in> set (keys t). k' < k \<Longrightarrow> t_put k v t = t @ [(k, v)]"
  by (induction t) (auto simp: keys_def)

lemma ordered_last:
  "ordered t \<Longrightarrow> b \<in> set t \<Longrightarrow> fst b \<le> fst (last t)"
  by (induction t) (auto simp: ordered_Cons keys_def intro: less_imp_le)

definition next_slot :: "dag \<Rightarrow> nat" where
  "next_slot st = (if order st = [] then 0 else fst (last (order st)) + 1)"

lemma next_slot_above: "ordered (order st) \<Longrightarrow> b \<in> set (order st) \<Longrightarrow> fst b < next_slot st"
  using ordered_last [of "order st" b] by (auto simp: next_slot_def)

lemma head_put_blob [simp]: "head (st\<lparr>blobs := b\<rparr>) doc = head st doc"
  by (simp add: head_def)

lemma dag_commit_eq:
  "dag_commit hash st doc harness tool params bytes summary author run now now' =
     (let cid = new_id hash st doc tool bytes now;
          c = \<lparr>c_id = cid, c_parent = head st doc, c_doc = doc, c_harness = harness, c_tool = tool,
               c_params = params, c_doc_hash = hash bytes, c_diff_summary = summary,
               c_author = author, c_at_ms = now', c_run = run\<rparr>
      in (c, \<lparr>commits = t_put cid c (commits st), order = t_put (next_slot st) cid (order st),
              blobs = t_put (hash bytes) bytes (blobs st),
              meta = t_del (redo_key doc) (t_put (head_key doc) (Head cid) (meta st))\<rparr>))"
  by (cases st) (simp add: dag_commit_def put_blob_def new_id_def next_slot_def Let_def head_def)

lemma commit_fields:
  assumes "dag_commit hash st doc harness tool params bytes summary author run now now' = (c, st')"
  shows "c_id c = new_id hash st doc tool bytes now" "c_parent c = head st doc" "c_doc c = doc"
    "c_doc_hash c = hash bytes" "c_run c = run" "c_diff_summary c = summary"
  using assms by (simp_all add: dag_commit_eq Let_def prod_eq_iff split: prod.splits, auto)

lemma commit_effect:
  assumes "dag_commit hash st doc harness tool params bytes summary author run now now' = (c, st')"
  shows "head st' d = (if d = doc then Some (c_id c) else head st d)"
    and "redo_stack st' d = (if d = doc then [] else redo_stack st d)"
    and "get_commit st' i = (if i = c_id c then Some c else get_commit st i)"
    and "get_blob st' h = (if h = hash bytes then Some bytes else get_blob st h)"
    and "order st' = t_put (next_slot st) (c_id c) (order st)"
proof -
  define cid where "cid = new_id hash st doc tool bytes now"
  have c: "c_id c = cid" and st': "st' = \<lparr>commits = t_put cid c (commits st),
      order = t_put (next_slot st) cid (order st), blobs = t_put (hash bytes) bytes (blobs st),
      meta = t_del (redo_key doc) (t_put (head_key doc) (Head cid) (meta st))\<rparr>"
    using assms unfolding dag_commit_eq Let_def cid_def [symmetric] by auto
  show "head st' d = (if d = doc then Some (c_id c) else head st d)"
    and "redo_stack st' d = (if d = doc then [] else redo_stack st d)"
    and "get_commit st' i = (if i = c_id c then Some c else get_commit st i)"
    and "get_blob st' h = (if h = hash bytes then Some bytes else get_blob st h)"
    and "order st' = t_put (next_slot st) (c_id c) (order st)"
    by (simp_all add: c st' slot_defs get_commit_def get_blob_def)
qed

lemma undo_effect:
  assumes "undo st doc = (Inr r, st')"
  obtains i h where "head st doc = Some i" "get_commit st i = Some h"
    "r = \<lparr>r_doc = doc, r_bytes = Option.bind (c_parent h) (content st), r_undone = [i],
          r_summary = ''undid: '' @ c_diff_summary h\<rparr>"
    "commits st' = commits st" "order st' = order st" "blobs st' = blobs st"
    "\<And>d. head st' d = (if d = doc then c_parent h else head st d)"
    "\<And>d. redo_stack st' d = (if d = doc then redo_stack st doc @ [i] else redo_stack st d)"
proof -
  obtain i h where ih: "head st doc = Some i" "get_commit st i = Some h"
    using assms by (auto simp: undo_def split: option.splits)
  have "(Inr r, st') = (Inr \<lparr>r_doc = doc, r_bytes = Option.bind (c_parent h) (content st), r_undone = [i],
          r_summary = ''undid: '' @ c_diff_summary h\<rparr>,
        st\<lparr>meta := t_put (redo_key doc) (Redo (redo_stack st doc @ [i])) (set_head doc (c_parent h) (meta st))\<rparr>)"
    using assms ih by (auto simp: undo_def content_def split: option.splits)
  with ih that [of i h] show thesis
    by (auto simp: slot_defs split: option.splits)
qed

lemma redo_effect:
  assumes "redo st doc = (r, st')" and "redo_stack st doc \<noteq> []"
  shows "commits st' = commits st" "order st' = order st" "blobs st' = blobs st"
    and "head st' d = (if d = doc then Some (last (redo_stack st doc)) else head st d)"
    and "redo_stack st' d = (if d = doc then butlast (redo_stack st doc) else redo_stack st d)"
  using assms by (auto simp: redo_def Let_def slot_defs split: option.splits)

lemma drop_doc_effect:
  assumes "drop_doc st run in_run doc = Some (r, st')"
  obtains f where "List.find (\<lambda>c. c_doc c = doc) (rev in_run) = Some f"
    "r = \<lparr>r_doc = doc, r_bytes = Option.bind (c_parent f) (content st),
          r_undone = map c_id (filter (\<lambda>c. c_doc c = doc) in_run),
          r_summary = ''dropped run '' @ run @ '': ''
            @ show_nat (length (filter (\<lambda>c. c_doc c = doc) in_run)) @ '' commits''\<rparr>"
    "commits st' = commits st" "order st' = order st" "blobs st' = blobs st"
    "\<And>d. head st' d = (if d = doc then c_parent f else head st d)"
    "\<And>d. redo_stack st' d = (if d = doc then [] else redo_stack st d)"
  using assms
  by (auto simp: drop_doc_def Let_def slot_defs content_def split: option.splits)

section \<open>Every operation keeps the invariant\<close>

lemma redo_chain_mono:
  assumes "\<And>i c. g i = Some c \<Longrightarrow> g' i = Some c" and "redo_chain g doc h rs"
  shows "redo_chain g' doc h rs"
  using assms(2) by (induction rs arbitrary: h) (auto dest: assms(1) split: option.splits)

lemma head_ok_mono:
  "(\<And>i c. g i = Some c \<Longrightarrow> g' i = Some c) \<Longrightarrow> head_ok g doc h \<Longrightarrow> head_ok g' doc h"
  by (fastforce simp: head_ok_def)

lemma dag_invD:
  assumes "dag_inv st"
  shows "log_ok st" and "get_commit st i = Some c \<Longrightarrow> c_id c = i"
    and "get_commit st i = Some c \<Longrightarrow> commit_ok st c" and "head_ok (get_commit st) doc (head st doc)"
    and "redo_chain (get_commit st) doc (head st doc) (rev (redo_stack st doc))"
  using assms by (auto simp: dag_inv_def)

text \<open>An operation that only moves heads and redo stacks.\<close>

lemma move_inv:
  assumes "dag_inv st" and "commits st' = commits st" and "order st' = order st" and "blobs st' = blobs st"
    and "\<And>d. head_ok (get_commit st) d (head st' d)"
    and "\<And>d. redo_chain (get_commit st) d (head st' d) (rev (redo_stack st' d))"
  shows "dag_inv st'"
proof -
  have "get_commit st' = get_commit st" and "get_blob st' = get_blob st"
    using assms by (auto simp: get_commit_def get_blob_def fun_eq_iff)
  with assms show ?thesis
    by (simp add: dag_inv_def log_ok_def commit_ok_def)
qed

lemma put_blob_inv:
  assumes "dag_inv st"
  shows "dag_inv (snd (put_blob hash b st))"
proof -
  let ?st = "snd (put_blob hash b st)"
  have "get_commit ?st = get_commit st" "head ?st = head st" "redo_stack ?st = redo_stack st"
    by (auto simp: get_commit_def head_def redo_stack_def fun_eq_iff)
  with assms dag_blobs.never_lost show ?thesis
    by (fastforce simp: dag_inv_def log_ok_def commit_ok_def)
qed

lemma undo_inv:
  assumes "dag_inv st"
  shows "dag_inv (snd (undo st doc))"
proof (cases "undo st doc")
  case (Pair r st')
  show ?thesis
  proof (cases r)
    case (Inl e)
    with Pair assms show ?thesis by (auto simp: undo_def split: option.splits)
  next
    case (Inr v)
    with Pair have u: "undo st doc = (Inr v, st')" by simp
    obtain i h where ih: "head st doc = Some i" "get_commit st i = Some h"
      and st': "commits st' = commits st" "order st' = order st" "blobs st' = blobs st"
        "\<And>d. head st' d = (if d = doc then c_parent h else head st d)"
        "\<And>d. redo_stack st' d = (if d = doc then redo_stack st doc @ [i] else redo_stack st d)"
      by (rule undo_effect [OF u]) (rule that; assumption)
    have doc: "c_doc h = doc" using dag_invD(4) [OF assms, of doc] ih by (auto simp: head_ok_def)
    have par: "head_ok (get_commit st) doc (c_parent h)"
      using dag_invD(3) [OF assms ih(2)] doc by (simp add: commit_ok_def)
    have "redo_chain (get_commit st) doc (Some i) (rev (redo_stack st doc))"
      using dag_invD(5) [OF assms, of doc] ih by simp
    then have "dag_inv st'"
      by (intro move_inv [OF assms st'(1-3)]) (auto simp: st'(4,5) ih doc par dag_invD [OF assms])
    with Pair show ?thesis by simp
  qed
qed

lemma redo_inv:
  assumes "dag_inv st"
  shows "dag_inv (snd (redo st doc))"
proof (cases "redo_stack st doc = []")
  case True
  with assms show ?thesis by (simp add: redo_def)
next
  case False
  obtain r st' where eq: "redo st doc = (r, st')" by fastforce
  let ?l = "last (redo_stack st doc)"
  have "rev (redo_stack st doc) = ?l # rev (butlast (redo_stack st doc))"
    using False by (metis append_butlast_last_id rev_eq_Cons_iff rev_rev_ident)
  with dag_invD(5) [OF assms, of doc]
  obtain c where "get_commit st ?l = Some c" "c_doc c = doc"
      "redo_chain (get_commit st) doc (Some ?l) (rev (butlast (redo_stack st doc)))"
    by (auto split: option.splits)
  then have "dag_inv st'"
    using redo_effect [OF eq False]
    by (intro move_inv [OF assms]) (auto simp: head_ok_def dag_invD(5) [OF assms] dest: dag_invD(4) [OF assms, unfolded head_ok_def, rule_format])
  with eq show ?thesis by simp
qed

lemma drop_doc_inv:
  assumes "dag_inv st" and "drop_doc st run in_run doc = Some (r, st')"
    and "\<And>c. c \<in> set in_run \<Longrightarrow> get_commit st (c_id c) = Some c"
  shows "dag_inv st'"
proof -
  obtain f where f: "List.find (\<lambda>c. c_doc c = doc) (rev in_run) = Some f"
    and st': "commits st' = commits st" "order st' = order st" "blobs st' = blobs st"
      "\<And>d. head st' d = (if d = doc then c_parent f else head st d)"
      "\<And>d. redo_stack st' d = (if d = doc then [] else redo_stack st d)"
    by (rule drop_doc_effect [OF assms(2)]) (rule that; assumption)
  from find_SomeD [OF f] have "f \<in> set in_run" "c_doc f = doc" by auto
  with assms dag_invD(3) have "head_ok (get_commit st) doc (c_parent f)"
    by (fastforce simp: commit_ok_def)
  then show ?thesis
    by (intro move_inv [OF assms(1) st'(1-3)]) (auto simp: st'(4,5) dag_invD [OF assms(1)])
qed

lemma drop_docs_inv:
  assumes "drop_docs st run in_run ds = Some (rs, st')" and "dag_inv st"
    and "\<And>c. c \<in> set in_run \<Longrightarrow> get_commit st (c_id c) = Some c"
  shows "dag_inv st'"
  using assms
proof (induction ds arbitrary: st rs)
  case (Cons d ds)
  from Cons.prems(1) obtain r st1 rs1 where d: "drop_doc st run in_run d = Some (r, st1)"
    and ds: "drop_docs st1 run in_run ds = Some (rs1, st')"
    by (auto split: option.splits)
  have "get_commit st1 = get_commit st"
    using drop_doc_effect [OF d] by (metis (no_types, lifting) get_commit_def ext)
  with Cons.prems show ?case
    by (intro Cons.IH [OF ds drop_doc_inv [OF Cons.prems(2) d]]) auto
qed simp

text \<open>The whole log, newest first.\<close>

definition commit_log :: "dag \<Rightarrow> commit list" where
  "commit_log st = map (the \<circ> get_commit st) (rev (vals (order st)))"

lemma history_walk_take:
  assumes "\<And>i. i \<in> set ids \<Longrightarrow> get_commit st i \<noteq> None" and "length out < max 1 limit"
  shows "history_walk st limit out ids = out @ take (max 1 limit - length out) (map (the \<circ> get_commit st) ids)"
  using assms
proof (induction ids arbitrary: out)
  case (Cons i ids)
  then obtain c where "get_commit st i = Some c" by fastforce
  with Cons show ?case
    by (cases "limit \<le> Suc (length out)") (auto simp: Let_def take_Cons' max_def)
qed simp

lemma history_eq: "dag_inv st \<Longrightarrow> history st limit = take (max 1 limit) (commit_log st)"
  using history_walk_take [of "rev (vals (order st))" st "[]" limit] dag_invD(1) [of st]
  by (auto simp: history_def commit_log_def log_ok_def)

lemma commit_log_in:
  assumes "dag_inv st"
  shows "c \<in> set (commit_log st) \<longleftrightarrow> get_commit st (c_id c) = Some c"
proof -
  have ids: "i \<in> set (vals (order st)) \<longleftrightarrow> (\<exists>c. get_commit st i = Some c)" for i
    using dag_invD(1) [OF assms] by (simp add: log_ok_def)
  have "c \<in> set (commit_log st) \<longleftrightarrow> (\<exists>i. get_commit st i = Some c)"
    using ids by (force simp: commit_log_def image_iff)
  also have "\<dots> \<longleftrightarrow> get_commit st (c_id c) = Some c"
    by (auto dest: dag_invD(2) [OF assms])
  finally show ?thesis .
qed

lemma history_in: "dag_inv st \<Longrightarrow> c \<in> set (history st n) \<Longrightarrow> get_commit st (c_id c) = Some c"
  by (auto simp: history_eq simp flip: commit_log_in dest: in_set_takeD)

lemma drop_run_inv:
  assumes "dag_inv st"
  shows "dag_inv (snd (drop_run st run))"
  using assms
  by (auto simp: drop_run_def Let_def split: option.splits
      elim!: drop_docs_inv intro: history_in [OF assms])

lemma commit_inv:
  assumes "dag_inv st" and fresh: "get_commit st (new_id hash st doc tool bytes now) = None"
    and eq: "dag_commit hash st doc harness tool params bytes summary author run now now' = (c, st')"
  shows "dag_inv st'"
proof -
  note f = commit_fields [OF eq] and e = commit_effect [OF eq]
  have ord: "ordered (order st)" "distinct (vals (order st))"
      "set (vals (order st)) = {i. get_commit st i \<noteq> None}"
    using dag_invD(1) [OF assms(1)] by (auto simp: log_ok_def)
  have app: "order st' = order st @ [(next_slot st, c_id c)]"
    unfolding e by (rule t_put_last) (use next_slot_above [OF ord(1)] in \<open>auto simp: keys_def\<close>)
  have new: "(i, c_id c) \<notin> set (order st)" for i
    using fresh ord(3) f(1) by (force simp: vals_def)
  have old: "get_commit st i = Some x \<Longrightarrow> get_commit st' i = Some x" for i x
    using fresh e(3) f(1) by auto
  have ord': "ordered (order st')"
    unfolding e by (rule ordered_t_put [OF ord(1)])
  have log: "log_ok st'"
    unfolding log_ok_def using ord' ord(2,3) fresh f(1) new
    by (auto simp: app vals_def e(3) image_iff)
  have older: "commit_ok st' x" if "get_commit st i = Some x" for i x
  proof -
    have "c_id x \<noteq> c_id c" "c_parent x \<noteq> Some (c_id c)"
      using dag_invD(2,3) [OF assms(1) that] that fresh f(1) by (auto simp: commit_ok_def head_ok_def)
    with dag_invD(3) [OF assms(1) that] head_ok_mono [of "get_commit st" "get_commit st'", OF old] show ?thesis
      by (auto simp: commit_ok_def app e(4))
  qed
  have newer: "commit_ok st' c"
  proof -
    have "head_ok (get_commit st') doc (head st doc)"
      by (rule head_ok_mono [of "get_commit st"]) (use old dag_invD(4) [OF assms(1)] in auto)
    moreover have "i < next_slot st" if "(i, p) \<in> set (order st)" for i p
      using next_slot_above [OF ord(1) that] by simp
    moreover have "head st doc \<noteq> Some (c_id c)"
      using dag_invD(4) [OF assms(1), of doc] fresh f(1) by (auto simp: head_ok_def)
    ultimately show ?thesis
      using new by (auto simp: commit_ok_def f e(4) app)
  qed
  have "head_ok (get_commit st') d (head st' d)" for d
    using head_ok_mono [of "get_commit st" "get_commit st'", OF old dag_invD(4) [OF assms(1)]] f(3)
    by (cases "d = doc") (auto simp: e head_ok_def)
  moreover have "redo_chain (get_commit st') d (head st' d) (rev (redo_stack st' d))" for d
    using redo_chain_mono [of "get_commit st" "get_commit st'", OF old dag_invD(5) [OF assms(1)]] by (cases "d = doc") (auto simp: e)
  ultimately show ?thesis
    using log older newer dag_invD(2) [OF assms(1)] by (auto simp: dag_inv_def e(3))
qed

section \<open>Reachable stores\<close>

text \<open>A run of the program against the store; a commit gets an id no commit has yet.\<close>

inductive dag_step :: "(string \<Rightarrow> string) \<Rightarrow> dag \<Rightarrow> dag \<Rightarrow> bool" for hash where
  step_commit: "get_commit st (new_id hash st doc tool bytes now) = None \<Longrightarrow>
     dag_step hash st (snd (dag_commit hash st doc harness tool params bytes summary author run now now'))"
| step_undo: "dag_step hash st (snd (undo st doc))"
| step_redo: "dag_step hash st (snd (redo st doc))"
| step_drop: "dag_step hash st (snd (drop_run st run))"
| step_blob: "dag_step hash st (snd (put_blob hash b st))"

inductive dag_reach :: "(string \<Rightarrow> string) \<Rightarrow> dag \<Rightarrow> bool" for hash where
  reach_empty: "dag_reach hash dag_empty"
| reach_step: "dag_reach hash st \<Longrightarrow> dag_step hash st st' \<Longrightarrow> dag_reach hash st'"

inductive_cases dag_stepE: "dag_step hash st st'"

lemma dag_empty_inv: "dag_inv dag_empty"
  by (simp add: dag_inv_def dag_empty_def log_ok_def vals_def get_commit_def head_def redo_stack_def head_ok_def)

lemma dag_step_inv: "dag_step hash st st' \<Longrightarrow> dag_inv st \<Longrightarrow> dag_inv st'"
  by (erule dag_stepE) (auto intro: undo_inv redo_inv drop_run_inv put_blob_inv commit_inv [OF _ _ prod.collapse [symmetric]])

lemma dag_reach_inv: "dag_reach hash st \<Longrightarrow> dag_inv st"
  by (induction rule: dag_reach.induct) (auto intro: dag_empty_inv dag_step_inv)

lemma undo_ok:
  assumes "dag_inv st" and "head st doc = Some i"
  shows "\<exists>v st'. undo st doc = (Inr v, st')"
proof -
  obtain h where "get_commit st i = Some h" "commit_ok st h"
    using dag_invD(3,4) [OF assms(1)] assms(2) by (fastforce simp: head_ok_def)
  with assms show ?thesis
    by (cases "c_parent h") (auto simp: undo_def commit_ok_def head_ok_def)
qed

lemma content_move:
  "commits st' = commits st \<Longrightarrow> blobs st' = blobs st \<Longrightarrow> content st' = content st"
  by (simp add: content_def get_commit_def get_blob_def fun_eq_iff)

lemma content_commit:
  assumes "dag_inv st" and "get_commit st (new_id hash st doc tool bytes now) = None"
    and "collision_free hash st bytes"
    and "dag_commit hash st doc harness tool params bytes summary author run now now' = (c, st')"
  shows "content st' i = (if i = c_id c then Some bytes else content st i)"
proof (cases "i = c_id c")
  case True
  then show ?thesis
    using commit_fields [OF assms(4)] commit_effect [OF assms(4)] by (simp add: content_def)
next
  case False
  have "get_blob st' (c_doc_hash x) = get_blob st (c_doc_hash x)" if "get_commit st i = Some x" for x
    using dag_invD(3) [OF assms(1) that] assms(3) commit_effect(4) [OF assms(4)]
    by (auto simp: commit_ok_def collision_free_def)
  with False show ?thesis
    using commit_effect(3) [OF assms(4)] by (cases "get_commit st i") (simp_all add: content_def)
qed

lemma order_has:
  assumes "dag_inv st" and "get_commit st i = Some c"
  obtains k where "(k, i) \<in> set (order st)"
proof -
  have "i \<in> set (vals (order st))" using assms dag_invD(1) [OF assms(1)] by (auto simp: log_ok_def)
  then show thesis using that by (auto simp: vals_def)
qed

abbreviation undone :: "nat \<Rightarrow> string \<Rightarrow> dag \<Rightarrow> dag" where
  "undone n doc st \<equiv> ((\<lambda>s. snd (undo s doc)) ^^ n) st"

lemma undo_down:
  assumes "dag_inv st" and "head st doc = Some i" and "(k, i) \<in> set (order st)"
  shows "\<exists>n \<le> card {b \<in> set (order st). fst b \<le> k}. head (undone n doc st) doc = None"
  using assms
proof (induction k arbitrary: st i rule: less_induct)
  case (less k)
  obtain v st' where u: "undo st doc = (Inr v, st')" using undo_ok [OF less.prems(1,2)] by blast
  obtain h where h: "get_commit st i = Some h" and st': "order st' = order st" "commits st' = commits st"
      "head st' doc = c_parent h"
    by (rule undo_effect [OF u]) (use less.prems in simp)
  have inv': "dag_inv st'" using undo_inv [OF less.prems(1), of doc] u by simp
  show ?case
  proof (cases "c_parent h")
    case None
    have "0 < card {b \<in> set (order st). fst b \<le> k}"
      using less.prems(3) by (auto simp: card_gt_0_iff)
    moreover have "head (undone 1 doc st) doc = None" using u st' None by simp
    ultimately show ?thesis by (intro exI [of _ 1]) simp
  next
    case (Some p)
    have ok: "commit_ok st h" "c_id h = i" using dag_invD(2,3) [OF less.prems(1) h] by auto
    then obtain k' where k': "(k', p) \<in> set (order st)" "k' < k"
      using Some less.prems order_has [OF less.prems(1)] by (metis commit_ok_def head_ok_def)
    let ?below = "\<lambda>k. {b \<in> set (order st). fst b \<le> k}"
    have "?below k' \<subset> ?below k" using k' less.prems(3) by force
    then have "card (?below k') < card (?below k)" by (simp add: psubset_card_mono)
    moreover obtain n where n: "n \<le> card (?below k')" "head (undone n doc st') doc = None"
      using less.IH [OF k'(2) inv'] st' Some k' by auto
    moreover have "undone (Suc n) doc st = undone n doc st'"
      using u by (simp only: funpow_Suc_right comp_apply snd_conv)
    ultimately show ?thesis by (intro exI [of _ "Suc n"]) (simp del: funpow.simps)
  qed
qed

section \<open>Dropping a run\<close>

text \<open>The commits of a run, newest first, and the one that was first on a document.\<close>

definition run_commits :: "dag \<Rightarrow> string \<Rightarrow> commit list" where
  "run_commits st run = filter (\<lambda>c. c_run c = Some run) (commit_log st)"

text \<open>Where a document stood before the first of these commits on it.\<close>

definition base_of :: "commit list \<Rightarrow> string \<Rightarrow> string option" where
  "base_of cs doc = c_parent (last (filter (\<lambda>c. c_doc c = doc) cs))"

definition moved_back :: "dag \<Rightarrow> commit list \<Rightarrow> string set \<Rightarrow> dag \<Rightarrow> bool" where
  "moved_back st cs D st' \<longleftrightarrow> commits st' = commits st \<and> order st' = order st \<and> blobs st' = blobs st \<and>
     (\<forall>d. head st' d = (if d \<in> D then base_of cs d else head st d)) \<and>
     (\<forall>d. redo_stack st' d = (if d \<in> D then [] else redo_stack st d))"

definition revert_of :: "dag \<Rightarrow> string \<Rightarrow> commit list \<Rightarrow> string \<Rightarrow> revert" where
  "revert_of st run cs doc =
     (let own = filter (\<lambda>c. c_doc c = doc) cs
      in \<lparr>r_doc = doc, r_bytes = Option.bind (base_of cs doc) (content st), r_undone = map c_id own,
          r_summary = ''dropped run '' @ run @ '': '' @ show_nat (length own) @ '' commits''\<rparr>)"

lemma find_rev:
  "List.find P (rev xs) = (if filter P xs = [] then None else Some (last (filter P xs)))"
proof (induction xs)
  case (Cons x xs)
  have "List.find P (ys @ [x]) = (case List.find P ys of None \<Rightarrow> (if P x then Some x else None) | r \<Rightarrow> r)" for ys
    by (induction ys) auto
  with Cons show ?case by simp
qed simp

lemma drop_doc_spec:
  assumes "doc \<in> c_doc ` set cs"
  shows "\<exists>st'. drop_doc st run cs doc = Some (revert_of st run cs doc, st') \<and> moved_back st cs {doc} st'"
proof -
  have some: "filter (\<lambda>c. c_doc c = doc) cs \<noteq> []"
    using assms by (auto simp: filter_empty_conv)
  then obtain r st' where d: "drop_doc st run cs doc = Some (r, st')"
    by (auto simp: drop_doc_def find_rev Let_def)
  moreover have "r = revert_of st run cs doc \<and> moved_back st cs {doc} st'"
    by (rule drop_doc_effect [OF d])
       (use some in \<open>auto simp: find_rev revert_of_def base_of_def moved_back_def Let_def\<close>)
  ultimately show ?thesis by blast
qed

lemma revert_of_move:
  "commits st' = commits st \<Longrightarrow> blobs st' = blobs st \<Longrightarrow> revert_of st' run cs = revert_of st run cs"
  using content_move [of st' st] by (intro ext) (simp add: revert_of_def)

lemma moved_back_trans:
  "moved_back st cs D st1 \<Longrightarrow> moved_back st1 cs D' st2 \<Longrightarrow> moved_back st cs (D \<union> D') st2"
  by (simp add: moved_back_def)

lemma distinct_dedup_sorted:
  fixes xs :: "'a::linorder list"
  shows "sorted xs \<Longrightarrow> distinct (remdups_adj xs)"
  by (induction xs rule: remdups_adj.induct) auto

lemma drop_docs_spec:
  assumes "set ds \<subseteq> c_doc ` set cs"
  shows "\<exists>st'. drop_docs st run cs ds = Some (map (revert_of st run cs) ds, st') \<and>
    moved_back st cs (set ds) st'"
  using assms
proof (induction ds arbitrary: st)
  case Nil
  then show ?case by (simp add: moved_back_def)
next
  case (Cons d ds)
  then obtain st1 where d: "drop_doc st run cs d = Some (revert_of st run cs d, st1)"
    "moved_back st cs {d} st1"
    using drop_doc_spec [of d cs st run] by auto
  moreover obtain st' where "drop_docs st1 run cs ds = Some (map (revert_of st1 run cs) ds, st')"
    "moved_back st1 cs (set ds) st'"
    using Cons.IH [of st1] Cons.prems by auto
  moreover have "revert_of st1 run cs = revert_of st run cs"
    using d(2) by (intro revert_of_move) (simp_all add: moved_back_def)
  ultimately show ?case
    using moved_back_trans [of st cs "{d}" st1 "set ds" st'] by simp
qed

lemma run_commits_eq:
  assumes "dag_inv st" and "length (order st) \<le> usize_max"
  shows "filter (\<lambda>c. c_run c = Some run) (history st usize_max) = run_commits st run"
  using assms by (simp add: history_eq run_commits_def commit_log_def vals_def max_def)

section \<open>A concrete store\<close>

text \<open>Two commits of one run on a whiteboard, the first on an empty document; the hash prints its input.\<close>

definition demo_hash :: "string \<Rightarrow> string" where
  "demo_hash b = b"

definition demo_one :: dag where
  "demo_one = snd (dag_commit demo_hash dag_empty ''wb'' ''board'' ''add'' JNull ''one'' ''added one''
     ByAgent (Some ''r1'') 1 1)"

definition demo_two :: dag where
  "demo_two = snd (dag_commit demo_hash demo_one ''wb'' ''board'' ''add'' JNull ''two'' ''added two''
     ByAgent (Some ''r1'') 2 2)"

lemma demo_fresh_one: "get_commit dag_empty (new_id demo_hash dag_empty ''wb'' ''add'' ''one'' 1) = None"
  by code_simp

lemma demo_fresh_two: "get_commit demo_one (new_id demo_hash demo_one ''wb'' ''add'' ''two'' 2) = None"
  by code_simp

lemma demo_heads: "head demo_two ''wb'' = Some ''cwbaddtwoSome'' \<and>
   Option.bind (head demo_one ''wb'') (content demo_one) = Some ''one''"
  by code_simp

lemma demo_one_reach: "dag_reach demo_hash demo_one"
  unfolding demo_one_def by (intro reach_step [OF reach_empty] step_commit demo_fresh_one)

lemma demo_two_reach: "dag_reach demo_hash demo_two"
  unfolding demo_two_def by (intro reach_step [OF demo_one_reach] step_commit demo_fresh_two)

section \<open>Properties\<close>



text \<open>(C10) Undo right after a commit succeeds and gives back the bytes the document had before the commit,
  every document is on the head it had before, the undone commit waits on the redo stack and no
  older commit's content has changed.  The new id is unused and the new bytes do not collide.\<close>

theorem commit_then_undo:
  assumes "dag_reach hash st" and "get_commit st (new_id hash st doc tool bytes now) = None"
    and "collision_free hash st bytes"
    and "dag_commit hash st doc harness tool params bytes summary author run now now' = (c, st1)"
  shows "\<exists>v st2. undo st1 doc = (Inr v, st2) \<and>
    r_bytes v = Option.bind (head st doc) (content st) \<and> r_undone v = [c_id c] \<and>
    (\<forall>d. head st2 d = head st d) \<and>
    (\<forall>d. redo_stack st2 d = (if d = doc then [c_id c] else redo_stack st d)) \<and>
    (\<forall>i \<in> set (vals (order st)). content st2 i = content st i)"
proof -
  note inv = dag_reach_inv [OF assms(1)] and e = commit_effect [OF assms(4)] and f = commit_fields [OF assms(4)]
  note content1 = content_commit [OF inv assms(2-4)]
  have hd: "head st1 doc = Some (c_id c)" by (simp add: e)
  then obtain v st2 where u: "undo st1 doc = (Inr v, st2)"
    using undo_ok [OF commit_inv [OF inv assms(2,4)]] by blast
  have other: "i \<noteq> c_id c" if "get_commit st i = Some x" for i x
    using that assms(2) f(1) by auto
  have ids: "\<exists>x. get_commit st i = Some x" if "i \<in> set (vals (order st))" for i
    using that dag_invD(1) [OF inv] by (auto simp: log_ok_def)
  have bytes: "Option.bind (head st doc) (content st1) = Option.bind (head st doc) (content st)"
    using dag_invD(4) [OF inv, of doc] other by (cases "head st doc") (auto simp: head_ok_def content1)
  have "r_bytes v = Option.bind (head st doc) (content st) \<and> r_undone v = [c_id c] \<and>
    (\<forall>d. head st2 d = head st d) \<and>
    (\<forall>d. redo_stack st2 d = (if d = doc then [c_id c] else redo_stack st d)) \<and> content st2 = content st1"
    by (rule undo_effect [OF u]) (use hd bytes content_move [of st2 st1] in \<open>auto simp: e f\<close>)
  with u show ?thesis using content1 ids other by (metis (no_types, lifting))
qed

theorem commit_then_undo_witness:
  "\<exists>v st2. undo demo_two ''wb'' = (Inr v, st2) \<and> r_bytes v = Some ''one'' \<and>
    head st2 ''wb'' = head demo_one ''wb'' \<and> head st2 ''other'' = head demo_one ''other''"
proof -
  have "collision_free demo_hash demo_one ''two''"
    unfolding collision_free_def
  proof (intro allI impI)
    fix b' assume "get_blob demo_one (demo_hash ''two'') = Some b'"
    moreover have "get_blob demo_one (demo_hash ''two'') = None" by code_simp
    ultimately show "b' = ''two''" by simp
  qed
  moreover have "dag_commit demo_hash demo_one ''wb'' ''board'' ''add'' JNull ''two'' ''added two'' ByAgent
      (Some ''r1'') 2 2 = (fst (dag_commit demo_hash demo_one ''wb'' ''board'' ''add'' JNull ''two''
        ''added two'' ByAgent (Some ''r1'') 2 2), demo_two)"
    by (simp add: demo_two_def)
  ultimately obtain v st2 where "undo demo_two ''wb'' = (Inr v, st2)"
    "r_bytes v = Option.bind (head demo_one ''wb'') (content demo_one)" "\<And>d. head st2 d = head demo_one d"
    using commit_then_undo [OF demo_one_reach demo_fresh_two] by blast
  with demo_heads show ?thesis by simp
qed

text \<open>(C11) Redo takes an undo back: it returns the bytes of the commit that was undone and every
  head, redo stack, commit and blob is as it was before the undo.\<close>

theorem undo_then_redo:
  assumes "dag_reach hash st" and "undo st doc = (Inr v, st1)"
  shows "\<exists>w st2. redo st1 doc = (Inr w, st2) \<and> r_bytes w = Option.bind (head st doc) (content st) \<and>
    r_bytes w \<noteq> None \<and> r_undone w = r_undone v \<and>
    (\<forall>d. head st2 d = head st d \<and> redo_stack st2 d = redo_stack st d) \<and>
    commits st2 = commits st \<and> order st2 = order st \<and> blobs st2 = blobs st"
proof -
  note inv = dag_reach_inv [OF assms(1)]
  obtain i h where ih: "head st doc = Some i" "get_commit st i = Some h" and v: "r_undone v = [i]"
    and st1: "commits st1 = commits st" "order st1 = order st" "blobs st1 = blobs st"
      "\<And>d. head st1 d = (if d = doc then c_parent h else head st d)"
      "\<And>d. redo_stack st1 d = (if d = doc then redo_stack st doc @ [i] else redo_stack st d)"
    by (rule undo_effect [OF assms(2)]) (rule that; simp)
  have ne: "redo_stack st1 doc \<noteq> []" and same: "get_commit st1 = get_commit st" "get_blob st1 = get_blob st"
    using st1 by (auto simp: get_commit_def get_blob_def fun_eq_iff)
  obtain r st2 where r: "redo st1 doc = (r, st2)" by fastforce
  note e = redo_effect [OF r ne]
  have "get_commit st2 = get_commit st" "get_blob st2 = get_blob st"
    using e st1 by (auto simp: get_commit_def get_blob_def fun_eq_iff)
  then obtain w where "r = Inr w" "r_bytes w = content st i" "r_undone w = [i]"
    using r ne st1(1,3,5) ih(2) by (auto simp: redo_def Let_def get_commit_def get_blob_def content_def)
  moreover have "content st i \<noteq> None"
    using dag_invD(3) [OF inv ih(2)] ih(2) by (simp add: content_def commit_ok_def)
  ultimately show ?thesis
    using r e st1 ih v by auto
qed

theorem undo_then_redo_witness:
  "\<exists>v st1 w st2. undo demo_two ''wb'' = (Inr v, st1) \<and> redo st1 ''wb'' = (Inr w, st2) \<and>
    r_bytes w = Some ''two'' \<and> head st2 ''wb'' = head demo_two ''wb''"
proof -
  obtain v st1 where u: "undo demo_two ''wb'' = (Inr v, st1)"
    using undo_ok [OF dag_reach_inv [OF demo_two_reach]] demo_heads by blast
  have "Option.bind (head demo_two ''wb'') (content demo_two) = Some ''two''" by code_simp
  with u undo_then_redo [OF demo_two_reach u] show ?thesis by fastforce
qed

text \<open>Dropping a run takes every document the run touched to where it stood before the run's first
  commit on it, with one revert per document in document order carrying the bytes from then and the ids of
  all the run's commits there, and clears those redo stacks.  No other document, commit or blob changes.
  A run with no commits is refused and changes nothing.  The log fits in \<open>usize\<close>.\<close>

theorem drop_run_spec:
  assumes "dag_reach hash st" and "length (order st) \<le> usize_max"
  shows "let cs = run_commits st run; docs = remdups_adj (sort (map c_doc cs)) in
    if cs = [] then drop_run st run = (NoSuchRun (''no commits belong to run `'' @ run @ ''`''), st)
    else set docs = c_doc ` set cs \<and> distinct docs \<and>
      (\<exists>st'. drop_run st run = (Dropped (map (revert_of st run cs) docs), st') \<and>
             moved_back st cs (set docs) st')"
proof -
  define cs where "cs = run_commits st run"
  define docs where "docs = remdups_adj (sort (map c_doc cs))"
  have docs: "set docs = c_doc ` set cs" "distinct docs"
    by (auto simp: docs_def distinct_dedup_sorted)
  obtain st' where "drop_docs st run cs docs = Some (map (revert_of st run cs) docs, st')"
    "moved_back st cs (set docs) st'"
    using drop_docs_spec [of docs cs st run] docs by auto
  with docs show ?thesis
    unfolding Let_def cs_def [symmetric] docs_def [symmetric]
    by (simp add: drop_run_def Let_def run_commits_eq [OF dag_reach_inv [OF assms(1)] assms(2)]
        flip: cs_def docs_def)
qed

theorem drop_run_spec_witness:
  "fst (drop_run demo_two ''r1'') =
     Dropped [revert_of demo_two ''r1'' (run_commits demo_two ''r1'') ''wb''] \<and>
   r_bytes (revert_of demo_two ''r1'' (run_commits demo_two ''r1'') ''wb'') = None \<and>
   head (snd (drop_run demo_two ''r1'')) ''wb'' = None"
proof -
  have "length (order demo_two) = 2" by code_simp
  then have len: "length (order demo_two) \<le> usize_max" by (simp add: usize_max_def)
  have "run_commits demo_two ''r1'' \<noteq> []"
    "remdups_adj (sort (map c_doc (run_commits demo_two ''r1''))) = [''wb'']"
    by code_simp+
  then obtain st' where
    "drop_run demo_two ''r1'' = (Dropped (map (revert_of demo_two ''r1'' (run_commits demo_two ''r1'')) [''wb'']), st')"
    "moved_back demo_two (run_commits demo_two ''r1'') (set [''wb'']) st'"
    using drop_run_spec [OF demo_two_reach len, of "''r1''"] unfolding Let_def by (auto simp only: if_False)
  moreover have "base_of (run_commits demo_two ''r1'') ''wb'' = None" by code_simp
  ultimately show ?thesis by (simp add: moved_back_def revert_of_def Let_def)
qed

text \<open>(C40) Undoing a document again and again always ends: after at most as many undos as there are
  commits the document has no head, and undo then answers that there is nothing to undo.\<close>

theorem undo_reaches_start:
  assumes "dag_reach hash st"
  shows "\<exists>n \<le> length (order st). head (undone n doc st) doc = None \<and>
    fst (undo (undone n doc st) doc) = Inl ''nothing to undo''"
proof -
  note inv = dag_reach_inv [OF assms]
  have "\<exists>n \<le> length (order st). head (undone n doc st) doc = None"
  proof (cases "head st doc")
    case None
    then show ?thesis by (intro exI [of _ 0]) simp
  next
    case (Some i)
    then obtain c where "get_commit st i = Some c"
      using dag_invD(4) [OF inv, of doc] by (auto simp: head_ok_def)
    then obtain k where "(k, i) \<in> set (order st)" by (rule order_has [OF inv])
    from undo_down [OF inv Some this] obtain n
      where n: "n \<le> card {b \<in> set (order st). fst b \<le> k}" "head (undone n doc st) doc = None" by blast
    have "card {b \<in> set (order st). fst b \<le> k} \<le> card (set (order st))" by (rule card_mono) auto
    with n card_length [of "order st"] show ?thesis by (meson le_trans)
  qed
  then show ?thesis by (auto simp: undo_def)
qed

theorem undo_reaches_start_witness:
  "\<exists>n \<le> 2. head (undone n ''wb'' demo_two) ''wb'' = None"
proof -
  have "length (order demo_two) = 2" by code_simp
  with undo_reaches_start [OF demo_two_reach, of "''wb''"] show ?thesis by auto
qed

end
