(* ===== verification/Calendar.thy ===== *)
theory Calendar
  imports Prelude
begin

text \<open>
  The date of a day counted from 1970-01-01 (\<open>civil_from_days\<close> and \<open>day_of\<close> of
  \<open>crates/localspace-core/src/audit.rs\<close>), with \<^typ>\<open>int\<close> for the source's \<open>i64\<close>, and the calendar it is
  checked against: leap years, month lengths and the day after a date.

  Within an era of 400 years the year of a day is monotone in the day, so it is enough to check
  the first and the last day of each of the 400 years; the month is checked on the days of one year.
\<close>

section \<open>The program's arithmetic\<close>

text \<open>The division by 146097 truncates towards zero, hence the shift for negative days.\<close>

definition civil_from_days :: "int \<Rightarrow> int \<times> int \<times> int" where
  "civil_from_days days =
     (let z = days + 719468;
          era = (if 0 \<le> z then z div 146097 else - ((146096 - z) div 146097));
          doe = z - era * 146097;
          yoe = (doe - doe div 1460 + doe div 36524 - doe div 146096) div 365;
          y = yoe + era * 400;
          doy = doe - (365 * yoe + yoe div 4 - yoe div 100);
          mp = (5 * doy + 2) div 153;
          d = doy - (153 * mp + 2) div 5 + 1;
          m = (if mp < 10 then mp + 3 else mp - 9)
      in (if m \<le> 2 then y + 1 else y, m, d))"

definition day_of :: "nat \<Rightarrow> string" where
  "day_of ts_ms = (let (y, m, d) = civil_from_days (int (ts_ms div 86400000))
     in show_padded 4 (nat y) @ ''-'' @ show_padded 2 (nat m) @ ''-'' @ show_padded 2 (nat d))"

section \<open>The calendar\<close>

definition leap :: "int \<Rightarrow> bool" where
  "leap y \<longleftrightarrow> y mod 4 = 0 \<and> (y mod 100 \<noteq> 0 \<or> y mod 400 = 0)"

definition month_length :: "int \<Rightarrow> int \<Rightarrow> int" where
  "month_length y m = (if m = 2 then (if leap y then 29 else 28)
     else if m \<in> {4, 6, 9, 11} then 30 else 31)"

fun next_day :: "int \<times> int \<times> int \<Rightarrow> int \<times> int \<times> int" where
  "next_day (y, m, d) = (if d < month_length y m then (y, m, d + 1)
     else if m = 12 then (y + 1, 1, 1) else (y, m + 1, 1))"

section \<open>Eras and years\<close>

definition yoe_of :: "int \<Rightarrow> int" where
  "yoe_of doe = (doe - doe div 1460 + doe div 36524 - doe div 146096) div 365"

definition ystart :: "int \<Rightarrow> int" where
  "ystart y = (if y = 400 then 146097 else 365 * y + y div 4 - y div 100)"

lemma less_quotient_mono:
  fixes a b n :: int
  assumes "a \<le> b" "0 < n" shows "a - a div n \<le> b - b div n"
proof -
  have "b \<le> a + (b - a) * n" using assms mult_left_mono [of 1 n "b - a"] by simp
  then have "b div n \<le> (a + (b - a) * n) div n" using assms by (intro zdiv_mono1)
  with assms show ?thesis by simp
qed

lemma yoe_mono: assumes "0 \<le> a" "a \<le> b" shows "yoe_of a \<le> yoe_of b"
proof -
  have split: "x div 146096 = x div 36524 div 4" for x :: int
    using zdiv_zmult2_eq [of 4 x 36524] by simp
  have "a div 36524 \<le> b div 36524" using assms by (intro zdiv_mono1) auto
  from less_quotient_mono [OF this, of 4] less_quotient_mono [OF assms(2), of 1460] show ?thesis
    unfolding yoe_of_def split by (intro zdiv_mono1) auto
qed

definition year_ok :: "int \<Rightarrow> bool" where
  "year_ok y \<longleftrightarrow> yoe_of (ystart y) = y \<and> yoe_of (ystart (y + 1) - 1) = y \<and>
     ystart (y + 1) = ystart y + (if leap (y + 1) then 366 else 365) \<and> ystart (y + 1) \<le> 146097"

lemma years_ok: "list_all year_ok [0..399]"
  by code_simp

lemma year_ok_at: "0 \<le> y \<Longrightarrow> y \<le> 399 \<Longrightarrow> year_ok y"
  using years_ok by (simp add: list_all_iff)

lemma ystart_nonneg: "0 \<le> y \<Longrightarrow> 0 \<le> ystart y"
proof -
  assume "0 \<le> y"
  then have "y div 100 \<le> y" "0 \<le> y div 4" using zdiv_mono2 [of y 1 100] by simp_all
  then show ?thesis using \<open>0 \<le> y\<close> by (simp add: ystart_def)
qed

lemma yoe_between:
  assumes "0 \<le> y" "y \<le> 399" "ystart y \<le> doe" "doe < ystart (y + 1)"
  shows "yoe_of doe = y"
proof -
  have "yoe_of (ystart y) = y" "yoe_of (ystart (y + 1) - 1) = y"
    using year_ok_at [OF assms(1,2)] unfolding year_ok_def by blast+
  then show ?thesis
    using yoe_mono [of "ystart y" doe] yoe_mono [of doe "ystart (y + 1) - 1"] assms ystart_nonneg [of y] by simp
qed

lemma year_exists:
  assumes "0 \<le> doe" "doe < 146097"
  obtains y where "0 \<le> y" "y \<le> 399" "ystart y \<le> doe" "doe < ystart (y + 1)"
proof -
  let ?P = "\<lambda>n. doe < ystart (int n)"
  have P: "?P 400" using assms by (simp add: ystart_def)
  define n where "n = (LEAST n. ?P n)"
  have n: "?P n" "n \<le> 400" using LeastI [of ?P, OF P] Least_le [of ?P, OF P] by (auto simp: n_def)
  have "\<not> ?P 0" using assms by (simp add: ystart_def)
  with n(1) have "n \<noteq> 0" by metis
  then obtain k where k: "n = Suc k" by (cases n) auto
  have "\<not> ?P k" using not_less_Least [of k ?P] k by (simp add: n_def)
  with n k show thesis by (intro that [of "int k"]) (auto simp: add.commute)
qed

definition mon :: "int \<Rightarrow> int" where
  "mon doy = (let mp = (5 * doy + 2) div 153 in if mp < 10 then mp + 3 else mp - 9)"

definition day_in :: "int \<Rightarrow> int" where
  "day_in doy = doy - (153 * ((5 * doy + 2) div 153) + 2) div 5 + 1"

definition civ :: "int \<Rightarrow> int \<Rightarrow> int \<times> int \<times> int" where
  "civ y doy = (if mon doy \<le> 2 then y + 1 else y, mon doy, day_in doy)"

definition inner_step :: "int \<Rightarrow> bool" where
  "inner_step d = (if day_in d < month_length 1 (mon d) then mon (d + 1) = mon d \<and> day_in (d + 1) = day_in d + 1
     else mon d \<noteq> 2 \<and> day_in d = month_length 1 (mon d) \<and> day_in (d + 1) = 1 \<and>
       (if mon d = 12 then mon (d + 1) = 1 else mon (d + 1) = mon d + 1 \<and> mon d \<noteq> 2))"

lemma inner_days: "list_all inner_step [0..363]"
  by code_simp

lemma edge_days: "mon 364 = 2 \<and> day_in 364 = 28 \<and> mon 365 = 2 \<and> day_in 365 = 29 \<and> mon 0 = 3 \<and> day_in 0 = 1"
  by code_simp

lemma month_day_range: "list_all (\<lambda>d. 1 \<le> mon d \<and> mon d \<le> 12 \<and> 1 \<le> day_in d \<and> day_in d \<le> 31) [0..365]"
  by code_simp

lemma leap_era: "leap (y + 400 * e) = leap y"
proof -
  have "(y + 400 * e) mod 4 = y mod 4" "(y + 400 * e) mod 100 = y mod 100" "(y + 400 * e) mod 400 = y mod 400"
    using mod_mult_self2 [of y 4 "100 * e"] mod_mult_self2 [of y 100 "4 * e"] by simp_all
  then show ?thesis by (simp add: leap_def)
qed

lemma month_length_mono: "month_length 1 m \<le> month_length y m" "m \<noteq> 2 \<Longrightarrow> month_length y m = month_length 1 m"
  by (auto simp: month_length_def leap_def)

lemma next_day_inner:
  assumes "0 \<le> d" "d \<le> 363"
  shows "next_day (civ y d) = civ y (d + 1)"
proof -
  have step: "inner_step d" using inner_days assms by (simp add: list_all_iff)
  show ?thesis
  proof (cases "day_in d < month_length 1 (mon d)")
    case True
    with step have "mon (d + 1) = mon d" "day_in (d + 1) = day_in d + 1" by (simp_all add: inner_step_def)
    with True month_length_mono(1) [of "mon d"] show ?thesis by (simp add: civ_def less_le_trans)
  next
    case False
    with step have "mon d \<noteq> 2" "day_in d = month_length 1 (mon d)" "day_in (d + 1) = 1"
      "if mon d = 12 then mon (d + 1) = 1 else mon (d + 1) = mon d + 1" by (simp_all add: inner_step_def)
    moreover have "mon d \<le> 2 \<longleftrightarrow> mon d + 1 \<le> 2" using \<open>mon d \<noteq> 2\<close> by arith
    ultimately show ?thesis
      using month_length_mono(2) [of "mon d" "if mon d \<le> 2 then y + 1 else y"]
      by (cases "mon d = 12") (simp_all add: civ_def)
  qed
qed

lemma next_day_last:
  "next_day (civ y 364) = (if leap (y + 1) then civ y 365 else civ (y + 1) 0)"
  "leap (y + 1) \<Longrightarrow> next_day (civ y 365) = civ (y + 1) 0"
  using edge_days by (simp_all add: civ_def month_length_def)

text \<open>A day as an era, a year of it that begins in March and a day of that year.\<close>

definition placed :: "int \<Rightarrow> int \<Rightarrow> int \<Rightarrow> int \<Rightarrow> bool" where
  "placed days e y d \<longleftrightarrow> days + 719468 = 146097 * e + ystart y + d \<and> 0 \<le> y \<and> y \<le> 399 \<and>
     0 \<le> d \<and> ystart y + d < ystart (y + 1)"

lemma ystart_mono: "0 \<le> y \<Longrightarrow> y \<le> 399 \<Longrightarrow> ystart y < ystart (y + 1) \<and> ystart (y + 1) \<le> 146097"
  using year_ok_at [of y] by (auto simp: year_ok_def)

lemma era_eq: "(if 0 \<le> z then z div 146097 else - ((146096 - z) div 146097)) = z div (146097::int)"
proof -
  have "(146096 - z) div 146097 = - (z div 146097)"
  proof (rule int_div_pos_eq)
    show "146096 - z = 146097 * - (z div 146097) + (146096 - z mod 146097)"
      using mult_div_mod_eq [of 146097 z] by linarith
  qed (use pos_mod_bound [of 146097 z] in auto)
  then show ?thesis by simp
qed

lemma civil_from_days_eq:
  "civil_from_days days =
     (let z = days + 719468; doe = z mod 146097; yoe = yoe_of doe
      in civ (yoe + z div 146097 * 400) (doe - (365 * yoe + yoe div 4 - yoe div 100)))"
  unfolding civil_from_days_def civ_def mon_def day_in_def yoe_of_def Let_def era_eq minus_div_mult_eq_mod
  by (rule refl)

lemma placed_civil: "placed days e y d \<Longrightarrow> civil_from_days days = civ (y + 400 * e) d"
proof -
  assume p: "placed days e y d"
  define z where "z = days + 719468"
  define doe where "doe = ystart y + d"
  have doe: "0 \<le> doe" "doe < 146097" "ystart y \<le> doe" "doe < ystart (y + 1)"
    using p ystart_nonneg [of y] ystart_mono [of y] by (auto simp: placed_def doe_def)
  have z: "z = 146097 * e + doe" using p by (simp add: placed_def z_def doe_def)
  have e: "z div 146097 = e" "z mod 146097 = doe" unfolding z using doe by simp_all
  have y: "yoe_of doe = y" using yoe_between doe p by (simp add: placed_def)
  have d: "doe - (365 * y + y div 4 - y div 100) = d" using p by (simp add: placed_def doe_def ystart_def)
  show ?thesis
    unfolding civil_from_days_eq Let_def z_def [symmetric] e y d by (simp only: mult.commute)
qed

lemma placed_exists: obtains e y d where "placed days e y d"
proof -
  define z where "z = days + 719468"
  have "0 \<le> z mod 146097" "z mod 146097 < 146097" by simp_all
  then obtain y where "0 \<le> y" "y \<le> 399" "ystart y \<le> z mod 146097" "z mod 146097 < ystart (y + 1)"
    by (rule year_exists)
  then have "placed days (z div 146097) y (z mod 146097 - ystart y)"
    by (auto simp: placed_def z_def)
  then show thesis by (rule that)
qed

lemma placed_range: "placed days e y d \<Longrightarrow> d \<le> 365" 
  using year_ok_at [of y] by (auto simp: placed_def year_ok_def split: if_splits)

lemma civil_from_days_step: "civil_from_days (days + 1) = next_day (civil_from_days days)"
proof -
  obtain e y d where p: "placed days e y d" by (rule placed_exists)
  then have r: "0 \<le> y" "y \<le> 399" "0 \<le> d" by (auto simp: placed_def)
  have len: "ystart (y + 1) - ystart y = (if leap (y + 400 * e + 1) then 366 else 365)"
    using year_ok_at [OF r(1,2)] leap_era [of "y + 1" e]
    by (simp add: year_ok_def add.commute [of "400 * e"] add.assoc)
  show ?thesis
  proof (cases "ystart y + d + 1 < ystart (y + 1)")
    case True
    with p have "placed (days + 1) e y (d + 1)" by (simp add: placed_def)
    moreover have "next_day (civ (y + 400 * e) d) = civ (y + 400 * e) (d + 1)"
      using True len r next_day_inner [of d "y + 400 * e"] next_day_last(1) [of "y + 400 * e"]
      by (cases "d = 364") (auto split: if_splits)
    ultimately show ?thesis using p by (simp add: placed_civil)
  next
    case False
    with p have eq: "ystart y + d + 1 = ystart (y + 1)" by (simp add: placed_def)
    have last: "next_day (civ (y + 400 * e) d) = civ (y + 400 * e + 1) 0"
    proof (cases "leap (y + 400 * e + 1)")
      case True
      with eq len have "d = 365" by simp
      with True show ?thesis by (simp only: next_day_last)
    next
      case False
      with eq len have "d = 364" by simp
      with False show ?thesis by (simp only: next_day_last if_False)
    qed
    show ?thesis
    proof (cases "y = 399")
      case True
      with p eq have "placed (days + 1) (e + 1) 0 0" by (simp add: placed_def ystart_def)
      with last p True show ?thesis by (simp add: placed_civil algebra_simps)
    next
      case False
      with p eq r ystart_mono [of "y + 1"] have "placed (days + 1) e (y + 1) 0" by (simp add: placed_def)
      with last p show ?thesis by (simp add: placed_civil algebra_simps)
    qed
  qed
qed

lemma civil_range:
  "civil_from_days n = (y, m, d) \<Longrightarrow> 1 \<le> m \<and> m \<le> 12 \<and> 1 \<le> d \<and> d \<le> 31"
proof -
  assume eq: "civil_from_days n = (y, m, d)"
  obtain e yy dd where p: "placed n e yy dd" by (rule placed_exists)
  then have "dd \<in> set [0..365]" using placed_range [OF p] by (simp add: placed_def)
  with month_day_range eq placed_civil [OF p] show ?thesis by (auto simp: list_all_iff civ_def)
qed

lemma next_day_later: "fst date \<le> fst (next_day date)"
  by (cases date) (auto simp: Let_def)

lemma civil_year_mono: "fst (civil_from_days a) \<le> fst (civil_from_days (a + int k))"
proof (induction k)
  case (Suc k)
  have "civil_from_days (a + int (Suc k)) = next_day (civil_from_days (a + int k))"
    using civil_from_days_step [of "a + int k"] by (simp add: algebra_simps)
  with Suc next_day_later [of "civil_from_days (a + int k)"] show ?case by simp
qed simp

lemma civil_years: "civil_from_days 0 = (1970, 1, 1)" "civil_from_days 2932896 = (9999, 12, 31)"
  by code_simp+

lemma civil_year_range:
  assumes "n \<le> 2932896"
  shows "1970 \<le> fst (civil_from_days (int n))" and "fst (civil_from_days (int n)) \<le> 9999"
  using civil_year_mono [of 0 n] civil_year_mono [of "int n" "2932896 - n"] assms civil_years by simp_all

section \<open>The name of a day\<close>

definition is_day_stem :: "string \<Rightarrow> bool" where
  "is_day_stem stem \<longleftrightarrow> length stem = 10 \<and>
     (\<forall>i < 10. if i = 4 \<or> i = 7 then stem ! i = CHR ''-'' else is_ascii_digit (stem ! i))"

text \<open>The first millisecond of the year 10000, after which the year has five digits.\<close>

definition year_10000 :: nat where
  "year_10000 = 253402300800000"

lemma stem_shape:
  assumes "length y = 4" "length m = 2" "length d = 2" "list_all is_ascii_digit (y @ m @ d)"
  shows "is_day_stem (y @ ''-'' @ m @ ''-'' @ d)"
proof -
  obtain y0 y1 y2 y3 m0 m1 d0 d1 where "y = [y0, y1, y2, y3]" "m = [m0, m1]" "d = [d0, d1]"
    using assms(1-3) by (auto simp: numeral_eq_Suc length_Suc_conv)
  with assms(4) show ?thesis
    unfolding is_day_stem_def by (simp add: numeral_eq_Suc All_less_Suc)
qed

lemma day_of_is_stem:
  assumes "ts < year_10000"
  shows "is_day_stem (day_of ts)"
proof -
  obtain y m d where c: "civil_from_days (int (ts div 86400000)) = (y, m, d)" by (metis prod_cases3)
  have "ts div 86400000 \<le> 2932896" using assms by (simp add: year_10000_def)
  from civil_year_range [OF this] civil_range [OF c] c
  have "nat y < 10 ^ 4" "nat m < 10 ^ 2" "nat d < 10 ^ 2" by auto
  then show ?thesis
    unfolding day_of_def Let_def c prod.case
    by (intro stem_shape) (simp_all add: show_padded_props list_all_append del: power_numeral)
qed

text \<open>The date arithmetic of the audit log is the Gregorian calendar: day 0 is 1970-01-01 and each next day
  number gives the day after, by month lengths and leap years, for every day before and after.\<close>

theorem civil_from_days_calendar:
  "civil_from_days 0 = (1970, 1, 1) \<and> civil_from_days (n + 1) = next_day (civil_from_days n)"
  by (simp only: civil_years civil_from_days_step simp_thms)

end
