(* ===== verification/AuditLog.thy ===== *)
theory AuditLog
  imports Tables Json Calendar
begin

text \<open>
  The hash-chained audit log (\<open>crates/localspace-core/src/audit.rs\<close>): records, the chain, the daily files,
  the writer thread behind its bounded queue, and the walk that verifies a directory of files.

  Parameters: the hash (blake3), the text serde gives a record and reads it back from, and the clock.
  A directory is a table from file names to text.  Files can be read; what the disk does
  when the writer opens or writes a file is an argument of the writer's step.
  Days are counted with \<^typ>\<open>int\<close> where the source has \<open>i64\<close>.

  The lemmas: an append keeps the chain whole; two chains that end in the same record are the same
  chain unless the hash collides; walking the files is reading them all and checking the chain;
  every interleaving of appends and writes puts the records on disk in the order of the chain, even when
  the clock goes back; and the calendar arithmetic steps through the Gregorian calendar day by day.
\<close>

section \<open>Data\<close>

record actor =
  ac_user :: string
  ac_session :: string
  ac_ip :: string
  ac_role :: string
  ac_break_glass :: "string option"

record scope =
  sc_workspace :: string
  sc_conversation :: string
  sc_document :: string

record arecord =
  a_ts_ms :: nat
  a_id :: string
  a_prev :: string
  a_actor :: actor
  a_scope :: scope
  a_event :: string
  a_detail :: json
  a_result :: string

definition genesis :: string where
  "genesis = ''genesis''"

definition queue_limit :: nat where
  "queue_limit = 4096"

definition legacy_file :: string where
  "legacy_file = ''audit.jsonl''"

type_synonym directory = "(string, string) table"

section \<open>The files\<close>

definition file_stem :: "string \<Rightarrow> string option" where
  "file_stem name = map_option rev (strip_prefix (rev ''.jsonl'') (rev name))"

definition is_day_file :: "string \<Rightarrow> bool" where
  "is_day_file name = (case file_stem name of None \<Rightarrow> False | Some stem \<Rightarrow> is_day_stem stem)"

definition files_in_order :: "directory \<Rightarrow> string list" where
  "files_in_order dir =
     (if t_get dir legacy_file \<noteq> None then [legacy_file] else []) @ sort (filter is_day_file (keys dir))"

definition newest_day :: "directory \<Rightarrow> string option" where
  "newest_day dir = Option.bind (List.find is_day_file (rev (files_in_order dir))) file_stem"

definition file_text :: "directory \<Rightarrow> string \<Rightarrow> string" where
  "file_text dir f = (case t_get dir f of Some text \<Rightarrow> text | None \<Rightarrow> [])"

text \<open>The lines that are not blank, with their numbers from 1.\<close>

definition record_lines :: "string \<Rightarrow> (nat \<times> string) list" where
  "record_lines text = filter (\<lambda>(n, l). trim l \<noteq> []) (enumerate 1 (text_lines text))"

fun read_lines :: "(string \<Rightarrow> (string, arecord) result) \<Rightarrow> string \<Rightarrow> (nat \<times> string) list \<Rightarrow>
    (string, arecord list) result" where
  "read_lines of_line f [] = Inr []"
| "read_lines of_line f ((n, l) # ls) =
     (case of_line l of
        Inl e \<Rightarrow> Inl (f @ '':'' @ show_nat n @ '': malformed audit record'')
      | Inr r \<Rightarrow> bind_result (read_lines of_line f ls) (\<lambda>rs. Inr (r # rs)))"

definition read_records ::
  "(string \<Rightarrow> (string, arecord) result) \<Rightarrow> directory \<Rightarrow> string \<Rightarrow> (string, arecord list) result" where
  "read_records of_line dir f = read_lines of_line f (record_lines (file_text dir f))"

fun read_files ::
  "(string \<Rightarrow> (string, arecord) result) \<Rightarrow> directory \<Rightarrow> string list \<Rightarrow> (string, arecord list) result" where
  "read_files of_line dir [] = Inr []"
| "read_files of_line dir (f # fs) =
     bind_result (read_records of_line dir f) (\<lambda>rs.
       bind_result (read_files of_line dir fs) (\<lambda>rs'. Inr (rs @ rs')))"

definition read_all :: "(string \<Rightarrow> (string, arecord) result) \<Rightarrow> directory \<Rightarrow> (string, arecord list) result" where
  "read_all of_line dir = read_files of_line dir (files_in_order dir)"

fun last_in :: "(string \<Rightarrow> (string, arecord) result) \<Rightarrow> directory \<Rightarrow> string list \<Rightarrow>
    (string, arecord option) result" where
  "last_in of_line dir [] = Inr None"
| "last_in of_line dir (f # fs) =
     bind_result (read_records of_line dir f) (\<lambda>rs.
       if rs \<noteq> [] then Inr (Some (last rs)) else last_in of_line dir fs)"

definition last_record :: "(string \<Rightarrow> (string, arecord) result) \<Rightarrow> directory \<Rightarrow>
    (string, arecord option) result" where
  "last_record of_line dir = last_in of_line dir (rev (files_in_order dir))"

definition seq_after :: "(string \<Rightarrow> (string, arecord) result) \<Rightarrow> directory \<Rightarrow> arecord \<Rightarrow> (string, nat) result" where
  "seq_after of_line dir r =
     (case Option.bind (strip_prefix ''a'' (a_id r)) parse_u64 of
        Some n \<Rightarrow> Inr (n + 1)
      | None \<Rightarrow> bind_result (read_all of_line dir) (\<lambda>rs. Inr (length rs)))"

section \<open>The chain\<close>

definition canonical :: "(arecord \<Rightarrow> string option) \<Rightarrow> arecord \<Rightarrow> string" where
  "canonical to_line r = (case to_line r of Some l \<Rightarrow> l | None \<Rightarrow> [])"

definition rhash :: "(string \<Rightarrow> string) \<Rightarrow> (arecord \<Rightarrow> string option) \<Rightarrow> arecord \<Rightarrow> string" where
  "rhash blake to_line r = blake (canonical to_line r)"

record location =
  l_file :: string
  l_line :: nat

datatype verify_error =
    Broken nat string string string "location option"
  | Malformed string nat string

fun verify_from :: "(arecord \<Rightarrow> string) \<Rightarrow> string \<Rightarrow> nat \<Rightarrow> arecord list \<Rightarrow> (verify_error, unit) result" where
  "verify_from h prev i [] = Inr ()"
| "verify_from h prev i (r # rs) =
     (if a_prev r \<noteq> prev then Inl (Broken i (a_id r) prev (a_prev r) None)
      else verify_from h (h r) (i + 1) rs)"

definition verify_chain :: "(arecord \<Rightarrow> string) \<Rightarrow> arecord list \<Rightarrow> (verify_error, nat) result" where
  "verify_chain h rs = bind_result (verify_from h genesis 0 rs) (\<lambda>_. Inr (length rs))"

record report =
  rp_records :: nat
  rp_files :: nat
  rp_first_day :: "string option"
  rp_last_day :: "string option"

fun verify_lines :: "(arecord \<Rightarrow> string) \<Rightarrow> (string \<Rightarrow> (string, arecord) result) \<Rightarrow> string \<Rightarrow>
    (nat \<times> string) list \<Rightarrow> string \<times> report \<Rightarrow> (verify_error, string \<times> report) result" where
  "verify_lines h of_line f [] (prev, rp) = Inr (prev, rp)"
| "verify_lines h of_line f ((n, l) # ls) (prev, rp) =
     (case of_line l of
        Inl e \<Rightarrow> Inl (Malformed f n e)
      | Inr r \<Rightarrow>
          if a_prev r \<noteq> prev
          then Inl (Broken (rp_records rp) (a_id r) prev (a_prev r) (Some \<lparr>l_file = f, l_line = n\<rparr>))
          else let day = day_of (a_ts_ms r)
               in verify_lines h of_line f ls
                    (h r, rp\<lparr>rp_records := rp_records rp + 1,
                            rp_first_day := (case rp_first_day rp of None \<Rightarrow> Some day | d \<Rightarrow> d),
                            rp_last_day := Some day\<rparr>))"

fun verify_files :: "(arecord \<Rightarrow> string) \<Rightarrow> (string \<Rightarrow> (string, arecord) result) \<Rightarrow> directory \<Rightarrow>
    string list \<Rightarrow> string \<times> report \<Rightarrow> (verify_error, string \<times> report) result" where
  "verify_files h of_line dir [] s = Inr s"
| "verify_files h of_line dir (f # fs) (prev, rp) =
     bind_result (verify_lines h of_line f (record_lines (file_text dir f))
                    (prev, rp\<lparr>rp_files := rp_files rp + 1\<rparr>))
       (verify_files h of_line dir fs)"

definition verify_dir :: "(arecord \<Rightarrow> string) \<Rightarrow> (string \<Rightarrow> (string, arecord) result) \<Rightarrow> directory \<Rightarrow>
    (verify_error, report) result" where
  "verify_dir h of_line dir =
     bind_result (verify_files h of_line dir (files_in_order dir)
       (genesis, \<lparr>rp_records = 0, rp_files = 0, rp_first_day = None, rp_last_day = None\<rparr>))
       (\<lambda>(prev, rp). Inr rp)"

section \<open>The writer thread\<close>

datatype job = Write arecord | Flush

text \<open>What the disk does for one record; a failed write may leave the first bytes of the line.\<close>

datatype disk = Works | OpenFails | WriteFails nat

record writer =
  w_open :: "string option"
  w_floor :: string
  w_failures :: nat
  w_dir :: directory

definition append_file :: "string \<Rightarrow> string \<Rightarrow> directory \<Rightarrow> directory" where
  "append_file f text dir = h_put f (file_text dir f @ text) dir"

definition day_file :: "string \<Rightarrow> string" where
  "day_file day = day @ ''.jsonl''"

definition write_day :: "writer \<Rightarrow> arecord \<Rightarrow> string" where
  "write_day w r = (if day_of (a_ts_ms r) < w_floor w then w_floor w else day_of (a_ts_ms r))"

text \<open>The file of the day is opened (and made, if it is new) unless it is the one already open.\<close>

definition open_day :: "disk \<Rightarrow> string \<Rightarrow> writer \<Rightarrow> writer" where
  "open_day disk day w =
     (if w_open w = Some day then w
      else if disk = OpenFails then w\<lparr>w_open := None, w_failures := w_failures w + 1\<rparr>
      else w\<lparr>w_open := Some day, w_floor := day, w_dir := append_file (day_file day) [] (w_dir w)\<rparr>)"

fun run_job :: "(arecord \<Rightarrow> string option) \<Rightarrow> disk \<Rightarrow> job \<Rightarrow> writer \<Rightarrow> writer" where
  "run_job to_line disk Flush w = w"
| "run_job to_line disk (Write r) w =
     (let w1 = open_day disk (write_day w r) w
      in case w_open w1 of
           None \<Rightarrow> w1
         | Some day \<Rightarrow>
             (case to_line r of
                None \<Rightarrow> w1\<lparr>w_failures := w_failures w1 + 1\<rparr>
              | Some line \<Rightarrow>
                  (case disk of
                     WriteFails n \<Rightarrow> w1\<lparr>w_failures := w_failures w1 + 1,
                        w_dir := append_file (day_file day) (take n (line @ newline)) (w_dir w1)\<rparr>
                   | _ \<Rightarrow> w1\<lparr>w_dir := append_file (day_file day) (line @ newline) (w_dir w1)\<rparr>)))"

section \<open>The log\<close>

record audit_log =
  al_on_disk :: bool
  al_prev :: string
  al_seq :: nat
  al_records :: "arecord list"
  al_queue :: "job list"
  al_writer :: writer

definition writer_at :: "directory \<Rightarrow> string option \<Rightarrow> writer" where
  "writer_at dir newest = \<lparr>w_open = None, w_floor = (case newest of Some d \<Rightarrow> d | None \<Rightarrow> []),
     w_failures = 0, w_dir = dir\<rparr>"

definition in_memory :: audit_log where
  "in_memory = \<lparr>al_on_disk = False, al_prev = genesis, al_seq = 0, al_records = [], al_queue = [],
     al_writer = writer_at [] None\<rparr>"

definition open_log :: "(arecord \<Rightarrow> string) \<Rightarrow> (string \<Rightarrow> (string, arecord) result) \<Rightarrow> directory \<Rightarrow>
    (string, audit_log) result" where
  "open_log h of_line dir =
     bind_result (last_record of_line dir) (\<lambda>l.
       bind_result (case l of Some r \<Rightarrow> bind_result (seq_after of_line dir r) (\<lambda>n. Inr (h r, n))
                            | None \<Rightarrow> Inr (genesis, 0)) (\<lambda>(prev, seq).
         Inr \<lparr>al_on_disk = True, al_prev = prev, al_seq = seq, al_records = [], al_queue = [],
              al_writer = writer_at dir (newest_day dir)\<rparr>))"

definition append_at :: "(arecord \<Rightarrow> string) \<Rightarrow> audit_log \<Rightarrow> nat \<Rightarrow> actor \<Rightarrow> scope \<Rightarrow> string \<Rightarrow> json \<Rightarrow> string \<Rightarrow>
    arecord \<times> audit_log" where
  "append_at h al ts_ms actor scope event detail result =
     (let r = \<lparr>a_ts_ms = ts_ms, a_id = ''a'' @ show_padded 12 (al_seq al), a_prev = al_prev al,
               a_actor = actor, a_scope = scope, a_event = event, a_detail = detail, a_result = result\<rparr>
      in (r, al\<lparr>al_prev := h r, al_seq := al_seq al + 1,
                al_records := (if al_on_disk al then al_records al else al_records al @ [r]),
                al_queue := (if al_on_disk al then al_queue al @ [Write r] else al_queue al)\<rparr>))"

definition log_len :: "audit_log \<Rightarrow> nat" where
  "log_len al = al_seq al"

definition log_is_empty :: "audit_log \<Rightarrow> bool" where
  "log_is_empty al \<longleftrightarrow> log_len al = 0"

text \<open>Reading a log on disk first waits for the queue; the caller has drained it here.\<close>

definition log_records :: "(string \<Rightarrow> (string, arecord) result) \<Rightarrow> audit_log \<Rightarrow> arecord list" where
  "log_records of_line al =
     (if al_on_disk al then (case read_all of_line (w_dir (al_writer al)) of Inr rs \<Rightarrow> rs | Inl e \<Rightarrow> [])
      else al_records al)"

definition log_verify :: "(arecord \<Rightarrow> string) \<Rightarrow> (string \<Rightarrow> (string, arecord) result) \<Rightarrow> audit_log \<Rightarrow>
    (verify_error, nat) result" where
  "log_verify h of_line al =
     (if al_on_disk al then bind_result (verify_dir h of_line (w_dir (al_writer al))) (\<lambda>rp. Inr (rp_records rp))
      else verify_chain h (al_records al))"

section \<open>The chain as a predicate\<close>

fun chained :: "(arecord \<Rightarrow> string) \<Rightarrow> string \<Rightarrow> arecord list \<Rightarrow> bool" where
  "chained h prev [] = True"
| "chained h prev (r # rs) = (a_prev r = prev \<and> chained h (h r) rs)"

definition chain_end :: "(arecord \<Rightarrow> string) \<Rightarrow> string \<Rightarrow> arecord list \<Rightarrow> string" where
  "chain_end h prev rs = (if rs = [] then prev else h (last rs))"

lemma verify_from_iff: "verify_from h prev i rs = Inr u \<longleftrightarrow> chained h prev rs"
  by (induction rs arbitrary: prev i) auto

lemma verify_chain_iff: "verify_chain h rs = Inr n \<longleftrightarrow> chained h genesis rs \<and> n = length rs"
  using verify_from_iff [of h genesis 0 rs]
  by (cases "verify_from h genesis 0 rs") (auto simp: verify_chain_def)

lemma chained_append:
  "chained h prev (rs @ rs') \<longleftrightarrow> chained h prev rs \<and> chained h (chain_end h prev rs) rs'"
  by (induction rs arbitrary: prev) (auto simp: chain_end_def)

lemma chain_end_snoc [simp]: "chain_end h prev (rs @ [r]) = h r" "chain_end h prev [] = prev"
  by (simp_all add: chain_end_def)

lemma chain_end_append: "chain_end h (chain_end h prev rs) rs' = chain_end h prev (rs @ rs')"
  by (simp add: chain_end_def)

lemma chained_last_prev:
  "chained h prev (rs @ [r]) \<Longrightarrow> a_prev r = chain_end h prev rs"
  by (simp add: chained_append)

text \<open>A chain is determined by its last record, if the hash does not collide and never gives \<open>genesis\<close>.\<close>

lemma chain_unique:
  assumes "chained h genesis rs" and "chained h genesis rs'" and "rs \<noteq> []" and "rs' \<noteq> []"
    and "last rs = last rs'" and "inj_on h (set rs \<union> set rs')" and "genesis \<notin> h ` (set rs \<union> set rs')"
  shows "rs = rs'"
  using assms
proof (induction rs arbitrary: rs' rule: rev_induct)
  case (snoc r rs)
  obtain ss where ss: "rs' = ss @ [r]"
    using snoc.prems by (metis append_butlast_last_id last_snoc)
  have ends: "chain_end h genesis rs = chain_end h genesis ss"
    using snoc.prems(1,2) ss chained_last_prev by metis
  have inj: "inj_on h (set rs \<union> set ss)" "genesis \<notin> h ` (set rs \<union> set ss)"
    using snoc.prems ss by (auto simp: inj_on_def)
  show ?case
  proof (cases "rs = [] \<or> ss = []")
    case True
    moreover have "h (last rs) \<noteq> genesis" if "rs \<noteq> []" using inj(2) last_in_set [OF that] by force
    moreover have "h (last ss) \<noteq> genesis" if "ss \<noteq> []" using inj(2) last_in_set [OF that] by force
    ultimately have "rs = [] \<and> ss = []" using ends by (auto simp: chain_end_def split: if_splits)
    with ss show ?thesis by simp
  next
    case False
    with ends inj have "last rs = last ss" by (auto simp: chain_end_def inj_on_def)
    with snoc.IH [of ss] snoc.prems ss False inj show ?thesis by (simp add: chained_append)
  qed
qed simp

section \<open>Walking the files\<close>

definition add_record :: "arecord \<Rightarrow> report \<Rightarrow> report" where
  "add_record r rp = rp\<lparr>rp_records := rp_records rp + 1,
     rp_first_day := (case rp_first_day rp of None \<Rightarrow> Some (day_of (a_ts_ms r)) | d \<Rightarrow> d),
     rp_last_day := Some (day_of (a_ts_ms r))\<rparr>"

lemma verify_lines_iff:
  "verify_lines h of_line f ls (prev, rp) = Inr (prev', rp') \<longleftrightarrow>
     (\<exists>rs. read_lines of_line f ls = Inr rs \<and> chained h prev rs \<and> prev' = chain_end h prev rs \<and>
           rp' = fold add_record rs rp)"
proof (induction ls arbitrary: prev rp)
  case (Cons nl ls)
  obtain n l where nl: "nl = (n, l)" by (cases nl)
  show ?case
  proof (cases "of_line l")
    case (Inr r)
    have step: "rp\<lparr>rp_records := rp_records rp + 1,
        rp_first_day := (case rp_first_day rp of None \<Rightarrow> Some (day_of (a_ts_ms r)) | d \<Rightarrow> d),
        rp_last_day := Some (day_of (a_ts_ms r))\<rparr> = add_record r rp"
      by (simp add: add_record_def)
    show ?thesis
      using Cons [of "h r" "add_record r rp"] Inr step
      by (cases "read_lines of_line f ls")
         (auto simp: nl Let_def chain_end_def split: if_splits)
  qed (simp add: nl)
qed (auto simp: chain_end_def)

lemma add_records_report:
  "fold add_record rs rp = rp\<lparr>rp_records := rp_records rp + length rs,
     rp_first_day := (if rp_first_day rp = None \<and> rs \<noteq> [] then Some (day_of (a_ts_ms (hd rs))) else rp_first_day rp),
     rp_last_day := (if rs = [] then rp_last_day rp else Some (day_of (a_ts_ms (last rs))))\<rparr>"
  by (induction rs arbitrary: rp) (auto simp: add_record_def split: option.splits)

lemma add_records_files: "fold add_record rs (rp\<lparr>rp_files := n\<rparr>) = (fold add_record rs rp)\<lparr>rp_files := n\<rparr>"
  by (simp add: add_records_report)

lemma rp_files_add [simp]: "rp_files (fold add_record rs rp) = rp_files rp"
  by (induction rs arbitrary: rp) (simp_all add: add_record_def)

lemma verify_files_iff:
  "verify_files h of_line dir fs (prev, rp) = Inr (prev', rp') \<longleftrightarrow>
     (\<exists>rs. read_files of_line dir fs = Inr rs \<and> chained h prev rs \<and> prev' = chain_end h prev rs \<and>
           rp' = (fold add_record rs rp)\<lparr>rp_files := rp_files rp + length fs\<rparr>)"
proof (induction fs arbitrary: prev rp)
  case (Cons f fs)
  define rp1 where "rp1 = rp\<lparr>rp_files := rp_files rp + 1\<rparr>"
  have "verify_files h of_line dir (f # fs) (prev, rp) = Inr (prev', rp') \<longleftrightarrow>
    (\<exists>p1 r1. verify_lines h of_line f (record_lines (file_text dir f)) (prev, rp1) = Inr (p1, r1) \<and>
             verify_files h of_line dir fs (p1, r1) = Inr (prev', rp'))"
    by (cases "verify_lines h of_line f (record_lines (file_text dir f)) (prev, rp1)")
       (auto simp: rp1_def)
  also have "\<dots> \<longleftrightarrow> (\<exists>rs rs'. read_records of_line dir f = Inr rs \<and> read_files of_line dir fs = Inr rs' \<and>
      chained h prev (rs @ rs') \<and> prev' = chain_end h prev (rs @ rs') \<and>
      rp' = (fold add_record rs' (fold add_record rs rp1))\<lparr>rp_files := rp_files rp1 + length fs\<rparr>)"
    unfolding verify_lines_iff Cons read_records_def
    by (auto simp: chained_append chain_end_append)
  also have "\<dots> \<longleftrightarrow> (\<exists>rs. read_files of_line dir (f # fs) = Inr rs \<and> chained h prev rs \<and>
      prev' = chain_end h prev rs \<and> rp' = (fold add_record rs rp)\<lparr>rp_files := rp_files rp + length (f # fs)\<rparr>)"
    by (cases "read_records of_line dir f"; cases "read_files of_line dir fs")
       (auto simp: rp1_def add_records_files)
  finally show ?case .
qed (auto simp: chain_end_def)

section \<open>Lines\<close>

definition terminated :: "string \<Rightarrow> bool" where
  "terminated text \<longleftrightarrow> text = [] \<or> code (last text) = 10"

text \<open>What the writer's line must be for the reader to find the record again: one line that is not blank
  and does not end in a carriage return, which serde reads back as the record.\<close>

definition line_ok :: "(arecord \<Rightarrow> string option) \<Rightarrow> (string \<Rightarrow> (string, arecord) result) \<Rightarrow> arecord \<Rightarrow> bool" where
  "line_ok to_line of_line r = (case to_line r of None \<Rightarrow> False
     | Some l \<Rightarrow> of_line l = Inr r \<and> list_all (\<lambda>c. code c \<noteq> 10 \<and> code c \<noteq> 13) l \<and> trim l \<noteq> [])"

lemma line_pieces_append:
  "code c = 10 \<Longrightarrow> line_pieces (xs @ c # ys) acc = line_pieces (xs @ [c]) acc @ line_pieces ys []"
  by (induction xs arbitrary: acc) auto

lemma line_pieces_clean: "list_all (\<lambda>c. code c \<noteq> 10) l \<Longrightarrow> line_pieces (l @ newline) acc = [drop_cr (acc @ l)]"
  by (induction l arbitrary: acc) (auto simp: newline_def)

lemma text_lines_append:
  assumes "terminated text" and "list_all (\<lambda>c. code c \<noteq> 10 \<and> code c \<noteq> 13) l"
  shows "text_lines (text @ l @ newline) = text_lines text @ [l]"
proof -
  have l: "line_pieces (l @ newline) [] = [l]"
    using assms(2) line_pieces_clean [of l "[]"] by (auto simp: drop_cr_def list_all_iff)
  show ?thesis
  proof (cases "text = []")
    case False
    then have "text = butlast text @ [last text]" and "code (last text) = 10"
      using assms(1) by (auto simp: terminated_def)
    then show ?thesis
      using line_pieces_append [of "last text" "butlast text" "l @ newline" "[]"] l
      by (metis append.assoc append_Cons append_Nil text_lines_def)
  qed (use l in \<open>simp add: text_lines_def\<close>)
qed

lemma terminated_append: "terminated (text @ l @ newline)"
  by (simp add: terminated_def newline_def)

lemma record_lines_append:
  assumes "terminated text" and "list_all (\<lambda>c. code c \<noteq> 10 \<and> code c \<noteq> 13) l" and "trim l \<noteq> []"
  shows "\<exists>n. record_lines (text @ l @ newline) = record_lines text @ [(n, l)]"
  using assms by (simp add: record_lines_def text_lines_append enumerate_append_eq)

lemma read_lines_snoc:
  "read_lines of_line f ls = Inr rs \<Longrightarrow> of_line l = Inr r \<Longrightarrow> read_lines of_line f (ls @ [(n, l)]) = Inr (rs @ [r])"
proof (induction ls arbitrary: rs)
  case (Cons nl ls)
  then show ?case
    by (cases nl) (auto split: sum.splits dest!: bind_result_Inr)
qed simp

lemma read_files_append:
  "read_files of_line dir (fs @ gs) =
     bind_result (read_files of_line dir fs) (\<lambda>rs. bind_result (read_files of_line dir gs) (\<lambda>rs'. Inr (rs @ rs')))"
  by (induction fs) (auto simp: bind_result_def split: sum.splits)

lemma read_files_cong:
  "(\<And>f. f \<in> set fs \<Longrightarrow> file_text dir f = file_text dir' f) \<Longrightarrow> read_files of_line dir fs = read_files of_line dir' fs"
  by (induction fs) (auto simp: read_records_def)

section \<open>The writer appends to the newest file\<close>

lemma lexord_suffix: "length a = length b \<Longrightarrow> a @ s \<le> b @ s \<longleftrightarrow> a \<le> b" for a b s :: string
  by (induction a b rule: list_induct2) auto

lemma file_stem_day_file [simp]: "file_stem (day_file d) = Some d"
  by (simp add: file_stem_def day_file_def strip_prefix_Some)

lemma is_day_file_day_file [simp]: "is_day_file (day_file d) = is_day_stem d"
  by (simp add: is_day_file_def)

lemma is_day_file_iff: "is_day_file f \<longleftrightarrow> (\<exists>d. f = day_file d \<and> is_day_stem d)"
  by (auto simp: is_day_file_def file_stem_def day_file_def strip_prefix_Some rev_eq_append_conv split: option.splits)

lemma legacy_not_day [simp]: "\<not> is_day_file legacy_file" "is_day_stem d \<Longrightarrow> day_file d \<noteq> legacy_file"
proof -
  show "\<not> is_day_file legacy_file" by code_simp
  then show "is_day_stem d \<Longrightarrow> day_file d \<noteq> legacy_file" by (metis is_day_file_day_file)
qed

text \<open>The floor is at or above the day of every file, and the file of the floor ends at a line end.\<close>

definition floor_ok :: "string \<Rightarrow> directory \<Rightarrow> bool" where
  "floor_ok fl dir \<longleftrightarrow> hashed dir \<and>
     (\<forall>d. is_day_stem d \<longrightarrow> day_file d \<in> set (keys dir) \<longrightarrow> d \<le> fl) \<and>
     (fl \<noteq> [] \<longrightarrow> is_day_stem fl \<and> terminated (file_text dir (day_file fl)))"

definition writer_ok :: "writer \<Rightarrow> bool" where
  "writer_ok w \<longleftrightarrow> floor_ok (w_floor w) (w_dir w) \<and>
     (\<forall>d. w_open w = Some d \<longrightarrow> d = w_floor w \<and> d \<noteq> [])"

lemma keys_append_file: "set (keys (append_file f t dir)) = insert f (set (keys dir))"
  by (auto simp: append_file_def h_put_def keys_def dom_update)

lemma file_text_append: "file_text (append_file f t dir) g = (if g = f then file_text dir f @ t else file_text dir g)"
  by (simp add: file_text_def append_file_def table_simps)

lemma hashed_append_file: "hashed dir \<Longrightarrow> hashed (append_file f t dir)"
  by (simp add: append_file_def ht.ok_put)

lemma write_day_stem:
  assumes "writer_ok w" and "a_ts_ms r < year_10000"
  shows "is_day_stem (write_day w r) \<and> w_floor w \<le> write_day w r"
  using assms day_of_is_stem [OF assms(2)] by (auto simp: write_day_def writer_ok_def floor_ok_def)

text \<open>A file at or above every day is the last of the order.\<close>

lemma files_in_order_top:
  assumes "hashed dir" and "is_day_stem d" and "\<And>d'. is_day_stem d' \<Longrightarrow> day_file d' \<in> set (keys dir) \<Longrightarrow> d' \<le> d"
  shows "files_in_order (append_file (day_file d) t dir) = filter (\<lambda>f. f \<noteq> day_file d) (files_in_order dir) @ [day_file d]"
proof -
  let ?f = "day_file d" and ?dir = "append_file (day_file d) t dir"
  let ?days = "filter is_day_file (keys dir)" and ?days' = "filter is_day_file (keys ?dir)"
  have len: "length d' = 10" if "is_day_stem d'" for d' using that by (simp add: is_day_stem_def)
  have below: "g \<le> ?f" if g: "g \<in> set ?days" for g
  proof -
    obtain d' where "g = day_file d'" "is_day_stem d'" using g by (auto simp: is_day_file_iff)
    with assms(2,3) g len show ?thesis by (simp add: day_file_def lexord_suffix)
  qed
  have dist: "distinct ?days" "distinct ?days'"
    using assms(1) hashed_append_file [OF assms(1)] by (auto simp: hashed_def)
  have "sort ?days' = filter (\<lambda>f. f \<noteq> ?f) (sort ?days) @ [?f]"
  proof (rule sorted_distinct_set_unique)
    show "sorted (filter (\<lambda>f. f \<noteq> ?f) (sort ?days) @ [?f])"
      using below by (auto simp: sorted_append intro: sorted_wrt_filter)
    show "distinct (filter (\<lambda>f. f \<noteq> ?f) (sort ?days) @ [?f])" using dist by simp
    show "set (sort ?days') = set (filter (\<lambda>f. f \<noteq> ?f) (sort ?days) @ [?f])"
      using assms(2) by (auto simp: keys_append_file)
  qed (use dist in simp_all)
  moreover have "t_get ?dir legacy_file = t_get dir legacy_file"
    using assms(2) by (simp add: append_file_def table_simps legacy_not_day(2) [symmetric])
  ultimately show ?thesis
    using assms(2) by (simp add: files_in_order_def legacy_not_day(2) [OF assms(2), symmetric])
qed

lemma files_in_order_set:
  assumes "hashed dir"
  shows "distinct (files_in_order dir)" and "f \<in> set (files_in_order dir) \<Longrightarrow> is_day_file f \<Longrightarrow> f \<in> set (keys dir)"
  using assms by (auto simp: files_in_order_def hashed_def)

text \<open>A line appended to the top file adds its record at the end of what is read.\<close>

lemma read_all_append:
  assumes "hashed dir" and "is_day_stem d" and "\<And>d'. is_day_stem d' \<Longrightarrow> day_file d' \<in> set (keys dir) \<Longrightarrow> d' \<le> d"
    and "terminated (file_text dir (day_file d))" and "read_all of_line dir = Inr rs"
    and "of_line l = Inr r" and "list_all (\<lambda>c. code c \<noteq> 10 \<and> code c \<noteq> 13) l" and "trim l \<noteq> []"
  shows "read_all of_line (append_file (day_file d) (l @ newline) dir) = Inr (rs @ [r])"
proof -
  let ?f = "day_file d" and ?fs = "filter (\<lambda>f. f \<noteq> day_file d) (files_in_order dir)"
  let ?dir = "append_file (day_file d) (l @ newline) dir"
  have top: "files_in_order (append_file ?f t dir) = ?fs @ [?f]" for t
    by (rule files_in_order_top [OF assms(1-3)])
  have same: "read_all of_line (append_file ?f [] dir) = Inr rs"
  proof (cases "?f \<in> set (keys dir)")
    case True
    then have "append_file ?f [] dir = dir"
      by (simp add: append_file_def h_put_def file_text_def keys_def update_triv split: option.splits)
         (metis update_triv map_of_eq_None_iff option.exhaust)
    with assms(5) show ?thesis by simp
  next
    case False
    then have "?fs = files_in_order dir"
      using assms(2) by (intro filter_True) (auto simp: files_in_order_def)
    moreover have "file_text dir ?f = []" 
      using False by (simp add: file_text_def keys_def map_of_eq_None_iff [THEN iffD2])
    moreover have "record_lines [] = []" by (simp add: record_lines_def text_lines_def)
    ultimately show ?thesis
      using assms(5) read_files_cong [of "files_in_order dir" "append_file ?f [] dir" dir of_line]
      by (simp add: read_all_def top read_files_append file_text_append read_records_def)
  qed
  obtain n where n: "record_lines (file_text dir ?f @ l @ newline) = record_lines (file_text dir ?f) @ [(n, l)]"
    using record_lines_append [OF assms(4,7,8)] by blast
  have others: "read_files of_line (append_file ?f t dir) ?fs = read_files of_line dir ?fs" for t
    by (rule read_files_cong) (simp add: file_text_append)
  from same obtain rs1 rs2 where "read_files of_line dir ?fs = Inr rs1"
      "read_lines of_line ?f (record_lines (file_text dir ?f)) = Inr rs2" "rs = rs1 @ rs2"
    by (auto simp: read_all_def top read_files_append others read_records_def file_text_append dest!: bind_result_Inr)
  then show ?thesis
    using read_lines_snoc [of of_line ?f "record_lines (file_text dir ?f)" rs2 l r n] assms(6)
    by (simp add: read_all_def top read_files_append others read_records_def file_text_append n)
qed

lemma append_file_twice: "append_file f t (append_file f [] dir) = append_file f t dir"
proof -
  have "file_text (append_file f [] dir) f = file_text dir f" by (simp add: file_text_append)
  then show ?thesis by (simp add: append_file_def h_put_def)
qed

lemma write_step:
  assumes "writer_ok w" and "a_ts_ms r < year_10000" and "line_ok to_line of_line r"
    and "read_all of_line (w_dir w) = Inr rs" and "w' = run_job to_line Works (Write r) w"
  shows "writer_ok w'" and "read_all of_line (w_dir w') = Inr (rs @ [r])" and "w_failures w' = w_failures w"
proof -
  define d where "d = write_day w r"
  have d: "is_day_stem d" "w_floor w \<le> d" "d \<noteq> []"
    using write_day_stem [OF assms(1,2)] by (auto simp: d_def is_day_stem_def)
  have fl: "floor_ok (w_floor w) (w_dir w)" using assms(1) by (simp add: writer_ok_def)
  then have h: "hashed (w_dir w)" by (simp add: floor_ok_def)
  have top: "d' \<le> d" if "is_day_stem d'" "day_file d' \<in> set (keys (w_dir w))" for d'
    using that fl d(2) by (auto simp: floor_ok_def)
  have trm: "terminated (file_text (w_dir w) (day_file d))"
  proof (cases "day_file d \<in> set (keys (w_dir w))")
    case True
    with fl d have "d = w_floor w" by (auto simp: floor_ok_def)
    with fl d(3) show ?thesis by (auto simp: floor_ok_def)
  next
    case False
    then show ?thesis by (simp add: file_text_def keys_def map_of_eq_None_iff [THEN iffD2] terminated_def)
  qed
  obtain l where l: "to_line r = Some l" "of_line l = Inr r"
      "list_all (\<lambda>c. code c \<noteq> 10 \<and> code c \<noteq> 13) l" "trim l \<noteq> []"
    using assms(3) by (auto simp: line_ok_def split: option.splits)
  let ?dir = "append_file (day_file d) (l @ newline) (w_dir w)"
  have w': "w_open w' = Some d" "w_floor w' = d" "w_failures w' = w_failures w" "w_dir w' = ?dir"
    using assms(1,5) l(1) by (auto simp: open_day_def d_def [symmetric] append_file_twice writer_ok_def)
  have "floor_ok d ?dir"
    using h d top trm by (auto simp: floor_ok_def hashed_append_file keys_append_file file_text_append
        terminated_append day_file_def)
  with w' d show "writer_ok w'" by (simp add: writer_ok_def)
  show "read_all of_line (w_dir w') = Inr (rs @ [r])"
    unfolding w' by (rule read_all_append [OF h d(1) top trm assms(4) l(2-4)])
  show "w_failures w' = w_failures w" by (fact w')
qed

section \<open>Runs of the log\<close>

text \<open>
  A log on disk at work: callers append, and ask for a flush, while the queue has room (a full queue makes
  the caller wait), and the writer takes jobs from the front at any time.  The second argument collects the records appended.
\<close>

inductive runs :: "(arecord \<Rightarrow> string) \<Rightarrow> (arecord \<Rightarrow> string option) \<Rightarrow> audit_log \<Rightarrow> arecord list \<Rightarrow> audit_log \<Rightarrow> bool"
  for h to_line al where
  runs_start: "runs h to_line al [] al"
| runs_append: "runs h to_line al rs al' \<Longrightarrow> length (al_queue al') < queue_limit \<Longrightarrow>
    append_at h al' ts actor scope event detail result = (r, al'') \<Longrightarrow> runs h to_line al (rs @ [r]) al''"
| runs_flush: "runs h to_line al rs al' \<Longrightarrow> length (al_queue al') < queue_limit \<Longrightarrow>
    runs h to_line al rs (al'\<lparr>al_queue := al_queue al' @ [Flush]\<rparr>)"
| runs_write: "runs h to_line al rs al' \<Longrightarrow> al_queue al' = j # q \<Longrightarrow>
    runs h to_line al rs (al'\<lparr>al_queue := q, al_writer := run_job to_line Works j (al_writer al')\<rparr>)"

definition queued :: "job list \<Rightarrow> arecord list" where
  "queued q = concat (map (\<lambda>j. case j of Write r \<Rightarrow> [r] | Flush \<Rightarrow> []) q)"

lemma queued_simps [simp]:
  "queued [] = []" "queued (Write r # q) = r # queued q" "queued (Flush # q) = queued q"
  "queued (q @ q') = queued q @ queued q'"
  by (simp_all add: queued_def)

lemma append_effect:
  assumes "append_at h al ts actor scope event detail result = (r, al')" and "al_on_disk al"
  shows "a_prev r = al_prev al" "al_prev al' = h r" "al_queue al' = al_queue al @ [Write r]"
    "al_writer al' = al_writer al" "al_on_disk al'" "a_ts_ms r = ts" "al_seq al' = al_seq al + 1"
    "a_id r = ''a'' @ show_padded 12 (al_seq al)"
  using assms by (auto simp: append_at_def Let_def)

text \<open>What is on disk, then what is queued, is the chain the appends built.\<close>

lemma runs_inv:
  assumes "runs h to_line al rs al'" and "al_on_disk al" and "al_queue al = []" and "writer_ok (al_writer al)"
    and "read_all of_line (w_dir (al_writer al)) = Inr rs0" and "chained h genesis rs0"
    and "al_prev al = chain_end h genesis rs0"
    and "\<forall>r \<in> set rs. a_ts_ms r < year_10000 \<and> line_ok to_line of_line r"
  shows "al_on_disk al' \<and> writer_ok (al_writer al') \<and> chained h genesis (rs0 @ rs) \<and>
    al_prev al' = chain_end h genesis (rs0 @ rs) \<and> w_failures (al_writer al') = w_failures (al_writer al) \<and>
    (\<exists>ds. rs = ds @ queued (al_queue al') \<and> read_all of_line (w_dir (al_writer al')) = Inr (rs0 @ ds))"
  using assms
proof (induction rule: runs.induct)
  case (runs_append rs al' ts actor scope event detail result r al'')
  then show ?case
    using append_effect [OF runs_append.hyps(3)]
    by (auto simp: chained_append simp flip: append_assoc)
next
  case (runs_write rs al' j q)
  then obtain ds where ds: "rs = ds @ queued (j # q)" "read_all of_line (w_dir (al_writer al')) = Inr (rs0 @ ds)"
    by auto
  show ?case
  proof (cases j)
    case (Write r)
    then have "r \<in> set rs" using ds by simp
    with runs_write have "a_ts_ms r < year_10000" "line_ok to_line of_line r" "writer_ok (al_writer al')" by auto
    from write_step [OF this(3,1,2) ds(2) refl] runs_write ds Write show ?thesis
      by (auto intro!: exI [of _ "ds @ [r]"])
  qed (use runs_write ds in auto)
qed auto

section \<open>Opening\<close>

lemma last_in_read:
  "read_files of_line dir fs = Inr rs \<Longrightarrow>
   last_in of_line dir (rev fs) = Inr (if rs = [] then None else Some (last rs))"
proof (induction fs arbitrary: rs rule: rev_induct)
  case (snoc f fs)
  then obtain rs1 rs2 where "read_files of_line dir fs = Inr rs1" "read_records of_line dir f = Inr rs2" "rs = rs1 @ rs2"
    by (auto simp: read_files_append dest!: bind_result_Inr)
  with snoc.IH show ?case by simp
qed simp

lemma newest_day_eq:
  "newest_day dir = (let days = sort (filter is_day_file (keys dir)) in if days = [] then None else file_stem (last days))"
proof -
  have "List.find is_day_file (rev (files_in_order dir)) =
      (let days = sort (filter is_day_file (keys dir)) in if days = [] then None else Some (last days))"
  proof (cases "sort (filter is_day_file (keys dir))" rule: rev_cases)
    case Nil
    then show ?thesis by (simp add: files_in_order_def)
  next
    case (snoc fs f)
    have "f \<in> set (sort (filter is_day_file (keys dir)))" unfolding snoc by simp
    then have "is_day_file f" by simp
    with snoc show ?thesis by (simp add: files_in_order_def)
  qed
  then show ?thesis by (simp add: newest_day_def Let_def)
qed

text \<open>A directory no write has failed in: every day's file ends at a line end.\<close>

definition dir_closed :: "directory \<Rightarrow> bool" where
  "dir_closed dir \<longleftrightarrow> hashed dir \<and> list_all (\<lambda>f. is_day_file f \<longrightarrow> terminated (file_text dir f)) (keys dir)"

lemma writer_at_ok:
  assumes "dir_closed dir"
  shows "writer_ok (writer_at dir (newest_day dir))"
proof -
  let ?days = "sort (filter is_day_file (keys dir))"
  have h: "hashed dir" using assms by (simp add: dir_closed_def)
  have "floor_ok (case newest_day dir of Some d \<Rightarrow> d | None \<Rightarrow> []) dir"
  proof (cases "?days = []")
    case True
    then have "filter is_day_file (keys dir) = []" by (metis set_sort set_empty)
    then show ?thesis
      using h by (auto simp: floor_ok_def newest_day_eq True filter_empty_conv)
  next
    case False
    have "last ?days \<in> set ?days" using False by (rule last_in_set)
    then obtain d where d: "last ?days = day_file d" "is_day_stem d" "day_file d \<in> set (keys dir)"
      by (auto simp: is_day_file_iff)
    have "d' \<le> d" if "is_day_stem d'" "day_file d' \<in> set (keys dir)" for d'
    proof -
      have "day_file d' \<in> set ?days" using that by simp
      then have "day_file d' \<le> last ?days"
        by (intro sorted_le_last) simp_all
      with d that show ?thesis by (simp add: day_file_def lexord_suffix is_day_stem_def)
    qed
    then show ?thesis
      using h d assms False by (auto simp: floor_ok_def newest_day_eq Let_def dir_closed_def list_all_iff)
  qed
  then show ?thesis by (simp add: writer_ok_def writer_at_def)
qed

lemma open_log_ok:
  assumes "open_log h of_line dir = Inr al" and "read_all of_line dir = Inr rs" and "dir_closed dir"
  shows "al_on_disk al" "al_queue al = []" "al_prev al = chain_end h genesis rs" "writer_ok (al_writer al)"
    "w_dir (al_writer al) = dir" "w_failures (al_writer al) = 0"
    "rs \<noteq> [] \<Longrightarrow> seq_after of_line dir (last rs) = Inr (al_seq al)"
proof -
  have l: "last_record of_line dir = Inr (if rs = [] then None else Some (last rs))"
    using last_in_read assms(2) by (simp add: last_record_def read_all_def)
  have w: "al_writer al = writer_at dir (newest_day dir)" and "al_on_disk al" "al_queue al = []"
     "al_prev al = chain_end h genesis rs" "rs \<noteq> [] \<Longrightarrow> seq_after of_line dir (last rs) = Inr (al_seq al)"
    using assms(1) l by (auto simp: open_log_def chain_end_def split: if_splits dest!: bind_result_Inr)
  then show "al_on_disk al" "al_queue al = []" "al_prev al = chain_end h genesis rs"
     "rs \<noteq> [] \<Longrightarrow> seq_after of_line dir (last rs) = Inr (al_seq al)" by auto
  show "writer_ok (al_writer al)" "w_dir (al_writer al) = dir" "w_failures (al_writer al) = 0"
    using writer_at_ok [OF assms(3)] by (auto simp: w) (simp_all add: writer_at_def)
qed

lemma verify_dir_iff:
  "verify_dir h of_line dir = Inr rp \<longleftrightarrow>
     (\<exists>rs. read_all of_line dir = Inr rs \<and> chained h genesis rs \<and>
        rp = \<lparr>rp_records = length rs, rp_files = length (files_in_order dir),
              rp_first_day = map_option (day_of \<circ> a_ts_ms) (if rs = [] then None else Some (hd rs)),
              rp_last_day = map_option (day_of \<circ> a_ts_ms) (if rs = [] then None else Some (last rs))\<rparr>)"
proof -
  let ?rp0 = "\<lparr>rp_records = 0, rp_files = 0, rp_first_day = None, rp_last_day = None\<rparr>"
  have "verify_dir h of_line dir = Inr rp \<longleftrightarrow>
      (\<exists>p. verify_files h of_line dir (files_in_order dir) (genesis, ?rp0) = Inr (p, rp))"
    by (cases "verify_files h of_line dir (files_in_order dir) (genesis, ?rp0)") (auto simp: verify_dir_def)
  also have "\<dots> \<longleftrightarrow> (\<exists>rs. read_all of_line dir = Inr rs \<and> chained h genesis rs \<and>
      rp = (fold add_record rs ?rp0)\<lparr>rp_files := length (files_in_order dir)\<rparr>)"
    unfolding verify_files_iff by (auto simp: read_all_def)
  finally show ?thesis by (auto simp: add_records_report)
qed

lemma seq_after_own:
  assumes "n < 2 ^ 64" and "a_id r = ''a'' @ show_padded 12 n"
  shows "seq_after of_line dir r = Inr (n + 1)"
  using parse_show_padded [OF assms(1), of 12] assms(2) by (simp add: seq_after_def)

lemma runs_last_id:
  assumes "runs h to_line al rs al'" and "al_on_disk al" and "rs \<noteq> []"
  shows "al_on_disk al' \<and> a_id (last rs) = ''a'' @ show_padded 12 (al_seq al' - 1) \<and> 0 < al_seq al'"
proof -
  have "al_on_disk al' \<and> (rs \<noteq> [] \<longrightarrow> a_id (last rs) = ''a'' @ show_padded 12 (al_seq al' - 1) \<and> 0 < al_seq al')"
    using assms(1,2) by (induction rule: runs.induct) (auto simp: append_effect)
  with assms(3) show ?thesis by simp
qed

section \<open>A concrete log\<close>

text \<open>Two records, the second from a clock that went back a day; a record is written as its id.\<close>

definition demo_actor :: actor where
  "demo_actor = \<lparr>ac_user = ''ann'', ac_session = [], ac_ip = [], ac_role = [], ac_break_glass = None\<rparr>"

definition demo_scope :: scope where
  "demo_scope = \<lparr>sc_workspace = ''w'', sc_conversation = [], sc_document = []\<rparr>"

definition demo_open :: audit_log where
  "demo_open = \<lparr>al_on_disk = True, al_prev = genesis, al_seq = 0, al_records = [], al_queue = [],
     al_writer = writer_at [] None\<rparr>"

definition demo_ap1 :: "arecord \<times> audit_log" where
  "demo_ap1 = append_at a_id demo_open 90000000 demo_actor demo_scope ''login'' JNull ''ok''"

definition demo_ap2 :: "arecord \<times> audit_log" where
  "demo_ap2 = append_at a_id (snd demo_ap1) 5 demo_actor demo_scope ''logout'' JNull ''ok''"

definition demo_to_line :: "arecord \<Rightarrow> string option" where
  "demo_to_line r = Some (a_id r)"

definition demo_of_line :: "string \<Rightarrow> (string, arecord) result" where
  "demo_of_line l = (if l = a_id (fst demo_ap1) then Inr (fst demo_ap1)
     else if l = a_id (fst demo_ap2) then Inr (fst demo_ap2) else Inl ''expected a record'')"

definition demo_step :: "audit_log \<Rightarrow> audit_log" where
  "demo_step al = al\<lparr>al_queue := tl (al_queue al),
     al_writer := run_job demo_to_line Works (hd (al_queue al)) (al_writer al)\<rparr>"

definition demo_done :: audit_log where
  "demo_done = demo_step (demo_step (snd demo_ap2))"

lemma demo_ids:
  "a_id (fst demo_ap1) = ''a000000000000''" "a_id (fst demo_ap2) = ''a000000000001''"
  "a_ts_ms (fst demo_ap1) = 90000000" "a_ts_ms (fst demo_ap2) = 5"
proof -
  have "show_padded 12 0 = ''000000000000''" "show_padded 12 1 = ''000000000001''" by code_simp+
  then show "a_id (fst demo_ap1) = ''a000000000000''" "a_id (fst demo_ap2) = ''a000000000001''"
    "a_ts_ms (fst demo_ap1) = 90000000" "a_ts_ms (fst demo_ap2) = 5"
    by (simp_all add: demo_ap1_def demo_ap2_def append_at_def Let_def demo_open_def)
qed

lemma demo_queues: "al_queue demo_open = []" "al_queue (snd demo_ap1) = [Write (fst demo_ap1)]"
    "al_queue (snd demo_ap2) = [Write (fst demo_ap1), Write (fst demo_ap2)]"
  by (simp_all add: demo_ap1_def demo_ap2_def append_at_def Let_def demo_open_def)

lemma demo_runs: "runs a_id demo_to_line demo_open [fst demo_ap1, fst demo_ap2] demo_done"
proof -
  note q = demo_queues
  have ap: "append_at a_id demo_open 90000000 demo_actor demo_scope ''login'' JNull ''ok'' = (fst demo_ap1, snd demo_ap1)"
    "append_at a_id (snd demo_ap1) 5 demo_actor demo_scope ''logout'' JNull ''ok'' = (fst demo_ap2, snd demo_ap2)"
    by (simp_all add: demo_ap1_def demo_ap2_def)
  have "runs a_id demo_to_line demo_open ([] @ [fst demo_ap1]) (snd demo_ap1)"
    by (rule runs_append [OF runs_start _ ap(1)]) (simp add: q queue_limit_def)
  then have "runs a_id demo_to_line demo_open (([] @ [fst demo_ap1]) @ [fst demo_ap2]) (snd demo_ap2)"
    by (rule runs_append [OF _ _ ap(2)]) (simp add: q queue_limit_def)
  from runs_write [OF this q(3)]
  have "runs a_id demo_to_line demo_open [fst demo_ap1, fst demo_ap2] (demo_step (snd demo_ap2))"
    by (simp add: demo_step_def q del: run_job.simps)
  from runs_write [OF this, of "Write (fst demo_ap2)" "[]"] show ?thesis
    by (simp add: demo_step_def demo_done_def q del: run_job.simps)
qed

lemma demo_lines_ok: "\<forall>r \<in> set [fst demo_ap1, fst demo_ap2].
    a_ts_ms r < year_10000 \<and> line_ok demo_to_line demo_of_line r"
proof -
  have "code (CHR ''a'') = 97" by code_simp
  then have "trim ''a000000000000'' \<noteq> []" "trim ''a000000000001'' \<noteq> []"
    by (simp_all add: trim_nonempty)
  moreover have "list_all (\<lambda>c. code c \<noteq> 10 \<and> code c \<noteq> 13) ''a000000000000''"
    "list_all (\<lambda>c. code c \<noteq> 10 \<and> code c \<noteq> 13) ''a000000000001''"
    by code_simp+
  ultimately show ?thesis
    by (simp add: demo_ids year_10000_def line_ok_def demo_to_line_def demo_of_line_def)
qed

lemma demo_done_queue: "al_queue demo_done = []"
  by (simp add: demo_done_def demo_step_def demo_queues)

lemma demo_opened: "open_log a_id demo_of_line [] = Inr demo_open"
  "read_all demo_of_line [] = Inr []" "dir_closed []"
  by (simp_all add: open_log_def last_record_def files_in_order_def keys_def demo_open_def newest_day_def
      read_all_def dir_closed_def)

section \<open>Properties\<close>

text \<open>(C15) However appends, flushes and the writer thread interleave, once the queue is empty the files
  hold exactly the records from before and then the appended ones in the order they were chained, the walk over
  the files accepts them all, and no write failed, even when the clock went back between records.  The disk works,
  serde reads back what it wrote as one line, and the year has four digits.\<close>

theorem log_on_disk_is_chain:
  assumes "open_log h of_line dir = Inr al" and "read_all of_line dir = Inr rs0" and "dir_closed dir"
    and "verify_chain h rs0 = Inr n" and "runs h to_line al rs al'" and "al_queue al' = []"
    and "\<forall>r \<in> set rs. a_ts_ms r < year_10000 \<and> line_ok to_line of_line r"
  shows "read_all of_line (w_dir (al_writer al')) = Inr (rs0 @ rs) \<and>
    log_verify h of_line al' = Inr (length rs0 + length rs) \<and> w_failures (al_writer al') = 0"
proof -
  note o = open_log_ok [OF assms(1-3)]
  have c: "chained h genesis rs0" using assms(4) by (simp add: verify_chain_iff)
  have inv: "al_on_disk al'" "chained h genesis (rs0 @ rs)" "w_failures (al_writer al') = 0"
    "read_all of_line (w_dir (al_writer al')) = Inr (rs0 @ rs)"
    using runs_inv [OF assms(5) o(1,2,4) _ c o(3) assms(7)] o assms(2,6) by auto
  then obtain rp where "verify_dir h of_line (w_dir (al_writer al')) = Inr rp" "rp_records rp = length (rs0 @ rs)"
    by (simp add: verify_dir_iff)
  with inv show ?thesis by (simp add: log_verify_def)
qed

theorem log_on_disk_is_chain_witness:
  "read_all demo_of_line (w_dir (al_writer demo_done)) = Inr [fst demo_ap1, fst demo_ap2] \<and>
   log_verify a_id demo_of_line demo_done = Inr 2"
  using log_on_disk_is_chain [OF demo_opened _ demo_runs demo_done_queue demo_lines_ok, of 0]
  by (simp add: verify_chain_iff)

text \<open>Opening the log again after such a run takes the chain up where it was left: the next record will carry
  the hash of the last one, and the next number.\<close>

theorem reopen_continues:
  assumes "open_log h of_line dir = Inr al" and "read_all of_line dir = Inr rs0" and "dir_closed dir"
    and "verify_chain h rs0 = Inr n" and "runs h to_line al rs al'" and "al_queue al' = []"
    and "\<forall>r \<in> set rs. a_ts_ms r < year_10000 \<and> line_ok to_line of_line r"
    and "rs \<noteq> []" and "al_seq al' \<le> 2 ^ 64"
  shows "\<exists>al2. open_log h of_line (w_dir (al_writer al')) = Inr al2 \<and>
    al_prev al2 = al_prev al' \<and> al_seq al2 = al_seq al'"
proof -
  note o = open_log_ok [OF assms(1-3)]
  let ?dir = "w_dir (al_writer al')"
  have c: "chained h genesis rs0" using assms(4) by (simp add: verify_chain_iff)
  have inv: "al_prev al' = chain_end h genesis (rs0 @ rs)" "read_all of_line ?dir = Inr (rs0 @ rs)"
    using runs_inv [OF assms(5) o(1,2,4) _ c o(3) assms(7)] o assms(2,6) by auto
  have "seq_after of_line ?dir (last rs) = Inr (al_seq al')"
    using runs_last_id [OF assms(5) o(1) assms(8)] assms(9)
      seq_after_own [of "al_seq al' - 1" "last rs" of_line ?dir] by auto
  moreover have "last_record of_line ?dir = Inr (Some (last rs))"
    using last_in_read inv(2) assms(8) by (simp add: last_record_def read_all_def)
  ultimately show ?thesis using inv(1) assms(8) by (simp add: open_log_def chain_end_def)
qed

theorem reopen_continues_witness:
  "\<exists>al2. open_log a_id demo_of_line (w_dir (al_writer demo_done)) = Inr al2 \<and>
    al_prev al2 = al_prev demo_done \<and> al_seq al2 = al_seq demo_done"
proof (rule reopen_continues [OF demo_opened _ demo_runs demo_done_queue demo_lines_ok, of 0])
  show "al_seq demo_done \<le> 2 ^ 64"
    by (simp add: demo_done_def demo_step_def demo_ap1_def demo_ap2_def append_at_def Let_def demo_open_def)
qed (simp_all add: verify_chain_iff)

text \<open>(C22) Two different logs that end in the same record are not both accepted: whatever was edited,
  removed, inserted or reordered before the last record, verification reports a broken link, unless
  the hash collides or gives the word \<open>genesis\<close>.\<close>

theorem tampering_is_found:
  assumes "verify_chain h rs = Inr n" and "rs' \<noteq> rs" and "rs \<noteq> []" and "rs' \<noteq> []" and "last rs' = last rs"
    and "inj_on h (set rs \<union> set rs')" and "genesis \<notin> h ` (set rs \<union> set rs')"
  shows "\<exists>e. verify_chain h rs' = Inl e"
  using chain_unique [of h rs rs'] assms verify_chain_iff [of h rs']
  by (cases "verify_chain h rs'") (auto simp: verify_chain_iff)

theorem tampering_is_found_witness:
  "\<exists>e. verify_chain a_id [fst demo_ap2] = Inl e"
proof (rule tampering_is_found [of a_id "[fst demo_ap1, fst demo_ap2]" 2])
  have "a_prev (fst demo_ap1) = genesis" "a_prev (fst demo_ap2) = a_id (fst demo_ap1)"
    by (simp_all add: demo_ap1_def demo_ap2_def append_at_def Let_def demo_open_def)
  then show "verify_chain a_id [fst demo_ap1, fst demo_ap2] = Inr 2" by (simp add: verify_chain_iff)
qed (auto simp: demo_ids genesis_def)

text \<open>The end of the log is not protected: with the last record removed, or any field of it but
  \<open>prev\<close> edited, the chain is accepted as before.\<close>

theorem tail_is_unprotected:
  assumes "verify_chain h (rs @ [r]) = Inr n" and "a_prev r' = a_prev r"
  shows "verify_chain h rs = Inr (n - 1) \<and> verify_chain h (rs @ [r']) = Inr n"
  using assms by (auto simp: verify_chain_iff chained_append)

theorem tail_is_unprotected_witness:
  "verify_chain a_id [fst demo_ap1] = Inr 1 \<and>
   verify_chain a_id [fst demo_ap1, (fst demo_ap2)\<lparr>a_event := ''nothing''\<rparr>] = Inr 2"
proof -
  have "a_prev (fst demo_ap1) = genesis" "a_prev (fst demo_ap2) = a_id (fst demo_ap1)"
    by (simp_all add: demo_ap1_def demo_ap2_def append_at_def Let_def demo_open_def)
  then have "verify_chain a_id ([fst demo_ap1] @ [fst demo_ap2]) = Inr 2" by (simp add: verify_chain_iff)
  from tail_is_unprotected [OF this, of "(fst demo_ap2)\<lparr>a_event := ''nothing''\<rparr>"] show ?thesis by simp
qed

text \<open>Walking the files line by line accepts a directory exactly when every record in it can be read and
  they form one chain across the files, and then reports how many records and files there are and the
  days of the first and the last record.\<close>

theorem verify_dir_is_chain:
  "verify_dir h of_line dir = Inr rp \<longleftrightarrow>
     (\<exists>rs. read_all of_line dir = Inr rs \<and> verify_chain h rs = Inr (rp_records rp) \<and>
        rp_files rp = length (files_in_order dir) \<and>
        rp_first_day rp = map_option (day_of \<circ> a_ts_ms) (if rs = [] then None else Some (hd rs)) \<and>
        rp_last_day rp = map_option (day_of \<circ> a_ts_ms) (if rs = [] then None else Some (last rs)))"
  unfolding verify_dir_iff verify_chain_iff by (cases rp) auto

end
