(* ===== verification/Database.thy ===== *)
theory Database
  imports Acl Json
begin

text \<open>
  The database (\<open>crates/localspace-core/src/store.rs\<close>): one redb file with a table per kind of record.
  Each table is an ordered table of the records themselves; that serde reads back what it
  wrote and that redb does not fail is assumed.  The scoped keys \<open>user SEP workspace SEP tail\<close> and
  the range reads over them are modelled on the bytes of the keys, because that
  is what keeps one person's rows apart from another's.

  The lemmas: a range read from a prefix that stops at the first key without it returns exactly the rows with the
  prefix; scoped keys are equal only when all their parts are; so what is read for a person and a workspace is
  what was written for them.
\<close>

section \<open>Records\<close>

datatype user_role = Admin | Member | Viewer

fun role_label :: "user_role \<Rightarrow> string" where
  "role_label Admin = ''admin''"
| "role_label Member = ''member''"
| "role_label Viewer = ''viewer''"

record user_record =
  u_id :: string
  u_email :: string
  u_name :: string
  u_roles :: "user_role list"
  u_provider :: string
  u_password_hash :: "string option"
  u_disabled :: bool
  u_created_ms :: nat
  u_last_login_ms :: "nat option"
  u_password_set_ms :: "nat option"

record session_record =
  s_user :: string
  s_created_ms :: nat
  s_expires_ms :: nat
  s_ip :: string
  s_user_agent :: string
  s_revoked :: bool

record invite_record =
  iv_user :: string
  iv_created_ms :: nat
  iv_expires_ms :: nat
  iv_used_ms :: "nat option"
  iv_first_admin :: bool

record lock_record =
  k_failures :: nat
  k_window_start_ms :: nat
  k_locked_until_ms :: nat
  k_rounds :: nat

definition lock_default :: lock_record where
  "lock_default = \<lparr>k_failures = 0, k_window_start_ms = 0, k_locked_until_ms = 0, k_rounds = 0\<rparr>"

datatype doc_kind = Crdt | Blob

datatype document_source = FromHarness string | Export string string string

record document_record =
  dr_title :: string
  dr_kind :: doc_kind
  dr_mime :: string
  dr_bytes :: nat
  dr_hash :: string
  dr_source :: document_source
  dr_created_ms :: nat
  dr_workspace :: string
  dr_harness :: "string option"
  dr_created_by :: string
  dr_acl :: "acl option"

datatype role = RSystem | RUser | RAssistant | RTool

text \<open>Tool calls, the reason an answer was cut short and attachments are kept as the values they are stored as.\<close>

record chat_message =
  cm_role :: role
  cm_content :: string
  cm_tool_calls :: "json list"
  cm_stopped :: bool
  cm_thinking :: string
  cm_cut_short :: "json option"
  cm_attachments :: "json list"

record conversation =
  cv_id :: string
  cv_title :: string
  cv_created_ms :: nat
  cv_updated_ms :: nat
  cv_messages :: "chat_message list"

datatype step_status = Pending | Active | Done | Failed

record step =
  st_harness :: string
  st_intent :: string
  st_status :: step_status

record artifact_file =
  af_name :: string
  af_mime :: string
  af_bytes :: nat

record artifact =
  art_id :: string
  art_kind :: string
  art_doc :: string
  art_commit :: string
  art_summary :: string
  art_produced_by :: string
  art_fields :: json
  art_file :: "artifact_file option"

record task =
  t_id :: string
  t_goal :: string
  t_plan :: "step list"
  t_artifacts :: "artifact list"
  t_notes :: "string list"
  t_citations :: "string list"

section \<open>The tables\<close>

text \<open>What a row of \<open>user_state\<close> or \<open>settings\<close> holds.\<close>

datatype state_value = Text string | Ledger task

datatype setting = Version nat | Features "string list"

record store =
  settings :: "(string, setting) table"
  documents_t :: "(string, document_record) table"
  conversations_t :: "(string, conversation) table"
  user_state :: "(string, state_value) table"
  users_t :: "(string, user_record) table"
  user_emails :: "(string, string) table"
  sessions :: "(string, session_record) table"
  invites :: "(string, invite_record) table"
  lockouts :: "(string, lock_record) table"
  workspaces_t :: "(string, workspace) table"

definition store_empty :: store where
  "store_empty = \<lparr>settings = [], documents_t = [], conversations_t = [], user_state = [], users_t = [],
     user_emails = [], sessions = [], invites = [], lockouts = [], workspaces_t = []\<rparr>"

definition sep :: char where
  "sep = char_of (31 :: nat)"

definition scoped :: "string \<Rightarrow> string \<Rightarrow> string \<Rightarrow> string" where
  "scoped user workspace tail = user @ [sep] @ workspace @ [sep] @ tail"

text \<open>A range read from \<open>prefix\<close> on that stops at the first key without it.\<close>

definition range_prefix :: "string \<Rightarrow> (string, 'v) table \<Rightarrow> (string, 'v) table" where
  "range_prefix prefix t = takeWhile (\<lambda>b. starts_with prefix (fst b)) (dropWhile (\<lambda>b. fst b < prefix) t)"

section \<open>Workspaces and per-user state\<close>

definition put_workspace :: "workspace \<Rightarrow> store \<Rightarrow> store" where
  "put_workspace w st = st\<lparr>workspaces_t := t_put (ws_id w) w (workspaces_t st)\<rparr>"

definition store_workspace :: "store \<Rightarrow> string \<Rightarrow> workspace option" where
  "store_workspace st wid = t_get (workspaces_t st) wid"

definition store_workspaces :: "store \<Rightarrow> workspace list" where
  "store_workspaces st = vals (workspaces_t st)"

definition state_text :: "store \<Rightarrow> string \<Rightarrow> string option" where
  "state_text st k = (case t_get (user_state st) k of Some (Text s) \<Rightarrow> Some s | _ \<Rightarrow> None)"

definition put_state :: "string \<Rightarrow> state_value \<Rightarrow> store \<Rightarrow> store" where
  "put_state k v st = st\<lparr>user_state := t_put k v (user_state st)\<rparr>"

definition current_workspace :: "store \<Rightarrow> string \<Rightarrow> string option" where
  "current_workspace st user = state_text st (scoped user [] ''workspace'')"

definition set_current_workspace :: "string \<Rightarrow> string \<Rightarrow> store \<Rightarrow> store" where
  "set_current_workspace user workspace = put_state (scoped user [] ''workspace'') (Text workspace)"

definition preferences :: "store \<Rightarrow> string \<Rightarrow> (string \<times> string) list" where
  "preferences st user =
     (let prefix = scoped user [] ''pref:''
      in map (\<lambda>(k, v). (drop (length prefix) k, case v of Text s \<Rightarrow> s | Ledger _ \<Rightarrow> []))
           (range_prefix prefix (user_state st)))"

definition set_preference :: "string \<Rightarrow> string \<Rightarrow> string \<Rightarrow> store \<Rightarrow> store" where
  "set_preference user k value = put_state (scoped user [] (''pref:'' @ k)) (Text value)"

section \<open>Users, sessions, links and locks\<close>

definition put_user :: "user_record \<Rightarrow> store \<Rightarrow> store" where
  "put_user u st = st\<lparr>users_t := t_put (u_id u) u (users_t st), user_emails := t_put (u_email u) (u_id u) (user_emails st)\<rparr>"

definition get_user :: "store \<Rightarrow> string \<Rightarrow> user_record option" where
  "get_user st uid = t_get (users_t st) uid"

definition user_by_email :: "store \<Rightarrow> string \<Rightarrow> user_record option" where
  "user_by_email st email = (case t_get (user_emails st) email of Some uid \<Rightarrow> get_user st uid | None \<Rightarrow> None)"

definition store_users :: "store \<Rightarrow> user_record list" where
  "store_users st = vals (users_t st)"

definition put_session :: "string \<Rightarrow> session_record \<Rightarrow> store \<Rightarrow> store" where
  "put_session k s st = st\<lparr>sessions := t_put k s (sessions st)\<rparr>"

definition get_session :: "store \<Rightarrow> string \<Rightarrow> session_record option" where
  "get_session st k = t_get (sessions st) k"

definition sessions_of :: "store \<Rightarrow> string \<Rightarrow> (string \<times> session_record) list" where
  "sessions_of st user = filter (\<lambda>b. s_user (snd b) = user) (sessions st)"

definition put_invite :: "string \<Rightarrow> invite_record \<Rightarrow> store \<Rightarrow> store" where
  "put_invite k i st = st\<lparr>invites := t_put k i (invites st)\<rparr>"

definition get_invite :: "store \<Rightarrow> string \<Rightarrow> invite_record option" where
  "get_invite st k = t_get (invites st) k"

definition get_lock :: "store \<Rightarrow> string \<Rightarrow> lock_record option" where
  "get_lock st k = t_get (lockouts st) k"

definition put_lock :: "string \<Rightarrow> lock_record \<Rightarrow> store \<Rightarrow> store" where
  "put_lock k l st = st\<lparr>lockouts := t_put k l (lockouts st)\<rparr>"

definition clear_lock :: "string \<Rightarrow> store \<Rightarrow> store" where
  "clear_lock k st = st\<lparr>lockouts := t_del k (lockouts st)\<rparr>"

section \<open>Settings, documents, conversations and the ledger\<close>

definition schema_version :: "store \<Rightarrow> nat" where
  "schema_version st = (case t_get (settings st) ''schema_version'' of Some (Version n) \<Rightarrow> n | _ \<Rightarrow> 0)"

definition set_schema_version :: "nat \<Rightarrow> store \<Rightarrow> store" where
  "set_schema_version n st = st\<lparr>settings := t_put ''schema_version'' (Version n) (settings st)\<rparr>"

definition store_features :: "store \<Rightarrow> string list option" where
  "store_features st = (case t_get (settings st) ''features'' of Some (Features fs) \<Rightarrow> Some fs | _ \<Rightarrow> None)"

definition set_features :: "string list \<Rightarrow> store \<Rightarrow> store" where
  "set_features fs st = st\<lparr>settings := t_put ''features'' (Features fs) (settings st)\<rparr>"

definition put_document :: "string \<Rightarrow> document_record \<Rightarrow> store \<Rightarrow> store" where
  "put_document k d st = st\<lparr>documents_t := t_put k d (documents_t st)\<rparr>"

definition store_document :: "store \<Rightarrow> string \<Rightarrow> document_record option" where
  "store_document st k = t_get (documents_t st) k"

definition store_documents :: "store \<Rightarrow> (string \<times> document_record) list" where
  "store_documents st = documents_t st"

definition conversations_of :: "store \<Rightarrow> string \<Rightarrow> string \<Rightarrow> conversation list" where
  "conversations_of st user workspace = vals (range_prefix (scoped user workspace []) (conversations_t st))"

definition put_conversation :: "string \<Rightarrow> string \<Rightarrow> conversation \<Rightarrow> store \<Rightarrow> store" where
  "put_conversation user workspace c st =
     st\<lparr>conversations_t := t_put (scoped user workspace (cv_id c)) c (conversations_t st)\<rparr>"

definition delete_conversation :: "string \<Rightarrow> string \<Rightarrow> string \<Rightarrow> store \<Rightarrow> bool \<times> store" where
  "delete_conversation user workspace cid st =
     (t_get (conversations_t st) (scoped user workspace cid) \<noteq> None,
      st\<lparr>conversations_t := t_del (scoped user workspace cid) (conversations_t st)\<rparr>)"

definition current_conversation :: "store \<Rightarrow> string \<Rightarrow> string \<Rightarrow> string option" where
  "current_conversation st user workspace = state_text st (scoped user workspace ''current'')"

definition set_current_conversation :: "string \<Rightarrow> string \<Rightarrow> string \<Rightarrow> store \<Rightarrow> store" where
  "set_current_conversation user workspace cid = put_state (scoped user workspace ''current'') (Text cid)"

definition ledger :: "store \<Rightarrow> string \<Rightarrow> string \<Rightarrow> task option" where
  "ledger st user workspace =
     (case t_get (user_state st) (scoped user workspace ''ledger'') of Some (Ledger t) \<Rightarrow> Some t | _ \<Rightarrow> None)"

definition put_ledger :: "string \<Rightarrow> string \<Rightarrow> task \<Rightarrow> store \<Rightarrow> store" where
  "put_ledger user workspace t = put_state (scoped user workspace ''ledger'') (Ledger t)"

section \<open>Range reads\<close>

lemma prefix_ge: "p \<le> p @ r" for p r :: string
  by (induction p) auto

lemma between_prefix: "p \<le> k \<Longrightarrow> k \<le> p @ r \<Longrightarrow> starts_with p k" for p k r :: string
proof (induction p arbitrary: k)
  case (Cons c p)
  then obtain k' where "k = c # k'" "p \<le> k'" "k' \<le> p @ r"
    by (cases k) (auto simp: less_le)
  with Cons.IH show ?case by (auto simp: starts_with_def)
qed (simp add: starts_with_def)

lemma prefix_down: "p \<le> k \<Longrightarrow> k < k' \<Longrightarrow> starts_with p k' \<Longrightarrow> starts_with p k" for p k k' :: string
  using between_prefix [of p k] by (auto simp: starts_with_iff [of p k'] dest: less_imp_le)

lemma takeWhile_filter:
  assumes "sorted_wrt (\<lambda>x y. P y \<longrightarrow> P x) xs"
  shows "takeWhile P xs = filter P xs"
  using assms by (induction xs) (auto simp: filter_empty_conv [symmetric])

lemma range_prefix_eq:
  assumes "ordered t"
  shows "range_prefix p t = filter (\<lambda>b. starts_with p (fst b)) t"
  using assms
proof (induction t)
  case (Cons b t)
  show ?case
  proof (cases "fst b < p")
    case True
    then have "\<not> starts_with p (fst b)" by (auto simp: starts_with_iff leD [OF prefix_ge])
    with True Cons show ?thesis by (simp add: range_prefix_def ordered_Cons)
  next
    case False
    have "sorted_wrt (\<lambda>x y. starts_with p (fst y) \<longrightarrow> starts_with p (fst x)) (b # t)"
    proof -
      have "sorted_wrt (\<lambda>x y. fst x < fst y) (b # t)"
        using Cons.prems by (simp add: ordered_def keys_def sorted_wrt_map)
      moreover have "\<forall>x \<in> set (b # t). p \<le> fst x"
        using Cons.prems False by (fastforce simp: ordered_Cons keys_def)
      ultimately show ?thesis
        by (elim sorted_wrt_mono_rel [rotated]) (blast intro: prefix_down)
    qed
    from takeWhile_filter [OF this] False show ?thesis by (simp add: range_prefix_def)
  qed
qed (simp add: range_prefix_def)

section \<open>Scoped keys\<close>

lemma split_at_sep:
  "sep \<notin> set a \<Longrightarrow> sep \<notin> set b \<Longrightarrow> a @ sep # x = b @ sep # y \<longleftrightarrow> a = b \<and> x = y"
proof (induction a arbitrary: b)
  case (Cons c a)
  then show ?case by (cases b) auto
qed (auto simp: Cons_eq_append_conv)

definition plain :: "string \<Rightarrow> bool" where
  "plain s \<longleftrightarrow> sep \<notin> set s"

lemma scoped_eq_iff:
  assumes "plain u" "plain u'" "plain w" "plain w'"
  shows "scoped u w t = scoped u' w' t' \<longleftrightarrow> u = u' \<and> w = w' \<and> t = t'"
  using assms split_at_sep by (auto simp: scoped_def plain_def)

lemma scoped_prefix_iff:
  assumes "plain u" "plain u'" "plain w" "plain w'"
  shows "starts_with (scoped u w p) (scoped u' w' t) \<longleftrightarrow> u = u' \<and> w = w' \<and> starts_with p t"
proof -
  have "scoped u w p @ r = scoped u w (p @ r)" for r by (simp add: scoped_def)
  then show ?thesis using scoped_eq_iff [of u' u w' w t] assms by (auto simp: starts_with_iff)
qed

lemma filter_t_put:
  assumes "ordered t"
  shows "filter (\<lambda>b. P (fst b)) (t_put k v t) = (if P k then t_put k v (filter (\<lambda>b. P (fst b)) t) else filter (\<lambda>b. P (fst b)) t)"
  using assms
proof (induction t)
  case (Cons b t)
  have "fst b < k \<Longrightarrow> fst b \<noteq> k" by simp
  moreover have "t_put k v (filter (\<lambda>b. P (fst b)) t) = (k, v) # filter (\<lambda>b. P (fst b)) t" if "k < fst b"
  proof -
    have "\<forall>c \<in> set (filter (\<lambda>b. P (fst b)) t). k < fst c"
      using that Cons.prems by (auto simp: ordered_Cons keys_def intro: less_trans)
    then show ?thesis by (cases "filter (\<lambda>b. P (fst b)) t") auto
  qed
  moreover have "t_put k v (filter (\<lambda>b. P (fst b)) t) = (k, v) # filter (\<lambda>b. P (fst b)) t" if "k = fst b"
  proof -
    have "\<forall>c \<in> set (filter (\<lambda>b. P (fst b)) t). k < fst c"
      using that Cons.prems by (auto simp: ordered_Cons keys_def)
    then show ?thesis by (cases "filter (\<lambda>b. P (fst b)) t") auto
  qed
  ultimately show ?case
    using Cons by (auto simp: ordered_Cons)
qed simp

lemma filter_t_del: "filter (\<lambda>b. P (fst b)) (t_del k t) = t_del k (filter (\<lambda>b. P (fst b)) t)"
  by (simp add: t_del_def conj_commute)

lemma t_del_absent: "k \<notin> set (keys t) \<Longrightarrow> t_del k t = t"
  by (auto simp: t_del_def keys_def intro: filter_True)

lemma conversations_of_eq:
  "ordered (conversations_t st) \<Longrightarrow>
   conversations_of st u w = vals (filter (\<lambda>b. starts_with (scoped u w []) (fst b)) (conversations_t st))"
  by (simp add: conversations_of_def range_prefix_eq)

text \<open>(C25) A person's conversations in a workspace are kept apart by the bytes of the key alone: saving or deleting a
  conversation for another person or another workspace changes nothing in what is read, and one that is saved
  is read back together with every other one that was there.  No id holds the separator.\<close>

theorem conversations_isolated:
  assumes "ordered (conversations_t st)" and "plain u" "plain w" "plain u'" "plain w'"
  shows "conversations_of (put_conversation u' w' c st) u w =
      (if u' = u \<and> w' = w
       then vals (t_put (scoped u w (cv_id c)) c (filter (\<lambda>b. starts_with (scoped u w []) (fst b)) (conversations_t st)))
       else conversations_of st u w) \<and>
    ((u', w') \<noteq> (u, w) \<longrightarrow> conversations_of (snd (delete_conversation u' w' i st)) u w = conversations_of st u w)"
proof -
  have pre: "starts_with (scoped u w []) (scoped u' w' t) \<longleftrightarrow> u' = u \<and> w' = w" for t
    using scoped_prefix_iff [of u u' w w' "[]" t] assms by (auto simp: starts_with_def)
  have "conversations_of (put_conversation u' w' c st) u w =
      vals (filter (\<lambda>b. starts_with (scoped u w []) (fst b)) (t_put (scoped u' w' (cv_id c)) c (conversations_t st)))"
    using conversations_of_eq [of "put_conversation u' w' c st"] assms(1)
    by (simp add: put_conversation_def ot.ok_put)
  moreover have "conversations_of (snd (delete_conversation u' w' i st)) u w =
      vals (t_del (scoped u' w' i) (filter (\<lambda>b. starts_with (scoped u w []) (fst b)) (conversations_t st)))"
    using conversations_of_eq [of "snd (delete_conversation u' w' i st)"] assms(1)
    by (simp add: delete_conversation_def ot.ok_del filter_t_del)
  moreover have "t_del (scoped u' w' i) (filter (\<lambda>b. starts_with (scoped u w []) (fst b)) (conversations_t st)) =
      filter (\<lambda>b. starts_with (scoped u w []) (fst b)) (conversations_t st)" if "(u', w') \<noteq> (u, w)"
    by (rule t_del_absent) (use that pre in \<open>auto simp: keys_def\<close>)
  ultimately show ?thesis
    using filter_t_put [OF assms(1), of "starts_with (scoped u w [])" "scoped u' w' (cv_id c)" c] pre
      conversations_of_eq [OF assms(1), of u w] by auto
qed

definition demo_conversation :: conversation where
  "demo_conversation = \<lparr>cv_id = ''c1'', cv_title = ''Hello'', cv_created_ms = 1, cv_updated_ms = 1, cv_messages = []\<rparr>"

theorem conversations_isolated_witness:
  "conversations_of (put_conversation ''ann'' ''w1'' demo_conversation store_empty) ''ann'' ''w2'' = [] \<and>
   conversations_of (put_conversation ''ann'' ''w1'' demo_conversation store_empty) ''ann'' ''w1'' = [demo_conversation]"
proof -
  have p: "plain ''ann''" "plain ''w1''" "plain ''w2''" and o: "ordered (conversations_t store_empty)"
    by (simp_all add: plain_def sep_def char_of_def store_empty_def)
  show ?thesis
    using conversations_isolated [OF o p(1,2) p(1,2), of demo_conversation]
      conversations_isolated [OF o p(1,3) p(1,2), of demo_conversation]
    by (simp add: conversations_of_def store_empty_def range_prefix_def vals_def)
qed

end
