(* ===== verification/Accounts.thy ===== *)
theory Accounts
  imports Database
begin

text \<open>
  Accounts, sessions, one-time links and lockouts (\<open>crates/localspace-core/src/identity.rs\<close>), over the tables of
  the database.  What the program takes from outside is in the record \<open>crypto\<close>: the key a token is
  stored under (blake3), password hashing and verification (argon2), Unicode lower-casing and the list
  of common passwords.  Random tokens, salts and ids, and the time, are arguments.  Times are \<^typ>\<open>nat\<close> where
  the source has \<open>u64\<close> milliseconds.

  The lemmas say when a sign-in succeeds and what each failure leaves behind, that a locked account opens for
  no password, that a link is spent once, and that what ends sessions ends them all.
\<close>

named_theorems store_reads \<open>what a read of the store sees after a write\<close>

section \<open>Constants and data\<close>

definition min_password_chars :: nat where "min_password_chars = 12"
definition max_password_chars :: nat where "max_password_chars = 256"
definition invite_ttl_ms :: nat where "invite_ttl_ms = 24 * 60 * 60 * 1000"
definition account_failures :: nat where "account_failures = 5"
definition account_lock_ms :: nat where "account_lock_ms = 15 * 60 * 1000"
definition ip_failures :: nat where "ip_failures = 30"
definition ip_window_ms :: nat where "ip_window_ms = 15 * 60 * 1000"
definition ip_lock_ms :: nat where "ip_lock_ms = 15 * 60 * 1000"

text \<open>Tokens and passwords, the texts a caller proves something by.\<close>

type_synonym secret = string

record crypto =
  key_of :: "string \<Rightarrow> string"
  hash_password :: "string \<Rightarrow> string \<Rightarrow> string"
  verify_password :: "string \<Rightarrow> string \<Rightarrow> bool"
  to_lowercase :: "string \<Rightarrow> string"
  common_passwords :: "string list"

datatype link_status = Dead | ForUser user_record | FirstAdmin

datatype login_failure =
    NoSuchUser | WrongPassword | Disabled | NoPasswordYet
  | AccountLocked nat | AddressLocked nat

fun failure_label :: "login_failure \<Rightarrow> string" where
  "failure_label NoSuchUser = ''no_such_user''"
| "failure_label WrongPassword = ''wrong_password''"
| "failure_label Disabled = ''disabled''"
| "failure_label NoPasswordYet = ''no_password''"
| "failure_label (AccountLocked _) = ''account_locked''"
| "failure_label (AddressLocked _) = ''address_locked''"

record signed_in =
  si_user :: user_record
  si_session :: string
  si_expires_ms :: nat

record user_info =
  ui_id :: string
  ui_email :: string
  ui_name :: string
  ui_roles :: "user_role list"
  ui_provider :: string
  ui_disabled :: bool
  ui_has_password :: bool
  ui_created_ms :: nat
  ui_last_login_ms :: "nat option"
  ui_locked_until_ms :: "nat option"

section \<open>Passwords and emails\<close>

definition is_common_password :: "crypto \<Rightarrow> string \<Rightarrow> bool" where
  "is_common_password cr pw \<longleftrightarrow> to_lowercase cr pw \<in> set (common_passwords cr)"

definition normalise_email :: "string \<Rightarrow> string" where
  "normalise_email email = to_ascii_lowercase (trim email)"

definition email_ok :: "string \<Rightarrow> bool" where
  "email_ok email \<longleftrightarrow> email \<noteq> [] \<and> contains_str ''@'' email"

definition fresh_user :: "string \<Rightarrow> string \<Rightarrow> string \<Rightarrow> user_role list \<Rightarrow> nat \<Rightarrow> user_record" where
  "fresh_user uuid email name roles now =
     \<lparr>u_id = ''u_'' @ uuid, u_email = email, u_name = trim name, u_roles = roles, u_provider = ''local'',
      u_password_hash = None, u_disabled = False, u_created_ms = now, u_last_login_ms = None,
      u_password_set_ms = None\<rparr>"

definition password_acceptable :: "crypto \<Rightarrow> string \<Rightarrow> (string, unit) result" where
  "password_acceptable cr pw =
     (if char_count pw < min_password_chars then Inl ''Use at least 12 characters for your password.''
      else if char_count pw > max_password_chars then Inl ''Use at most 256 characters for your password.''
      else if is_common_password cr pw then Inl ''That password is too common. Choose another one.''
      else Inr ())"

section \<open>Lockouts\<close>

definition account_key :: "string \<Rightarrow> string" where
  "account_key uid = ''account:'' @ uid"

definition ip_key :: "string \<Rightarrow> string" where
  "ip_key ip = ''ip:'' @ ip"

definition locked_until :: "store \<Rightarrow> string \<Rightarrow> nat \<Rightarrow> nat option" where
  "locked_until st k now = (case get_lock st k of
     Some l \<Rightarrow> if k_locked_until_ms l > now then Some (k_locked_until_ms l) else None | None \<Rightarrow> None)"

definition unlock :: "string \<Rightarrow> store \<Rightarrow> store" where
  "unlock uid = clear_lock (account_key uid)"

definition account_locked_until :: "store \<Rightarrow> string \<Rightarrow> nat \<Rightarrow> nat option" where
  "account_locked_until st uid now = locked_until st (account_key uid) now"

definition address_locked_until :: "store \<Rightarrow> string \<Rightarrow> nat \<Rightarrow> nat option" where
  "address_locked_until st ip now = (if ip = [] then None else locked_until st (ip_key ip) now)"

definition lock_or_default :: "store \<Rightarrow> string \<Rightarrow> lock_record" where
  "lock_or_default st k = (case get_lock st k of Some l \<Rightarrow> l | None \<Rightarrow> lock_default)"

definition address_failure :: "nat \<Rightarrow> lock_record \<Rightarrow> lock_record" where
  "address_failure now l =
     (let l1 = (if now - k_window_start_ms l > ip_window_ms then l\<lparr>k_window_start_ms := now, k_failures := 0\<rparr> else l);
          l2 = l1\<lparr>k_failures := k_failures l1 + 1\<rparr>
      in if k_failures l2 \<ge> ip_failures
         then l2\<lparr>k_locked_until_ms := now + ip_lock_ms, k_failures := 0, k_window_start_ms := now,
                 k_rounds := k_rounds l2 + 1\<rparr>
         else l2)"

definition count_address_failure :: "string \<Rightarrow> nat \<Rightarrow> store \<Rightarrow> store" where
  "count_address_failure ip now st =
     (if ip = [] then st
      else put_lock (ip_key ip) (address_failure now (lock_or_default st (ip_key ip))) st)"

definition account_failure :: "nat \<Rightarrow> lock_record \<Rightarrow> lock_record" where
  "account_failure now l =
     (let l1 = l\<lparr>k_failures := k_failures l + 1\<rparr>
      in if k_failures l1 \<ge> account_failures
         then l1\<lparr>k_locked_until_ms := now + account_lock_ms * 2 ^ min (k_rounds l1) 10, k_failures := 0,
                 k_rounds := k_rounds l1 + 1\<rparr>
         else l1)"

definition count_account_failure :: "string \<Rightarrow> nat \<Rightarrow> store \<Rightarrow> store" where
  "count_account_failure uid now st =
     put_lock (account_key uid) (account_failure now (lock_or_default st (account_key uid))) st"

definition lock_of :: "store \<Rightarrow> string \<Rightarrow> lock_record option" where
  "lock_of st uid = get_lock st (account_key uid)"

section \<open>Sessions\<close>

definition start_session :: "crypto \<Rightarrow> nat \<Rightarrow> string \<Rightarrow> user_record \<Rightarrow> string \<Rightarrow> string \<Rightarrow> nat \<Rightarrow> store \<Rightarrow> signed_in \<times> store" where
  "start_session cr ttl token u ip user_agent now st =
     (\<lparr>si_user = u, si_session = token, si_expires_ms = now + ttl\<rparr>,
      put_session (key_of cr token)
        \<lparr>s_user = u_id u, s_created_ms = now, s_expires_ms = now + ttl, s_ip = ip,
         s_user_agent = take_chars 200 user_agent, s_revoked = False\<rparr> st)"

definition session :: "crypto \<Rightarrow> store \<Rightarrow> string \<Rightarrow> nat \<Rightarrow> (user_record \<times> session_record) option" where
  "session cr st sid now =
     (case get_session st (key_of cr sid) of
        None \<Rightarrow> None
      | Some s \<Rightarrow>
          if s_revoked s \<or> s_expires_ms s \<le> now then None
          else (case get_user st (s_user s) of
                  None \<Rightarrow> None
                | Some u \<Rightarrow> if u_disabled u then None else Some (u, s)))"

definition logout :: "crypto \<Rightarrow> string \<Rightarrow> store \<Rightarrow> bool \<times> store" where
  "logout cr sid st =
     (case get_session st (key_of cr sid) of
        None \<Rightarrow> (False, st)
      | Some s \<Rightarrow> if s_revoked s then (False, st)
                  else (True, put_session (key_of cr sid) (s\<lparr>s_revoked := True\<rparr>) st))"

fun revoke_all :: "(string \<times> session_record) list \<Rightarrow> nat \<times> store \<Rightarrow> nat \<times> store" where
  "revoke_all [] (ended, st) = (ended, st)"
| "revoke_all ((k, s) # ss) (ended, st) =
     revoke_all ss (if s_revoked s then (ended, st) else (ended + 1, put_session k (s\<lparr>s_revoked := True\<rparr>) st))"

definition revoke_sessions :: "string \<Rightarrow> store \<Rightarrow> nat \<times> store" where
  "revoke_sessions uid st = revoke_all (sessions_of st uid) (0, st)"

section \<open>One-time links and users\<close>

definition is_empty :: "store \<Rightarrow> bool" where
  "is_empty st \<longleftrightarrow> store_users st = []"

definition users :: "store \<Rightarrow> user_record list" where
  "users st = sort_key u_email (store_users st)"

definition invite :: "crypto \<Rightarrow> string \<Rightarrow> string \<Rightarrow> nat \<Rightarrow> store \<Rightarrow> string \<times> store" where
  "invite cr token uid now st =
     (token, put_invite (key_of cr token)
        \<lparr>iv_user = uid, iv_created_ms = now, iv_expires_ms = now + invite_ttl_ms, iv_used_ms = None,
         iv_first_admin = False\<rparr> st)"

definition create_user :: "crypto \<Rightarrow> string \<Rightarrow> string \<Rightarrow> string \<Rightarrow> string \<Rightarrow> user_role list \<Rightarrow> nat \<Rightarrow> store \<Rightarrow>
    (string, user_record \<times> string) result \<times> store" where
  "create_user cr uuid token email name roles now st =
     (let email = normalise_email email
      in if \<not> email_ok email then (Inl (''`'' @ email @ ''` is not an email address''), st)
         else if user_by_email st email \<noteq> None then (Inl (''there is already an account for '' @ email), st)
         else let u = fresh_user uuid email name roles now;
                  (token, st') = invite cr token (u_id u) now (put_user u st)
              in (Inr (u, token), st'))"

fun kill_links :: "nat \<Rightarrow> (string \<times> invite_record) list \<Rightarrow> store \<Rightarrow> store" where
  "kill_links now [] st = st"
| "kill_links now ((k, i) # is) st =
     kill_links now is
       (if iv_first_admin i \<and> iv_used_ms i = None then put_invite k (i\<lparr>iv_used_ms := Some now\<rparr>) st else st)"

definition bootstrap_invite :: "crypto \<Rightarrow> string \<Rightarrow> nat \<Rightarrow> store \<Rightarrow> (string, string) result \<times> store" where
  "bootstrap_invite cr token now st =
     (if \<not> is_empty st
      then (Inl ''this server has accounts already; an administrator makes the next one'', st)
      else (Inr token,
            put_invite (key_of cr token)
              \<lparr>iv_user = [], iv_created_ms = now, iv_expires_ms = now + invite_ttl_ms, iv_used_ms = None,
               iv_first_admin = True\<rparr> (kill_links now (invites st) st)))"

definition accept_first_admin :: "crypto \<Rightarrow> nat \<Rightarrow> string \<Rightarrow> string \<Rightarrow> secret \<Rightarrow> secret \<Rightarrow> string \<Rightarrow> string \<Rightarrow>
    secret \<Rightarrow> string \<Rightarrow> string \<Rightarrow> nat \<Rightarrow> store \<Rightarrow> (string, signed_in) result \<times> store" where
  "accept_first_admin cr ttl uuid salt session_token token email name password ip user_agent now st =
     (case get_invite st (key_of cr token) of
        Some i \<Rightarrow>
          if \<not> (iv_first_admin i \<and> iv_used_ms i = None \<and> iv_expires_ms i > now)
          then (Inl ''This link has been used or has expired. Restart the service for a new one.'', st)
          else if \<not> is_empty st then (Inl ''This server has an administrator already.'', st)
          else let email = normalise_email email; name = trim name
               in if \<not> email_ok email then (Inl ''Give your work email address.'', st)
                  else if name = [] then (Inl ''Give your name.'', st)
                  else (case password_acceptable cr password of
                          Inl e \<Rightarrow> (Inl e, st)
                        | Inr _ \<Rightarrow>
                            let u = (fresh_user uuid email name [Admin] now)
                                      \<lparr>u_password_hash := Some (hash_password cr salt password),
                                       u_password_set_ms := Some now, u_last_login_ms := Some now\<rparr>;
                                (s, st') = start_session cr ttl session_token u ip user_agent now
                                   (put_invite (key_of cr token) (i\<lparr>iv_used_ms := Some now, iv_user := u_id u\<rparr>)
                                      (put_user u st))
                            in (Inr s, st'))
      | None \<Rightarrow> (Inl ''This link has been used or has expired. Restart the service for a new one.'', st))"

definition invite_status :: "crypto \<Rightarrow> store \<Rightarrow> string \<Rightarrow> nat \<Rightarrow> link_status" where
  "invite_status cr st token now =
     (case get_invite st (key_of cr token) of
        None \<Rightarrow> Dead
      | Some i \<Rightarrow>
          if iv_used_ms i \<noteq> None \<or> iv_expires_ms i \<le> now then Dead
          else if iv_first_admin i then (if is_empty st then FirstAdmin else Dead)
          else (case get_user st (iv_user i) of
                  Some u \<Rightarrow> if u_disabled u then Dead else ForUser u
                | None \<Rightarrow> Dead))"

definition invite_user :: "crypto \<Rightarrow> store \<Rightarrow> string \<Rightarrow> nat \<Rightarrow> user_record option" where
  "invite_user cr st token now =
     (case get_invite st (key_of cr token) of
        None \<Rightarrow> None
      | Some i \<Rightarrow>
          if iv_used_ms i \<noteq> None \<or> iv_expires_ms i \<le> now then None
          else (case get_user st (iv_user i) of
                  Some u \<Rightarrow> if u_disabled u then None else Some u
                | None \<Rightarrow> None))"

definition set_roles :: "string \<Rightarrow> user_role list \<Rightarrow> store \<Rightarrow> (string, user_record) result \<times> store" where
  "set_roles uid roles st =
     (case get_user st uid of
        None \<Rightarrow> (Inl ''no such user'', st)
      | Some u \<Rightarrow> let u' = u\<lparr>u_roles := roles\<rparr>
                  in (Inr u', snd (revoke_sessions uid (put_user u' st))))"

definition set_disabled :: "string \<Rightarrow> bool \<Rightarrow> store \<Rightarrow> (string, user_record) result \<times> store" where
  "set_disabled uid disabled st =
     (case get_user st uid of
        None \<Rightarrow> (Inl ''no such user'', st)
      | Some u \<Rightarrow> let u' = u\<lparr>u_disabled := disabled\<rparr>; st' = put_user u' st
                  in (Inr u', if disabled then snd (revoke_sessions uid st') else st'))"

definition reset_password :: "crypto \<Rightarrow> string \<Rightarrow> string \<Rightarrow> nat \<Rightarrow> store \<Rightarrow> (string, string) result \<times> store" where
  "reset_password cr token uid now st =
     (case get_user st uid of
        None \<Rightarrow> (Inl ''no such user'', st)
      | Some u \<Rightarrow> let (t, st') = invite cr token uid now
                        (snd (revoke_sessions uid
                          (put_user (u\<lparr>u_password_hash := None, u_password_set_ms := None\<rparr>) st)))
                  in (Inr t, st'))"

definition set_password :: "crypto \<Rightarrow> nat \<Rightarrow> string \<Rightarrow> string \<Rightarrow> string \<Rightarrow> string \<Rightarrow> string \<Rightarrow> string \<Rightarrow> nat \<Rightarrow> store \<Rightarrow>
    (string, signed_in) result \<times> store" where
  "set_password cr ttl salt session_token token password ip user_agent now st =
     (case invite_user cr st token now of
        None \<Rightarrow> (Inl ''This link has been used or has expired. Ask your administrator for a new one.'', st)
      | Some u \<Rightarrow>
          (case password_acceptable cr password of
             Inl e \<Rightarrow> (Inl e, st)
           | Inr _ \<Rightarrow>
               (case get_invite st (key_of cr token) of
                  None \<Rightarrow> (Inl ''This link has been used or has expired.'', st)
                | Some i \<Rightarrow>
                    let u' = u\<lparr>u_password_hash := Some (hash_password cr salt password),
                               u_password_set_ms := Some now, u_last_login_ms := Some now\<rparr>;
                        (s, st') = start_session cr ttl session_token u' ip user_agent now
                          (unlock (u_id u') (put_user u' (put_invite (key_of cr token) (i\<lparr>iv_used_ms := Some now\<rparr>) st)))
                    in (Inr s, st'))))"

section \<open>Signing in\<close>

text \<open>Verification against the decoy hash when there is nothing to check has no effect on the outcome.\<close>

definition check_credentials :: "crypto \<Rightarrow> user_record \<Rightarrow> string \<Rightarrow> (login_failure, unit) result" where
  "check_credentials cr u password =
     (if u_disabled u then Inl Disabled
      else case u_password_hash u of
             None \<Rightarrow> Inl NoPasswordYet
           | Some h \<Rightarrow> if verify_password cr password h then Inr () else Inl WrongPassword)"

definition login :: "crypto \<Rightarrow> nat \<Rightarrow> string \<Rightarrow> string \<Rightarrow> string \<Rightarrow> string \<Rightarrow> string \<Rightarrow> nat \<Rightarrow> store \<Rightarrow>
    (login_failure, signed_in) result \<times> store" where
  "login cr ttl session_token email password ip user_agent now st =
     (case address_locked_until st ip now of
        Some until \<Rightarrow> (Inl (AddressLocked until), st)
      | None \<Rightarrow>
          (case user_by_email st (normalise_email email) of
             None \<Rightarrow> (Inl NoSuchUser, count_address_failure ip now st)
           | Some u \<Rightarrow>
               (case account_locked_until st (u_id u) now of
                  Some until \<Rightarrow> (Inl (AccountLocked until), count_address_failure ip now st)
                | None \<Rightarrow>
                    (case check_credentials cr u password of
                       Inr _ \<Rightarrow>
                         let u' = u\<lparr>u_last_login_ms := Some now\<rparr>;
                             (s, st') = start_session cr ttl session_token u' ip user_agent now
                               (put_user u' (unlock (u_id u) st))
                         in (Inr s, st')
                     | Inl failure \<Rightarrow>
                         let st' = count_address_failure ip now st
                         in (Inl failure,
                             if failure = WrongPassword then count_account_failure (u_id u) now st' else st')))))"

definition info :: "user_record \<Rightarrow> nat option \<Rightarrow> user_info" where
  "info u locked = \<lparr>ui_id = u_id u, ui_email = u_email u, ui_name = u_name u, ui_roles = u_roles u,
     ui_provider = u_provider u, ui_disabled = u_disabled u, ui_has_password = (u_password_hash u \<noteq> None),
     ui_created_ms = u_created_ms u, ui_last_login_ms = u_last_login_ms u, ui_locked_until_ms = locked\<rparr>"

section \<open>Reads after writes\<close>

lemma get_user_reads [store_reads]:
  "get_user (put_user u st) k = (if k = u_id u then Some u else get_user st k)"
  "get_user (put_session sk s st) k = get_user st k" "get_user (put_invite ik i st) k = get_user st k"
  "get_user (put_lock lk l st) k = get_user st k" "get_user (clear_lock lk st) k = get_user st k"
  by (simp_all add: get_user_def put_user_def put_session_def put_invite_def put_lock_def clear_lock_def table_simps)

lemma get_session_reads [store_reads]:
  "get_session (put_session sk s st) k = (if k = sk then Some s else get_session st k)"
  "get_session (put_user u st) k = get_session st k" "get_session (put_invite ik i st) k = get_session st k"
  "get_session (put_lock lk l st) k = get_session st k" "get_session (clear_lock lk st) k = get_session st k"
  by (simp_all add: get_session_def put_user_def put_session_def put_invite_def put_lock_def clear_lock_def table_simps)

lemma get_invite_reads [store_reads]:
  "get_invite (put_invite ik i st) k = (if k = ik then Some i else get_invite st k)"
  "get_invite (put_user u st) k = get_invite st k" "get_invite (put_session sk s st) k = get_invite st k"
  "get_invite (put_lock lk l st) k = get_invite st k" "get_invite (clear_lock lk st) k = get_invite st k"
  by (simp_all add: get_invite_def put_user_def put_session_def put_invite_def put_lock_def clear_lock_def table_simps)

lemma get_lock_reads [store_reads]:
  "get_lock (put_lock lk l st) k = (if k = lk then Some l else get_lock st k)"
  "get_lock (clear_lock lk st) k = (if k = lk then None else get_lock st k)"
  "get_lock (put_user u st) k = get_lock st k" "get_lock (put_session sk s st) k = get_lock st k"
  "get_lock (put_invite ik i st) k = get_lock st k"
  by (simp_all add: get_lock_def put_user_def put_session_def put_invite_def put_lock_def clear_lock_def table_simps)

definition email_owner :: "store \<Rightarrow> string \<Rightarrow> string option" where
  "email_owner st e = t_get (user_emails st) e"

lemma email_owner_reads [store_reads]:
  "email_owner (put_user u st) e = (if e = u_email u then Some (u_id u) else email_owner st e)"
  "email_owner (put_session sk s st) e = email_owner st e" "email_owner (put_invite ik i st) e = email_owner st e"
  "email_owner (put_lock lk l st) e = email_owner st e" "email_owner (clear_lock lk st) e = email_owner st e"
  by (simp_all add: email_owner_def put_user_def put_session_def put_invite_def put_lock_def clear_lock_def table_simps)

lemma user_by_email_eq: "user_by_email st e = Option.bind (email_owner st e) (get_user st)"
  by (simp add: user_by_email_def email_owner_def split: option.splits)

lemma lock_keys [simp]:
  "account_key a = account_key b \<longleftrightarrow> a = b" "ip_key a = ip_key b \<longleftrightarrow> a = b"
  "account_key a \<noteq> ip_key b" "ip_key b \<noteq> account_key a"
  by (simp_all add: account_key_def ip_key_def)

text \<open>The tables stay in key order.\<close>

definition tables_ok :: "store \<Rightarrow> bool" where
  "tables_ok st \<longleftrightarrow> ordered (users_t st) \<and> ordered (sessions st) \<and> ordered (invites st)"

lemma tables_ok_writes [store_reads]:
  "tables_ok st \<Longrightarrow> tables_ok (put_user u st)" "tables_ok st \<Longrightarrow> tables_ok (put_session sk s st)"
  "tables_ok st \<Longrightarrow> tables_ok (put_invite ik i st)" "tables_ok (put_lock lk l st) = tables_ok st"
  "tables_ok (clear_lock lk st) = tables_ok st"
  by (simp_all add: tables_ok_def put_user_def put_session_def put_invite_def put_lock_def clear_lock_def ot.ok_put)

section \<open>Ending sessions\<close>

lemma revoke_all_session:
  assumes "distinct (map fst ss)" and "\<forall>(k, s) \<in> set ss. get_session st k = Some s"
  shows "get_session (snd (revoke_all ss (n, st))) k =
    (case map_of ss k of Some s \<Rightarrow> Some (s\<lparr>s_revoked := True\<rparr>) | None \<Rightarrow> get_session st k)"
  using assms
proof (induction ss arbitrary: n st)
  case (Cons b ss)
  obtain k' s where b: "b = (k', s)" by (cases b)
  define st1 where "st1 = (if s_revoked s then st else put_session k' (s\<lparr>s_revoked := True\<rparr>) st)"
  have own: "get_session st1 k = (if k = k' then Some (s\<lparr>s_revoked := True\<rparr>) else get_session st k)" for k
    using Cons.prems(2) b by (auto simp: st1_def store_reads)
  have "\<forall>(k, s) \<in> set ss. get_session st1 k = Some s"
    using Cons.prems b by (force simp: own)
  with Cons.IH [of st1] Cons.prems(1) b have
    "get_session (snd (revoke_all ss (m, st1))) k =
       (case map_of ss k of Some s \<Rightarrow> Some (s\<lparr>s_revoked := True\<rparr>) | None \<Rightarrow> get_session st1 k)" for m by simp
  moreover have "map_of ss k' = None" using Cons.prems(1) b by (simp add: map_of_eq_None_iff)
  moreover obtain m where "revoke_all (b # ss) (n, st) = revoke_all ss (m, st1)"
    by (cases "s_revoked s") (auto simp: b st1_def)
  ultimately show ?case by (auto simp: b own split: option.splits)
qed simp

lemma revoke_all_frame:
  "get_user (snd (revoke_all ss (n, st))) = get_user st" "get_invite (snd (revoke_all ss (n, st))) = get_invite st"
  "get_lock (snd (revoke_all ss (n, st))) = get_lock st" "email_owner (snd (revoke_all ss (n, st))) = email_owner st"
  "tables_ok st \<Longrightarrow> tables_ok (snd (revoke_all ss (n, st)))"
  by (induction ss arbitrary: n st) (auto simp: store_reads fun_eq_iff)

lemma map_of_filter_snd:
  "distinct (map fst t) \<Longrightarrow> map_of (filter (\<lambda>b. P (snd b)) t) k =
     (case map_of t k of Some v \<Rightarrow> if P v then Some v else None | None \<Rightarrow> None)"
proof (induction t)
  case (Cons b t)
  have "map_of t (fst b) = None" using Cons.prems by (simp add: map_of_eq_None_iff)
  with Cons show ?case by (cases "fst b = k") auto
qed simp

lemma revoke_sessions_session:
  assumes "tables_ok st"
  shows "get_session (snd (revoke_sessions uid st)) k =
    map_option (\<lambda>s. if s_user s = uid then s\<lparr>s_revoked := True\<rparr> else s) (get_session st k)"
proof -
  have d: "distinct (map fst (sessions st))"
    using assms ordered_distinct by (auto simp: tables_ok_def keys_def)
  then have "distinct (map fst (sessions_of st uid))"
    by (simp add: sessions_of_def distinct_map_filter)
  moreover have "\<forall>(k, s) \<in> set (sessions_of st uid). get_session st k = Some s"
    using d by (auto simp: sessions_of_def get_session_def)
  ultimately have "get_session (snd (revoke_sessions uid st)) k =
      (case map_of (sessions_of st uid) k of Some s \<Rightarrow> Some (s\<lparr>s_revoked := True\<rparr>) | None \<Rightarrow> get_session st k)"
    unfolding revoke_sessions_def by (rule revoke_all_session)
  moreover have "map_of (sessions_of st uid) k =
      (case get_session st k of Some s \<Rightarrow> if s_user s = uid then Some s else None | None \<Rightarrow> None)"
    unfolding sessions_of_def get_session_def by (rule map_of_filter_snd [OF d])
  ultimately show ?thesis by (simp split: option.splits)
qed

lemma revoke_sessions_frame:
  "get_user (snd (revoke_sessions uid st)) = get_user st" "get_invite (snd (revoke_sessions uid st)) = get_invite st"
  "get_lock (snd (revoke_sessions uid st)) = get_lock st" "email_owner (snd (revoke_sessions uid st)) = email_owner st"
  "tables_ok st \<Longrightarrow> tables_ok (snd (revoke_sessions uid st))"
  by (simp_all add: revoke_sessions_def revoke_all_frame)

section \<open>The invariant\<close>

text \<open>
  Users are stored under their id, the email index and the users agree, so an email has one account, and
  the counts behind the locks are below their limits.
\<close>

definition index_ok :: "(string \<Rightarrow> user_record option) \<Rightarrow> (string \<Rightarrow> string option) \<Rightarrow> bool" where
  "index_ok g own \<longleftrightarrow> (\<forall>k u. g k = Some u \<longrightarrow> u_id u = k \<and> own (u_email u) = Some k) \<and>
     (\<forall>e k. own e = Some k \<longrightarrow> (\<exists>u. g k = Some u \<and> u_email u = e))"

definition accounts_ok :: "store \<Rightarrow> bool" where
  "accounts_ok st \<longleftrightarrow> tables_ok st \<and> index_ok (get_user st) (email_owner st) \<and>
     (\<forall>k l. get_lock st (account_key k) = Some l \<longrightarrow> k_failures l < account_failures) \<and>
     (\<forall>k l. get_lock st (ip_key k) = Some l \<longrightarrow> k_failures l < ip_failures)"

lemma accounts_okD:
  assumes "accounts_ok st"
  shows "tables_ok st" and "get_user st k = Some u \<Longrightarrow> u_id u = k \<and> email_owner st (u_email u) = Some k"
    and "email_owner st e = Some k \<Longrightarrow> \<exists>u. get_user st k = Some u \<and> u_email u = e"
  using assms by (auto simp: accounts_ok_def index_ok_def)

lemma index_ok_put:
  assumes "index_ok g own" and "case g (u_id u) of Some v \<Rightarrow> u_email v = u_email u | None \<Rightarrow> own (u_email u) = None"
  shows "index_ok (g(u_id u \<mapsto> u)) (own(u_email u \<mapsto> u_id u))"
proof -
  have g: "g k = Some v \<Longrightarrow> u_id v = k \<and> own (u_email v) = Some k" for k v
    using assms(1) by (auto simp: index_ok_def)
  have o: "own e = Some k \<Longrightarrow> \<exists>v. g k = Some v \<and> u_email v = e" for e k
    using assms(1) by (auto simp: index_ok_def)
  have own: "own (u_email u) = None \<or> own (u_email u) = Some (u_id u)"
    using assms(2) g [of "u_id u"] by (auto split: option.splits)
  have other: "u_email v \<noteq> u_email u" if "g k = Some v" "k \<noteq> u_id u" for k v
    using g [OF that(1)] own that(2) by auto
  have same: "e = u_email u" if "own e = Some (u_id u)" for e
    using o [OF that] assms(2) by auto
  show ?thesis
    unfolding index_ok_def using g o other same by (auto split: if_splits)
qed

lemma frame_reads:
  "get_user (put_session k s st) = get_user st" "email_owner (put_session k s st) = email_owner st"
  "get_user (put_invite k i st) = get_user st" "email_owner (put_invite k i st) = email_owner st"
  "get_user (put_lock k l st) = get_user st" "email_owner (put_lock k l st) = email_owner st"
  "get_user (clear_lock k st) = get_user st" "email_owner (clear_lock k st) = email_owner st"
  by (simp_all add: store_reads fun_eq_iff)

lemma get_user_put: "get_user (put_user u st) = (get_user st)(u_id u \<mapsto> u)"
  "email_owner (put_user u st) = (email_owner st)(u_email u \<mapsto> u_id u)"
  by (auto simp: store_reads fun_eq_iff)

lemma user_by_email_iff:
  assumes "accounts_ok st"
  shows "user_by_email st e = Some u \<longleftrightarrow> get_user st (u_id u) = Some u \<and> u_email u = e"
proof
  assume "user_by_email st e = Some u"
  then obtain k where k: "email_owner st e = Some k" "get_user st k = Some u"
    by (auto simp: user_by_email_eq bind_eq_Some_conv)
  with accounts_okD(2) [OF assms k(2)] accounts_okD(3) [OF assms k(1)]
  show "get_user st (u_id u) = Some u \<and> u_email u = e" by auto
next
  assume "get_user st (u_id u) = Some u \<and> u_email u = e"
  with accounts_okD(2) [OF assms, of "u_id u" u] show "user_by_email st e = Some u"
    by (auto simp: user_by_email_eq)
qed

lemma user_by_email_None:
  assumes "accounts_ok st"
  shows "user_by_email st e = None \<longleftrightarrow> email_owner st e = None"
proof (cases "email_owner st e")
  case (Some k)
  with accounts_okD(3) [OF assms Some] show ?thesis by (auto simp: user_by_email_eq)
qed (simp add: user_by_email_eq)

lemma put_user_ok:
  assumes "accounts_ok st" and "get_user st (u_id u) = Some u0" and "u_email u = u_email u0"
  shows "accounts_ok (put_user u st)"
  using assms index_ok_put [of "get_user st" "email_owner st" u]
  by (simp add: accounts_ok_def tables_ok_writes get_lock_reads get_user_put)

lemma put_new_user_ok:
  assumes "accounts_ok st" and "get_user st (u_id u) = None" and "email_owner st (u_email u) = None"
  shows "accounts_ok (put_user u st)"
  using assms index_ok_put [of "get_user st" "email_owner st" u]
  by (simp add: accounts_ok_def tables_ok_writes get_lock_reads get_user_put)

lemma put_session_ok: "accounts_ok st \<Longrightarrow> accounts_ok (put_session k s st)"
  and put_invite_ok: "accounts_ok st \<Longrightarrow> accounts_ok (put_invite k i st)"
  and clear_lock_ok: "accounts_ok st \<Longrightarrow> accounts_ok (clear_lock k st)"
  and revoke_ok: "accounts_ok st \<Longrightarrow> accounts_ok (snd (revoke_sessions k st))"
  by (auto simp: accounts_ok_def frame_reads store_reads revoke_sessions_frame split: if_splits)

lemma failures_bounded:
  "k_failures l < account_failures \<Longrightarrow> k_failures (account_failure now l) < account_failures"
  "k_failures l < ip_failures \<Longrightarrow> k_failures (address_failure now l) < ip_failures"
  by (auto simp: account_failure_def address_failure_def account_failures_def ip_failures_def Let_def)

lemma lock_default_ok [simp]: "k_failures lock_default = 0" "k_rounds lock_default = 0" "k_locked_until_ms lock_default = 0"
  by (simp_all add: lock_default_def)

lemma count_address_ok: "accounts_ok st \<Longrightarrow> accounts_ok (count_address_failure ip now st)"
  by (auto simp: accounts_ok_def count_address_failure_def frame_reads store_reads lock_or_default_def ip_failures_def
      intro!: failures_bounded [unfolded ip_failures_def] split: option.splits)

lemma count_account_ok: "accounts_ok st \<Longrightarrow> accounts_ok (count_account_failure uid now st)"
  by (auto simp: accounts_ok_def count_account_failure_def frame_reads store_reads lock_or_default_def account_failures_def
      intro!: failures_bounded [unfolded account_failures_def] split: option.splits)

lemma kill_links_frame:
  "get_user (kill_links now is st) = get_user st" "get_session (kill_links now is st) = get_session st"
  "get_lock (kill_links now is st) = get_lock st" "email_owner (kill_links now is st) = email_owner st"
  "tables_ok st \<Longrightarrow> tables_ok (kill_links now is st)" "users_t (kill_links now is st) = users_t st"
  by (induction now "is" st rule: kill_links.induct)
     (simp_all add: store_reads fun_eq_iff, simp_all add: put_invite_def)

lemma kill_links_ok: "accounts_ok st \<Longrightarrow> accounts_ok (kill_links now is st)"
  by (auto simp: accounts_ok_def kill_links_frame)

lemma is_empty_get: "is_empty st \<Longrightarrow> get_user st k = None"
  by (auto simp: is_empty_def store_users_def vals_def get_user_def)

lemmas ops_ok = put_user_ok put_new_user_ok put_session_ok put_invite_ok clear_lock_ok revoke_ok
  count_address_ok count_account_ok kill_links_ok

section \<open>Runs of the account store\<close>

inductive account_step :: "crypto \<Rightarrow> nat \<Rightarrow> store \<Rightarrow> store \<Rightarrow> bool" for cr ttl where
  acc_create: "get_user st (''u_'' @ uuid) = None \<Longrightarrow>
     account_step cr ttl st (snd (create_user cr uuid token email name roles now st))"
| acc_bootstrap: "account_step cr ttl st (snd (bootstrap_invite cr token now st))"
| acc_first_admin: "account_step cr ttl st
     (snd (accept_first_admin cr ttl uuid salt stoken token email name password ip ua now st))"
| acc_roles: "account_step cr ttl st (snd (set_roles uid roles st))"
| acc_disabled: "account_step cr ttl st (snd (set_disabled uid b st))"
| acc_reset: "account_step cr ttl st (snd (reset_password cr token uid now st))"
| acc_unlock: "account_step cr ttl st (unlock uid st)"
| acc_password: "account_step cr ttl st (snd (set_password cr ttl salt stoken token password ip ua now st))"
| acc_login: "account_step cr ttl st (snd (login cr ttl stoken email password ip ua now st))"
| acc_logout: "account_step cr ttl st (snd (logout cr sid st))"
| acc_revoke: "account_step cr ttl st (snd (revoke_sessions uid st))"

inductive account_reach :: "crypto \<Rightarrow> nat \<Rightarrow> store \<Rightarrow> bool" for cr ttl where
  acc_empty: "account_reach cr ttl store_empty"
| acc_step: "account_reach cr ttl st \<Longrightarrow> account_step cr ttl st st' \<Longrightarrow> account_reach cr ttl st'"

inductive_cases account_stepE: "account_step cr ttl st st'"

lemma fresh_user_fields [simp]:
  "u_id (fresh_user uuid email name roles now) = ''u_'' @ uuid" "u_email (fresh_user uuid email name roles now) = email"
  by (simp_all add: fresh_user_def)

lemma create_user_ok:
  assumes "accounts_ok st" and "get_user st (''u_'' @ uuid) = None"
  shows "accounts_ok (snd (create_user cr uuid token email name roles now st))"
  using assms
  by (auto simp: create_user_def invite_def Let_def user_by_email_None [OF assms(1)] intro!: ops_ok)

lemma bootstrap_ok: "accounts_ok st \<Longrightarrow> accounts_ok (snd (bootstrap_invite cr token now st))"
  by (auto simp: bootstrap_invite_def intro!: ops_ok)

lemma empty_no_owner:
  assumes "accounts_ok st" and "is_empty st"
  shows "email_owner st e = None"
  using accounts_okD(3) [OF assms(1), of e] is_empty_get [OF assms(2)] by (cases "email_owner st e") auto

lemma accept_first_admin_ok:
  assumes "accounts_ok st"
  shows "accounts_ok (snd (accept_first_admin cr ttl uuid salt stoken token email name password ip ua now st))"
  using assms
  by (auto simp: accept_first_admin_def start_session_def Let_def empty_no_owner is_empty_get
      intro!: put_session_ok put_invite_ok put_new_user_ok split: option.splits sum.splits)

lemma put_same_email_ok:
  assumes "accounts_ok st" and "get_user st uid = Some u" and "u_id u' = u_id u" and "u_email u' = u_email u"
  shows "accounts_ok (put_user u' st)"
  using put_user_ok [OF assms(1), of u' u] accounts_okD(2) [OF assms(1,2)] assms by simp

lemma set_roles_ok: "accounts_ok st \<Longrightarrow> accounts_ok (snd (set_roles uid roles st))"
  and set_disabled_ok: "accounts_ok st \<Longrightarrow> accounts_ok (snd (set_disabled uid b st))"
  and reset_password_ok: "accounts_ok st \<Longrightarrow> accounts_ok (snd (reset_password cr token uid now st))"
  by (auto simp: set_roles_def set_disabled_def reset_password_def invite_def Let_def
      intro!: revoke_ok put_invite_ok put_same_email_ok split: option.splits)

lemma invite_user_known: "invite_user cr st token now = Some u \<Longrightarrow> \<exists>uid. get_user st uid = Some u"
  by (auto simp: invite_user_def split: option.splits if_splits)

lemma set_password_ok:
  assumes "accounts_ok st"
  shows "accounts_ok (snd (set_password cr ttl salt stoken token password ip ua now st))"
  using assms
  by (auto simp: set_password_def start_session_def unlock_def Let_def frame_reads dest!: invite_user_known
      intro!: put_session_ok clear_lock_ok put_invite_ok put_same_email_ok split: option.splits sum.splits)

lemma login_ok:
  assumes "accounts_ok st"
  shows "accounts_ok (snd (login cr ttl stoken email password ip ua now st))"
  using assms user_by_email_iff [OF assms]
  by (auto simp: login_def start_session_def unlock_def Let_def frame_reads
      intro!: put_session_ok clear_lock_ok count_address_ok count_account_ok put_same_email_ok
      split: option.splits sum.splits)

lemma logout_ok: "accounts_ok st \<Longrightarrow> accounts_ok (snd (logout cr sid st))"
  by (auto simp: logout_def intro!: ops_ok split: option.splits)

lemma account_step_ok: "account_step cr ttl st st' \<Longrightarrow> accounts_ok st \<Longrightarrow> accounts_ok st'"
  by (erule account_stepE)
     (auto intro: create_user_ok bootstrap_ok accept_first_admin_ok set_roles_ok set_disabled_ok reset_password_ok
        set_password_ok login_ok logout_ok revoke_ok clear_lock_ok simp: unlock_def)

lemma store_empty_ok: "accounts_ok store_empty"
  by (simp add: accounts_ok_def tables_ok_def index_ok_def store_empty_def get_user_def email_owner_def get_lock_def)

lemma account_reach_ok: "account_reach cr ttl st \<Longrightarrow> accounts_ok st"
  by (induction rule: account_reach.induct) (auto intro: store_empty_ok account_step_ok)

section \<open>Effects of signing in\<close>

lemma count_frames [store_reads]:
  "get_user (count_address_failure ip now st) k = get_user st k"
  "get_session (count_address_failure ip now st) k = get_session st k"
  "email_owner (count_address_failure ip now st) e = email_owner st e"
  "get_lock (count_address_failure ip now st) (account_key uid) = get_lock st (account_key uid)"
  "get_user (count_account_failure uid now st) k = get_user st k"
  "get_session (count_account_failure uid now st) k = get_session st k"
  "email_owner (count_account_failure uid now st) e = email_owner st e"
  by (simp_all add: count_address_failure_def count_account_failure_def store_reads)

lemma user_by_email_cong:
  "get_user st' = get_user st \<Longrightarrow> email_owner st' e = email_owner st e \<Longrightarrow> user_by_email st' e = user_by_email st e"
  by (simp add: user_by_email_eq)

lemma login_failed_frame:
  assumes "login cr ttl stoken email password ip ua now st = (Inl f, st')"
  shows "get_user st' = get_user st" "get_session st' = get_session st" "email_owner st' = email_owner st"
  using assms by (auto simp: login_def start_session_def Let_def store_reads fun_eq_iff
      split: option.splits sum.splits if_splits)

lemma login_wrong:
  assumes "login cr ttl stoken email password ip ua now st = (Inl WrongPassword, st')"
    and "user_by_email st (normalise_email email) = Some u"
  shows "get_lock st' (account_key (u_id u)) =
      Some (account_failure now (lock_or_default st (account_key (u_id u))))"
    and "account_locked_until st (u_id u) now = None"
  using assms
  by (auto simp: login_def start_session_def Let_def store_reads check_credentials_def count_account_failure_def
      lock_or_default_def split: option.splits sum.splits if_splits)

lemma login_success:
  assumes "login cr ttl stoken email password ip ua now st = (Inr s, st')"
  obtains u h where "user_by_email st (normalise_email email) = Some u" "\<not> u_disabled u"
    "u_password_hash u = Some h" "verify_password cr password h"
    "account_locked_until st (u_id u) now = None" "address_locked_until st ip now = None"
    "s = \<lparr>si_user = u\<lparr>u_last_login_ms := Some now\<rparr>, si_session = stoken, si_expires_ms = now + ttl\<rparr>"
    "st' = put_session (key_of cr stoken) \<lparr>s_user = u_id u, s_created_ms = now, s_expires_ms = now + ttl, s_ip = ip,
         s_user_agent = take_chars 200 ua, s_revoked = False\<rparr>
         (put_user (u\<lparr>u_last_login_ms := Some now\<rparr>) (unlock (u_id u) st))"
  using assms
  by (auto simp: login_def start_session_def Let_def check_credentials_def
      split: option.splits sum.splits if_splits)

text \<open>A list of attempts on one account: session token, password, address, browser and time of each.\<close>

fun attempts :: "crypto \<Rightarrow> nat \<Rightarrow> string \<Rightarrow> (string \<times> string \<times> string \<times> string \<times> nat) list \<Rightarrow> store \<Rightarrow>
    (login_failure, signed_in) result list \<times> store" where
  "attempts cr ttl email [] st = ([], st)"
| "attempts cr ttl email ((token, pw, ip, ua, now) # as) st =
     (let (r, st1) = login cr ttl token email pw ip ua now st; (rs, st2) = attempts cr ttl email as st1
      in (r # rs, st2))"

lemma wrong_run:
  assumes "attempts cr ttl email as st = (rs, st')" and "\<forall>r \<in> set rs. r = Inl WrongPassword"
    and "user_by_email st (normalise_email email) = Some u"
    and "k_failures (lock_or_default st (account_key (u_id u))) + length as < account_failures"
  shows "user_by_email st' (normalise_email email) = Some u \<and>
    k_failures (lock_or_default st' (account_key (u_id u))) =
      k_failures (lock_or_default st (account_key (u_id u))) + length as \<and>
    k_rounds (lock_or_default st' (account_key (u_id u))) = k_rounds (lock_or_default st (account_key (u_id u)))"
  using assms
proof (induction as arbitrary: st rs)
  case (Cons a as)
  obtain token pw ip ua now where a: "a = (token, pw, ip, ua, now)" by (cases a)
  obtain r st1 where l: "login cr ttl token email pw ip ua now st = (r, st1)" by fastforce
  obtain rs1 where as: "attempts cr ttl email as st1 = (rs1, st')" "rs = r # rs1"
    using Cons.prems(1) a l by (auto split: prod.splits)
  with Cons.prems(2) l have w: "login cr ttl token email pw ip ua now st = (Inl WrongPassword, st1)" by simp
  let ?k = "account_key (u_id u)"
  have lock: "lock_or_default st1 ?k = account_failure now (lock_or_default st ?k)"
    using login_wrong(1) [OF w Cons.prems(3)] by (simp add: lock_or_default_def)
  have small: "k_failures (account_failure now (lock_or_default st ?k)) = k_failures (lock_or_default st ?k) + 1"
    "k_rounds (account_failure now (lock_or_default st ?k)) = k_rounds (lock_or_default st ?k)"
    using Cons.prems(4) by (auto simp: account_failure_def Let_def)
  have u1: "user_by_email st1 (normalise_email email) = Some u"
    using user_by_email_cong [of st1 st] login_failed_frame [OF w] Cons.prems(3) by simp
  have "k_failures (lock_or_default st1 ?k) + length as < account_failures"
    using Cons.prems(4) small lock by simp
  from Cons.IH [OF as(1) _ u1 this] Cons.prems(2) as lock small show ?case by simp
qed simp

section \<open>A concrete account\<close>

definition demo_crypto :: crypto where
  "demo_crypto = \<lparr>key_of = (\<lambda>t. t), hash_password = (\<lambda>salt pw. pw), verify_password = (\<lambda>pw h. pw = h),
     to_lowercase = (\<lambda>s. s), common_passwords = []\<rparr>"

definition demo_user :: user_record where
  "demo_user = (fresh_user ''1'' ''a@b.c'' ''Ann'' [Admin] 0)\<lparr>u_password_hash := Some ''right''\<rparr>"

definition demo_accounts :: store where
  "demo_accounts = put_user demo_user store_empty"

lemma demo_user_fields: "u_id demo_user = ''u_1''" "u_email demo_user = ''a@b.c''" "\<not> u_disabled demo_user"
  "u_password_hash demo_user = Some ''right''"
  by (simp_all add: demo_user_def fresh_user_def)

lemma store_empty_reads: "get_user store_empty k = None" "email_owner store_empty e = None"
  "get_lock store_empty k = None" "get_session store_empty k = None" "get_invite store_empty k = None"
  by (simp_all add: get_user_def email_owner_def get_lock_def get_session_def get_invite_def store_empty_def)

lemma demo_accounts_ok: "accounts_ok demo_accounts"
  unfolding demo_accounts_def by (rule put_new_user_ok [OF store_empty_ok]) (simp_all add: store_empty_reads)

lemma demo_email: "normalise_email ''a@b.c'' = ''a@b.c''"
  by code_simp

lemma demo_lookup: "user_by_email demo_accounts ''a@b.c'' = Some demo_user" "get_user demo_accounts ''u_1'' = Some demo_user"
  "get_lock demo_accounts k = None"
  by (simp_all add: demo_accounts_def user_by_email_eq store_reads demo_user_fields store_empty_reads)

lemma demo_login:
  "login demo_crypto ttl tok ''a@b.c'' pw [] ua now demo_accounts =
     (if pw = ''right''
      then (Inr \<lparr>si_user = demo_user\<lparr>u_last_login_ms := Some now\<rparr>, si_session = tok, si_expires_ms = now + ttl\<rparr>,
            snd (start_session demo_crypto ttl tok (demo_user\<lparr>u_last_login_ms := Some now\<rparr>) [] ua now
              (put_user (demo_user\<lparr>u_last_login_ms := Some now\<rparr>) (unlock ''u_1'' demo_accounts))))
      else (Inl WrongPassword, count_account_failure ''u_1'' now demo_accounts))"
  by (simp add: login_def demo_email demo_lookup demo_user_fields check_credentials_def account_locked_until_def
      address_locked_until_def locked_until_def count_address_failure_def start_session_def demo_crypto_def Let_def)

section \<open>Properties\<close>

text \<open>(C16) Along any run of the account operations every account is stored under its id and found
  again by its email, no two accounts share an email, and the failure counts
  stay below the limits that lock.  A new account gets an id that is not in use.\<close>

theorem accounts_consistent:
  assumes "account_reach cr ttl st"
  shows "(user_by_email st e = Some u \<longleftrightarrow> get_user st (u_id u) = Some u \<and> u_email u = e) \<and>
    (get_user st k = Some v \<longrightarrow> u_id v = k \<and> (\<forall>k' v'. get_user st k' = Some v' \<and> u_email v' = u_email v \<longrightarrow> k' = k)) \<and>
    (\<forall>l. lock_of st k = Some l \<longrightarrow> k_failures l < account_failures) \<and>
    (\<forall>l. get_lock st (ip_key ip) = Some l \<longrightarrow> k_failures l < ip_failures)"
proof -
  note ok = account_reach_ok [OF assms]
  have "k' = k" if "get_user st k = Some v" "get_user st k' = Some v'" "u_email v' = u_email v" for k' v'
    using accounts_okD(2) [OF ok that(1)] accounts_okD(2) [OF ok that(2)] that(3) by simp
  with ok user_by_email_iff [OF ok] accounts_okD(2) [OF ok] show ?thesis
    unfolding lock_of_def by (auto simp: accounts_ok_def)
qed

theorem accounts_consistent_witness:
  "user_by_email (snd (create_user demo_crypto ''1'' ''t'' ''a@b.c'' ''Ann'' [Admin] 0 store_empty)) ''a@b.c''
    \<noteq> Some (demo_user\<lparr>u_email := ''x@y.z''\<rparr>)"
proof -
  note reached = acc_step [OF acc_empty acc_create, of "''1''" demo_crypto 0 "''t''" "''a@b.c''" "''Ann''" "[Admin]" 0]
  show ?thesis
    using accounts_consistent [OF reached, of "''a@b.c''" "demo_user\<lparr>u_email := ''x@y.z''\<rparr>"] store_empty_reads by simp
qed

text \<open>(C17) A sign-in succeeds exactly when the address and the account are not locked and an enabled account
  with that email has a password that verifies.  It then opens a session that stands for the account until
  it expires and clears the account's lock; a sign-in that fails changes no account and no session.\<close>

theorem login_opens_session:
  assumes "accounts_ok st" and "login cr ttl stoken email password ip ua now st = (r, st')"
  shows "((\<exists>s. r = Inr s) \<longleftrightarrow> address_locked_until st ip now = None \<and>
      (\<exists>u h. user_by_email st (normalise_email email) = Some u \<and> account_locked_until st (u_id u) now = None \<and>
             \<not> u_disabled u \<and> u_password_hash u = Some h \<and> verify_password cr password h)) \<and>
    (\<forall>s. r = Inr s \<longrightarrow> u_email (si_user s) = normalise_email email \<and> lock_of st' (u_id (si_user s)) = None \<and>
       (\<forall>t. map_option fst (session cr st' stoken t) = (if t < now + ttl then Some (si_user s) else None))) \<and>
    (\<forall>f. r = Inl f \<longrightarrow> get_user st' = get_user st \<and> get_session st' = get_session st)"
proof (cases r)
  case (Inl f)
  have "\<not> (\<exists>s. r = Inr s)" using Inl by simp
  moreover have "\<not> (address_locked_until st ip now = None \<and>
      (\<exists>u h. user_by_email st (normalise_email email) = Some u \<and> account_locked_until st (u_id u) now = None \<and>
             \<not> u_disabled u \<and> u_password_hash u = Some h \<and> verify_password cr password h))"
    using assms(2) Inl by (auto simp: login_def check_credentials_def start_session_def Let_def)
  ultimately show ?thesis using login_failed_frame [of cr ttl stoken email password ip ua now st f st'] assms(2) Inl by auto
next
  case (Inr s)
  with assms(2) have l: "login cr ttl stoken email password ip ua now st = (Inr s, st')" by simp
  show ?thesis
    by (rule login_success [OF l])
       (auto simp: Inr lock_of_def session_def store_reads unlock_def user_by_email_iff [OF assms(1)])
qed

theorem login_opens_session_witness:
  "\<exists>s st'. login demo_crypto 100 ''tok'' ''a@b.c'' ''right'' [] [] 5 demo_accounts = (Inr s, st') \<and>
     map_option fst (session demo_crypto st' ''tok'' 104) = Some (si_user s) \<and>
     map_option fst (session demo_crypto st' ''tok'' 105) = None"
proof -
  obtain s st' where l: "login demo_crypto 100 ''tok'' ''a@b.c'' ''right'' [] [] 5 demo_accounts = (Inr s, st')"
    using demo_login [of 100 "''tok''" "''right''" "[]" 5] by auto
  have all: "map_option fst (session demo_crypto st' ''tok'' t) = (if t < 5 + 100 then Some (si_user s) else None)" for t
    using login_opens_session [OF demo_accounts_ok l] by blast
  show ?thesis
    using l all [of 104] all [of 105] by (intro exI [of _ s] exI [of _ st'] conjI) simp_all
qed

text \<open>(C18) Five wrong passwords in a row lock an account that had no failures counted, for fifteen minutes doubled
  by each lock earned before, at most ten times; until then no password signs in, from any address.\<close>

theorem five_wrong_passwords_lock:
  assumes "user_by_email st (normalise_email email) = Some u" and "lock_or_default st (account_key (u_id u)) = l"
    and "k_failures l = 0" and "attempts cr ttl email (as @ [(tok, pw, ip, ua, now)]) st = (rs, st')"
    and "length as = 4" and "\<forall>r \<in> set rs. r = Inl WrongPassword"
    and "until = now + account_lock_ms * 2 ^ min (k_rounds l) 10" and "t < until"
  shows "account_locked_until st' (u_id u) t = Some until \<and>
    fst (login cr ttl tok' email pw' ip' ua' t st') \<in> {Inl (AccountLocked until)} \<union> range (\<lambda>n. Inl (AddressLocked n))"
proof -
  let ?k = "account_key (u_id u)"
  have split: "attempts cr ttl email (as @ bs) st =
      (let (rs1, st1) = attempts cr ttl email as st; (rs2, st2) = attempts cr ttl email bs st1 in (rs1 @ rs2, st2))" for as bs st
    by (induction as arbitrary: st) (auto split: prod.splits)
  obtain rs1 st1 where r1: "attempts cr ttl email as st = (rs1, st1)" by fastforce
  obtain r where l: "login cr ttl tok email pw ip ua now st1 = (r, st')" and rs: "rs = rs1 @ [r]"
    using assms(4) r1 by (auto simp: split split: prod.splits)
  have run: "user_by_email st1 (normalise_email email) = Some u" "k_failures (lock_or_default st1 ?k) = 4"
    "k_rounds (lock_or_default st1 ?k) = k_rounds l"
    using wrong_run [OF r1 _ assms(1)] assms(2,3,5,6) rs by (auto simp: account_failures_def)
  have w: "login cr ttl tok email pw ip ua now st1 = (Inl WrongPassword, st')" using l rs assms(6) by simp
  have "get_lock st' ?k = Some (account_failure now (lock_or_default st1 ?k))" by (rule login_wrong(1) [OF w run(1)])
  then have locked: "account_locked_until st' (u_id u) t = Some until"
    using run assms(7,8) by (simp add: account_locked_until_def locked_until_def account_failure_def
        account_failures_def Let_def)
  moreover have "user_by_email st' (normalise_email email) = Some u"
    using user_by_email_cong [of st' st1] login_failed_frame [OF w] run(1) by simp
  ultimately show ?thesis
    by (auto simp: login_def split: option.splits)
qed

lemma login_wrong_eq:
  assumes "user_by_email st (normalise_email email) = Some u" and "account_locked_until st (u_id u) now = None"
    and "\<not> u_disabled u" and "u_password_hash u = Some h" and "\<not> verify_password cr pw h"
  shows "login cr ttl tok email pw [] ua now st = (Inl WrongPassword, count_account_failure (u_id u) now st)"
  using assms by (simp add: login_def address_locked_until_def check_credentials_def count_address_failure_def Let_def)

definition demo_locks :: "nat \<Rightarrow> store" where
  "demo_locks n = put_lock (account_key ''u_1'') (lock_default\<lparr>k_failures := n\<rparr>) demo_accounts"

lemma demo_locks_login:
  assumes "pw \<noteq> ''right''" and "n < 4"
  shows "login demo_crypto ttl tok ''a@b.c'' pw [] ua now (demo_locks n) = (Inl WrongPassword, demo_locks (n + 1))"
    "login demo_crypto ttl tok ''a@b.c'' pw [] ua now demo_accounts = (Inl WrongPassword, demo_locks 1)"
proof -
  have u: "user_by_email (demo_locks n) ''a@b.c'' = Some demo_user"
    using demo_lookup by (simp add: demo_locks_def user_by_email_eq store_reads frame_reads)
  have twice: "put_lock k l (put_lock k l' st) = put_lock k l st" for k l l' st by (simp add: put_lock_def)
  have "lock_or_default (demo_locks n) (account_key ''u_1'') = lock_default\<lparr>k_failures := n\<rparr>"
    by (simp add: lock_or_default_def demo_locks_def store_reads)
  then have "count_account_failure ''u_1'' now (demo_locks n) = demo_locks (n + 1)"
    using assms(2) by (simp add: count_account_failure_def demo_locks_def twice account_failure_def account_failures_def Let_def)
  with login_wrong_eq [of "demo_locks n" "''a@b.c''" demo_user now "''right''" demo_crypto pw ttl tok ua] u assms(1)
  show "login demo_crypto ttl tok ''a@b.c'' pw [] ua now (demo_locks n) = (Inl WrongPassword, demo_locks (n + 1))"
    by (simp add: demo_email demo_user_fields account_locked_until_def locked_until_def demo_locks_def store_reads demo_crypto_def)
  show "login demo_crypto ttl tok ''a@b.c'' pw [] ua now demo_accounts = (Inl WrongPassword, demo_locks 1)"
    using assms(1) by (simp add: demo_login count_account_failure_def demo_locks_def lock_or_default_def demo_lookup
        account_failure_def account_failures_def Let_def)
qed

lemma demo_locks_fifth:
  "\<exists>st'. login demo_crypto ttl tok ''a@b.c'' ''wrong'' [] ua now (demo_locks 4) = (Inl WrongPassword, st')"
proof -
  have "user_by_email (demo_locks 4) ''a@b.c'' = Some demo_user"
    using demo_lookup by (simp add: demo_locks_def user_by_email_eq store_reads frame_reads)
  with login_wrong_eq [of "demo_locks 4" "''a@b.c''" demo_user now "''right''" demo_crypto "''wrong''" ttl tok ua]
  show ?thesis
    by (simp add: demo_email demo_user_fields account_locked_until_def locked_until_def demo_locks_def store_reads demo_crypto_def)
qed

theorem five_wrong_passwords_lock_witness:
  "\<exists>st'. account_locked_until st' ''u_1'' 900004 = Some 900005 \<and>
     fst (login demo_crypto 100 ''t'' ''a@b.c'' ''right'' [] [] 900004 st') \<noteq> Inr \<lparr>si_user = demo_user, si_session = ''t'', si_expires_ms = 900104\<rparr>"
proof -
  let ?attempt = "\<lambda>n. (''t'', ''wrong'', [], [], n) :: string \<times> string \<times> string \<times> string \<times> nat"
  obtain st' where five: "login demo_crypto 100 ''t'' ''a@b.c'' ''wrong'' [] [] 5 (demo_locks 4) = (Inl WrongPassword, st')"
    using demo_locks_fifth by blast
  have run: "attempts demo_crypto 100 ''a@b.c'' (map ?attempt [1, 2, 3, 4] @ [?attempt 5]) demo_accounts =
      ([Inl WrongPassword, Inl WrongPassword, Inl WrongPassword, Inl WrongPassword, Inl WrongPassword], st')"
    using five demo_locks_login(1) [of "''wrong''" 1] demo_locks_login(1) [of "''wrong''" 2]
      demo_locks_login(1) [of "''wrong''" 3] demo_locks_login(2) [of "''wrong''" 0] by (simp flip: numeral_2_eq_2)
  have "account_locked_until st' (u_id demo_user) 900004 = Some 900005 \<and>
    fst (login demo_crypto 100 ''t'' ''a@b.c'' ''right'' [] [] 900004 st')
      \<in> {Inl (AccountLocked 900005)} \<union> range (\<lambda>n. Inl (AddressLocked n))"
    by (rule five_wrong_passwords_lock [OF _ _ _ run, of demo_user lock_default])
       (simp_all add: demo_email demo_lookup demo_user_fields lock_or_default_def account_lock_ms_def)
  then show ?thesis by (auto simp: demo_user_fields)
qed

text \<open>Setting a password spends its one-time link: the link opens nothing any more, whenever it is tried,
  and the account, now unlocked, signs in with the new password from an address that is not locked.  Password
  verification accepts the password a hash was made from.\<close>

theorem set_password_spends_link:
  assumes "accounts_ok st" and "set_password cr ttl salt stoken token pw ip ua now st = (Inr s, st')"
    and "verify_password cr pw (hash_password cr salt pw)"
    and "normalise_email email = u_email (si_user s)" and "address_locked_until st ip' t = None"
  shows "invite_user cr st' token t = None \<and> invite_status cr st' token t = Dead \<and>
    (\<exists>e. set_password cr ttl salt' stoken' token pw' ip' ua' t st' = (Inl e, st')) \<and>
    (\<exists>s' st''. login cr ttl stoken' email pw ip' ua' t st' = (Inr s', st'') \<and> u_id (si_user s') = u_id (si_user s))"
proof -
  obtain u i where u: "invite_user cr st token now = Some u" and i: "get_invite st (key_of cr token) = Some i"
    and s: "si_user s = u\<lparr>u_password_hash := Some (hash_password cr salt pw), u_password_set_ms := Some now,
        u_last_login_ms := Some now\<rparr>"
    and st': "st' = put_session (key_of cr stoken) \<lparr>s_user = u_id u, s_created_ms = now, s_expires_ms = now + ttl,
        s_ip = ip, s_user_agent = take_chars 200 ua, s_revoked = False\<rparr>
        (unlock (u_id u) (put_user (si_user s) (put_invite (key_of cr token) (i\<lparr>iv_used_ms := Some now\<rparr>) st)))"
    using assms(2) by (auto simp: set_password_def start_session_def Let_def split: option.splits sum.splits)
  have used: "get_invite st' (key_of cr token) = Some (i\<lparr>iv_used_ms := Some now\<rparr>)"
    by (simp add: st' unlock_def store_reads)
  have nodis: "\<not> u_disabled u" using u by (auto simp: invite_user_def split: option.splits if_splits)
  have ok': "accounts_ok st'" using set_password_ok [OF assms(1)] assms(2) by (metis snd_conv)
  have look: "user_by_email st' (normalise_email email) = Some (si_user s)"
    unfolding user_by_email_iff [OF ok'] using assms(4) by (simp add: st' unlock_def store_reads s)
  have "get_lock st' (account_key (u_id (si_user s))) = None" by (simp add: st' unlock_def store_reads s)
  then have unlocked: "account_locked_until st' (u_id (si_user s)) t = None"
    by (simp add: account_locked_until_def locked_until_def)
  have "get_lock st' (ip_key ip') = get_lock st (ip_key ip')" by (simp add: st' unlock_def store_reads)
  then have addr: "address_locked_until st' ip' t = None"
    using assms(5) by (simp add: address_locked_until_def locked_until_def split: if_splits)
  have "\<exists>s' st''. login cr ttl stoken' email pw ip' ua' t st' = (Inr s', st'') \<and> u_id (si_user s') = u_id (si_user s)"
    using look unlocked addr nodis assms(3)
    by (simp add: login_def check_credentials_def start_session_def Let_def s)
  moreover have dead: "invite_user cr st' token t = None" "invite_status cr st' token t = Dead"
    by (simp_all add: invite_user_def invite_status_def used)
  ultimately show ?thesis by (simp add: set_password_def)
qed

definition demo_invited :: store where
  "demo_invited = put_invite ''link'' \<lparr>iv_user = ''u_1'', iv_created_ms = 0, iv_expires_ms = 10, iv_used_ms = None,
     iv_first_admin = False\<rparr> demo_accounts"

theorem set_password_spends_link_witness:
  "\<exists>s st'. set_password demo_crypto 100 [] ''tok'' ''link'' ''a long password'' [] [] 5 demo_invited = (Inr s, st') \<and>
     invite_user demo_crypto st' ''link'' 6 = None \<and>
     (\<exists>s' st''. login demo_crypto 100 ''tok2'' ''a@b.c'' ''a long password'' [] [] 6 st' = (Inr s', st'') \<and>
        u_id (si_user s') = u_id (si_user s))"
proof -
  have "char_count ''a long password'' = 15" by code_simp
  then have "password_acceptable demo_crypto ''a long password'' = Inr ()"
    by (simp add: password_acceptable_def is_common_password_def demo_crypto_def min_password_chars_def max_password_chars_def)
  moreover have "invite_user demo_crypto demo_invited ''link'' 5 = Some demo_user"
    "get_invite demo_invited (key_of demo_crypto ''link'') \<noteq> None"
    by (simp_all add: invite_user_def demo_invited_def store_reads demo_crypto_def demo_lookup demo_user_fields)
  ultimately obtain s st' where
    sp: "set_password demo_crypto 100 [] ''tok'' ''link'' ''a long password'' [] [] 5 demo_invited = (Inr s, st')"
    and s: "u_email (si_user s) = ''a@b.c''"
    by (auto simp: set_password_def start_session_def Let_def demo_user_fields)
  have "accounts_ok demo_invited" unfolding demo_invited_def by (rule put_invite_ok [OF demo_accounts_ok])
  from set_password_spends_link [OF this sp, of "''a@b.c''" "[]" 6 "[]" "''tok2''" "[]" "[]"] s sp show ?thesis
    by (auto simp: demo_crypto_def demo_email address_locked_until_def)
qed

lemma session_after_revoke:
  assumes "accounts_ok st" and "u_id u' = uid" and "get_user st' = get_user (put_user u' st)"
    and "get_session st' = get_session (snd (revoke_sessions uid (put_user u' st)))"
  shows "session cr st' sid t =
    (case session cr st sid t of Some (v, s) \<Rightarrow> if s_user s = uid then None else Some (v, s) | None \<Rightarrow> None)"
proof -
  have s: "get_session st' k = map_option (\<lambda>s. if s_user s = uid then s\<lparr>s_revoked := True\<rparr> else s) (get_session st k)" for k
    using tables_ok_writes(1) [OF accounts_okD(1) [OF assms(1)]]
    by (simp add: assms(4) revoke_sessions_session store_reads)
  show ?thesis
    by (cases "get_session st (key_of cr sid)")
       (auto simp: session_def s assms(2,3) store_reads split: option.splits if_splits)
qed

text \<open>(C19) A role change, a disabled account and a password reset each end every session of that account at once
  and leave every other account's sessions as they are.\<close>

theorem sessions_end_with_rights:
  assumes "accounts_ok st" and "get_user st uid = Some u"
    and "st' \<in> {snd (set_roles uid roles st), snd (set_disabled uid True st), snd (reset_password cr token uid now st)}"
  shows "session cr st' sid t =
    (case session cr st sid t of Some (v, s) \<Rightarrow> if s_user s = uid then None else Some (v, s) | None \<Rightarrow> None)"
proof -
  have uid: "u_id u = uid" using accounts_okD(2) [OF assms(1,2)] by simp
  consider "st' = snd (set_roles uid roles st)" | "st' = snd (set_disabled uid True st)"
    | "st' = snd (reset_password cr token uid now st)" using assms(3) by blast
  then show ?thesis
  proof cases
    case 1
    show ?thesis
      by (rule session_after_revoke [OF assms(1), of "u\<lparr>u_roles := roles\<rparr>"])
         (simp_all add: 1 uid set_roles_def assms(2) Let_def revoke_sessions_frame)
  next
    case 2
    show ?thesis
      by (rule session_after_revoke [OF assms(1), of "u\<lparr>u_disabled := True\<rparr>"])
         (simp_all add: 2 uid set_disabled_def assms(2) Let_def revoke_sessions_frame)
  next
    case 3
    show ?thesis
      by (rule session_after_revoke [OF assms(1), of "u\<lparr>u_password_hash := None, u_password_set_ms := None\<rparr>"])
         (simp_all add: 3 uid reset_password_def invite_def assms(2) Let_def revoke_sessions_frame frame_reads
            store_reads fun_eq_iff)
  qed
qed

theorem sessions_end_with_rights_witness:
  "let st = snd (start_session demo_crypto 100 ''tok'' demo_user [] [] 5 demo_accounts)
   in session demo_crypto st ''tok'' 6 \<noteq> None \<and> session demo_crypto (snd (set_roles ''u_1'' [Viewer] st)) ''tok'' 6 = None"
proof -
  define st where "st = snd (start_session demo_crypto 100 ''tok'' demo_user [] [] 5 demo_accounts)"
  have ok: "accounts_ok st"
    unfolding st_def by (simp add: start_session_def put_session_ok demo_accounts_ok)
  have u: "get_user st ''u_1'' = Some demo_user"
    by (simp add: st_def start_session_def store_reads demo_lookup)
  obtain s where s: "session demo_crypto st ''tok'' 6 = Some (demo_user, s)" "s_user s = ''u_1''"
    by (simp add: session_def st_def start_session_def store_reads demo_crypto_def demo_lookup demo_user_fields)
  from sessions_end_with_rights [OF ok u, of "snd (set_roles ''u_1'' [Viewer] st)" "[Viewer]" demo_crypto "[]" 0 "''tok''" 6] s
  show ?thesis by (simp add: Let_def flip: st_def)
qed

lemma kill_links_invite:
  assumes "distinct (map fst is)" and "\<forall>(k, i) \<in> set is. get_invite st k = Some i"
  shows "get_invite (kill_links now is st) k =
    (case map_of is k of
       Some i \<Rightarrow> Some (if iv_first_admin i \<and> iv_used_ms i = None then i\<lparr>iv_used_ms := Some now\<rparr> else i)
     | None \<Rightarrow> get_invite st k)"
  using assms
proof (induction now "is" st rule: kill_links.induct)
  case (2 now k' i "is" st)
  define st1 where "st1 = (if iv_first_admin i \<and> iv_used_ms i = None then put_invite k' (i\<lparr>iv_used_ms := Some now\<rparr>) st else st)"
  have own: "get_invite st1 k = (if k = k' then Some (if iv_first_admin i \<and> iv_used_ms i = None
      then i\<lparr>iv_used_ms := Some now\<rparr> else i) else get_invite st k)" for k
    using 2(3) by (auto simp: st1_def store_reads)
  have "\<forall>(k, i) \<in> set is. get_invite st1 k = Some i" using 2(2,3) by (force simp: own)
  then have "get_invite (kill_links now is st1) k = (case map_of is k of
       Some i \<Rightarrow> Some (if iv_first_admin i \<and> iv_used_ms i = None then i\<lparr>iv_used_ms := Some now\<rparr> else i)
     | None \<Rightarrow> get_invite st1 k)" using 2(1) [folded st1_def] 2(2) by simp
  moreover have "map_of is k' = None" using 2(2) by (simp add: map_of_eq_None_iff)
  ultimately show ?case by (auto simp: own st1_def [symmetric] split: option.splits)
qed simp

text \<open>The first administrator is made once.  Issuing a first-administrator link kills every earlier one, so
  only the newest opens; once one has been used there is an account, and every first-administrator link is refused
  and no new one is issued.\<close>

theorem first_admin_once:
  assumes "accounts_ok st"
  shows "(bootstrap_invite cr token now st = (Inr r, st1) \<and> key_of cr token' \<noteq> key_of cr token \<longrightarrow>
      (\<exists>e. accept_first_admin cr ttl uuid salt stok token' email name pw ip ua t st1 = (Inl e, st1))) \<and>
    (accept_first_admin cr ttl uuid salt stok token email name pw ip ua now st = (Inr s, st2) \<longrightarrow>
      u_roles (si_user s) = [Admin] \<and> get_user st2 (u_id (si_user s)) = Some (si_user s) \<and>
      (\<exists>e. accept_first_admin cr ttl uuid' salt stok token' email' name' pw' ip ua t st2 = (Inl e, st2)) \<and>
      (\<exists>e. bootstrap_invite cr token' t st2 = (Inl e, st2)))"
proof (intro conjI impI)
  assume b: "bootstrap_invite cr token now st = (Inr r, st1) \<and> key_of cr token' \<noteq> key_of cr token"
  have o: "ordered (invites st)" using accounts_okD(1) [OF assms] by (simp add: tables_ok_def)
  then have d: "distinct (map fst (invites st))" "\<forall>(k, i) \<in> set (invites st). get_invite st k = Some i"
    using ordered_distinct [OF o] ot.items_get [OF o] by (auto simp: keys_def get_invite_def)
  have "get_invite st1 (key_of cr token') =
      map_option (\<lambda>i. if iv_first_admin i \<and> iv_used_ms i = None then i\<lparr>iv_used_ms := Some now\<rparr> else i)
        (get_invite st (key_of cr token'))"
    using b kill_links_invite [OF d, of now "key_of cr token'"]
    by (auto simp: bootstrap_invite_def store_reads simp flip: get_invite_def split: if_splits option.splits)
  then show "\<exists>e. accept_first_admin cr ttl uuid salt stok token' email name pw ip ua t st1 = (Inl e, st1)"
    by (cases "get_invite st (key_of cr token')") (auto simp: accept_first_admin_def split: if_splits)
next
  assume a: "accept_first_admin cr ttl uuid salt stok token email name pw ip ua now st = (Inr s, st2)"
  then show "u_roles (si_user s) = [Admin]" "get_user st2 (u_id (si_user s)) = Some (si_user s)"
    by (auto simp: accept_first_admin_def start_session_def Let_def fresh_user_def store_reads
        split: option.splits sum.splits if_splits)
  then have "\<not> is_empty st2" using is_empty_get by fastforce
  then show "\<exists>e. accept_first_admin cr ttl uuid' salt stok token' email' name' pw' ip ua t st2 = (Inl e, st2)"
    "\<exists>e. bootstrap_invite cr token' t st2 = (Inl e, st2)"
    by (auto simp: accept_first_admin_def bootstrap_invite_def split: option.splits)
qed

theorem first_admin_once_witness:
  "\<exists>st1 e. bootstrap_invite demo_crypto ''new'' 5 store_empty = (Inr ''new'', st1) \<and>
     accept_first_admin demo_crypto 100 [] [] ''tok'' ''old'' ''a@b.c'' ''Ann'' ''a long password'' [] [] 6 st1 = (Inl e, st1)"
proof -
  obtain st1 where b: "bootstrap_invite demo_crypto ''new'' 5 store_empty = (Inr ''new'', st1)"
    by (simp add: bootstrap_invite_def is_empty_def store_users_def store_empty_def vals_def)
  moreover have "key_of demo_crypto ''old'' \<noteq> key_of demo_crypto ''new''" by (simp add: demo_crypto_def)
  ultimately show ?thesis
    using first_admin_once [OF store_empty_ok, of demo_crypto "''new''" 5 "''new''" st1 "''old''"] by blast
qed

end
