(* ===== verification/Versions.thy ===== *)
theory Versions
  imports Prelude
begin

text \<open>
  Version numbers and requirements: \<open>parse_semver\<close> and \<open>api_range_accepts\<close> of
  \<open>crates/localspace-core/src/manifest.rs\<close>, \<open>parse_version\<close>, \<open>valid_requirement\<close> and \<open>version_satisfies\<close> of
  \<open>crates/localspace-core/src/deps.rs\<close>.  A \<open>u32\<close> that does not fit reads as an error, and so as 0.
\<close>

section \<open>Reading versions\<close>

definition nth_piece :: "(string \<Rightarrow> string) \<Rightarrow> string list \<Rightarrow> nat \<Rightarrow> nat" where
  "nth_piece f ps i = (if i < length ps then (case parse_u32 (f (ps ! i)) of Some n \<Rightarrow> n | None \<Rightarrow> 0) else 0)"

definition parse_semver :: "string \<Rightarrow> nat \<times> nat \<times> nat" where
  "parse_semver s = (let ps = split_on (\<lambda>c. c = CHR ''.'') (trim s)
     in (nth_piece trim ps 0, nth_piece trim ps 1, nth_piece trim ps 2))"

definition parse_version :: "string \<Rightarrow> nat \<times> nat \<times> nat" where
  "parse_version s = (let ps = split_on (\<lambda>c. c = CHR ''.'') (trim s)
     in (nth_piece (\<lambda>x. x) ps 0, nth_piece (\<lambda>x. x) ps 1, nth_piece (\<lambda>x. x) ps 2))"

definition api_range_accepts :: "string \<Rightarrow> string \<Rightarrow> bool" where
  "api_range_accepts rng version =
     (let (v0, v1, v2) = parse_semver version; rng = trim rng
      in if rng = ''*'' then True
         else let (op, rest) = (case rng of
                    [] \<Rightarrow> (CHR ''^'', rng)
                  | c # cs \<Rightarrow> if c = CHR ''^'' \<or> c = CHR ''~'' \<or> c = CHR ''='' then (c, cs) else (CHR ''^'', rng));
                  (r0, r1, r2) = parse_semver rest
              in if op = CHR ''^'' then v0 = r0 \<and> (r1, r2) \<le> (v1, v2)
                 else if op = CHR ''~'' then v0 = r0 \<and> v1 = r1 \<and> r2 \<le> v2
                 else (v0, v1, v2) = (r0, r1, r2))"

definition version_satisfies :: "string \<Rightarrow> string \<Rightarrow> bool" where
  "version_satisfies req version = api_range_accepts req version"

definition valid_requirement :: "string \<Rightarrow> bool" where
  "valid_requirement req =
     (let r = trim req
      in if r = ''*'' then True
         else let body = dropWhile (\<lambda>c. c = CHR ''^'' \<or> c = CHR ''~'' \<or> c = CHR ''='') r
              in body \<noteq> [] \<and> list_all (\<lambda>p. p \<noteq> [] \<and> list_all is_ascii_digit p) (split_on (\<lambda>c. c = CHR ''.'') body))"

section \<open>Printed versions\<close>

definition show_version :: "nat \<Rightarrow> nat \<Rightarrow> nat \<Rightarrow> string" where
  "show_version a b c = show_nat a @ ''.'' @ show_nat b @ ''.'' @ show_nat c"

definition simple :: "char \<Rightarrow> bool" where
  "simple c \<longleftrightarrow> 33 \<le> code c \<and> code c < 128"

lemma chars_simple: "list_all simple s \<Longrightarrow> chars s = map (\<lambda>c. [c]) s"
  by (rule chars_ascii) (auto simp: simple_def list_all_iff)

lemma simple_not_white: "simple c \<Longrightarrow> \<not> is_white [c]"
  using white_first_byte [of c "[]"] by (auto simp: simple_def is_white_def white_space_def)

lemma trim_simple: "list_all simple s \<Longrightarrow> trim s = s"
proof (cases s rule: rev_cases)
  case (snoc t c)
  assume s: "list_all simple s"
  have "dropWhile is_white (map (\<lambda>c. [c]) s) = map (\<lambda>c. [c]) s"
    using s by (cases s) (auto simp: simple_not_white)
  moreover have "dropWhile is_white (rev (map (\<lambda>c. [c]) s)) = rev (map (\<lambda>c. [c]) s)"
    using s snoc by (auto simp: simple_not_white)
  ultimately show ?thesis using s by (simp add: trim_def chars_simple del: rev_map)
qed (simp add: trim_def)

lemma digit_simple: "is_ascii_digit c \<Longrightarrow> simple c" "is_ascii_digit c \<Longrightarrow> c \<noteq> CHR ''.''"
  by (auto simp: is_ascii_digit_def simple_def code_def)

lemma split_on_word: "list_all (\<lambda>c. \<not> p c) w \<Longrightarrow> split_on p w = [w]"
  "list_all (\<lambda>c. \<not> p c) w \<Longrightarrow> p d \<Longrightarrow> split_on p (w @ d # s) = w # split_on p s"
  by (induction w) auto

lemma show_nat_word: "list_all simple (show_nat n)" "list_all (\<lambda>c. c \<noteq> CHR ''.'') (show_nat n)"
  using show_nat_digits [of n] by (auto simp: list_all_iff digit_simple)

lemma parse_show_nat: "n < 4294967296 \<Longrightarrow> parse_unsigned 4294967296 (show_nat n) = Some n"
  using parse_show_padded [of n 4294967296 0] by (simp add: show_padded_def Let_def)

lemma split_show_version:
  "split_on (\<lambda>c. c = CHR ''.'') (show_version a b c) = [show_nat a, show_nat b, show_nat c]"
  by (simp add: show_version_def split_on_word show_nat_word)

lemma show_version_simple: "list_all simple (show_version a b c)"
  by (simp add: show_version_def show_nat_word simple_def code_def)

lemma parse_show_version:
  assumes "a < 2 ^ 32" "b < 2 ^ 32" "c < 2 ^ 32"
  shows "parse_semver (show_version a b c) = (a, b, c)" and "parse_version (show_version a b c) = (a, b, c)"
  using assms
  by (simp_all add: parse_semver_def parse_version_def Let_def trim_simple show_version_simple split_show_version
      nth_piece_def parse_show_nat show_nat_word)

lemma doubled_operator_misread:
  "valid_requirement ''^^1.2'' \<and> \<not> version_satisfies ''^^1.2'' ''1.2.0'' \<and> version_satisfies ''^^1.2'' ''0.5.0''"
proof -
  have t: "trim ''^^1.2'' = ''^^1.2''" "trim ''^1.2'' = ''^1.2''" "trim ''^1'' = ''^1''" "trim ''2'' = ''2''"
    by (rule trim_simple; code_simp)+
  have v: "''1.2.0'' = show_version 1 2 0" "''0.5.0'' = show_version 0 5 0" "''2'' = show_nat 2" by code_simp+
  have "\<not> is_ascii_digit (CHR ''^'')" by code_simp
  then have "parse_u32 ''^1'' = None" by (simp add: parse_unsigned_def)
  moreover have "split_on (\<lambda>c. c = CHR ''.'') ''^1.2'' = [''^1'', ''2'']" by code_simp
  ultimately have "parse_semver ''^1.2'' = (0, 2, 0)"
    using parse_show_nat [of 2, folded v(3)] by (simp add: parse_semver_def t nth_piece_def)
  moreover have "parse_semver ''1.2.0'' = (1, 2, 0)" "parse_semver ''0.5.0'' = (0, 5, 0)"
    unfolding v by (simp_all add: parse_show_version)
  moreover have "valid_requirement ''^^1.2''" unfolding valid_requirement_def t Let_def by code_simp
  ultimately show ?thesis by (simp add: version_satisfies_def api_range_accepts_def t Let_def)
qed

text \<open>On printed versions of three \<open>u32\<close> numbers the three operators mean what semantic versioning gives them here: a
  caret takes the same major version and nothing older, a tilde the same minor version and no older patch,
  and an equals sign that version alone; without an operator it is a caret.  A doubled operator is
  not one of them: such a requirement passes validation and is read as a caret on major version 0, so that it refuses the version it names.\<close>

theorem version_satisfies_spec:
  assumes "a < 2 ^ 32" "b < 2 ^ 32" "c < 2 ^ 32" "x < 2 ^ 32" "y < 2 ^ 32" "z < 2 ^ 32"
  shows "(version_satisfies (''^'' @ show_version a b c) (show_version x y z) \<longleftrightarrow> x = a \<and> (b, c) \<le> (y, z)) \<and>
    (version_satisfies (''~'' @ show_version a b c) (show_version x y z) \<longleftrightarrow> x = a \<and> y = b \<and> c \<le> z) \<and>
    (version_satisfies (''='' @ show_version a b c) (show_version x y z) \<longleftrightarrow> (x, y, z) = (a, b, c)) \<and>
    (version_satisfies (show_version a b c) (show_version x y z) \<longleftrightarrow> x = a \<and> (b, c) \<le> (y, z)) \<and>
    valid_requirement ''^^1.2'' \<and> \<not> version_satisfies ''^^1.2'' ''1.2.0'' \<and> version_satisfies ''^^1.2'' ''0.5.0''"
proof -
  obtain d s where s: "show_version a b c = d # s" "is_ascii_digit d"
    using show_nat_digits [of a] by (cases "show_nat a") (auto simp: show_version_def)
  then have "d \<noteq> CHR ''^''" "d \<noteq> CHR ''~''" "d \<noteq> CHR ''=''" "d \<noteq> CHR ''*''"
    by (auto simp: is_ascii_digit_def code_def)
  moreover have "trim (op # show_version a b c) = op # show_version a b c" if "simple op" for op
    using that show_version_simple by (intro trim_simple) simp
  moreover have "simple (CHR ''^'')" "simple (CHR ''~'')" "simple (CHR ''='')" by (simp_all add: simple_def code_def)
  ultimately show ?thesis
    using doubled_operator_misread parse_show_version [OF assms(1-3)] parse_show_version [OF assms(4-6)] s trim_simple [OF show_version_simple, of a b c]
    by (auto simp: version_satisfies_def api_range_accepts_def Let_def)
qed

theorem version_satisfies_spec_witness:
  "version_satisfies (''^'' @ show_version 1 2 3) (show_version 1 4 0) \<and>
   \<not> version_satisfies (''~'' @ show_version 1 2 3) (show_version 1 4 0)"
  using version_satisfies_spec [of 1 2 3 1 4 0] by simp

end
