(* ===== verification/Deps.thy ===== *)
theory Deps
  imports Versions Tables
begin

text \<open>
  Dependency resolution (\<open>crates/localspace-core/src/deps.rs\<close>): a breadth-first walk from a package over its
  dependencies, choosing one version per package, and its errors.  The resolver's local variables are the
  record \<open>rstate\<close>; \<open>chosen\<close> is a \<open>BTreeMap\<close>, an ordered table.

  The walk ends because a package enters the queue only with an entry in \<open>chosen\<close> that was not there before.
  The lemmas: what is resolved meets every requirement it should, with one version of each package to install.
\<close>

section \<open>Data\<close>

datatype package_kind = Harness | Library | Types | Template | ModelPack | Skill | Theme

record dependency =
  dp_id :: string
  dp_req :: "string option"
  dp_optional :: bool
  dp_interface :: bool

record candidate =
  cd_id :: string
  cd_version :: string
  cd_kind :: package_kind
  cd_provides :: "string list"
  cd_deps :: "dependency list"
  cd_path :: string
  cd_installed :: bool

record resolution =
  rs_install :: "(string \<times> string) list"
  rs_bindings :: "(string \<times> string) list"

datatype resolve_error =
    Missing string string string
  | Conflict string "string \<times> string" "string \<times> string"
  | NoProvider string string
  | Unknown string

fun resolve_error_text :: "resolve_error \<Rightarrow> string" where
  "resolve_error_text (Missing i req by) =
     ''`'' @ by @ ''` needs `'' @ i @ ''` '' @ req @ '', and no installed or offered package satisfies it''"
| "resolve_error_text (Conflict i (a, ar) (b, br)) =
     ''`'' @ i @ ''` cannot satisfy both `'' @ a @ ''` (wants '' @ ar @ '') and `'' @ b @ ''` (wants '' @ br
       @ ''); one version per package per environment''"
| "resolve_error_text (NoProvider i by) =
     ''`'' @ by @ ''` needs a provider of `'' @ i @ ''`, and nothing installed or offered provides it''"
| "resolve_error_text (Unknown i) = ''`'' @ i @ ''` is not among the candidates''"

section \<open>The walk\<close>

text \<open>\<open>chosen\<close>: package to the chosen version, who first asked, and with what requirement.\<close>

record rstate =
  chosen :: "(string, string \<times> string \<times> string) table"
  rorder :: "(string \<times> string) list"
  rbindings :: "(string \<times> string) list"
  rqueue :: "(string \<times> string) list"

definition preference :: "candidate \<Rightarrow> bool \<times> nat \<times> nat \<times> nat" where
  "preference c = (cd_installed c, parse_version (cd_version c))"

definition step_interface :: "candidate list \<Rightarrow> string \<Rightarrow> dependency \<Rightarrow> rstate \<Rightarrow> (resolve_error, rstate) result" where
  "step_interface cs dependent dep st =
     (case max_by_key preference (filter (\<lambda>c. dp_id dep \<in> set (cd_provides c)) cs) of
        Some p \<Rightarrow>
          if dp_id dep \<in> set (keys (rbindings st)) then Inr st
          else let st1 = st\<lparr>rbindings := rbindings st @ [(dp_id dep, cd_id p)]\<rparr>
               in if \<not> cd_installed p \<and> t_get (chosen st) (cd_id p) = None
                  then Inr (st1\<lparr>chosen := t_put (cd_id p) (cd_version p, dependent, ''provides '' @ dp_id dep) (chosen st),
                                rorder := rorder st @ [(cd_id p, cd_version p)],
                                rqueue := rqueue st @ [(cd_id p, cd_version p)]\<rparr>)
                  else Inr st1
      | None \<Rightarrow> if dp_optional dep then Inr st else Inl (NoProvider (dp_id dep) dependent))"

definition requirement :: "dependency \<Rightarrow> string" where
  "requirement dep = (case dp_req dep of Some r \<Rightarrow> r | None \<Rightarrow> ''*'')"

definition step_version :: "candidate list \<Rightarrow> string \<Rightarrow> dependency \<Rightarrow> rstate \<Rightarrow> (resolve_error, rstate) result" where
  "step_version cs dependent dep st =
     (let req = requirement dep
      in case t_get (chosen st) (dp_id dep) of
           Some (have, by, by_req) \<Rightarrow>
             if version_satisfies req have then Inr st
             else Inl (Conflict (dp_id dep) (by, by_req) (dependent, req))
         | None \<Rightarrow>
             (case max_by_key preference
                     (filter (\<lambda>c. cd_id c = dp_id dep \<and> version_satisfies req (cd_version c)) cs) of
                Some c \<Rightarrow>
                  (case List.find (\<lambda>x. cd_id x = dp_id dep \<and> cd_installed x \<and> \<not> version_satisfies req (cd_version x)) cs of
                     Some inst \<Rightarrow> Inl (Conflict (dp_id dep) (''installed'', ''='' @ cd_version inst) (dependent, req))
                   | None \<Rightarrow>
                       Inr (st\<lparr>chosen := t_put (dp_id dep) (cd_version c, dependent, req) (chosen st),
                               rorder := (if cd_installed c then rorder st else rorder st @ [(cd_id c, cd_version c)]),
                               rqueue := rqueue st @ [(cd_id c, cd_version c)]\<rparr>))
              | None \<Rightarrow> if dp_optional dep then Inr st else Inl (Missing (dp_id dep) req dependent)))"

definition step_dep :: "candidate list \<Rightarrow> string \<Rightarrow> dependency \<Rightarrow> rstate \<Rightarrow> (resolve_error, rstate) result" where
  "step_dep cs dependent dep st =
     (if dp_interface dep then step_interface cs dependent dep st else step_version cs dependent dep st)"

fun step_deps :: "candidate list \<Rightarrow> string \<Rightarrow> dependency list \<Rightarrow> rstate \<Rightarrow> (resolve_error, rstate) result" where
  "step_deps cs dependent [] st = Inr st"
| "step_deps cs dependent (d # ds) st = bind_result (step_dep cs dependent d st) (step_deps cs dependent ds)"

definition find_version :: "candidate list \<Rightarrow> string \<times> string \<Rightarrow> candidate option" where
  "find_version cs iv = List.find (\<lambda>c. cd_id c = fst iv \<and> cd_version c = snd iv) cs"

section \<open>The walk ends\<close>

definition open_ids :: "candidate list \<Rightarrow> rstate \<Rightarrow> nat" where
  "open_ids cs st = card {i \<in> cd_id ` set cs. t_get (chosen st) i = None}"

definition work :: "candidate list \<Rightarrow> rstate \<Rightarrow> nat" where
  "work cs st = 2 * open_ids cs st + length (rqueue st)"

lemma choose_work:
  assumes "t_get (chosen st) i = None" and "i \<in> cd_id ` set cs"
    and "chosen st' = t_put i v (chosen st)" and "length (rqueue st') \<le> length (rqueue st) + 1"
  shows "work cs st' \<le> work cs st"
proof -
  have "{j \<in> cd_id ` set cs. t_get (chosen st') j = None} = {j \<in> cd_id ` set cs. t_get (chosen st) j = None} - {i}"
    using assms(3) by (auto simp: table_simps split: if_splits)
  then have "open_ids cs st' = open_ids cs st - 1" and "0 < open_ids cs st"
    using assms(1,2) card_Diff_singleton [of i "{j \<in> cd_id ` set cs. t_get (chosen st) j = None}"]
    by (auto simp: open_ids_def card_gt_0_iff simp del: not_None_eq)
  with assms(4) show ?thesis by (simp add: work_def)
qed

lemma pick_in: "max_by_key f (filter P cs) = Some c \<Longrightarrow> c \<in> set cs \<and> P c"
  using max_by_key_SomeD(1) [of f "filter P cs" c] by simp

text \<open>A step that succeeds either leaves what is chosen, or chooses one candidate and queues it.\<close>

definition chooses :: "candidate list \<Rightarrow> candidate \<Rightarrow> string \<Rightarrow> string \<Rightarrow> rstate \<Rightarrow> rstate \<Rightarrow> bool" where
  "chooses cs c by req st st' \<longleftrightarrow> c \<in> set cs \<and> t_get (chosen st) (cd_id c) = None \<and>
     chosen st' = t_put (cd_id c) (cd_version c, by, req) (chosen st) \<and>
     rorder st' = (if cd_installed c then rorder st else rorder st @ [(cd_id c, cd_version c)]) \<and>
     rqueue st' = rqueue st @ [(cd_id c, cd_version c)]"

definition keeps :: "rstate \<Rightarrow> rstate \<Rightarrow> bool" where
  "keeps st st' \<longleftrightarrow> chosen st' = chosen st \<and> rorder st' = rorder st \<and> rqueue st' = rqueue st"

lemma step_interface_cases:
  assumes "step_interface cs dependent dep st = Inr st'"
  shows "(keeps st st' \<or> (\<exists>c req. chooses cs c dependent req st st')) \<and>
    ((\<exists>p \<in> set cs. dp_id dep \<in> set (cd_provides p)) \<or> dp_optional dep) \<and>
    (rbindings st' = rbindings st \<and> (dp_id dep \<in> set (keys (rbindings st)) \<or> dp_optional dep) \<or>
     (\<exists>p \<in> set cs. dp_id dep \<in> set (cd_provides p) \<and> rbindings st' = rbindings st @ [(dp_id dep, cd_id p)]))"
proof (cases "max_by_key preference (filter (\<lambda>c. dp_id dep \<in> set (cd_provides c)) cs)")
  case None
  with assms show ?thesis by (auto simp: step_interface_def keeps_def split: if_splits)
next
  case (Some p)
  then have p: "p \<in> set cs" "dp_id dep \<in> set (cd_provides p)" using pick_in [OF Some] by auto
  show ?thesis
  proof (cases "dp_id dep \<in> set (keys (rbindings st))")
    case True
    with assms Some p show ?thesis by (auto simp: step_interface_def keeps_def)
  next
    case False
    show ?thesis
    proof (cases "\<not> cd_installed p \<and> t_get (chosen st) (cd_id p) = None")
      case True
      with assms Some False p have "chooses cs p dependent (''provides '' @ dp_id dep) st st'"
        "rbindings st' = rbindings st @ [(dp_id dep, cd_id p)]"
        by (auto simp: step_interface_def chooses_def Let_def)
      with p show ?thesis by blast
    next
      case False
      with assms Some \<open>dp_id dep \<notin> _\<close> p show ?thesis by (auto simp: step_interface_def keeps_def Let_def)
    qed
  qed
qed

lemma step_version_cases:
  assumes "step_version cs dependent dep st = Inr st'"
  shows "rbindings st' = rbindings st \<and>
    (st' = st \<and> ((\<exists>v by r. t_get (chosen st) (dp_id dep) = Some (v, by, r) \<and> version_satisfies (requirement dep) v) \<or> dp_optional dep) \<or>
     (\<exists>c. chooses cs c dependent (requirement dep) st st' \<and> cd_id c = dp_id dep \<and>
          version_satisfies (requirement dep) (cd_version c)))"
proof (cases "t_get (chosen st) (dp_id dep)")
  case (Some x)
  obtain v w r where "x = (v, w, r)" by (cases x)
  with assms Some show ?thesis by (auto simp: step_version_def Let_def split: if_splits)
next
  case None
  let ?cs = "filter (\<lambda>c. cd_id c = dp_id dep \<and> version_satisfies (requirement dep) (cd_version c)) cs"
  show ?thesis
  proof (cases "max_by_key preference ?cs")
    case (Some c)
    then have "c \<in> set cs" "cd_id c = dp_id dep" "version_satisfies (requirement dep) (cd_version c)"
      using pick_in [OF Some] by auto
    with assms None Some show ?thesis
      by (auto simp: step_version_def Let_def chooses_def split: option.splits)
  qed (use assms None in \<open>auto simp: step_version_def Let_def split: if_splits\<close>)
qed

lemma step_dep_cases:
  assumes "step_dep cs dependent dep st = Inr st'"
  shows "keeps st st' \<or> (\<exists>c req. chooses cs c dependent req st st')"
proof (cases "dp_interface dep")
  case True
  with assms step_interface_cases [of cs dependent dep st st'] show ?thesis by (simp add: step_dep_def)
next
  case False
  with assms step_version_cases [of cs dependent dep st st'] show ?thesis
    by (auto simp: step_dep_def keeps_def)
qed

lemma step_dep_work: "step_dep cs dependent dep st = Inr st' \<Longrightarrow> work cs st' \<le> work cs st"
  using step_dep_cases [of cs dependent dep st st'] choose_work [of st _ cs st']
  by (fastforce simp: keeps_def chooses_def work_def open_ids_def)

lemma step_deps_work: "step_deps cs dependent ds st = Inr st' \<Longrightarrow> work cs st' \<le> work cs st"
proof (induction ds arbitrary: st)
  case (Cons d ds)
  then obtain st1 where "step_dep cs dependent d st = Inr st1" "step_deps cs dependent ds st1 = Inr st'"
    by (auto dest!: bind_result_Inr)
  with Cons.IH step_dep_work show ?case by (meson le_trans)
qed simp

function (sequential) walk :: "candidate list \<Rightarrow> rstate \<Rightarrow> (resolve_error, rstate) result" where
  "walk cs st =
     (case rqueue st of
        [] \<Rightarrow> Inr st
      | iv # q \<Rightarrow>
          (case find_version cs iv of
             None \<Rightarrow> walk cs (st\<lparr>rqueue := q\<rparr>)
           | Some dc \<Rightarrow>
               (case step_deps cs (fst iv) (cd_deps dc) (st\<lparr>rqueue := q\<rparr>) of
                  Inl e \<Rightarrow> Inl e
                | Inr st' \<Rightarrow> walk cs st')))"
  by pat_completeness auto
termination
proof (relation "measure (\<lambda>(cs, st). work cs st)")
  fix cs st iv q dc st'
  assume "rqueue st = iv # q" and s: "step_deps cs (fst iv) (cd_deps dc) (st\<lparr>rqueue := q\<rparr>) = Inr st'"
  then show "((cs, st'), cs, st) \<in> measure (\<lambda>(cs, st). work cs st)"
    using step_deps_work [OF s] by (simp add: work_def open_ids_def)
qed (auto simp: work_def open_ids_def)

declare walk.simps [simp del]

definition start_state :: "candidate \<Rightarrow> rstate" where
  "start_state c = \<lparr>chosen = [], rorder = [], rbindings = [], rqueue = [(cd_id c, cd_version c)]\<rparr>"

definition resolve :: "string \<Rightarrow> candidate list \<Rightarrow> (resolve_error, resolution) result" where
  "resolve root cs =
     (case List.find (\<lambda>c. cd_id c = root) cs of
        None \<Rightarrow> Inl (Unknown root)
      | Some c \<Rightarrow> bind_result (walk cs (start_state c))
          (\<lambda>st. Inr \<lparr>rs_install = rev (rorder st), rs_bindings = rbindings st\<rparr>))"

section \<open>What the walk keeps\<close>

definition met :: "candidate list \<Rightarrow> rstate \<Rightarrow> dependency \<Rightarrow> bool" where
  "met cs st dep \<longleftrightarrow> dp_optional dep \<or>
     (if dp_interface dep then dp_id dep \<in> set (keys (rbindings st))
      else \<exists>v w r. t_get (chosen st) (dp_id dep) = Some (v, w, r) \<and> version_satisfies (requirement dep) v)"

text \<open>Every chosen version is a candidate's, either installed or to be installed, and is done or still queued.\<close>

definition rinv :: "candidate list \<Rightarrow> (string \<times> string) set \<Rightarrow> rstate \<Rightarrow> bool" where
  "rinv cs D st \<longleftrightarrow>
     (\<forall>i v w r. t_get (chosen st) i = Some (v, w, r) \<longrightarrow> (i, v) \<in> D \<union> set (rqueue st) \<and>
        (\<exists>c \<in> set cs. cd_id c = i \<and> cd_version c = v \<and> (cd_installed c \<or> (i, v) \<in> set (rorder st)))) \<and>
     (\<forall>(i, v) \<in> set (rorder st). (\<exists>w r. t_get (chosen st) i = Some (v, w, r)) \<and>
        (\<exists>c \<in> set cs. cd_id c = i \<and> cd_version c = v \<and> \<not> cd_installed c)) \<and>
     distinct (map fst (rorder st)) \<and>
     (\<forall>(i, p) \<in> set (rbindings st). \<exists>c \<in> set cs. cd_id c = p \<and> i \<in> set (cd_provides c))"

lemma rinvD:
  assumes "rinv cs D st"
  shows "t_get (chosen st) i = Some (v, w, r) \<Longrightarrow> (i, v) \<in> D \<union> set (rqueue st)"
    and "t_get (chosen st) i = Some (v, w, r) \<Longrightarrow>
      \<exists>c \<in> set cs. cd_id c = i \<and> cd_version c = v \<and> (cd_installed c \<or> (i, v) \<in> set (rorder st))"
    and "(i, v) \<in> set (rorder st) \<Longrightarrow> \<exists>w r. t_get (chosen st) i = Some (v, w, r)"
    and "(i, v) \<in> set (rorder st) \<Longrightarrow> \<exists>c \<in> set cs. cd_id c = i \<and> cd_version c = v \<and> \<not> cd_installed c"
    and "distinct (map fst (rorder st))"
    and "(i, p) \<in> set (rbindings st) \<Longrightarrow> \<exists>c \<in> set cs. cd_id c = p \<and> i \<in> set (cd_provides c)"
proof -
  show "t_get (chosen st) i = Some (v, w, r) \<Longrightarrow> (i, v) \<in> D \<union> set (rqueue st)"
    "t_get (chosen st) i = Some (v, w, r) \<Longrightarrow>
      \<exists>c \<in> set cs. cd_id c = i \<and> cd_version c = v \<and> (cd_installed c \<or> (i, v) \<in> set (rorder st))"
    "distinct (map fst (rorder st))" using assms unfolding rinv_def by blast+
  have "\<forall>(i, v) \<in> set (rorder st). (\<exists>w r. t_get (chosen st) i = Some (v, w, r)) \<and>
      (\<exists>c \<in> set cs. cd_id c = i \<and> cd_version c = v \<and> \<not> cd_installed c)"
    and "\<forall>(i, p) \<in> set (rbindings st). \<exists>c \<in> set cs. cd_id c = p \<and> i \<in> set (cd_provides c)"
    using assms by (simp_all add: rinv_def)
  then show "(i, v) \<in> set (rorder st) \<Longrightarrow> \<exists>w r. t_get (chosen st) i = Some (v, w, r)"
    "(i, v) \<in> set (rorder st) \<Longrightarrow> \<exists>c \<in> set cs. cd_id c = i \<and> cd_version c = v \<and> \<not> cd_installed c"
    "(i, p) \<in> set (rbindings st) \<Longrightarrow> \<exists>c \<in> set cs. cd_id c = p \<and> i \<in> set (cd_provides c)"
    by (auto dest: bspec)
qed

lemma rinv_chooses:
  assumes "rinv cs D st" and "chooses cs c w req st st'"
    and "\<forall>(i, p) \<in> set (rbindings st'). \<exists>c \<in> set cs. cd_id c = p \<and> i \<in> set (cd_provides c)"
  shows "rinv cs D st'"
proof -
  have "cd_id c \<notin> fst ` set (rorder st)"
    using assms(1,2) by (force simp: rinv_def chooses_def)
  moreover have "(i, v) \<in> set (rorder st) \<Longrightarrow> i \<noteq> cd_id c" for i v using calculation by force
  ultimately show ?thesis
    using assms unfolding rinv_def chooses_def
    by (auto simp: table_simps split: if_splits)
qed

lemma rinv_keeps:
  assumes "rinv cs D st" and "keeps st st'"
    and "\<forall>(i, p) \<in> set (rbindings st'). \<exists>c \<in> set cs. cd_id c = p \<and> i \<in> set (cd_provides c)"
  shows "rinv cs D st'"
  using assms by (simp add: rinv_def keeps_def)

lemma step_dep_rinv:
  assumes "step_dep cs dependent dep st = Inr st'" and "rinv cs D st"
  shows "rinv cs D st'"
proof -
  have "\<forall>(i, p) \<in> set (rbindings st). \<exists>c \<in> set cs. cd_id c = p \<and> i \<in> set (cd_provides c)"
    using assms(2) by (simp add: rinv_def)
  then have b: "\<forall>(i, p) \<in> set (rbindings st'). \<exists>c \<in> set cs. cd_id c = p \<and> i \<in> set (cd_provides c)"
    using assms(1) step_interface_cases [of cs dependent dep st st'] step_version_cases [of cs dependent dep st st']
    by (cases "dp_interface dep") (auto simp: step_dep_def)
  from step_dep_cases [OF assms(1)] show ?thesis
    using rinv_keeps [OF assms(2) _ b] rinv_chooses [OF assms(2) _ b] by blast
qed

lemma step_dep_mono:
  assumes "step_dep cs dependent dep st = Inr st'" and "met cs st d"
  shows "met cs st' d"
proof -
  have "set (rbindings st) \<subseteq> set (rbindings st')"
    using assms(1) step_interface_cases [of cs dependent dep st st'] step_version_cases [of cs dependent dep st st']
    by (cases "dp_interface dep") (auto simp: step_dep_def)
  moreover have "t_get (chosen st) i = Some x \<Longrightarrow> t_get (chosen st') i = Some x" for i x
    using step_dep_cases [OF assms(1)] by (auto simp: keeps_def chooses_def table_simps)
  ultimately show ?thesis using assms(2) by (fastforce simp: met_def keys_def)
qed

lemma step_dep_met:
  assumes "step_dep cs dependent dep st = Inr st'"
  shows "met cs st' dep"
proof (cases "dp_interface dep")
  case True
  with assms step_interface_cases [of cs dependent dep st st'] show ?thesis
    by (auto simp: step_dep_def met_def keys_def)
next
  case False
  with assms step_version_cases [of cs dependent dep st st'] show ?thesis
    by (auto simp: step_dep_def met_def chooses_def table_simps)
qed

lemma step_deps_spec:
  assumes "step_deps cs dependent ds st = Inr st'" and "rinv cs D st"
  shows "rinv cs D st' \<and> set (rqueue st) \<subseteq> set (rqueue st') \<and> (\<forall>d. met cs st d \<longrightarrow> met cs st' d) \<and> (\<forall>d \<in> set ds. met cs st' d)"
  using assms
proof (induction ds arbitrary: st)
  case (Cons d ds)
  then obtain st1 where s: "step_dep cs dependent d st = Inr st1" "step_deps cs dependent ds st1 = Inr st'"
    by (auto dest!: bind_result_Inr)
  from Cons.IH [OF s(2) step_dep_rinv [OF s(1) Cons.prems(2)]] step_dep_mono [OF s(1)] step_dep_met [OF s(1)]
    step_dep_cases [OF s(1)]
  show ?case by (auto simp: keeps_def chooses_def)
qed simp

definition all_met :: "candidate list \<Rightarrow> (string \<times> string) set \<Rightarrow> rstate \<Rightarrow> bool" where
  "all_met cs D st \<longleftrightarrow> (\<forall>iv \<in> D. \<forall>dc d. find_version cs iv = Some dc \<longrightarrow> d \<in> set (cd_deps dc) \<longrightarrow> met cs st d)"

lemma met_queue [simp]: "met cs (st\<lparr>rqueue := q\<rparr>) d = met cs st d"
  by (simp add: met_def)

lemma walk_spec:
  assumes "walk cs st = Inr st'" and "rinv cs D st" and "all_met cs D st"
  shows "\<exists>D'. D \<union> set (rqueue st) \<subseteq> D' \<and> rinv cs D' st' \<and> rqueue st' = [] \<and> all_met cs D' st'"
  using assms
proof (induction cs st arbitrary: D rule: walk.induct)
  case (1 cs st)
  show ?case
  proof (cases "rqueue st")
    case Nil
    with "1.prems" have "st' = st" by (simp add: walk.simps [of cs st])
    with Nil "1.prems" show ?thesis by (intro exI [of _ D]) auto
  next
    case (Cons iv q)
    let ?st = "st\<lparr>rqueue := q\<rparr>" and ?D = "insert iv D"
    have inv: "rinv cs ?D ?st" using "1.prems"(2) Cons by (auto simp: rinv_def)
    show ?thesis
    proof (cases "find_version cs iv")
      case None
      have w: "walk cs ?st = Inr st'" using "1.prems"(1) Cons None by (simp add: walk.simps [of cs st])
      have "all_met cs ?D ?st" using "1.prems"(3) None by (simp add: all_met_def)
      then obtain D' where "?D \<union> set (rqueue ?st) \<subseteq> D'" "rinv cs D' st'" "rqueue st' = []" "all_met cs D' st'"
        using "1.IH"(1) [OF Cons None w inv] by blast
      with Cons show ?thesis by (intro exI [of _ D']) auto
    next
      case (Some dc)
      then obtain st1 where s: "step_deps cs (fst iv) (cd_deps dc) ?st = Inr st1" and w: "walk cs st1 = Inr st'"
        using "1.prems"(1) Cons by (auto simp: walk.simps [of cs st] split: sum.splits)
      note spec = step_deps_spec [OF s inv]
      have "all_met cs ?D st1"
        using "1.prems"(3) spec Some by (simp add: all_met_def)
      then obtain D' where "?D \<union> set (rqueue st1) \<subseteq> D'" "rinv cs D' st'" "rqueue st' = []" "all_met cs D' st'"
        using "1.IH"(2) [OF Cons Some s w conjunct1 [OF spec]] by blast
      with Cons spec show ?thesis by (intro exI [of _ D']) auto
    qed
  qed
qed

section \<open>Properties\<close>

text \<open>What a resolution gives a dependency: a provider that is bound, or a version that is installed or will be.\<close>

definition provided :: "candidate list \<Rightarrow> resolution \<Rightarrow> dependency \<Rightarrow> bool" where
  "provided cs r dep \<longleftrightarrow>
     (if dp_interface dep
      then \<exists>p. (dp_id dep, p) \<in> set (rs_bindings r) \<and> (\<exists>c \<in> set cs. cd_id c = p \<and> dp_id dep \<in> set (cd_provides c))
      else \<exists>c \<in> set cs. cd_id c = dp_id dep \<and> version_satisfies (requirement dep) (cd_version c) \<and>
             (cd_installed c \<or> (cd_id c, cd_version c) \<in> set (rs_install r)))"

text \<open>(C23) A resolution installs at most one version of each package, only offered versions that are not installed, and
  it leaves no requirement open: for the package asked for and for everything it installs, each dependency that is
  not optional has a bound provider, or a version within its range that is installed or among those to install.\<close>

theorem resolve_sound:
  assumes "resolve root cs = Inr r"
  shows "distinct (map fst (rs_install r)) \<and>
    (\<forall>(i, v) \<in> set (rs_install r). \<exists>c \<in> set cs. cd_id c = i \<and> cd_version c = v \<and> \<not> cd_installed c) \<and>
    (\<exists>c. List.find (\<lambda>c. cd_id c = root) cs = Some c \<and>
       (\<forall>iv \<in> insert (cd_id c, cd_version c) (set (rs_install r)).
          \<forall>dc d. find_version cs iv = Some dc \<longrightarrow> d \<in> set (cd_deps dc) \<longrightarrow> \<not> dp_optional d \<longrightarrow> provided cs r d))"
proof -
  obtain c st where c: "List.find (\<lambda>c. cd_id c = root) cs = Some c" and w: "walk cs (start_state c) = Inr st"
    and r: "r = \<lparr>rs_install = rev (rorder st), rs_bindings = rbindings st\<rparr>"
    using assms by (auto simp: resolve_def split: option.splits dest!: bind_result_Inr)
  have i0: "rinv cs {} (start_state c)" and a0: "all_met cs {} (start_state c)"
    by (simp_all add: rinv_def all_met_def start_state_def)
  from walk_spec [OF w i0 a0] obtain D where D: "{} \<union> set (rqueue (start_state c)) \<subseteq> D" "rinv cs D st"
    "rqueue st = []" "all_met cs D st"
    by (elim exE conjE)
  have in_D: "insert (cd_id c, cd_version c) (set (rs_install r)) \<subseteq> D"
  proof -
    have "(i, v) \<in> D" if o: "(i, v) \<in> set (rorder st)" for i v
    proof -
      obtain w q where "t_get (chosen st) i = Some (v, w, q)" using rinvD(3) [OF D(2) o] by blast
      from rinvD(1) [OF D(2) this] D(3) show ?thesis by simp
    qed
    with D(1) show ?thesis by (auto simp: r start_state_def)
  qed
  have "provided cs r d" if "met cs st d" "\<not> dp_optional d" for d
  proof (cases "dp_interface d")
    case True
    with that obtain p where "(dp_id d, p) \<in> set (rbindings st)" by (auto simp: met_def keys_def)
    with rinvD(6) [OF D(2) this] True show ?thesis by (auto simp: provided_def r)
  next
    case False
    with that obtain v w q where "t_get (chosen st) (dp_id d) = Some (v, w, q)" "version_satisfies (requirement d) v"
      by (auto simp: met_def)
    with rinvD(2) [OF D(2) this(1)] False show ?thesis by (auto simp: provided_def r)
  qed
  moreover have "met cs st d" if "iv \<in> D" "find_version cs iv = Some dc" "d \<in> set (cd_deps dc)" for iv dc d
    using D(4) that by (auto simp: all_met_def)
  moreover have "distinct (map fst (rs_install r))" using rinvD(5) [OF D(2)] by (simp add: r rev_map [symmetric])
  moreover have "\<forall>(i, v) \<in> set (rs_install r). \<exists>c \<in> set cs. cd_id c = i \<and> cd_version c = v \<and> \<not> cd_installed c"
    using rinvD(4) [OF D(2)] by (auto simp: r)
  ultimately show ?thesis using in_D c by blast
qed

definition demo_dep :: "string \<Rightarrow> dependency" where
  "demo_dep i = \<lparr>dp_id = i, dp_req = Some ''*'', dp_optional = False, dp_interface = False\<rparr>"

definition demo_candidate :: "string \<Rightarrow> string list \<Rightarrow> candidate" where
  "demo_candidate i ds = \<lparr>cd_id = i, cd_version = ''1'', cd_kind = Harness, cd_provides = [],
     cd_deps = map demo_dep ds, cd_path = [], cd_installed = False\<rparr>"

text \<open>A package that needs \<open>a\<close> and \<open>b\<close>, where \<open>b\<close> needs \<open>a\<close> too.\<close>

definition demo_candidates :: "candidate list" where
  "demo_candidates = [demo_candidate ''root'' [''a'', ''b''], demo_candidate ''a'' [], demo_candidate ''b'' [''a'']]"

lemma star_satisfies [simp]: "version_satisfies ''*'' v"
proof -
  have "trim ''*'' = ''*''" by code_simp
  then show ?thesis by (simp add: version_satisfies_def api_range_accepts_def split: prod.splits)
qed

lemma walk_next:
  "rqueue st = iv # q \<Longrightarrow> find_version cs iv = Some dc \<Longrightarrow>
   step_deps cs (fst iv) (cd_deps dc) (st\<lparr>rqueue := q\<rparr>) = Inr st' \<Longrightarrow> walk cs st = walk cs st'"
  "rqueue st = [] \<Longrightarrow> walk cs st = Inr st"
  by (simp_all add: walk.simps [of cs st])

lemma demo_resolve: "resolve ''root'' demo_candidates = Inr \<lparr>rs_install = [(''b'', ''1''), (''a'', ''1'')], rs_bindings = []\<rparr>"
proof -
  note defs = demo_candidates_def demo_candidate_def demo_dep_def find_version_def step_dep_def step_version_def
    requirement_def max_by_key_def Let_def start_state_def
  let ?c = "[(''a'', ''1'', ''root'', ''*''), (''b'', ''1'', ''root'', ''*'')]" and ?o = "[(''a'', ''1''), (''b'', ''1'')]"
  have f: "find_version demo_candidates (''root'', ''1'') = Some (demo_candidate ''root'' [''a'', ''b''])"
    "find_version demo_candidates (''a'', ''1'') = Some (demo_candidate ''a'' [])"
    "find_version demo_candidates (''b'', ''1'') = Some (demo_candidate ''b'' [''a''])"
    by (simp_all add: find_version_def demo_candidates_def demo_candidate_def)
  have "walk demo_candidates (start_state (demo_candidate ''root'' [''a'', ''b''])) =
      walk demo_candidates \<lparr>chosen = ?c, rorder = ?o, rbindings = [], rqueue = ?o\<rparr>"
    by (rule walk_next(1) [OF _ f(1)]) (simp_all add: defs)
  also have "\<dots> = walk demo_candidates \<lparr>chosen = ?c, rorder = ?o, rbindings = [], rqueue = [(''b'', ''1'')]\<rparr>"
    by (rule walk_next(1) [OF _ f(2)]) (simp_all add: defs)
  also have "\<dots> = walk demo_candidates \<lparr>chosen = ?c, rorder = ?o, rbindings = [], rqueue = []\<rparr>"
    by (rule walk_next(1) [OF _ f(3)]) (simp_all add: defs)
  also have "\<dots> = Inr \<lparr>chosen = ?c, rorder = ?o, rbindings = [], rqueue = []\<rparr>"
    by (rule walk_next(2)) simp
  finally show ?thesis
    by (simp add: resolve_def) (simp add: demo_candidates_def demo_candidate_def)
qed

theorem resolve_sound_witness:
  "distinct [''b'', ''a''] \<and> provided demo_candidates \<lparr>rs_install = [(''b'', ''1''), (''a'', ''1'')], rs_bindings = []\<rparr> (demo_dep ''a'')"
proof -
  have "find_version demo_candidates (''b'', ''1'') = Some (demo_candidate ''b'' [''a''])"
    by (simp add: find_version_def demo_candidates_def demo_candidate_def)
  moreover have "demo_dep ''a'' \<in> set (cd_deps (demo_candidate ''b'' [''a'']))" "\<not> dp_optional (demo_dep ''a'')"
    by (simp_all add: demo_candidate_def demo_dep_def)
  ultimately show ?thesis using resolve_sound [OF demo_resolve] by auto
qed

text \<open>The install list can put a package before one it depends on: with a package that needs \<open>a\<close> and
  \<open>b\<close>, where \<open>b\<close> needs \<open>a\<close>, the list is \<open>b\<close>, then \<open>a\<close>.\<close>

theorem install_order_not_topological:
  "\<exists>cs r dc. resolve ''root'' cs = Inr r \<and> rs_install r = [(''b'', ''1''), (''a'', ''1'')] \<and>
     find_version cs (''b'', ''1'') = Some dc \<and> ''a'' \<in> dp_id ` set (cd_deps dc)"
proof (intro exI conjI)
  show "resolve ''root'' demo_candidates = Inr \<lparr>rs_install = [(''b'', ''1''), (''a'', ''1'')], rs_bindings = []\<rparr>"
    by (rule demo_resolve)
  show "find_version demo_candidates (''b'', ''1'') = Some (demo_candidate ''b'' [''a''])"
    by (simp add: find_version_def demo_candidates_def demo_candidate_def)
qed (simp_all add: demo_candidate_def demo_dep_def)

end
