(* ===== verification/Chats.thy ===== *)
theory Chats
  imports Database
begin

text \<open>
  The conversations of one person in one workspace (\<open>crates/localspace-core/src/conversations.rs\<close>): the working set in
  memory, written through to the database on every change.  The set is the record \<open>chats\<close>, which carries
  the database it writes to; a write that fails is only logged by the source and is not modelled.

  The lemmas: there is always a current conversation, ids stay distinct, and what the set holds with a message in
  it is what the database holds.
\<close>

section \<open>Titles\<close>

definition ellipsis :: string where
  "ellipsis = map char_of [226, 128, 166 :: nat]"

definition new_chat :: string where
  "new_chat = ''New chat''"

definition title_from :: "string \<Rightarrow> string" where
  "title_from text =
     (let line = trim (case text_lines text of [] \<Rightarrow> [] | l # _ \<Rightarrow> l);
          title = take_chars 60 line @ (if char_count line > 60 then ellipsis else [])
      in if title = [] then new_chat else title)"

definition titled :: "conversation \<Rightarrow> conversation" where
  "titled c = (if cv_title c = new_chat
     then (case List.find (\<lambda>m. cm_role m = RUser) (cv_messages c) of
             Some m \<Rightarrow> c\<lparr>cv_title := title_from (cm_content m)\<rparr> | None \<Rightarrow> c)
     else c)"

section \<open>The working set\<close>

record chats =
  current :: string
  convs :: "conversation list"
  db :: store
  ch_user :: string
  ch_workspace :: string

definition persist :: "conversation \<Rightarrow> chats \<Rightarrow> chats" where
  "persist c s = (if cv_messages c = [] then s else s\<lparr>db := put_conversation (ch_user s) (ch_workspace s) c (db s)\<rparr>)"

definition set_current :: "string \<Rightarrow> chats \<Rightarrow> chats" where
  "set_current i s = s\<lparr>current := i, db := set_current_conversation (ch_user s) (ch_workspace s) i (db s)\<rparr>"

definition current_index :: "chats \<Rightarrow> nat option" where
  "current_index s = position (\<lambda>c. cv_id c = current s) (convs s)"

definition current_chat :: "chats \<Rightarrow> conversation option" where
  "current_chat s = map_option (\<lambda>i. convs s ! i) (current_index s)"

definition fresh_chat :: "nat \<Rightarrow> chats \<Rightarrow> conversation" where
  "fresh_chat now s = \<lparr>cv_id = ''c_'' @ show_nat now @ ''_'' @ show_nat (length (convs s) + 1), cv_title = new_chat,
     cv_created_ms = now, cv_updated_ms = now, cv_messages = []\<rparr>"

definition add_chat :: "conversation \<Rightarrow> chats \<Rightarrow> chats" where
  "add_chat c s = set_current (cv_id c) ((persist c s)\<lparr>convs := convs s @ [c]\<rparr>)"

definition start :: "nat \<Rightarrow> chats \<Rightarrow> conversation \<times> chats" where
  "start now s =
     (case current_chat s of
        Some c \<Rightarrow> if cv_messages c = [] then (c, s) else (fresh_chat now s, add_chat (fresh_chat now s) s)
      | None \<Rightarrow> (fresh_chat now s, add_chat (fresh_chat now s) s))"

definition by_age :: "conversation list \<Rightarrow> conversation list" where
  "by_age cs = sort_key (\<lambda>c. (cv_created_ms c, cv_id c)) cs"

definition last_id :: "conversation list \<Rightarrow> string" where
  "last_id cs = (if cs = [] then [] else cv_id (last cs))"

definition load :: "store \<Rightarrow> string \<Rightarrow> string \<Rightarrow> nat \<Rightarrow> chats" where
  "load d user workspace now =
     (let s = \<lparr>current = (case current_conversation d user workspace of Some i \<Rightarrow> i | None \<Rightarrow> []),
               convs = by_age (conversations_of d user workspace), db = d, ch_user = user, ch_workspace = workspace\<rparr>;
          s1 = (if convs s = [] then snd (start now s) else s)
      in if current_index s1 = None then set_current (last_id (convs s1)) s1 else s1)"

definition record_messages :: "chat_message list \<Rightarrow> nat \<Rightarrow> chats \<Rightarrow> chats" where
  "record_messages ms now s =
     (case current_index s of
        None \<Rightarrow> s
      | Some i \<Rightarrow>
          let c = convs s ! i;
              changed = (length (cv_messages c) \<noteq> length ms \<or> (cv_messages c = [] \<and> ms \<noteq> []));
              c' = titled ((if changed then c\<lparr>cv_updated_ms := now\<rparr> else c)\<lparr>cv_messages := ms\<rparr>)
          in persist c' (s\<lparr>convs := (convs s)[i := c']\<rparr>))"

definition messages_of :: "chats \<Rightarrow> string \<Rightarrow> chat_message list option" where
  "messages_of s i = map_option cv_messages (List.find (\<lambda>c. cv_id c = i) (convs s))"

definition update_chat :: "string \<Rightarrow> nat \<Rightarrow> (chat_message list \<Rightarrow> chat_message list) \<Rightarrow> chats \<Rightarrow> bool \<times> chats" where
  "update_chat cid now change s =
     (case position (\<lambda>c. cv_id c = cid) (convs s) of
        None \<Rightarrow> (False, s)
      | Some i \<Rightarrow>
          let c = convs s ! i;
              c' = titled (c\<lparr>cv_messages := change (cv_messages c), cv_updated_ms := now\<rparr>)
          in (True, persist c' (s\<lparr>convs := (convs s)[i := c']\<rparr>)))"

definition select :: "string \<Rightarrow> chats \<Rightarrow> conversation option \<times> chats" where
  "select cid s =
     (case position (\<lambda>c. cv_id c = cid) (convs s) of
        None \<Rightarrow> (None, s)
      | Some i \<Rightarrow> (Some (convs s ! i), set_current cid s))"

definition delete :: "string \<Rightarrow> nat \<Rightarrow> chats \<Rightarrow> bool \<times> chats" where
  "delete cid now s =
     (let rest = filter (\<lambda>c. cv_id c \<noteq> cid) (convs s)
      in if length rest = length (convs s) then (False, s)
         else let s1 = s\<lparr>convs := rest, db := snd (delete_conversation (ch_user s) (ch_workspace s) cid (db s))\<rparr>
              in (True, if current s1 \<noteq> cid then s1
                        else (case max_by_key cv_updated_ms rest of
                                Some c \<Rightarrow> set_current (cv_id c) s1
                              | None \<Rightarrow> snd (start now s1))))"

definition rename :: "string \<Rightarrow> string \<Rightarrow> chats \<Rightarrow> bool \<times> chats" where
  "rename cid title s =
     (case position (\<lambda>c. cv_id c = cid) (convs s) of
        None \<Rightarrow> (False, s)
      | Some i \<Rightarrow>
          let c' = (convs s ! i)\<lparr>cv_title := take_chars 80 (trim title)\<rparr>
          in (True, persist c' (s\<lparr>convs := (convs s)[i := c']\<rparr>)))"

fun drop_placeholders :: "string list \<Rightarrow> chats \<Rightarrow> chats" where
  "drop_placeholders [] s = s"
| "drop_placeholders (i # is) s =
     drop_placeholders is (s\<lparr>convs := filter (\<lambda>c. cv_id c \<noteq> i) (convs s),
                              db := snd (delete_conversation (ch_user s) (ch_workspace s) i (db s))\<rparr>)"

fun bring_in :: "conversation list \<Rightarrow> chats \<Rightarrow> chats" where
  "bring_in [] s = s"
| "bring_in (c # cs) s =
     bring_in cs (if cv_id c \<in> cv_id ` set (convs s) then s else (persist c s)\<lparr>convs := convs s @ [c]\<rparr>)"

definition import_chats :: "conversation list \<Rightarrow> string \<Rightarrow> chats \<Rightarrow> chats" where
  "import_chats cs cur s =
     (if cs = [] then s
      else let placeholders = map cv_id (filter (\<lambda>c. cv_messages c = [] \<and> cv_title c = new_chat) (convs s));
               s1 = bring_in cs (drop_placeholders placeholders s);
               s2 = s1\<lparr>convs := by_age (convs s1)\<rparr>
           in set_current (if cur \<in> cv_id ` set (convs s2) then cur else last_id (convs s2)) s2)"

record summary =
  sm_id :: string
  sm_title :: string
  sm_created_ms :: nat
  sm_updated_ms :: nat
  sm_messages :: nat

text \<open>The sort is stable and by the newest update, then the newest start.\<close>

definition summaries :: "chats \<Rightarrow> summary list" where
  "summaries s =
     rev (sort_key (\<lambda>m. (sm_updated_ms m, sm_created_ms m)) (rev
       (map (\<lambda>c. \<lparr>sm_id = cv_id c, sm_title = cv_title c, sm_created_ms = cv_created_ms c,
                  sm_updated_ms = cv_updated_ms c,
                  sm_messages = length (filter (\<lambda>m. cm_role m \<noteq> RTool) (cv_messages c))\<rparr>)
          (filter (\<lambda>c. cv_messages c \<noteq> []) (convs s)))))"

definition messages_elsewhere :: "store \<Rightarrow> string \<Rightarrow> string \<Rightarrow> string \<Rightarrow> chat_message list option" where
  "messages_elsewhere d user workspace cid =
     map_option cv_messages (List.find (\<lambda>c. cv_id c = cid) (conversations_of d user workspace))"

definition update_elsewhere :: "store \<Rightarrow> string \<Rightarrow> string \<Rightarrow> string \<Rightarrow> nat \<Rightarrow>
    (chat_message list \<Rightarrow> chat_message list) \<Rightarrow> bool \<times> store" where
  "update_elsewhere d user workspace cid now change =
     (case List.find (\<lambda>c. cv_id c = cid) (conversations_of d user workspace) of
        None \<Rightarrow> (False, d)
      | Some c \<Rightarrow> (True, put_conversation user workspace
          (titled (c\<lparr>cv_messages := change (cv_messages c), cv_updated_ms := now\<rparr>)) d))"

section \<open>The invariant\<close>

definition ids :: "chats \<Rightarrow> string list" where
  "ids s = map cv_id (convs s)"

definition row :: "chats \<Rightarrow> string \<Rightarrow> conversation option" where
  "row s i = t_get (conversations_t (db s)) (scoped (ch_user s) (ch_workspace s) i)"

text \<open>There is a current conversation, ids are distinct, and every conversation with a message is in the database as it is.\<close>

definition set_ok :: "chats \<Rightarrow> bool" where
  "set_ok s \<longleftrightarrow> distinct (ids s) \<and> ordered (conversations_t (db s)) \<and>
     (\<forall>c \<in> set (convs s). cv_messages c \<noteq> [] \<longrightarrow> row s (cv_id c) = Some c)"

definition chats_ok :: "chats \<Rightarrow> bool" where
  "chats_ok s \<longleftrightarrow> set_ok s \<and> current s \<in> set (ids s)"

lemma set_current_simps [simp]:
  "convs (set_current i s) = convs s" "current (set_current i s) = i" "ids (set_current i s) = ids s"
  "ch_user (set_current i s) = ch_user s" "ch_workspace (set_current i s) = ch_workspace s"
  "row (set_current i s) k = row s k" "conversations_t (db (set_current i s)) = conversations_t (db s)"
  by (simp_all add: set_current_def ids_def row_def set_current_conversation_def put_state_def)

lemma persist_simps [simp]:
  "convs (persist c s) = convs s" "current (persist c s) = current s" "ids (persist c s) = ids s"
  "ch_user (persist c s) = ch_user s" "ch_workspace (persist c s) = ch_workspace s"
  by (simp_all add: persist_def ids_def)

lemma scoped_tail [simp]: "scoped u w i = scoped u w j \<longleftrightarrow> i = j"
  by (simp add: scoped_def)

lemma row_persist: "row (persist c s) k = (if cv_messages c \<noteq> [] \<and> k = cv_id c then Some c else row s k)"
  by (simp add: persist_def row_def put_conversation_def table_simps)

lemma ordered_persist: "ordered (conversations_t (db s)) \<Longrightarrow> ordered (conversations_t (db (persist c s)))"
  by (simp add: persist_def put_conversation_def ot.ok_put)

lemma convs_update_simps [simp]:
  "row (s\<lparr>convs := cs\<rparr>) k = row s k" "ids (s\<lparr>convs := cs\<rparr>) = map cv_id cs"
  by (simp_all add: row_def ids_def)

lemma current_index_None: "current_index s = None \<longleftrightarrow> current s \<notin> set (ids s)"
  by (auto simp: current_index_def position_None ids_def image_iff)

lemma set_ok_current [simp]: "set_ok (set_current i s) = set_ok s"
  by (simp add: set_ok_def)

lemma set_ok_add:
  assumes "set_ok s" and "cv_id c \<notin> set (ids s)"
  shows "set_ok ((persist c s)\<lparr>convs := convs s @ [c]\<rparr>)"
  using assms by (auto simp: set_ok_def row_persist ordered_persist ids_def image_iff)

lemma set_ok_replace:
  assumes "set_ok s" and "i < length (convs s)" and "cv_id c = cv_id (convs s ! i)"
  shows "set_ok (persist c (s\<lparr>convs := (convs s)[i := c]\<rparr>))"
proof -
  have ids: "map cv_id ((convs s)[i := c]) = ids s"
    using assms(2,3) by (simp add: ids_def map_update list_update_same_conv)
  have "row s (cv_id x) = Some x \<and> cv_id x \<noteq> cv_id c"
    if x: "x \<in> set ((convs s)[i := c])" "x \<noteq> c" "cv_messages x \<noteq> []" for x
  proof -
    obtain j where "j < length (convs s)" "x = (convs s)[i := c] ! j"
      using x(1) by (metis in_set_conv_nth length_list_update)
    then have j: "j < length (convs s)" "j \<noteq> i" "x = convs s ! j"
      using x(2) assms(2) by (cases "j = i"; simp)+
    then have "cv_id x \<noteq> cv_id c"
      using assms by (auto simp: set_ok_def ids_def nth_eq_iff_index_eq distinct_conv_nth)
    with j x assms(1) show ?thesis by (auto simp: set_ok_def)
  qed
  with assms ids show ?thesis
    by (auto simp: set_ok_def row_persist ids_def intro!: ordered_persist)
qed

lemma titled_id [simp]: "cv_id (titled c) = cv_id c" "cv_messages (titled c) = cv_messages c"
  by (simp_all add: titled_def split: option.splits)

lemma position_nth: "position P xs = Some i \<Longrightarrow> i < length xs \<and> P (xs ! i)"
  using position_Some by blast

lemma start_ok:
  assumes "set_ok s" and "current s \<notin> set (ids s) \<or> chats_ok s" and "cv_id (fresh_chat now s) \<notin> set (ids s)"
  shows "chats_ok (snd (start now s))"
proof -
  have "chats_ok (add_chat (fresh_chat now s) s)"
    using set_ok_add [OF assms(1,3)] by (simp add: chats_ok_def add_chat_def)
  moreover have "chats_ok s" if "current_chat s = Some c" for c
  proof -
    have "current_index s \<noteq> None" using that by (auto simp: current_chat_def)
    with assms(2) show ?thesis by (auto simp: current_index_None)
  qed
  ultimately show ?thesis by (auto simp: start_def split: option.splits)
qed

lemma record_ok:
  assumes "chats_ok s"
  shows "chats_ok (record_messages ms now s)"
proof (cases "current_index s")
  case (Some i)
  then have i: "i < length (convs s)" by (auto simp: current_index_def dest: position_nth)
  define c where "c = convs s ! i"
  define c' where "c' = titled ((if length (cv_messages c) \<noteq> length ms \<or> (cv_messages c = [] \<and> ms \<noteq> [])
      then c\<lparr>cv_updated_ms := now\<rparr> else c)\<lparr>cv_messages := ms\<rparr>)"
  have id: "cv_id c' = cv_id (convs s ! i)" by (simp add: c'_def c_def)
  have "record_messages ms now s = persist c' (s\<lparr>convs := (convs s)[i := c']\<rparr>)"
    by (simp add: record_messages_def Some c'_def c_def Let_def)
  moreover have "map cv_id ((convs s)[i := c']) = ids s"
    using i id by (simp add: ids_def map_update list_update_same_conv)
  ultimately show ?thesis
    using assms set_ok_replace [OF _ i id] by (simp add: chats_ok_def)
qed (use assms in \<open>simp add: record_messages_def\<close>)

lemma update_ok:
  assumes "chats_ok s"
  shows "chats_ok (snd (update_chat cid now change s))" and "chats_ok (snd (rename cid title s))"
proof -
  have r: "chats_ok (persist c' (s\<lparr>convs := (convs s)[i := c']\<rparr>))"
    if "position (\<lambda>c. cv_id c = cid) (convs s) = Some i" "cv_id c' = cv_id (convs s ! i)" for i c'
  proof -
    have i: "i < length (convs s)" using position_nth [OF that(1)] by simp
    have "map cv_id ((convs s)[i := c']) = ids s"
      using i that(2) by (simp add: ids_def map_update list_update_same_conv)
    with assms set_ok_replace [OF _ i that(2)] show ?thesis by (simp add: chats_ok_def)
  qed
  then show "chats_ok (snd (update_chat cid now change s))" "chats_ok (snd (rename cid title s))"
    using assms by (auto simp: update_chat_def rename_def Let_def split: option.splits)
qed

lemma set_ok_filter:
  assumes "set_ok s"
  shows "set_ok (s\<lparr>convs := filter (\<lambda>c. cv_id c \<noteq> i) (convs s),
    db := snd (delete_conversation (ch_user s) (ch_workspace s) i (db s))\<rparr>)"
proof -
  have "distinct (map cv_id (filter (\<lambda>c. cv_id c \<noteq> i) (convs s)))"
    using assms by (simp add: set_ok_def ids_def distinct_map_filter)
  with assms show ?thesis
    by (auto simp: set_ok_def ids_def row_def delete_conversation_def table_simps ot.ok_del)
qed

lemma delete_ok:
  assumes "chats_ok s"
  shows "chats_ok (snd (delete cid now s))"
proof -
  let ?rest = "filter (\<lambda>c. cv_id c \<noteq> cid) (convs s)"
  define s1 where "s1 = s\<lparr>convs := ?rest, db := snd (delete_conversation (ch_user s) (ch_workspace s) cid (db s))\<rparr>"
  have s1: "set_ok s1" "convs s1 = ?rest" "current s1 = current s" "ids s1 = map cv_id ?rest"
    using set_ok_filter [of s cid] assms by (auto simp: s1_def chats_ok_def ids_def)
  have "chats_ok s1" if "current s \<noteq> cid"
    using that assms s1 by (auto simp: chats_ok_def ids_def)
  moreover have "chats_ok (set_current (cv_id c) s1)" if "max_by_key cv_updated_ms ?rest = Some c" for c
    using max_by_key_SomeD(1) [OF that] s1 by (auto simp: chats_ok_def)
  moreover have "chats_ok (snd (start now s1))" if "?rest = []"
    using that s1 by (intro start_ok) auto
  ultimately show ?thesis
    using assms by (auto simp: delete_def Let_def s1_def [symmetric] s1 split: option.splits)
qed

lemma select_ok: "chats_ok s \<Longrightarrow> chats_ok (snd (select cid s))"
proof -
  assume ok: "chats_ok s"
  have "cid \<in> set (ids s)" if "position (\<lambda>c. cv_id c = cid) (convs s) = Some i" for i
    using position_nth [OF that] by (auto simp: ids_def)
  with ok show ?thesis by (auto simp: select_def chats_ok_def split: option.splits)
qed

lemma drop_placeholders_ok: "set_ok s \<Longrightarrow> set_ok (drop_placeholders is s)"
  by (induction "is" arbitrary: s) (simp_all add: set_ok_filter)

lemma bring_in_ok: "set_ok s \<Longrightarrow> set_ok (bring_in cs s) \<and> set (ids s) \<union> cv_id ` set cs \<subseteq> set (ids (bring_in cs s))"
proof (induction cs arbitrary: s)
  case (Cons c cs)
  let ?s = "if cv_id c \<in> cv_id ` set (convs s) then s else (persist c s)\<lparr>convs := convs s @ [c]\<rparr>"
  have "set_ok ?s" using Cons.prems set_ok_add [of s c] by (auto simp: ids_def)
  moreover have "insert (cv_id c) (set (ids s)) \<subseteq> set (ids ?s)" by (auto simp: ids_def)
  ultimately show ?case using Cons.IH [of ?s] by (simp add: subset_iff)
qed simp

lemma set_ok_sorted: "set_ok (s\<lparr>convs := by_age cs\<rparr>) = set_ok (s\<lparr>convs := cs\<rparr>)"
  by (simp add: set_ok_def by_age_def distinct_map)

lemma import_ok: "chats_ok s \<Longrightarrow> chats_ok (import_chats cs cur s)"
proof -
  assume ok: "chats_ok s"
  define s1 where "s1 = bring_in cs (drop_placeholders (map cv_id (filter (\<lambda>c. cv_messages c = [] \<and> cv_title c = new_chat) (convs s))) s)"
  have s1: "set_ok s1" "cv_id ` set cs \<subseteq> set (ids s1)"
    using bring_in_ok [OF drop_placeholders_ok] ok unfolding s1_def chats_ok_def by blast+
  have "set_ok (s1\<lparr>convs := by_age (convs s1)\<rparr>)" using s1(1) by (simp add: set_ok_sorted)
  moreover have "last_id (by_age (convs s1)) \<in> set (ids s1)" if "cs \<noteq> []"
  proof -
    have ne: "by_age (convs s1) \<noteq> []"
      using s1(2) that by (auto simp: by_age_def ids_def dest!: arg_cong [of _ _ set])
    have "last (by_age (convs s1)) \<in> set (convs s1)" using last_in_set [OF ne] by (simp add: by_age_def)
    with ne show ?thesis by (simp add: last_id_def ids_def)
  qed
  ultimately show ?thesis
    using ok by (auto simp: import_chats_def Let_def s1_def [symmetric] chats_ok_def ids_def by_age_def)
qed

section \<open>Loading\<close>

text \<open>The rows of this person and workspace are stored under their ids.\<close>

definition rows_ok :: "store \<Rightarrow> string \<Rightarrow> string \<Rightarrow> bool" where
  "rows_ok d u w \<longleftrightarrow> ordered (conversations_t d) \<and>
     (\<forall>k c. t_get (conversations_t d) k = Some c \<longrightarrow> starts_with (scoped u w []) k \<longrightarrow> k = scoped u w (cv_id c))"

lemma rows_okD:
  assumes "rows_ok d u w"
  shows "ordered (conversations_t d)"
    and "t_get (conversations_t d) k = Some c \<Longrightarrow> starts_with (scoped u w []) k \<Longrightarrow> k = scoped u w (cv_id c)"
  using assms unfolding rows_ok_def by blast+

lemma starts_scoped [simp]: "starts_with (scoped u w []) (scoped u w i)"
  by (simp add: starts_with_iff scoped_def)

lemma conversations_of_in:
  assumes "rows_ok d u w"
  shows "c \<in> set (conversations_of d u w) \<longleftrightarrow> t_get (conversations_t d) (scoped u w (cv_id c)) = Some c"
proof -
  note o = rows_okD(1) [OF assms]
  have "c \<in> set (conversations_of d u w) \<longleftrightarrow>
      (\<exists>k. t_get (conversations_t d) k = Some c \<and> starts_with (scoped u w []) k)"
    by (auto simp: conversations_of_eq [OF o] vals_def image_iff simp flip: ot.items_get [OF o])
  also have "\<dots> \<longleftrightarrow> t_get (conversations_t d) (scoped u w (cv_id c)) = Some c"
    using rows_okD(2) [OF assms] starts_scoped by metis
  finally show ?thesis .
qed

lemma conversations_of_distinct:
  assumes "rows_ok d u w"
  shows "distinct (map cv_id (conversations_of d u w))"
proof -
  note o = rows_okD(1) [OF assms]
  let ?t = "filter (\<lambda>b. starts_with (scoped u w []) (fst b)) (conversations_t d)"
  have "distinct (map fst ?t)" using ordered_distinct [OF o] by (simp add: keys_def distinct_map_filter)
  moreover have "map fst ?t = map (\<lambda>b. scoped u w (cv_id (snd b))) ?t"
  proof (rule map_cong [OF refl])
    fix b assume "b \<in> set ?t"
    then have "t_get (conversations_t d) (fst b) = Some (snd b)" "starts_with (scoped u w []) (fst b)"
      using ot.items_get [OF o, of "fst b" "snd b"] by auto
    then show "fst b = scoped u w (cv_id (snd b))" by (rule rows_okD(2) [OF assms])
  qed
  ultimately have "distinct (map (\<lambda>b. scoped u w (cv_id (snd b))) ?t)" by simp
  then have "distinct (map (scoped u w) (map (cv_id \<circ> snd) ?t))" by (simp add: comp_def)
  then have "distinct (map (cv_id \<circ> snd) ?t)" by (simp only: distinct_map)
  then show ?thesis by (simp add: conversations_of_eq [OF o] vals_def)
qed

lemma load_ok:
  assumes "rows_ok d u w"
  shows "chats_ok (load d u w now)"
proof -
  define s where "s = \<lparr>current = (case current_conversation d u w of Some i \<Rightarrow> i | None \<Rightarrow> []),
     convs = by_age (conversations_of d u w), db = d, ch_user = u, ch_workspace = w\<rparr>"
  have "set_ok s"
    using conversations_of_distinct [OF assms] rows_okD(1) [OF assms]
    by (simp add: set_ok_def s_def ids_def by_age_def row_def distinct_map conversations_of_in [OF assms])
  define s1 where "s1 = (if convs s = [] then snd (start now s) else s)"
  have "set_ok s1 \<and> convs s1 \<noteq> []"
  proof (cases "convs s = []")
    case True
    then have "chats_ok (snd (start now s))"
      using \<open>set_ok s\<close> by (intro start_ok) (auto simp: ids_def)
    with True show ?thesis by (auto simp: s1_def chats_ok_def ids_def)
  qed (use \<open>set_ok s\<close> in \<open>simp add: s1_def\<close>)
  moreover have "last_id (convs s1) \<in> set (ids s1)" if "convs s1 \<noteq> []"
    using that last_in_set [OF that] by (auto simp: last_id_def ids_def)
  ultimately show ?thesis
    by (auto simp: load_def Let_def s_def [symmetric] s1_def [symmetric] chats_ok_def current_index_None)
qed

inductive chat_step :: "chats \<Rightarrow> chats \<Rightarrow> bool" where
  chat_start: "cv_id (fresh_chat now s) \<notin> set (ids s) \<Longrightarrow> chat_step s (snd (start now s))"
| chat_record: "chat_step s (record_messages ms now s)"
| chat_update: "chat_step s (snd (update_chat cid now change s))"
| chat_select: "chat_step s (snd (select cid s))"
| chat_delete: "chat_step s (snd (delete cid now s))"
| chat_rename: "chat_step s (snd (rename cid title s))"
| chat_import: "chat_step s (import_chats cs cur s)"

inductive_cases chat_stepE: "chat_step s s'"

inductive chat_run :: "chats \<Rightarrow> chats \<Rightarrow> bool" for s0 where
  chat_begin: "chat_run s0 s0"
| chat_next: "chat_run s0 s \<Longrightarrow> chat_step s s' \<Longrightarrow> chat_run s0 s'"

lemma chat_step_ok: "chat_step s s' \<Longrightarrow> chats_ok s \<Longrightarrow> chats_ok s'"
  by (erule chat_stepE)
     (auto intro: start_ok [OF conjunct1 [OF chats_ok_def [THEN iffD1]]] record_ok update_ok select_ok delete_ok import_ok)

lemma chat_run_ok: "chat_run s0 s \<Longrightarrow> chats_ok s0 \<Longrightarrow> chats_ok s"
  by (induction rule: chat_run.induct) (auto intro: chat_step_ok)

text \<open>(C24) However a person's conversations are started, written, renamed, imported and deleted, there is always
  a current one, no two have the same id, and every conversation that has a message is in the database under its id exactly
  as it is in memory.  A conversation is started with an id that is not in use.\<close>

theorem chats_written_through:
  assumes "rows_ok d u w" and "chat_run (load d u w now) s"
  shows "current_chat s \<noteq> None \<and> distinct (map cv_id (convs s)) \<and>
    (\<forall>c \<in> set (convs s). cv_messages c \<noteq> [] \<longrightarrow>
       t_get (conversations_t (db s)) (scoped (ch_user s) (ch_workspace s) (cv_id c)) = Some c)"
proof -
  have "chats_ok s" by (rule chat_run_ok [OF assms(2) load_ok [OF assms(1)]])
  then show ?thesis
    using current_index_None [of s] by (auto simp: chats_ok_def set_ok_def ids_def row_def current_chat_def)
qed

theorem chats_written_through_witness:
  "\<forall>m. current_chat (record_messages [m] 7 (load store_empty ''ann'' ''w'' 5)) \<noteq> None"
proof
  fix m
  have "rows_ok store_empty ''ann'' ''w''" by (simp add: rows_ok_def store_empty_def)
  moreover have "chat_run (load store_empty ''ann'' ''w'' 5) (record_messages [m] 7 (load store_empty ''ann'' ''w'' 5))"
    by (rule chat_next [OF chat_begin chat_record])
  ultimately show "current_chat (record_messages [m] 7 (load store_empty ''ann'' ''w'' 5)) \<noteq> None"
    using chats_written_through by blast
qed

end
