(* ===== verification/Packages.thy ===== *)
theory Packages
  imports Deps
begin

text \<open>
  The package manifest \<open>harness.toml\<close> and the capabilities it declares:
  \<open>crates/localspace-core/src/manifest.rs\<close>.  Reading TOML is the library's; a manifest here is the value
  \<open>toml::from_str\<close> returns, with every field the program reads.  \<open>validate\<close> is the install-time gate, its
  errors one constructor for each \<open>bail!\<close>; \<open>widening_over\<close> is the difference an update has to ask for.
  Numbers of type \<open>u64\<close> wrap as the release build has them.
\<close>

section \<open>Packages and dependencies\<close>

definition kind_label :: "package_kind \<Rightarrow> string" where
  "kind_label k = (case k of Harness \<Rightarrow> ''harness'' | Library \<Rightarrow> ''library'' | Types \<Rightarrow> ''types''
     | Template \<Rightarrow> ''template'' | ModelPack \<Rightarrow> ''model-pack'' | Skill \<Rightarrow> ''skill'' | Theme \<Rightarrow> ''theme'')"

definition is_harness :: "package_kind \<Rightarrow> bool" where
  "is_harness k \<longleftrightarrow> k = Harness"

datatype dep_spec = DepVersion string | Detailed "string option" bool bool

fun dep_version :: "dep_spec \<Rightarrow> string option" where
  "dep_version (DepVersion v) = Some v"
| "dep_version (Detailed v _ _) = v"

fun dep_optional :: "dep_spec \<Rightarrow> bool" where
  "dep_optional (DepVersion _) = False"
| "dep_optional (Detailed _ optional _) = optional"

fun is_interface :: "dep_spec \<Rightarrow> bool" where
  "is_interface (DepVersion _) = False"
| "is_interface (Detailed _ _ interface) = interface"

section \<open>Resources\<close>

record memory_budget =
  mb_logic :: nat
  mb_surface :: nat

record resources =
  memory_mb :: memory_budget
  idle_unload :: string

definition default_resources :: resources where
  "default_resources = \<lparr>memory_mb = \<lparr>mb_logic = 32, mb_surface = 16\<rparr>, idle_unload = ''5m''\<rparr>"

datatype duration_error = NotADuration string | NotAUnit string

definition parse_duration :: "string \<Rightarrow> (duration_error, nat) result" where
  "parse_duration s0 =
     (let s = trim s0;
          num = takeWhile is_ascii_digit s;
          unit = (if list_all is_ascii_digit s then ''s'' else dropWhile is_ascii_digit s)
      in case parse_u64 num of
           None \<Rightarrow> Inl (NotADuration s)
         | Some n \<Rightarrow>
             (let u = trim unit
              in if u \<in> {''s'', ''sec'', ''secs''} then Inr n
                 else if u \<in> {''m'', ''min'', ''mins''} then Inr (n * 60 mod 2 ^ 64)
                 else if u \<in> {''h'', ''hr'', ''hrs''} then Inr (n * 3600 mod 2 ^ 64)
                 else Inl (NotAUnit u)))"

definition idle_unload_duration :: "resources \<Rightarrow> nat" where
  "idle_unload_duration r = (case parse_duration (idle_unload r) of Inl _ \<Rightarrow> 300 | Inr n \<Rightarrow> n)"

record resource_summary =
  sum_logic_mb :: nat
  sum_surface_mb :: nat
  sum_idle_unload_secs :: nat

definition resources_summary :: "resources \<Rightarrow> resource_summary" where
  "resources_summary r = \<lparr>sum_logic_mb = mb_logic (memory_mb r), sum_surface_mb = mb_surface (memory_mb r),
     sum_idle_unload_secs = idle_unload_duration r\<rparr>"

section \<open>Capabilities\<close>

datatype fs_cap = FsNone | FsWorkspace | Scoped string

definition fs_describe :: "fs_cap \<Rightarrow> string" where
  "fs_describe c = (case c of FsNone \<Rightarrow> ''none'' | FsWorkspace \<Rightarrow> ''workspace'' | Scoped s \<Rightarrow> ''scoped:'' @ s)"

definition fs_parse :: "string \<Rightarrow> (string, fs_cap) result" where
  "fs_parse s =
     (if s = ''none'' then Inr FsNone
      else if s = ''workspace'' then Inr FsWorkspace
      else case strip_prefix ''scoped:'' s of
          Some p \<Rightarrow> if p \<noteq> [] then Inr (Scoped p)
             else Inl (''fs capability `'' @ s @ ''` is not none | workspace | scoped:<subpath>'')
        | None \<Rightarrow> Inl (''fs capability `'' @ s @ ''` is not none | workspace | scoped:<subpath>''))"

datatype gpu_cap = Off bool | Request nat bool

definition gpu_wanted :: "gpu_cap \<Rightarrow> bool" where
  "gpu_wanted g \<longleftrightarrow> g \<noteq> Off False"

fun vram_gb :: "gpu_cap \<Rightarrow> nat" where
  "vram_gb (Off _) = 0"
| "vram_gb (Request n _) = n"

fun gpu_exclusive :: "gpu_cap \<Rightarrow> bool" where
  "gpu_exclusive (Off _) = False"
| "gpu_exclusive (Request _ x) = x"

fun gpu_describe :: "gpu_cap \<Rightarrow> string" where
  "gpu_describe (Off False) = ''none''"
| "gpu_describe (Off True) = ''yes''"
| "gpu_describe (Request n True) = show_nat n @ '' GB, exclusive''"
| "gpu_describe (Request n False) = show_nat n @ '' GB, shared''"

datatype net_cap = NetSimple string | Allowlist "string list" string

fun net_hosts :: "net_cap \<Rightarrow> string list" where
  "net_hosts (NetSimple _) = []"
| "net_hosts (Allowlist hosts _) = hosts"

definition net_is_none :: "net_cap \<Rightarrow> bool" where
  "net_is_none n \<longleftrightarrow> n = NetSimple ''none''"

fun net_describe :: "net_cap \<Rightarrow> string" where
  "net_describe (NetSimple s) = s"
| "net_describe (Allowlist hosts _) = ''allowlist['' @ join '', '' hosts @ '']''"

fun net_reason :: "net_cap \<Rightarrow> string option" where
  "net_reason (NetSimple _) = None"
| "net_reason (Allowlist _ reason) = Some reason"

datatype clipboard_cap = ClipNone | OnUserAction | ClipAlways

definition clip_describe :: "clipboard_cap \<Rightarrow> string" where
  "clip_describe c = (case c of ClipNone \<Rightarrow> ''none'' | OnUserAction \<Rightarrow> ''on-user-action'' | ClipAlways \<Rightarrow> ''always'')"

datatype docs_cap = DocsNone | DocsAcl

definition docs_describe :: "docs_cap \<Rightarrow> string" where
  "docs_describe c = (case c of DocsNone \<Rightarrow> ''none'' | DocsAcl \<Rightarrow> ''acl'')"

datatype model_cap = Complete | Structured | Embed

definition model_describe :: "model_cap \<Rightarrow> string" where
  "model_describe c = (case c of Complete \<Rightarrow> ''complete'' | Structured \<Rightarrow> ''structured'' | Embed \<Rightarrow> ''embed'')"

record capabilities =
  cap_fs :: fs_cap
  cap_net :: net_cap
  cap_gpu :: gpu_cap
  cap_spawn :: bool
  cap_clipboard :: clipboard_cap
  cap_docs :: docs_cap
  cap_model :: "model_cap list"

definition default_capabilities :: capabilities where
  "default_capabilities = \<lparr>cap_fs = FsNone, cap_net = NetSimple ''none'', cap_gpu = Off False, cap_spawn = False,
     cap_clipboard = ClipNone, cap_docs = DocsNone, cap_model = []\<rparr>"

record capability_summary =
  cs_fs :: string
  cs_net :: string
  cs_gpu :: string
  cs_spawn :: bool
  cs_clipboard :: string
  cs_docs :: string
  cs_model :: "string list"

definition capability_summary_of :: "capabilities \<Rightarrow> capability_summary" where
  "capability_summary_of c = \<lparr>cs_fs = fs_describe (cap_fs c), cs_net = net_describe (cap_net c),
     cs_gpu = gpu_describe (cap_gpu c), cs_spawn = cap_spawn c, cs_clipboard = clip_describe (cap_clipboard c),
     cs_docs = docs_describe (cap_docs c), cs_model = map model_describe (cap_model c)\<rparr>"

definition widening_over :: "capabilities \<Rightarrow> capabilities \<Rightarrow> string list" where
  "widening_over c prev =
     (let added = filter (\<lambda>h. h \<notin> set (net_hosts (cap_net prev))) (net_hosts (cap_net c))
      in (if cap_fs c \<noteq> cap_fs prev \<and> cap_fs c \<noteq> FsNone
          then [''filesystem: '' @ fs_describe (cap_fs prev) @ '' -> '' @ fs_describe (cap_fs c)] else [])
       @ (if added \<noteq> [] then [''network: adds '' @ join '', '' added] else [])
       @ (if gpu_wanted (cap_gpu c) \<and> (\<not> gpu_wanted (cap_gpu prev) \<or> vram_gb (cap_gpu prev) < vram_gb (cap_gpu c))
          then [''gpu: '' @ gpu_describe (cap_gpu prev) @ '' -> '' @ gpu_describe (cap_gpu c)] else [])
       @ (if cap_spawn c \<and> \<not> cap_spawn prev then [''spawn subprocesses: no -> yes''] else [])
       @ (if cap_clipboard c \<noteq> cap_clipboard prev \<and> cap_clipboard c \<noteq> ClipNone
          then [''clipboard: '' @ clip_describe (cap_clipboard prev) @ '' -> '' @ clip_describe (cap_clipboard c)] else [])
       @ (if cap_docs c \<noteq> cap_docs prev \<and> cap_docs c \<noteq> DocsNone
          then [''documents: gains ACL-filtered retrieval''] else [])
       @ map (\<lambda>k. ''inference: adds model.'' @ model_describe k)
           (filter (\<lambda>k. k \<notin> set (cap_model prev)) (cap_model c)))"

section \<open>Contributions\<close>

datatype pkg_doc_kind = PkgCrdt | PkgBlob

datatype surface_kind = Widgets | Egui | Web | StreamSurface | NativeSurface

datatype placement = Main | Side | Bottom

record view_decl =
  vd_id :: string
  vd_kind :: surface_kind
  vd_module :: "string option"
  vd_placement :: placement
  vd_title :: "string option"

record contributes =
  ct_views :: "view_decl list"
  ct_tools :: "string option"
  ct_context_provider :: bool
  ct_doc :: pkg_doc_kind
  ct_file_types :: "string list"
  ct_logic :: "string option"
  ct_accepts :: "string list"
  ct_produces :: "string list"
  ct_types :: "string option"

definition default_contributes :: contributes where
  "default_contributes = \<lparr>ct_views = [], ct_tools = None, ct_context_provider = False, ct_doc = PkgCrdt,
     ct_file_types = [], ct_logic = None, ct_accepts = [], ct_produces = [], ct_types = None\<rparr>"

definition id_char :: "char \<Rightarrow> bool" where
  "id_char c \<longleftrightarrow> is_ascii_lower c \<or> is_ascii_digit c \<or> c = CHR ''-''"

definition valid_interchange_kind :: "string \<Rightarrow> bool" where
  "valid_interchange_kind kind = (case rsplit_once ''.v'' kind of
      None \<Rightarrow> False
    | Some (name, version) \<Rightarrow> name \<noteq> [] \<and> list_all (\<lambda>c. id_char c \<or> c = CHR ''.'') name \<and>
        version \<noteq> [] \<and> list_all is_ascii_digit version)"

section \<open>The manifest\<close>

datatype tier = Wasm | NativeTier

record harness_meta =
  hm_id :: string
  hm_version :: string
  hm_api :: string
  hm_title :: string
  hm_publisher :: string
  hm_description :: "string option"
  hm_tier :: tier
  hm_native_reason :: "string option"

record manifest =
  mf_harness :: harness_meta
  mf_package :: package_kind
  mf_capabilities :: capabilities
  mf_resources :: resources
  mf_contributes :: contributes
  mf_dependencies :: "(string, dep_spec) table"
  mf_provides :: "string list"
  mf_prefers :: "string list"

definition manifest_dependencies :: "manifest \<Rightarrow> dependency list" where
  "manifest_dependencies m = map (\<lambda>(i, spec). \<lparr>dp_id = i, dp_req = dep_version spec,
     dp_optional = dep_optional spec, dp_interface = is_interface spec\<rparr>) (mf_dependencies m)"

definition manifest_view :: "manifest \<Rightarrow> string \<Rightarrow> view_decl option" where
  "manifest_view m i = List.find (\<lambda>v. vd_id v = i) (ct_views (mf_contributes m))"

definition is_package_id :: "string \<Rightarrow> bool" where
  "is_package_id i =
     (let parts = split_on (\<lambda>c. c = CHR ''.'') i
      in 2 \<le> length parts \<and> list_all (\<lambda>p. p \<noteq> [] \<and> list_all id_char p) parts)"

definition harness_api :: string where
  "harness_api = ''1.0.0''"

datatype manifest_error =
    BadId string
  | ApiRange string
  | NoNativeReason
  | GpuNeedsNative
  | SpawnNeedsNative
  | EguiNoModule string
  | WebNoModule string
  | WebNotIndex string string
  | WebOutside string string
  | NativeViewReserved string
  | StreamNeedsNative string
  | ZeroMemory
  | TooMuchMemory nat
  | BadIdleUnload duration_error
  | BadInterchange string
  | ViewsNotAllowed package_kind
  | NoTools
  | NoTypesFile
  | TypesNotAllowed package_kind
  | BadInterfaceDep string
  | BadPackageDep string
  | NoRequirement string
  | UnreadableRequirement string string
  | EmptyAllowlist
  | NoNetReason

text \<open>A loop whose body may return an error: the first one.\<close>

fun first_error :: "('a \<Rightarrow> 'e option) \<Rightarrow> 'a list \<Rightarrow> 'e option" where
  "first_error f [] = None"
| "first_error f (x # xs) = (case f x of Some e \<Rightarrow> Some e | None \<Rightarrow> first_error f xs)"

definition check_web_module :: "view_decl \<Rightarrow> manifest_error option" where
  "check_web_module v = (case vd_module v of
      None \<Rightarrow> Some (WebNoModule (vd_id v))
    | Some p \<Rightarrow>
        if \<not> (p = ''index.js'' \<or> ends_with ''/index.js'' p) then Some (WebNotIndex (vd_id v) p)
        else if starts_with ''/'' p \<or> contains_str ''..'' p then Some (WebOutside (vd_id v) p)
        else None)"

definition check_view :: "tier \<Rightarrow> view_decl \<Rightarrow> manifest_error option" where
  "check_view t v =
     (if vd_kind v = Egui \<and> vd_module v = None then Some (EguiNoModule (vd_id v))
      else case (if vd_kind v = Web then check_web_module v else None) of
          Some e \<Rightarrow> Some e
        | None \<Rightarrow>
            if vd_kind v = NativeSurface then Some (NativeViewReserved (vd_id v))
            else if vd_kind v = StreamSurface \<and> t \<noteq> NativeTier then Some (StreamNeedsNative (vd_id v))
            else None)"

definition check_dependency :: "string \<times> dep_spec \<Rightarrow> manifest_error option" where
  "check_dependency d = (case d of (i, spec) \<Rightarrow>
     if is_interface spec then (if CHR ''.'' \<notin> set i then Some (BadInterfaceDep i) else None)
     else if CHR ''.'' \<notin> set i \<and> CHR ''/'' \<notin> set i then Some (BadPackageDep i)
     else case dep_version spec of
         None \<Rightarrow> Some (NoRequirement i)
       | Some req \<Rightarrow> if \<not> valid_requirement req then Some (UnreadableRequirement i req) else None)"

definition check_harness :: "manifest \<Rightarrow> manifest_error option" where
  "check_harness m =
     (let h = mf_harness m; c = mf_capabilities m
      in if \<not> is_package_id (hm_id h) then Some (BadId (hm_id h))
         else if \<not> api_range_accepts (hm_api h) harness_api then Some (ApiRange (hm_api h))
         else if hm_tier h = NativeTier \<and> (case hm_native_reason h of None \<Rightarrow> True | Some r \<Rightarrow> trim r = [])
           then Some NoNativeReason
         else if hm_tier h = Wasm \<and> gpu_wanted (cap_gpu c) then Some GpuNeedsNative
         else if hm_tier h = Wasm \<and> cap_spawn c then Some SpawnNeedsNative
         else None)"

definition check_resources :: "resources \<Rightarrow> manifest_error option" where
  "check_resources r =
     (if mb_logic (memory_mb r) = 0 \<or> mb_surface (memory_mb r) = 0 then Some ZeroMemory
      else if mb_logic (memory_mb r) > 4096 then Some (TooMuchMemory (mb_logic (memory_mb r)))
      else case parse_duration (idle_unload r) of Inl e \<Rightarrow> Some (BadIdleUnload e) | Inr _ \<Rightarrow> None)"

definition check_kind :: "package_kind \<Rightarrow> contributes \<Rightarrow> manifest_error option" where
  "check_kind k c =
     (if \<not> is_harness k \<and> (ct_views c \<noteq> [] \<or> ct_tools c \<noteq> None) then Some (ViewsNotAllowed k)
      else if is_harness k \<and> ct_tools c = None then Some NoTools
      else if k = Types \<and> ct_types c = None then Some NoTypesFile
      else if ct_types c \<noteq> None \<and> k \<noteq> Types then Some (TypesNotAllowed k)
      else None)"

definition check_net :: "net_cap \<Rightarrow> manifest_error option" where
  "check_net n = (case n of
      NetSimple _ \<Rightarrow> None
    | Allowlist hosts reason \<Rightarrow> if hosts = [] then Some EmptyAllowlist
        else if trim reason = [] then Some NoNetReason else None)"

definition or_else :: "'e option \<Rightarrow> 'e option \<Rightarrow> 'e option" where
  "or_else a b = (case a of None \<Rightarrow> b | Some e \<Rightarrow> Some e)"

definition validate :: "manifest \<Rightarrow> (manifest_error, unit) result" where
  "validate m =
     (let c = mf_contributes m in
      case or_else (check_harness m)
          (or_else (first_error (check_view (hm_tier (mf_harness m))) (ct_views c))
          (or_else (check_resources (mf_resources m))
          (or_else (first_error (\<lambda>k. if valid_interchange_kind k then None else Some (BadInterchange k))
                      (ct_accepts c @ ct_produces c))
          (or_else (check_kind (mf_package m) c)
          (or_else (first_error check_dependency (mf_dependencies m))
                   (check_net (cap_net (mf_capabilities m)))))))) of
        Some e \<Rightarrow> Inl e
      | None \<Rightarrow> Inr ())"

section \<open>What the gate guarantees\<close>

lemma first_error_None: "first_error f xs = None \<longleftrightarrow> (\<forall>x \<in> set xs. f x = None)"
  by (induction xs) (auto split: option.splits)

lemma or_else_None [simp]: "or_else a b = None \<longleftrightarrow> a = None \<and> b = None"
  by (cases a) (simp_all add: or_else_def)

lemma if_Some_None: "((if b then Some e else x) = None) \<longleftrightarrow> \<not> b \<and> x = None"
  "((if b then None else Some e) = None) \<longleftrightarrow> b"
  by simp_all

lemma split_on_chars: "c \<in> set s \<Longrightarrow> p c \<or> (\<exists>w \<in> set (split_on p s). c \<in> set w)"
proof (induction s)
  case (Cons d s)
  then show ?case by (cases "split_on p s") auto
qed simp

lemma split_on_double:
  "contains_str [d, d] s \<Longrightarrow> [] \<in> set (tl (split_on (\<lambda>c. c = d) s))"
proof (induction s)
  case (Cons c s)
  show ?case
  proof (cases "starts_with [d, d] (c # s)")
    case True
    then obtain r where "c = d" "s = d # r" by (auto simp: starts_with_iff)
    then show ?thesis by simp
  next
    case False
    with Cons have "[] \<in> set (tl (split_on (\<lambda>c. c = d) s))" by simp
    then show ?thesis by (cases "split_on (\<lambda>c. c = d) s") auto
  qed
qed simp

lemma package_id_text:
  assumes "is_package_id i"
  shows "\<forall>c \<in> set i. id_char c \<or> c = CHR ''.''" and "\<not> contains_str ''..'' i" and "i \<noteq> []" and "hd i \<noteq> CHR ''.''"
proof -
  let ?ps = "split_on (\<lambda>c. c = CHR ''.'') i"
  have parts: "2 \<le> length ?ps" "\<forall>p \<in> set ?ps. p \<noteq> [] \<and> list_all id_char p"
    using assms by (simp_all add: is_package_id_def Let_def list_all_iff)
  show "\<forall>c \<in> set i. id_char c \<or> c = CHR ''.''"
    using parts(2) split_on_chars [of _ i "\<lambda>c. c = CHR ''.''"] by (auto simp: list_all_iff)
  show "\<not> contains_str ''..'' i"
    using parts(2) split_on_double [of "CHR ''.''" i] by (metis list.set_sel(2) list.sel(2))
  show "i \<noteq> []" using parts(1) by auto
  then show "hd i \<noteq> CHR ''.''" using parts(2) by (cases i) auto
qed

lemma validate_ok:
  assumes "validate m = Inr ()"
  shows "check_harness m = None" and "v \<in> set (ct_views (mf_contributes m)) \<Longrightarrow> check_view (hm_tier (mf_harness m)) v = None"
    and "check_resources (mf_resources m) = None" and "check_kind (mf_package m) (mf_contributes m) = None"
    and "k \<in> set (ct_accepts (mf_contributes m) @ ct_produces (mf_contributes m)) \<Longrightarrow> valid_interchange_kind k"
    and "d \<in> set (mf_dependencies m) \<Longrightarrow> check_dependency d = None"
    and "check_net (cap_net (mf_capabilities m)) = None"
  using assms by (auto simp: validate_def Let_def first_error_None split: option.splits if_splits)

lemma web_module_inside:
  assumes "check_view t v = None" and "vd_kind v = Web"
  obtains p where "vd_module v = Some p" "\<not> starts_with ''/'' p" "\<not> contains_str ''..'' p"
  using assms by (auto simp: check_view_def check_web_module_def if_Some_None split: option.splits if_splits)

lemma slash_not_id: "\<not> id_char (CHR ''/'')" "\<not> id_char (CHR 0x5C)"
  by code_simp+

section \<open>Reading capabilities and durations\<close>

text \<open>Reading and describing a file-system capability are inverse to each other: a text is read as a capability
  exactly when it is that capability's description, and the only capability no text is read as is a scope with
  an empty path.\<close>

theorem fs_cap_round_trip: "fs_parse s = Inr c \<longleftrightarrow> s = fs_describe c \<and> c \<noteq> Scoped []"
  by (cases c) (auto simp: fs_parse_def fs_describe_def strip_prefix_Some split: option.splits)

lemma show_nat_span:
  assumes "\<not> is_ascii_digit c"
  shows "takeWhile is_ascii_digit (show_nat n @ c # u) = show_nat n" "dropWhile is_ascii_digit (show_nat n @ c # u) = c # u"
    "takeWhile is_ascii_digit (show_nat n) = show_nat n"
  using show_nat_digits [of n] assms
  by (auto simp: list_all_iff takeWhile_append2 dropWhile_append2 takeWhile_eq_all_conv)

lemma parse_duration_unit:
  assumes "n < 2 ^ 64" and "list_all simple (c # u)" and "\<not> is_ascii_digit c"
  shows "parse_duration (show_nat n @ c # u) =
    (if c # u \<in> {''s'', ''sec'', ''secs''} then Inr n
     else if c # u \<in> {''m'', ''min'', ''mins''} then Inr (n * 60 mod 2 ^ 64)
     else if c # u \<in> {''h'', ''hr'', ''hrs''} then Inr (n * 3600 mod 2 ^ 64)
     else Inl (NotAUnit (c # u)))"
proof -
  have "trim (show_nat n @ c # u) = show_nat n @ c # u" "trim (c # u) = c # u"
    using assms(2) show_nat_word by (auto intro!: trim_simple)
  moreover have "parse_u64 (show_nat n) = Some n"
    using parse_show_padded [of n "2 ^ 64" 0] assms(1) by (simp add: show_padded_def Let_def)
  ultimately show ?thesis
    using assms(3) show_nat_span [OF assms(3)] by (simp add: parse_duration_def Let_def)
qed

text \<open>A printed number with a unit is read as that many seconds, minutes or hours as long as the seconds fit in 64
  bits; past that the product wraps, so that a longer time is read as a short one: five hundred
  million million years of minutes come out as 44 seconds.\<close>

theorem parse_duration_units:
  assumes "n * 3600 < 2 ^ 64"
  shows "parse_duration (show_nat n @ ''s'') = Inr n \<and> parse_duration (show_nat n @ ''m'') = Inr (n * 60) \<and>
    parse_duration (show_nat n @ ''h'') = Inr (n * 3600) \<and>
    parse_duration (show_nat 307445734561825861 @ ''m'') = Inr 44"
proof -
  have s: "list_all simple ''s''" "\<not> is_ascii_digit (CHR ''s'')" "list_all simple ''m''" "\<not> is_ascii_digit (CHR ''m'')"
    "list_all simple ''h''" "\<not> is_ascii_digit (CHR ''h'')" by code_simp+
  have n: "n < 2 ^ 64" "n * 60 < 2 ^ 64" using assms by simp_all
  have "parse_duration (show_nat n @ ''s'') = Inr n" using parse_duration_unit [OF n(1) s(1,2)] by simp
  moreover have "parse_duration (show_nat n @ ''m'') = Inr (n * 60)" using parse_duration_unit [OF n(1) s(3,4)] n(2) by simp
  moreover have "parse_duration (show_nat n @ ''h'') = Inr (n * 3600)" using parse_duration_unit [OF n(1) s(5,6)] assms by simp
  moreover have "parse_duration (show_nat 307445734561825861 @ ''m'') = Inr 44"
    using parse_duration_unit [of 307445734561825861, OF _ s(3,4)] by simp
  ultimately show ?thesis by simp
qed

theorem parse_duration_units_witness: "parse_duration (show_nat 5 @ ''m'') = Inr 300"
  using parse_duration_units [of 5] by simp

section \<open>Accepted manifests\<close>

lemma accepted_manifest:
  assumes "validate m = Inr ()"
  shows "CHR ''/'' \<notin> set (hm_id (mf_harness m)) \<and> CHR 0x5C \<notin> set (hm_id (mf_harness m)) \<and>
      \<not> contains_str ''..'' (hm_id (mf_harness m)) \<and> \<not> starts_with ''.'' (hm_id (mf_harness m))"
    and "hm_tier (mf_harness m) = Wasm \<Longrightarrow> \<not> gpu_wanted (cap_gpu (mf_capabilities m)) \<and> \<not> cap_spawn (mf_capabilities m)"
    and "v \<in> set (ct_views (mf_contributes m)) \<Longrightarrow> vd_kind v = Web \<Longrightarrow>
      \<exists>p. vd_module v = Some p \<and> \<not> starts_with ''/'' p \<and> \<not> contains_str ''..'' p"
    and "net_hosts (cap_net (mf_capabilities m)) \<noteq> [] \<Longrightarrow>
      \<exists>r. net_reason (cap_net (mf_capabilities m)) = Some r \<and> trim r \<noteq> []"
    and "d \<in> set (manifest_dependencies m) \<Longrightarrow> \<not> dp_interface d \<Longrightarrow> \<exists>r. dp_req d = Some r \<and> valid_requirement r"
    and "0 < mb_logic (memory_mb (mf_resources m)) \<and> mb_logic (memory_mb (mf_resources m)) \<le> 4096 \<and>
      0 < mb_surface (memory_mb (mf_resources m)) \<and>
      parse_duration (idle_unload (mf_resources m)) = Inr (idle_unload_duration (mf_resources m))"
proof -
  note ok = validate_ok [OF assms]
  have "is_package_id (hm_id (mf_harness m))" using ok(1) by (simp add: check_harness_def Let_def if_Some_None)
  note this = package_id_text [OF this]
  then show "CHR ''/'' \<notin> set (hm_id (mf_harness m)) \<and> CHR 0x5C \<notin> set (hm_id (mf_harness m)) \<and>
      \<not> contains_str ''..'' (hm_id (mf_harness m)) \<and> \<not> starts_with ''.'' (hm_id (mf_harness m))"
    using slash_not_id by (auto simp: starts_with_iff)
  show "hm_tier (mf_harness m) = Wasm \<Longrightarrow> \<not> gpu_wanted (cap_gpu (mf_capabilities m)) \<and> \<not> cap_spawn (mf_capabilities m)"
    using ok(1) by (auto simp: check_harness_def Let_def if_Some_None)
  show "\<exists>p. vd_module v = Some p \<and> \<not> starts_with ''/'' p \<and> \<not> contains_str ''..'' p"
    if "v \<in> set (ct_views (mf_contributes m))" "vd_kind v = Web"
    using web_module_inside [OF ok(2) [OF that(1)] that(2)] by metis
  show "\<exists>r. net_reason (cap_net (mf_capabilities m)) = Some r \<and> trim r \<noteq> []"
    if "net_hosts (cap_net (mf_capabilities m)) \<noteq> []"
    using ok(7) that by (cases "cap_net (mf_capabilities m)") (auto simp: check_net_def if_Some_None)
  show "\<exists>r. dp_req d = Some r \<and> valid_requirement r" if "d \<in> set (manifest_dependencies m)" "\<not> dp_interface d"
    using that ok(6) by (fastforce simp: manifest_dependencies_def check_dependency_def split: option.splits if_splits)
  show "0 < mb_logic (memory_mb (mf_resources m)) \<and> mb_logic (memory_mb (mf_resources m)) \<le> 4096 \<and>
      0 < mb_surface (memory_mb (mf_resources m)) \<and>
      parse_duration (idle_unload (mf_resources m)) = Inr (idle_unload_duration (mf_resources m))"
    using ok(3) by (auto simp: check_resources_def idle_unload_duration_def if_Some_None split: sum.splits)
qed

text \<open>(C35) A manifest the install gate accepts keeps what the default-deny model promises: its id is text no path can be
  made of (no separator, no parent step, no leading dot); a package of the sandboxed tier has neither a GPU nor
  subprocesses; the entry module of every web view is a path inside the package; network hosts come with a reason
  to show; every dependency that is not on an interface has a requirement that can be read; the memory limits are positive and
  addressable, and the unload time the runtime uses is the declared one.\<close>

theorem accepted_manifest_confined:
  assumes "validate m = Inr ()"
  shows "(CHR ''/'' \<notin> set (hm_id (mf_harness m)) \<and> CHR 0x5C \<notin> set (hm_id (mf_harness m)) \<and>
      \<not> contains_str ''..'' (hm_id (mf_harness m)) \<and> \<not> starts_with ''.'' (hm_id (mf_harness m))) \<and>
    (hm_tier (mf_harness m) = Wasm \<longrightarrow> \<not> gpu_wanted (cap_gpu (mf_capabilities m)) \<and> \<not> cap_spawn (mf_capabilities m)) \<and>
    (\<forall>v \<in> set (ct_views (mf_contributes m)). vd_kind v = Web \<longrightarrow>
      (\<exists>p. vd_module v = Some p \<and> \<not> starts_with ''/'' p \<and> \<not> contains_str ''..'' p)) \<and>
    (net_hosts (cap_net (mf_capabilities m)) \<noteq> [] \<longrightarrow>
      (\<exists>r. net_reason (cap_net (mf_capabilities m)) = Some r \<and> trim r \<noteq> [])) \<and>
    (\<forall>d \<in> set (manifest_dependencies m). \<not> dp_interface d \<longrightarrow> (\<exists>r. dp_req d = Some r \<and> valid_requirement r)) \<and>
    0 < mb_logic (memory_mb (mf_resources m)) \<and> mb_logic (memory_mb (mf_resources m)) \<le> 4096 \<and>
    0 < mb_surface (memory_mb (mf_resources m)) \<and>
    parse_duration (idle_unload (mf_resources m)) = Inr (idle_unload_duration (mf_resources m))"
  using accepted_manifest [OF assms] by simp

definition example_manifest :: manifest where
  "example_manifest = \<lparr>
     mf_harness = \<lparr>hm_id = ''io.localspace.whiteboard'', hm_version = ''1.0.0'', hm_api = ''*'', hm_title = ''Whiteboard'',
       hm_publisher = ''localspace'', hm_description = None, hm_tier = Wasm, hm_native_reason = None\<rparr>,
     mf_package = Harness, mf_capabilities = default_capabilities\<lparr>cap_net := Allowlist [''tiles.example''] ''map tiles''\<rparr>,
     mf_resources = default_resources,
     mf_contributes = default_contributes\<lparr>ct_tools := Some ''tools.json'',
       ct_views := [\<lparr>vd_id = ''board'', vd_kind = Web, vd_module = Some ''ui/index.js'', vd_placement = Main, vd_title = None\<rparr>]\<rparr>,
     mf_dependencies = [(''io.localspace.types.geometry'', DepVersion ''^1.2'')], mf_provides = [], mf_prefers = []\<rparr>"

lemma default_duration: "parse_duration ''5m'' = Inr 300"
proof -
  have t: "''5m'' = show_nat 5 @ ''m''" and "list_all simple ''m''" "\<not> is_ascii_digit (CHR ''m'')" by code_simp+
  with parse_duration_unit [of 5 "CHR ''m''" "[]"] show ?thesis unfolding t by simp
qed

lemma any_api: "api_range_accepts ''*'' v"
proof -
  have "trim ''*'' = ''*''" by (rule trim_simple) (simp add: simple_def code_def)
  then show ?thesis by (simp add: api_range_accepts_def Let_def split: prod.splits)
qed

lemma example_manifest_ok: "validate example_manifest = Inr ()"
proof -
  have "is_package_id ''io.localspace.whiteboard''"
    by (simp add: is_package_id_def id_char_def is_ascii_lower_def code_def)
  moreover have "trim ''^1.2'' = ''^1.2''" by (rule trim_simple) (simp add: simple_def code_def)
  then have "valid_requirement ''^1.2''" by (simp add: valid_requirement_def is_ascii_digit_def code_def)
  moreover have "trim ''map tiles'' \<noteq> []" by (rule trim_nonempty) (simp add: code_def)
  moreover have "ends_with ''/index.js'' ''ui/index.js''" "\<not> starts_with ''/'' ''ui/index.js''"
    "\<not> contains_str ''..'' ''ui/index.js''"
    by (simp_all add: ends_with_def starts_with_def)
  ultimately show ?thesis
    by (simp add: validate_def example_manifest_def Let_def or_else_def check_harness_def any_api gpu_wanted_def default_capabilities_def
        check_view_def check_web_module_def check_resources_def default_resources_def default_duration default_contributes_def
        check_kind_def is_harness_def check_dependency_def check_net_def)
qed

theorem accepted_manifest_confined_witness:
  "\<not> contains_str ''..'' (hm_id (mf_harness example_manifest)) \<and> \<not> cap_spawn (mf_capabilities example_manifest) \<and>
   parse_duration (idle_unload (mf_resources example_manifest)) = Inr (idle_unload_duration (mf_resources example_manifest))"
proof -
  have "hm_tier (mf_harness example_manifest) = Wasm" by (simp add: example_manifest_def)
  then show ?thesis using accepted_manifest_confined [OF example_manifest_ok] by blast
qed

section \<open>Updates\<close>

text \<open>What a package may do, each right on its own; more of a right includes less of it.\<close>

datatype right =
    ReadUnder "string option"
  | Connect string
  | UseGpu
  | ReserveVram nat
  | Spawn
  | ClipboardOnAction
  | ClipboardAlways
  | RetrieveDocs
  | Infer model_cap

definition rights :: "capabilities \<Rightarrow> right set" where
  "rights c =
     (case cap_fs c of FsNone \<Rightarrow> {} | FsWorkspace \<Rightarrow> range ReadUnder | Scoped p \<Rightarrow> {ReadUnder (Some p)})
   \<union> Connect ` set (net_hosts (cap_net c))
   \<union> (if gpu_wanted (cap_gpu c) then insert UseGpu (ReserveVram ` {.. vram_gb (cap_gpu c)}) else {})
   \<union> (if cap_spawn c then {Spawn} else {})
   \<union> (case cap_clipboard c of ClipNone \<Rightarrow> {} | OnUserAction \<Rightarrow> {ClipboardOnAction}
        | ClipAlways \<Rightarrow> {ClipboardOnAction, ClipboardAlways})
   \<union> (case cap_docs c of DocsNone \<Rightarrow> {} | DocsAcl \<Rightarrow> {RetrieveDocs})
   \<union> Infer ` set (cap_model c)"

lemma widening_none:
  assumes "widening_over c prev = []"
  shows "cap_fs c = FsNone \<or> cap_fs c = cap_fs prev" and "set (net_hosts (cap_net c)) \<subseteq> set (net_hosts (cap_net prev))"
    and "gpu_wanted (cap_gpu c) \<Longrightarrow> gpu_wanted (cap_gpu prev) \<and> vram_gb (cap_gpu c) \<le> vram_gb (cap_gpu prev)"
    and "cap_spawn c \<Longrightarrow> cap_spawn prev" and "cap_clipboard c = ClipNone \<or> cap_clipboard c = cap_clipboard prev"
    and "cap_docs c = DocsNone \<or> cap_docs c = cap_docs prev" and "set (cap_model c) \<subseteq> set (cap_model prev)"
  using assms by (auto simp: widening_over_def Let_def filter_empty_conv split: if_splits)

lemma exclusive_gpu_not_listed:
  "widening_over (c\<lparr>cap_gpu := Request n True\<rparr>) (c\<lparr>cap_gpu := Request n False\<rparr>) = [] \<and>
   gpu_exclusive (cap_gpu (c\<lparr>cap_gpu := Request n True\<rparr>)) \<and> \<not> gpu_exclusive (cap_gpu (c\<lparr>cap_gpu := Request n False\<rparr>)) \<and>
   cs_gpu (capability_summary_of (c\<lparr>cap_gpu := Request n True\<rparr>)) \<noteq> cs_gpu (capability_summary_of (c\<lparr>cap_gpu := Request n False\<rparr>))"
  by (auto simp: widening_over_def Let_def capability_summary_of_def filter_empty_conv gpu_wanted_def)


text \<open>(C36) An update that installs without asking, because nothing is listed as widened, gives the package no right it did
  not have: no path, no host, no GPU or more of its memory, no subprocess, clipboard, retrieval or inference.  What the
  list leaves out is exclusive use: an update from a shared GPU to an exclusive one of the same size lists nothing.\<close>

theorem silent_update_gains_nothing:
  assumes "widening_over c prev = []"
  shows "rights c \<subseteq> rights prev \<and>
    widening_over (c\<lparr>cap_gpu := Request n True\<rparr>) (c\<lparr>cap_gpu := Request n False\<rparr>) = []"
proof -
  note w = widening_none [OF assms]
  have "rights c \<subseteq> rights prev" unfolding rights_def
  proof (intro Un_mono)
    show "(if gpu_wanted (cap_gpu c) then insert UseGpu (ReserveVram ` {.. vram_gb (cap_gpu c)}) else {})
        \<subseteq> (if gpu_wanted (cap_gpu prev) then insert UseGpu (ReserveVram ` {.. vram_gb (cap_gpu prev)}) else {})"
      using w(3) by auto
  qed (use w in auto)
  with exclusive_gpu_not_listed show ?thesis by blast
qed

theorem silent_update_gains_nothing_witness:
  "rights (default_capabilities\<lparr>cap_fs := Scoped ''notes''\<rparr>)
    \<subseteq> rights (default_capabilities\<lparr>cap_fs := Scoped ''notes'', cap_spawn := True\<rparr>)"
  by (rule silent_update_gains_nothing [THEN conjunct1]) (simp add: widening_over_def default_capabilities_def gpu_wanted_def)

end
