(* ===== verification/Tools.thy ===== *)
theory Tools
  imports Json
begin

text \<open>
  The tools a harness offers the agent: \<open>crates/localspace-core/src/tools.rs\<close>, and the token estimate of
  \<open>crates/localspace-proto/src/lib.rs\<close>.  \<open>lint\<close> is the install-time gate over a tool set, with its accumulators;
  \<open>validate_params\<close> is the check of a call's arguments against the tool's schema.  The text serde writes for a JSON value is the
  parameter \<open>to_text\<close>: the lint measures it, and one error quotes it.
\<close>

section \<open>Declarations\<close>

definition tool_token_budget :: nat where
  "tool_token_budget = 4000"

definition max_summary_words :: nat where
  "max_summary_words = 25"

definition max_param_props :: nat where
  "max_param_props = 8"

definition max_front_door :: nat where
  "max_front_door = 3"

datatype tool_kind = Read | Write | Compute

datatype confirm = Never | Destructive | Always

datatype cost_hint = Instant | Seconds | Long

record tool_decl =
  td_name :: string
  td_summary :: string
  td_params :: json
  td_kind :: tool_kind
  td_front_door :: bool
  td_undoable :: bool
  td_confirm :: confirm
  td_cost_hint :: cost_hint

definition empty_schema :: json where
  "empty_schema = JObj [(''type'', JStr ''object''), (''properties'', JObj [])]"

definition estimate_tokens :: "string \<Rightarrow> nat" where
  "estimate_tokens s = (if s = [] then 0 else (length s + 3) div 4)"

definition tool_token_cost :: "(json \<Rightarrow> string) \<Rightarrow> tool_decl \<Rightarrow> nat" where
  "tool_token_cost to_text t = estimate_tokens (td_name t) + estimate_tokens (td_summary t) + estimate_tokens (to_text (td_params t))"

type_synonym tool_set = "tool_decl list"

definition get_tool :: "tool_set \<Rightarrow> string \<Rightarrow> tool_decl option" where
  "get_tool ts name = List.find (\<lambda>t. td_name t = name) ts"

definition front_door :: "tool_set \<Rightarrow> tool_decl list" where
  "front_door ts = filter td_front_door ts"

definition set_token_cost :: "(json \<Rightarrow> string) \<Rightarrow> tool_set \<Rightarrow> nat" where
  "set_token_cost to_text ts = sum_list (map (tool_token_cost to_text) ts)"

definition front_door_cost :: "(json \<Rightarrow> string) \<Rightarrow> tool_set \<Rightarrow> nat" where
  "front_door_cost to_text ts = sum_list (map (tool_token_cost to_text) (front_door ts))"

section \<open>The lint\<close>

datatype lint_error =
    NoToolsDeclared
  | DuplicateTool string
  | EmptyToolName
  | NoSummary string
  | LongSummary string nat
  | TooManyParams string nat
  | ParamsNotObject string
  | UnquestionedWrite string
  | TooManyFrontDoor nat
  | OverTokenBudget nat

definition param_props :: "tool_decl \<Rightarrow> nat" where
  "param_props t = (case Option.bind (jget (td_params t) ''properties'') as_object of Some o1 \<Rightarrow> length o1 | None \<Rightarrow> 0)"

definition lint_tool :: "tool_decl \<Rightarrow> lint_error option" where
  "lint_tool t =
     (let words = length (split_whitespace (td_summary t)); props = param_props t
      in if trim (td_name t) = [] then Some EmptyToolName
         else if words = 0 then Some (NoSummary (td_name t))
         else if max_summary_words < words then Some (LongSummary (td_name t) words)
         else if max_param_props < props then Some (TooManyParams (td_name t) props)
         else if Option.bind (jget (td_params t) ''type'') as_str \<noteq> Some ''object'' then Some (ParamsNotObject (td_name t))
         else if td_kind t = Write \<and> \<not> td_undoable t \<and> td_confirm t = Never then Some (UnquestionedWrite (td_name t))
         else None)"

fun lint_loop :: "(json \<Rightarrow> string) \<Rightarrow> tool_decl list \<Rightarrow> string list \<Rightarrow> nat \<Rightarrow> nat \<Rightarrow> (lint_error, nat \<times> nat) result" where
  "lint_loop to_text [] seen front cost = Inr (front, cost)"
| "lint_loop to_text (t # ts) seen front cost =
     (if td_name t \<in> set seen then Inl (DuplicateTool (td_name t))
      else case lint_tool t of
          Some e \<Rightarrow> Inl e
        | None \<Rightarrow> lint_loop to_text ts (td_name t # seen) (front + (if td_front_door t then 1 else 0))
            (cost + tool_token_cost to_text t))"

definition lint :: "(json \<Rightarrow> string) \<Rightarrow> tool_set \<Rightarrow> (lint_error, unit) result" where
  "lint to_text ts =
     (if ts = [] then Inl NoToolsDeclared
      else bind_result (lint_loop to_text ts [] 0 0) (\<lambda>(front, cost).
        if max_front_door < front then Inl (TooManyFrontDoor front)
        else if tool_token_budget < cost then Inl (OverTokenBudget cost)
        else Inr ()))"

section \<open>Arguments of a call\<close>

datatype params_error =
    NotAnObject
  | MissingParameter string
  | UnknownParameter string
  | WrongType string string
  | NotOneOf string string

fun check_required :: "json list \<Rightarrow> (string \<times> json) list \<Rightarrow> params_error option" where
  "check_required [] o1 = None"
| "check_required (r # rs) o1 = (case as_str r of
      Some key \<Rightarrow> if map_of o1 key = None then Some (MissingParameter key) else check_required rs o1
    | None \<Rightarrow> check_required rs o1)"

definition type_ok :: "string \<Rightarrow> json \<Rightarrow> bool" where
  "type_ok ty v =
     (if ty = ''string'' then is_string v
      else if ty = ''number'' then is_number v
      else if ty = ''integer'' then is_i64 v \<or> is_u64 v
      else if ty = ''boolean'' then is_boolean v
      else if ty = ''array'' then is_array v
      else if ty = ''object'' then is_object v
      else if ty = ''null'' then is_null v
      else True)"

definition check_value :: "(json \<Rightarrow> string) \<Rightarrow> string \<Rightarrow> json \<Rightarrow> json \<Rightarrow> params_error option" where
  "check_value to_text key spec v =
     (case (case Option.bind (jget spec ''type'') as_str of
              Some ty \<Rightarrow> if type_ok ty v then None else Some (WrongType key ty)
            | None \<Rightarrow> None) of
        Some e \<Rightarrow> Some e
      | None \<Rightarrow> (case Option.bind (jget spec ''enum'') as_array of
            Some allowed \<Rightarrow> if v \<notin> set allowed then Some (NotOneOf key (join '', '' (map to_text allowed))) else None
          | None \<Rightarrow> None))"

fun check_params :: "(json \<Rightarrow> string) \<Rightarrow> json \<Rightarrow> (string \<times> json) list \<Rightarrow> (string \<times> json) list \<Rightarrow> params_error option" where
  "check_params to_text schema props [] = None"
| "check_params to_text schema props ((key, v) # kvs) =
     (case map_of props key of
        None \<Rightarrow> if jget schema ''additionalProperties'' = Some (JBool False) then Some (UnknownParameter key)
                else check_params to_text schema props kvs
      | Some spec \<Rightarrow> (case check_value to_text key spec v of
            Some e \<Rightarrow> Some e
          | None \<Rightarrow> check_params to_text schema props kvs))"

definition validate_params :: "(json \<Rightarrow> string) \<Rightarrow> json \<Rightarrow> json \<Rightarrow> (params_error, unit) result" where
  "validate_params to_text schema params =
     (case as_object params of
        None \<Rightarrow> Inl NotAnObject
      | Some o1 \<Rightarrow>
          (case (case Option.bind (jget schema ''required'') as_array of
                   Some req \<Rightarrow> check_required req o1 | None \<Rightarrow> None) of
             Some e \<Rightarrow> Inl e
           | None \<Rightarrow> (case Option.bind (jget schema ''properties'') as_object of
                 None \<Rightarrow> Inr ()
               | Some props \<Rightarrow> (case check_params to_text schema props o1 of Some e \<Rightarrow> Inl e | None \<Rightarrow> Inr ()))))"

section \<open>What a linted set guarantees\<close>

lemma lint_loop_ok:
  "lint_loop to_text ts seen front cost = Inr (f, n) \<longleftrightarrow>
     distinct (map td_name ts) \<and> set (map td_name ts) \<inter> set seen = {} \<and> (\<forall>t \<in> set ts. lint_tool t = None) \<and>
     f = front + length (front_door ts) \<and> n = cost + set_token_cost to_text ts"
  by (induction ts arbitrary: seen front cost)
    (auto simp: front_door_def set_token_cost_def split: option.splits)

lemma lint_ok_iff:
  "lint to_text ts = Inr () \<longleftrightarrow> ts \<noteq> [] \<and> distinct (map td_name ts) \<and> (\<forall>t \<in> set ts. lint_tool t = None) \<and>
     length (front_door ts) \<le> max_front_door \<and> set_token_cost to_text ts \<le> tool_token_budget"
proof (cases "lint_loop to_text ts [] 0 0")
  case (Inl e)
  have "\<not> (distinct (map td_name ts) \<and> (\<forall>t \<in> set ts. lint_tool t = None))"
    using lint_loop_ok [of to_text ts "[]" 0 0 "length (front_door ts)" "set_token_cost to_text ts"] Inl by auto
  then show ?thesis using Inl by (auto simp: lint_def)
next
  case (Inr p)
  obtain f n where "p = (f, n)" by (cases p)
  with Inr lint_loop_ok [of to_text ts "[]" 0 0 f n] show ?thesis by (auto simp: lint_def)
qed

lemma get_tool_distinct: "distinct (map td_name ts) \<Longrightarrow> t \<in> set ts \<Longrightarrow> get_tool ts (td_name t) = Some t"
  by (induction ts) (auto simp: get_tool_def)

lemma sum_filter_le: "sum_list (map f (filter p xs)) \<le> sum_list (map (f :: 'a \<Rightarrow> nat) xs)"
  by (induction xs) auto

text \<open>A tool set the lint accepts is one the agent can be given: no two tools share a name, so that a name finds the tool
  that has it; every write can be undone or is asked about; every tool has a summary of at most 25 words and an object
  schema of at most eight parameters; at most three tools are front door; and the whole set, and so its front door alone, costs at
  most 4000 tokens.  A set that has all this is accepted.\<close>

theorem lint_accepts_iff:
  "lint to_text ts = Inr () \<longleftrightarrow>
     ts \<noteq> [] \<and>
     (\<forall>t \<in> set ts. get_tool ts (td_name t) = Some t) \<and> distinct ts \<and>
     (\<forall>t \<in> set ts. (td_kind t = Write \<longrightarrow> td_undoable t \<or> td_confirm t \<noteq> Never) \<and> trim (td_name t) \<noteq> [] \<and>
        length (split_whitespace (td_summary t)) \<in> {1 .. 25} \<and> param_props t \<le> 8 \<and>
        jget (td_params t) ''type'' = Some (JStr ''object'')) \<and>
     length (front_door ts) \<le> 3 \<and> set_token_cost to_text ts \<le> 4000 \<and> front_door_cost to_text ts \<le> 4000"
proof -
  have names: "distinct (map td_name ts) \<longleftrightarrow> (\<forall>t \<in> set ts. get_tool ts (td_name t) = Some t) \<and> distinct ts"
  proof
    assume "(\<forall>t \<in> set ts. get_tool ts (td_name t) = Some t) \<and> distinct ts"
    moreover from this have "inj_on td_name (set ts)" by (metis inj_on_def option.inject)
    ultimately show "distinct (map td_name ts)" by (simp add: distinct_map)
  qed (auto simp: get_tool_distinct distinct_map)
  have "Option.bind (jget p ''type'') as_str = Some ''object'' \<longleftrightarrow> jget p ''type'' = Some (JStr ''object'')" for p
    by (cases "jget p ''type''"; cases "the (jget p ''type'')") auto
  then have one: "lint_tool t = None \<longleftrightarrow>
      (td_kind t = Write \<longrightarrow> td_undoable t \<or> td_confirm t \<noteq> Never) \<and> trim (td_name t) \<noteq> [] \<and>
      length (split_whitespace (td_summary t)) \<in> {1 .. 25} \<and> param_props t \<le> 8 \<and>
      jget (td_params t) ''type'' = Some (JStr ''object'')" for t
    by (auto simp: lint_tool_def Let_def max_summary_words_def max_param_props_def Suc_le_eq)
  have "front_door_cost to_text ts \<le> set_token_cost to_text ts"
    by (simp add: front_door_cost_def set_token_cost_def front_door_def sum_filter_le)
  then show ?thesis
    unfolding lint_ok_iff names one max_front_door_def tool_token_budget_def by auto
qed

definition example_tool :: "string \<Rightarrow> bool \<Rightarrow> tool_decl" where
  "example_tool name undoable = \<lparr>td_name = name, td_summary = ''change a note'', td_params = empty_schema, td_kind = Write,
     td_front_door = True, td_undoable = undoable, td_confirm = Never, td_cost_hint = Instant\<rparr>"

theorem lint_accepts_iff_witness:
  "lint (\<lambda>_. ''{}'') [example_tool ''add'' True] = Inr () \<and> lint (\<lambda>_. ''{}'') [example_tool ''wipe'' False] \<noteq> Inr ()"
proof -
  have "trim ''add'' \<noteq> []" by (rule trim_nonempty) (simp add: code_def)
  moreover have "length (split_whitespace ''change a note'') = 3"
    by (simp add: split_whitespace_def chars_ascii is_white_byte code_def del: chars.simps)
  ultimately show ?thesis
    unfolding lint_accepts_iff
    by (simp add: example_tool_def get_tool_def front_door_def param_props_def empty_schema_def jget_def set_token_cost_def
        front_door_cost_def tool_token_cost_def estimate_tokens_def)
qed

section \<open>What accepted arguments guarantee\<close>

lemma check_required_None:
  "check_required rs o1 = None \<longleftrightarrow> (\<forall>key. JStr key \<in> set rs \<longrightarrow> key \<in> fst ` set o1)"
proof (induction rs)
  case (Cons r rs)
  then show ?case by (cases r) (auto simp: map_of_eq_None_iff)
qed simp

lemma check_params_None:
  "check_params to_text schema props kvs = None \<longleftrightarrow> (\<forall>(key, v) \<in> set kvs.
     case map_of props key of None \<Rightarrow> jget schema ''additionalProperties'' \<noteq> Some (JBool False)
       | Some spec \<Rightarrow> check_value to_text key spec v = None)"
  by (induction to_text schema props kvs rule: check_params.induct) (auto split: option.splits)

lemma bind_as:
  "Option.bind x as_str = Some s \<longleftrightarrow> x = Some (JStr s)" "Option.bind x as_array = Some l \<longleftrightarrow> x = Some (JArr l)"
  "Option.bind x as_object = Some p \<longleftrightarrow> x = Some (JObj p)"
  by (cases x; cases "the x"; auto)+

lemma check_value_None:
  "check_value to_text key spec v = None \<longleftrightarrow>
     (\<forall>ty. jget spec ''type'' = Some (JStr ty) \<longrightarrow> type_ok ty v) \<and>
     (\<forall>allowed. jget spec ''enum'' = Some (JArr allowed) \<longrightarrow> v \<in> set allowed)"
  by (auto simp: check_value_def bind_as split: option.splits if_splits)

text \<open>A call's arguments are accepted exactly when they are an object, name every required parameter, and, where the
  schema lists properties, give every listed parameter a value of its type and among its allowed values, with no
  unlisted parameter when the schema forbids them; the text of JSON plays no part in the decision.\<close>

theorem validate_params_iff:
  "validate_params to_text schema params = Inr () \<longleftrightarrow>
     (\<exists>kvs. params = JObj kvs \<and>
       (\<forall>req key. jget schema ''required'' = Some (JArr req) \<and> JStr key \<in> set req \<longrightarrow> key \<in> fst ` set kvs) \<and>
       (\<forall>props. jget schema ''properties'' = Some (JObj props) \<longrightarrow> (\<forall>(key, v) \<in> set kvs.
          (map_of props key = None \<longrightarrow> jget schema ''additionalProperties'' \<noteq> Some (JBool False)) \<and>
          (\<forall>spec. map_of props key = Some spec \<longrightarrow>
             (\<forall>ty. jget spec ''type'' = Some (JStr ty) \<longrightarrow> type_ok ty v) \<and>
             (\<forall>allowed. jget spec ''enum'' = Some (JArr allowed) \<longrightarrow> v \<in> set allowed)))))"
proof (cases "as_object params")
  case None
  then show ?thesis by (cases params) (auto simp: validate_params_def)
next
  case (Some kvs)
  then have p: "params = JObj kvs" by (cases params) auto
  have req: "(case Option.bind (jget schema ''required'') as_array of Some req \<Rightarrow> check_required req kvs | None \<Rightarrow> None) = None
      \<longleftrightarrow> (\<forall>req key. jget schema ''required'' = Some (JArr req) \<and> JStr key \<in> set req \<longrightarrow> key \<in> fst ` set kvs)"
    by (auto simp: check_required_None bind_as split: option.splits)
  have "validate_params to_text schema params = Inr () \<longleftrightarrow>
      (case Option.bind (jget schema ''required'') as_array of Some req \<Rightarrow> check_required req kvs | None \<Rightarrow> None) = None \<and>
      (\<forall>props. jget schema ''properties'' = Some (JObj props) \<longrightarrow> check_params to_text schema props kvs = None)"
    using Some by (auto simp: validate_params_def bind_as split: option.splits)
  then show ?thesis
    unfolding req check_params_None check_value_None p by (fastforce split: option.splits)
qed

theorem validate_params_iff_witness:
  "validate_params (\<lambda>_. []) (JObj [(''type'', JStr ''object''), (''required'', JArr [JStr ''x'']),
      (''properties'', JObj [(''x'', JObj [(''type'', JStr ''integer'')])])]) (JObj [(''x'', JNum (PosInt 3))]) = Inr ()"
  unfolding validate_params_iff
  by (simp add: jget_def type_ok_def is_u64_def)

end
