(* ===== verification/Registry.thy ===== *)
theory Registry
  imports Packages Tools
begin

text \<open>
  Installed packages: \<open>crates/localspace-core/src/registry.rs\<close> and the interchange types of
  \<open>crates/localspace-core/src/types.rs\<close>.  Files are read outside: staging takes what the manifest, the tools file and the types
  file were read as, and bringing logic online takes what loading the module returned.  The running module itself is not a value here;
  \<open>in_loaded\<close> says whether there is one, and the calls into it are parameters of the operations that make them.
\<close>

section \<open>Interchange types\<close>

record type_decl =
  ty_title :: string
  ty_description :: "string option"
  ty_mime :: string
  ty_extension :: string
  ty_required :: "string list"

definition missing_fields :: "type_decl \<Rightarrow> (string \<times> json) list \<Rightarrow> string list" where
  "missing_fields d given = filter (\<lambda>f. case map_of given f of None \<Rightarrow> True | Some v \<Rightarrow> is_null v) (ty_required d)"

type_synonym type_set = "(string, type_decl) table"

datatype types_error =
    DeclaresNoTypes
  | NotInterchange string
  | NeedsTitle string
  | NotMime string string
  | NotExtension string string
  | NotIdentifier string string

definition field_name :: "string \<Rightarrow> bool" where
  "field_name f \<longleftrightarrow> f \<noteq> [] \<and> list_all (\<lambda>c. is_ascii_lower c \<or> is_ascii_digit c \<or> c = CHR ''_'') f"

definition check_type :: "string \<times> type_decl \<Rightarrow> types_error option" where
  "check_type kd = (case kd of (kind, d) \<Rightarrow>
     if \<not> valid_interchange_kind kind then Some (NotInterchange kind)
     else if trim (ty_title d) = [] then Some (NeedsTitle kind)
     else if CHR ''/'' \<notin> set (ty_mime d) \<or> list_ex is_white (chars (ty_mime d)) then Some (NotMime kind (ty_mime d))
     else if length (ty_extension d) < 2 \<or> \<not> starts_with ''.'' (ty_extension d) then Some (NotExtension kind (ty_extension d))
     else first_error (\<lambda>f. if field_name f then None else Some (NotIdentifier kind f)) (ty_required d))"

definition parse_types :: "type_set \<Rightarrow> (types_error, type_set) result" where
  "parse_types ts = (if ts = [] then Inl DeclaresNoTypes
     else case first_error check_type ts of Some e \<Rightarrow> Inl e | None \<Rightarrow> Inr ts)"

section \<open>Installed packages\<close>

record installed =
  in_manifest :: manifest
  in_tools :: tool_set
  in_dir :: "string list"
  in_enabled :: bool
  in_degraded :: "string option"
  in_loaded :: bool
  in_last_used :: nat
  in_idle_unload :: nat
  in_types :: type_set

definition in_id :: "installed \<Rightarrow> string" where
  "in_id h = hm_id (mf_harness (in_manifest h))"

record view_desc =
  vs_id :: string
  vs_kind :: surface_kind
  vs_placement :: placement
  vs_title :: string

record harness_summary =
  hs_id :: string
  hs_title :: string
  hs_version :: string
  hs_publisher :: string
  hs_tier :: tier
  hs_views :: "view_desc list"
  hs_tool_count :: nat
  hs_front_door :: "string list"
  hs_has_context_provider :: bool
  hs_doc_kind :: pkg_doc_kind
  hs_capabilities :: capability_summary
  hs_enabled :: bool
  hs_degraded :: "string option"
  hs_resources :: resource_summary
  hs_loaded :: bool
  hs_accepts :: "string list"
  hs_produces :: "string list"
  hs_kind :: string

definition harness_summary_of :: "installed \<Rightarrow> harness_summary" where
  "harness_summary_of h =
     (let m = in_manifest h; c = mf_contributes m; hm = mf_harness m
      in \<lparr>hs_id = hm_id hm, hs_title = hm_title hm, hs_version = hm_version hm, hs_publisher = hm_publisher hm,
          hs_tier = hm_tier hm,
          hs_views = map (\<lambda>v. \<lparr>vs_id = vd_id v, vs_kind = vd_kind v, vs_placement = vd_placement v,
              vs_title = (case vd_title v of Some t \<Rightarrow> t | None \<Rightarrow> hm_title hm)\<rparr>) (ct_views c),
          hs_tool_count = length (in_tools h), hs_front_door = map td_name (front_door (in_tools h)),
          hs_has_context_provider = ct_context_provider c, hs_doc_kind = ct_doc c,
          hs_capabilities = capability_summary_of (mf_capabilities m), hs_enabled = in_enabled h,
          hs_degraded = in_degraded h, hs_resources = resources_summary (mf_resources m), hs_loaded = in_loaded h,
          hs_accepts = ct_accepts c, hs_produces = ct_produces c, hs_kind = kind_label (mf_package m)\<rparr>)"

section \<open>Files of a web view\<close>

text \<open>A path is its components, as \<open>Path\<close> has them: empty and current-directory segments are no components.\<close>

definition components :: "string \<Rightarrow> string list" where
  "components p = filter (\<lambda>s. s \<noteq> [] \<and> s \<noteq> ''.'') (split_on (\<lambda>c. c = CHR ''/'') p)"

definition is_slash :: "char \<Rightarrow> bool" where
  "is_slash c \<longleftrightarrow> c = CHR ''/'' \<or> c = CHR 0x5C"

definition surface_rel :: "string \<Rightarrow> string option" where
  "surface_rel path =
     (let rel = dropWhile is_slash path;
          clean = list_all (\<lambda>seg. seg \<noteq> [] \<and> seg \<noteq> ''.'' \<and> seg \<noteq> ''..'' \<and> CHR '':'' \<notin> set seg) (split_on is_slash rel)
      in if rel = [] \<or> \<not> clean then None else Some rel)"

datatype surface_error = NoView string | NotAWebSurface string | NoModule | OutsideView string
  | MissingRoot | NoFile string | ReadFailed

definition mime_for :: "string \<Rightarrow> string" where
  "mime_for name =
     (let ext = to_ascii_lowercase (last (split_on (\<lambda>c. c = CHR ''.'') name))
      in if ext \<in> {''js'', ''mjs''} then ''text/javascript; charset=utf-8''
         else if ext \<in> {''html'', ''htm''} then ''text/html; charset=utf-8''
         else if ext = ''css'' then ''text/css; charset=utf-8''
         else if ext \<in> {''json'', ''map''} then ''application/json''
         else if ext = ''wasm'' then ''application/wasm''
         else if ext = ''svg'' then ''image/svg+xml''
         else if ext = ''png'' then ''image/png''
         else if ext \<in> {''jpg'', ''jpeg''} then ''image/jpeg''
         else if ext = ''gif'' then ''image/gif''
         else if ext = ''webp'' then ''image/webp''
         else if ext = ''ico'' then ''image/x-icon''
         else if ext = ''woff2'' then ''font/woff2''
         else if ext = ''woff'' then ''font/woff''
         else if ext = ''ttf'' then ''font/ttf''
         else if ext \<in> {''txt'', ''md''} then ''text/plain; charset=utf-8''
         else ''application/octet-stream'')"

text \<open>The file system: where a path leads once links are followed, whether a file is there, and its bytes.\<close>

record file_system =
  canonicalize :: "string list \<Rightarrow> string list option"
  is_file :: "string list \<Rightarrow> bool"
  read_bytes :: "string list \<Rightarrow> string option"

definition view_root :: "installed \<Rightarrow> string \<Rightarrow> string list" where
  "view_root h m = butlast (in_dir h @ components m)"

definition surface_file :: "file_system \<Rightarrow> installed \<Rightarrow> string \<Rightarrow> string \<Rightarrow> (surface_error, string \<times> string) result" where
  "surface_file fs h view path = (case manifest_view (in_manifest h) view of
      None \<Rightarrow> Inl (NoView view)
    | Some v \<Rightarrow>
        if vd_kind v \<noteq> Web then Inl (NotAWebSurface view)
        else case vd_module v of
            None \<Rightarrow> Inl NoModule
          | Some m \<Rightarrow> (case surface_rel path of
                None \<Rightarrow> Inl (OutsideView path)
              | Some rel \<Rightarrow> (case canonicalize fs (view_root h m) of
                    None \<Rightarrow> Inl MissingRoot
                  | Some root_c \<Rightarrow> (case canonicalize fs (view_root h m @ components rel) of
                        None \<Rightarrow> Inl (NoFile path)
                      | Some full_c \<Rightarrow>
                          if take (length root_c) full_c \<noteq> root_c \<or> \<not> is_file fs full_c then Inl (OutsideView path)
                          else (case read_bytes fs full_c of
                              None \<Rightarrow> Inl ReadFailed
                            | Some b \<Rightarrow> Inr (b, mime_for rel))))))"

section \<open>Policy\<close>

record policy =
  po_tier_b_permitted :: bool
  po_net_grantable :: bool
  po_max_fs :: string

definition default_policy :: policy where
  "default_policy = \<lparr>po_tier_b_permitted = True, po_net_grantable = True, po_max_fs = ''workspace''\<rparr>"

definition organisation_default :: policy where
  "organisation_default = \<lparr>po_tier_b_permitted = False, po_net_grantable = True, po_max_fs = ''workspace''\<rparr>"

definition em_dash :: string where
  "em_dash = map char_of [226, 128, 148 :: nat]"

definition policy_apply :: "policy \<Rightarrow> capabilities \<Rightarrow> capabilities \<times> string option" where
  "policy_apply p caps =
     (let no_net = \<not> po_net_grantable p \<and> \<not> net_is_none (cap_net caps);
          no_fs = po_max_fs p = ''none'' \<and> cap_fs caps \<noteq> FsNone;
          effective = caps\<lparr>cap_net := (if no_net then NetSimple ''none'' else cap_net caps),
                           cap_fs := (if no_fs then FsNone else cap_fs caps)\<rparr>;
          refused = (if no_net then [''network access''] else []) @ (if no_fs then [''filesystem access''] else [])
      in (effective, if refused = [] then None
          else Some (''org policy disabled: '' @ join '', '' refused @ '' '' @ em_dash @ '' the harness runs without those features'')))"

section \<open>Staging and running\<close>

datatype stage_error =
    Unreadable string
  | BadManifest manifest_error
  | TierBDisabled string
  | BadTools lint_error
  | NotNamespaced string
  | BadTypes types_error

record package_files =
  pf_manifest :: "(string, manifest) result"
  pf_tools :: "string \<Rightarrow> (string, tool_decl list) result"
  pf_types :: "string \<Rightarrow> (string, type_set) result"

definition map_error :: "('e \<Rightarrow> 'f) \<Rightarrow> ('e, 'a) result \<Rightarrow> ('f, 'a) result" where
  "map_error f r = (case r of Inl e \<Rightarrow> Inl (f e) | Inr a \<Rightarrow> Inr a)"

definition stage_tools :: "(json \<Rightarrow> string) \<Rightarrow> package_files \<Rightarrow> manifest \<Rightarrow> (stage_error, tool_set) result" where
  "stage_tools to_text pf m =
     (if is_harness (mf_package m) then
        bind_result (map_error Unreadable (pf_tools pf (case ct_tools (mf_contributes m) of Some p \<Rightarrow> p | None \<Rightarrow> ''tools.json'')))
          (\<lambda>ts. bind_result (map_error BadTools (lint to_text ts))
            (\<lambda>_. case first_error (\<lambda>t. if CHR ''.'' \<in> set (td_name t) then None else Some (NotNamespaced (td_name t))) ts of
                Some e \<Rightarrow> Inl e | None \<Rightarrow> Inr ts))
      else Inr [])"

definition stage_types :: "package_files \<Rightarrow> manifest \<Rightarrow> (stage_error, type_set) result" where
  "stage_types pf m = (case ct_types (mf_contributes m) of
      Some p \<Rightarrow> if mf_package m = Types
        then bind_result (map_error Unreadable (pf_types pf p)) (\<lambda>ts. map_error BadTypes (parse_types ts))
        else Inr []
    | None \<Rightarrow> Inr [])"

definition stage :: "(json \<Rightarrow> string) \<Rightarrow> package_files \<Rightarrow> string list \<Rightarrow> policy \<Rightarrow> nat \<Rightarrow> (stage_error, installed) result" where
  "stage to_text pf dir p now =
     bind_result (map_error Unreadable (pf_manifest pf)) (\<lambda>m.
     bind_result (map_error BadManifest (validate m)) (\<lambda>_.
       if hm_tier (mf_harness m) = NativeTier \<and> \<not> po_tier_b_permitted p then Inl (TierBDisabled (hm_id (mf_harness m)))
       else bind_result (stage_tools to_text pf m) (\<lambda>ts.
            bind_result (stage_types pf m) (\<lambda>tys.
              let (effective, degraded) = policy_apply p (mf_capabilities m)
              in Inr \<lparr>in_manifest = m\<lparr>mf_capabilities := effective\<rparr>, in_tools = ts, in_dir = dir, in_enabled = True,
                   in_degraded = degraded, in_loaded = False, in_last_used = now,
                   in_idle_unload = idle_unload_duration (mf_resources m), in_types = tys\<rparr>))))"

text \<open>
  What loading the module gave: an error, or the tool list it reports, which is an error of its own, or text that
  is not a tool set (and is ignored), or the tools it names.
\<close>

datatype load_result = LoadFailed string | ReportFailed string | Unparsed | Reported "tool_decl list"

datatype run_error = CannotLoad string | LyingModule string | CannotReport string

definition instantiate :: "load_result \<Rightarrow> nat \<Rightarrow> installed \<Rightarrow> (run_error, unit) result \<times> installed" where
  "instantiate loaded now h =
     (if \<not> is_harness (mf_package (in_manifest h)) then (Inr (), h\<lparr>in_last_used := now\<rparr>)
      else case loaded of
          LoadFailed e \<Rightarrow> (Inl (CannotLoad e), h)
        | ReportFailed e \<Rightarrow> (Inl (CannotReport e), h\<lparr>in_loaded := True, in_last_used := now\<rparr>)
        | Unparsed \<Rightarrow> (Inr (), h\<lparr>in_loaded := True, in_last_used := now\<rparr>)
        | Reported ts \<Rightarrow>
            ((case List.find (\<lambda>t. td_name t \<notin> set (map td_name (in_tools h))) ts of
                Some t \<Rightarrow> Inl (LyingModule (td_name t)) | None \<Rightarrow> Inr ()),
             h\<lparr>in_loaded := True, in_last_used := now\<rparr>))"

definition ensure_runtime :: "load_result \<Rightarrow> nat \<Rightarrow> installed \<Rightarrow> (run_error, unit) result \<times> installed" where
  "ensure_runtime loaded now h =
     (if \<not> in_loaded h
      then (case instantiate loaded now h of (Inl e, h') \<Rightarrow> (Inl e, h') | (Inr _, h') \<Rightarrow> (Inr (), h'\<lparr>in_last_used := now\<rparr>))
      else (Inr (), h\<lparr>in_last_used := now\<rparr>))"

section \<open>The registry\<close>

type_synonym registry = "(string, installed) table"

definition reg_iter :: "registry \<Rightarrow> installed list" where
  "reg_iter r = vals r"

definition reg_get :: "registry \<Rightarrow> string \<Rightarrow> installed option" where
  "reg_get r i = t_get r i"

definition reg_insert :: "installed \<Rightarrow> registry \<Rightarrow> registry" where
  "reg_insert h r = t_put (in_id h) h r"

definition reg_remove :: "string \<Rightarrow> registry \<Rightarrow> installed option \<times> registry" where
  "reg_remove i r = (t_get r i, t_del i r)"

definition owner_of :: "registry \<Rightarrow> string \<Rightarrow> installed option" where
  "owner_of r tool = List.find (\<lambda>h. get_tool (in_tools h) tool \<noteq> None) (reg_iter r)"

fun find_map :: "('a \<Rightarrow> 'b option) \<Rightarrow> 'a list \<Rightarrow> 'b option" where
  "find_map f [] = None"
| "find_map f (x # xs) = (case f x of Some y \<Rightarrow> Some y | None \<Rightarrow> find_map f xs)"

definition reg_type_decl :: "registry \<Rightarrow> string \<Rightarrow> (installed \<times> type_decl) option" where
  "reg_type_decl r kind = find_map (\<lambda>h. map_option (\<lambda>d. (h, d)) (t_get (in_types h) kind)) (reg_iter r)"

definition idle :: "nat \<Rightarrow> installed \<Rightarrow> bool" where
  "idle now h \<longleftrightarrow> in_loaded h \<and> in_idle_unload h \<le> now - in_last_used h"

definition unload_idle :: "nat \<Rightarrow> registry \<Rightarrow> string list \<times> registry" where
  "unload_idle now r =
     (map in_id (filter (idle now) (reg_iter r)), map (\<lambda>(i, h). (i, if idle now h then h\<lparr>in_loaded := False\<rparr> else h)) r)"

fun load_dir :: "(json \<Rightarrow> string) \<Rightarrow> policy \<Rightarrow> nat \<Rightarrow> (string \<times> package_files \<times> string list \<times> load_result) list \<Rightarrow> registry \<Rightarrow>
    (string \<times> (stage_error + run_error)) list \<times> registry" where
  "load_dir to_text p now [] r = ([], r)"
| "load_dir to_text p now ((name, pf, dir, loaded) # es) r =
     (case stage to_text pf dir p now of
        Inl e \<Rightarrow> (let (fs, r') = load_dir to_text p now es r in ((name, Inl e) # fs, r'))
      | Inr h \<Rightarrow> (case instantiate loaded now h of
            (Inl e, _) \<Rightarrow> (let (fs, r') = load_dir to_text p now es r in ((name, Inr e) # fs, r'))
          | (Inr _, h') \<Rightarrow> load_dir to_text p now es (reg_insert h' r)))"

section \<open>The invariant of the registry\<close>

text \<open>What installing guarantees of an entry, whatever happens to it afterwards.\<close>

definition entry_ok :: "(json \<Rightarrow> string) \<Rightarrow> policy \<Rightarrow> installed \<Rightarrow> bool" where
  "entry_ok to_text p h \<longleftrightarrow>
     validate (in_manifest h) = Inr () \<and>
     (hm_tier (mf_harness (in_manifest h)) = NativeTier \<longrightarrow> po_tier_b_permitted p) \<and>
     (if is_harness (mf_package (in_manifest h))
      then lint to_text (in_tools h) = Inr () \<and> list_all (\<lambda>t. CHR ''.'' \<in> set (td_name t)) (in_tools h)
      else in_tools h = []) \<and>
     (\<not> po_net_grantable p \<longrightarrow> net_is_none (cap_net (mf_capabilities (in_manifest h)))) \<and>
     (po_max_fs p = ''none'' \<longrightarrow> cap_fs (mf_capabilities (in_manifest h)) = FsNone)"

definition registry_ok :: "(json \<Rightarrow> string) \<Rightarrow> policy \<Rightarrow> registry \<Rightarrow> bool" where
  "registry_ok to_text p r \<longleftrightarrow> ordered r \<and> (\<forall>(i, h) \<in> set r. in_id h = i \<and> entry_ok to_text p h)"

text \<open>Running, unloading, using, enabling and disabling change nothing of an entry but these fields.\<close>

definition same_package :: "installed \<Rightarrow> installed \<Rightarrow> bool" where
  "same_package h h' \<longleftrightarrow> in_manifest h' = in_manifest h \<and> in_tools h' = in_tools h \<and> in_dir h' = in_dir h \<and>
     in_degraded h' = in_degraded h \<and> in_idle_unload h' = in_idle_unload h \<and> in_types h' = in_types h"

lemma same_package_ok:
  assumes "same_package h h'"
  shows "in_id h' = in_id h" and "entry_ok to_text p h' = entry_ok to_text p h"
  using assms by (simp_all add: same_package_def in_id_def entry_ok_def)

lemma instantiate_same: "same_package h (snd (instantiate loaded now h))"
  by (simp add: same_package_def instantiate_def split: load_result.splits)

lemma ensure_runtime_same: "same_package h (snd (ensure_runtime loaded now h))"
  using instantiate_same [of h loaded now]
  by (auto simp: same_package_def ensure_runtime_def split: prod.splits sum.splits)

text \<open>Policy only takes away, and never what the install gate looked at.\<close>

lemma policy_apply_narrows: "rights (fst (policy_apply p c)) \<subseteq> rights c"
  by (auto simp: policy_apply_def Let_def rights_def)

lemma policy_apply_fields:
  "cap_gpu (fst (policy_apply p c)) = cap_gpu c" "cap_spawn (fst (policy_apply p c)) = cap_spawn c"
  "cap_net (fst (policy_apply p c)) = (if \<not> po_net_grantable p \<and> \<not> net_is_none (cap_net c) then NetSimple ''none'' else cap_net c)"
  "cap_fs (fst (policy_apply p c)) = (if po_max_fs p = ''none'' then FsNone else cap_fs c)"
  by (simp_all add: policy_apply_def Let_def)

lemma validate_narrowed:
  assumes "validate m = Inr ()"
  shows "validate (m\<lparr>mf_capabilities := fst (policy_apply p (mf_capabilities m))\<rparr>) = Inr ()"
proof -
  let ?m = "m\<lparr>mf_capabilities := fst (policy_apply p (mf_capabilities m))\<rparr>"
  have "check_net (cap_net (mf_capabilities ?m)) = None"
    using validate_ok(7) [OF assms] by (simp add: policy_apply_fields check_net_def)
  moreover have "check_harness ?m = check_harness m"
    by (simp add: check_harness_def policy_apply_fields Let_def)
  ultimately show ?thesis
    using assms by (simp add: validate_def Let_def or_else_def split: option.splits)
qed

lemma map_error_Inr: "map_error f r = Inr a \<longleftrightarrow> r = Inr a"
  by (cases r) (simp_all add: map_error_def)

lemma bind_result_Inr_iff: "bind_result r f = Inr b \<longleftrightarrow> (\<exists>a. r = Inr a \<and> f a = Inr b)"
  by (cases r) auto

lemma stage_tools_ok:
  assumes "stage_tools to_text pf m = Inr ts"
  shows "if is_harness (mf_package m) then lint to_text ts = Inr () \<and> list_all (\<lambda>t. CHR ''.'' \<in> set (td_name t)) ts else ts = []"
  using assms
  by (auto simp: stage_tools_def bind_result_Inr_iff map_error_Inr first_error_None list_all_iff split: if_splits option.splits)

lemma stage_ok:
  assumes "stage to_text pf dir p now = Inr h"
  shows "entry_ok to_text p h"
proof -
  obtain m ts tys where m: "validate m = Inr ()" "hm_tier (mf_harness m) = NativeTier \<longrightarrow> po_tier_b_permitted p"
      "stage_tools to_text pf m = Inr ts"
      "in_manifest h = m\<lparr>mf_capabilities := fst (policy_apply p (mf_capabilities m))\<rparr>" "in_tools h = ts"
    using assms by (auto simp: stage_def bind_result_Inr_iff map_error_Inr Let_def case_prod_unfold split: if_splits)
  show ?thesis
    unfolding entry_ok_def m(4,5) using m(2) stage_tools_ok [OF m(3)] validate_narrowed [OF m(1)]
    by (simp add: policy_apply_fields net_is_none_def)
qed

inductive reg_step :: "(json \<Rightarrow> string) \<Rightarrow> policy \<Rightarrow> registry \<Rightarrow> registry \<Rightarrow> bool" for to_text p where
  reg_load: "load_dir to_text p now es r = (fails, r') \<Longrightarrow> reg_step to_text p r r'"
| reg_install: "stage to_text pf dir p now = Inr h \<Longrightarrow> instantiate loaded now h = (Inr u, h') \<Longrightarrow>
    reg_step to_text p r (reg_insert h' r)"
| reg_uninstall: "reg_step to_text p r (snd (reg_remove i r))"
| reg_run: "reg_get r i = Some h \<Longrightarrow> reg_step to_text p r (t_put i (snd (ensure_runtime loaded now h)) r)"
| reg_enable: "reg_get r i = Some h \<Longrightarrow> reg_step to_text p r (t_put i (h\<lparr>in_enabled := on\<rparr>) r)"
| reg_idle: "reg_step to_text p r (snd (unload_idle now r))"

inductive reg_reach :: "(json \<Rightarrow> string) \<Rightarrow> policy \<Rightarrow> registry \<Rightarrow> bool" for to_text p where
  reg_new: "reg_reach to_text p []"
| reg_next: "reg_reach to_text p r \<Longrightarrow> reg_step to_text p r r' \<Longrightarrow> reg_reach to_text p r'"

lemma registry_ok_put:
  assumes "registry_ok to_text p r" and "entry_ok to_text p h" and "in_id h = i"
  shows "registry_ok to_text p (t_put i h r)"
  using assms ot.items_put [of r i h] by (auto simp: registry_ok_def ot.ok_put)

lemma registry_ok_get:
  assumes "registry_ok to_text p r" and "reg_get r i = Some h"
  shows "in_id h = i" and "entry_ok to_text p h"
  using assms by (auto simp: registry_ok_def reg_get_def dest!: map_of_SomeD)

lemma registry_ok_same:
  assumes "registry_ok to_text p r" and "reg_get r i = Some h" and "same_package h h'"
  shows "registry_ok to_text p (t_put i h' r)"
  using registry_ok_put [OF assms(1)] registry_ok_get [OF assms(1,2)] same_package_ok [OF assms(3)] by simp

lemma registry_ok_load:
  assumes "registry_ok to_text p r"
  shows "registry_ok to_text p (snd (load_dir to_text p now es r))"
  using assms
proof (induction to_text p now es r rule: load_dir.induct)
  case (2 to_text p now name pf dir loaded es r)
  show ?case
  proof (cases "stage to_text pf dir p now")
    case (Inl e)
    with 2 show ?thesis by (simp add: Let_def case_prod_unfold)
  next
    case (Inr h)
    obtain res h' where i: "instantiate loaded now h = (res, h')" by fastforce
    with instantiate_same [of h loaded now] same_package_ok [of h h'] stage_ok [OF Inr]
    have "registry_ok to_text p (reg_insert h' r)"
      using 2(4) by (simp add: reg_insert_def registry_ok_put)
    with Inr i 2 show ?thesis by (cases res) (simp_all add: Let_def case_prod_unfold)
  qed
qed simp

lemma registry_ok_idle:
  assumes "registry_ok to_text p r"
  shows "registry_ok to_text p (snd (unload_idle now r))"
proof -
  have "same_package h (if idle now h then h\<lparr>in_loaded := False\<rparr> else h)" for h by (simp add: same_package_def)
  note same = same_package_ok(1) [OF this] same_package_ok(2) [OF this, of to_text p]
  have "keys (snd (unload_idle now r)) = keys r" by (simp add: unload_idle_def keys_def case_prod_unfold)
  with assms show ?thesis unfolding registry_ok_def ordered_def
    by (auto simp: unload_idle_def same)
qed

lemma reg_step_ok: "reg_step to_text p r r' \<Longrightarrow> registry_ok to_text p r \<Longrightarrow> registry_ok to_text p r'"
proof (induction rule: reg_step.induct)
  case (reg_load now es r fails r')
  then show ?case using registry_ok_load [of to_text p r now es] by simp
next
  case (reg_install pf dir now h loaded u h' r)
  then show ?case
    using stage_ok [OF reg_install.hyps(1)] same_package_ok [OF instantiate_same [of h loaded now]]
    by (simp add: reg_insert_def registry_ok_put)
next
  case (reg_uninstall r i)
  then show ?case by (auto simp: registry_ok_def reg_remove_def ot.ok_del ot.items_del)
next
  case (reg_run r i h loaded now)
  then show ?case by (simp add: registry_ok_same ensure_runtime_same)
next
  case (reg_enable r i h on)
  then show ?case by (simp add: registry_ok_same same_package_def)
qed (simp add: registry_ok_idle)

lemma reg_reach_ok: "reg_reach to_text p r \<Longrightarrow> registry_ok to_text p r"
  by (induction rule: reg_reach.induct) (simp_all add: registry_ok_def, blast dest: reg_step_ok [unfolded registry_ok_def])

section \<open>Properties\<close>

lemma entry_package_id: "entry_ok to_text p h \<Longrightarrow> is_package_id (in_id h)"
  using validate_ok(1) [of "in_manifest h"] by (simp add: entry_ok_def in_id_def check_harness_def Let_def if_Some_None)

text \<open>(C37) However packages are loaded at start, installed, run, disabled, unloaded and removed, every entry of the registry stands under
  its own package id and is one the install gate and the policy accept: its manifest validates, a native package is there
  only where policy permits the tier, a harness has a linted set of dotted tools and anything else has none, and a package has
  no network or file access that policy refuses.\<close>

theorem registry_entries_accepted:
  assumes "reg_reach to_text p r" and "reg_get r i = Some h"
  shows "in_id h = i \<and> is_package_id i \<and> validate (in_manifest h) = Inr () \<and>
    (hm_tier (mf_harness (in_manifest h)) = NativeTier \<longrightarrow> po_tier_b_permitted p) \<and>
    (if is_harness (mf_package (in_manifest h)) then lint to_text (in_tools h) = Inr () else in_tools h = []) \<and>
    (\<forall>t \<in> set (in_tools h). CHR ''.'' \<in> set (td_name t)) \<and>
    (\<not> po_net_grantable p \<longrightarrow> net_hosts (cap_net (mf_capabilities (in_manifest h))) = []) \<and>
    (po_max_fs p = ''none'' \<longrightarrow> cap_fs (mf_capabilities (in_manifest h)) = FsNone)"
proof -
  note ok = registry_ok_get [OF reg_reach_ok [OF assms(1)] assms(2)]
  show ?thesis
    using ok(1) entry_package_id [OF ok(2)] ok(2) by (auto simp: entry_ok_def list_all_iff net_is_none_def split: if_splits)
qed

definition example_files :: package_files where
  "example_files = \<lparr>pf_manifest = Inr example_manifest, pf_tools = (\<lambda>_. Inr [example_tool ''board.add'' True]),
     pf_types = (\<lambda>_. Inl ''no such file'')\<rparr>"

definition strict_policy :: policy where
  "strict_policy = \<lparr>po_tier_b_permitted = False, po_net_grantable = False, po_max_fs = ''none''\<rparr>"

lemma example_lint: "lint (\<lambda>_. ''{}'') [example_tool ''board.add'' True] = Inr ()"
proof -
  have "trim ''board.add'' \<noteq> []" by (rule trim_nonempty) (simp add: code_def)
  moreover have "length (split_whitespace ''change a note'') = 3"
    by (simp add: split_whitespace_def chars_ascii is_white_byte code_def del: chars.simps)
  ultimately show ?thesis
    by (simp add: lint_def lint_tool_def example_tool_def param_props_def empty_schema_def jget_def max_front_door_def
        tool_token_budget_def tool_token_cost_def estimate_tokens_def max_summary_words_def max_param_props_def Let_def)
qed

lemma example_stage:
  "\<exists>h. stage (\<lambda>_. ''{}'') example_files [''packages''] strict_policy 7 = Inr h \<and> in_loaded h = False \<and>
    in_id h = ''io.localspace.whiteboard'' \<and> mf_package (in_manifest h) = Harness \<and> in_tools h = [example_tool ''board.add'' True]"
proof -
  have "is_harness (mf_package example_manifest)" "ct_tools (mf_contributes example_manifest) = Some ''tools.json''"
      "ct_types (mf_contributes example_manifest) = None" "hm_tier (mf_harness example_manifest) = Wasm"
      "hm_id (mf_harness example_manifest) = ''io.localspace.whiteboard''" "mf_package example_manifest = Harness"
    by (simp_all add: example_manifest_def is_harness_def default_contributes_def)
  moreover have "CHR ''.'' \<in> set (td_name (example_tool ''board.add'' True))" by (simp add: example_tool_def)
  ultimately show ?thesis
    by (simp add: stage_def example_files_def map_error_def example_manifest_ok stage_tools_def stage_types_def example_lint
        in_id_def case_prod_unfold Let_def)
qed

theorem registry_entries_accepted_witness:
  "\<exists>r h. reg_get r ''io.localspace.whiteboard'' = Some h \<and> net_hosts (cap_net (mf_capabilities example_manifest)) \<noteq> [] \<and>
     net_hosts (cap_net (mf_capabilities (in_manifest h))) = [] \<and> is_package_id ''io.localspace.whiteboard''"
proof -
  obtain h where h: "stage (\<lambda>_. ''{}'') example_files [''packages''] strict_policy 7 = Inr h"
      "in_id h = ''io.localspace.whiteboard''" "mf_package (in_manifest h) = Harness"
    using example_stage by blast
  let ?h = "h\<lparr>in_loaded := True, in_last_used := 7\<rparr>"
  have "instantiate Unparsed 7 h = (Inr (), ?h)" using h(3) by (simp add: instantiate_def is_harness_def)
  from reg_install [OF h(1) this] have "reg_reach (\<lambda>_. ''{}'') strict_policy (reg_insert ?h [])"
    by (blast intro: reg_new reg_next)
  moreover have "reg_get (reg_insert ?h []) ''io.localspace.whiteboard'' = Some ?h"
    using h(2) by (simp add: reg_get_def reg_insert_def in_id_def)
  moreover have "net_hosts (cap_net (mf_capabilities example_manifest)) \<noteq> []" by (simp add: example_manifest_def)
  ultimately show ?thesis
    using registry_entries_accepted [of "\<lambda>_. ''{}''" strict_policy "reg_insert ?h []" "''io.localspace.whiteboard''" ?h]
    by (intro exI [of _ "reg_insert ?h []"] exI [of _ ?h]) (simp add: strict_policy_def)
qed

text \<open>A module that reports a tool its package does not declare is refused when it is brought online, but stays in the
  entry: the next call finds logic that is already online and runs it.\<close>

theorem refused_module_runs_next_time:
  assumes "mf_package (in_manifest h) = Harness" and "\<not> in_loaded h" and "t \<in> set ts" and "get_tool (in_tools h) (td_name t) = None"
  shows "\<exists>e h'. ensure_runtime (Reported ts) now h = (Inl (LyingModule e), h') \<and> in_loaded h' \<and>
    fst (ensure_runtime loaded later h') = Inr ()"
proof -
  have "td_name t \<notin> set (map td_name (in_tools h))"
    using assms(4) by (auto simp: get_tool_def find_None_iff)
  with assms(3) obtain u where "List.find (\<lambda>t. td_name t \<notin> set (map td_name (in_tools h))) ts = Some u"
    by (metis (no_types, lifting) find_None_iff not_Some_eq)
  with assms(1,2) show ?thesis by (simp add: ensure_runtime_def instantiate_def is_harness_def)
qed

theorem refused_module_runs_next_time_witness:
  "\<exists>h e h'. stage (\<lambda>_. ''{}'') example_files [''packages''] strict_policy 7 = Inr h \<and>
     ensure_runtime (Reported [example_tool ''board.hidden'' True]) 8 h = (Inl (LyingModule e), h') \<and>
     fst (ensure_runtime (LoadFailed []) 9 h') = Inr ()"
proof -
  obtain h where h: "stage (\<lambda>_. ''{}'') example_files [''packages''] strict_policy 7 = Inr h" "\<not> in_loaded h"
      "mf_package (in_manifest h) = Harness" "in_tools h = [example_tool ''board.add'' True]"
    using example_stage by blast
  have "get_tool (in_tools h) (td_name (example_tool ''board.hidden'' True)) = None"
    using h(4) by (simp add: get_tool_def example_tool_def)
  from refused_module_runs_next_time [OF h(3,2) _ this, of "[example_tool ''board.hidden'' True]" 8 "LoadFailed []" 9] h(1)
  show ?thesis by auto
qed

end
