(* ===== verification/Fitting.thy ===== *)
theory Fitting
  imports Tools
begin

text \<open>
  Tools as the model is shown them, and the loop of \<open>crates/localspace-core/src/exposure.rs\<close> that drops whole harnesses, and then
  single tools of the focused one, until a set of ranked candidates fits its token budget.  The loop is total by the number of
  candidates; its lemmas say what it may drop and what it leaves.
\<close>

section \<open>Tools as the model sees them\<close>

datatype exposure_reason = Focused | Pinned | Touched | CoreBuiltin

record exposed_tool =
  et_harness :: string
  et_name :: string
  et_summary :: string
  et_params :: json
  et_kind :: tool_kind
  et_confirm :: confirm
  et_cost_hint :: cost_hint
  et_undoable :: bool
  et_reason :: exposure_reason

definition exposed_cost :: "(json \<Rightarrow> string) \<Rightarrow> exposed_tool \<Rightarrow> nat" where
  "exposed_cost to_text t = estimate_tokens (et_name t) + estimate_tokens (et_summary t) + estimate_tokens (to_text (et_params t))"

section \<open>Fitting the budget\<close>

definition candidates_cost :: "(json \<Rightarrow> string) \<Rightarrow> (nat \<times> exposed_tool) list \<Rightarrow> nat" where
  "candidates_cost to_text cs = sum_list (map (\<lambda>(_, t). exposed_cost to_text t) cs)"

definition victim :: "(json \<Rightarrow> string) \<Rightarrow> (nat \<times> exposed_tool) list \<Rightarrow> string option" where
  "victim to_text cs = map_option (\<lambda>(_, t). et_harness t)
     (max_by_key (\<lambda>(rank, t). (rank, exposed_cost to_text t)) (filter (\<lambda>(rank, _). 2 \<le> rank) cs))"

definition widest :: "(json \<Rightarrow> string) \<Rightarrow> string list \<Rightarrow> bool \<Rightarrow> (nat \<times> exposed_tool) list \<Rightarrow> (nat \<times> string) option" where
  "widest to_text front_doors keep cs = map_option (\<lambda>(i, _, t). (i, et_name t))
     (max_by_key (\<lambda>(_, _, t). exposed_cost to_text t)
       (filter (\<lambda>(_, rank, t). rank = 1 \<and> \<not> (keep \<and> et_name t \<in> set front_doors)) (enumerate 0 cs)))"

definition remove_nth :: "nat \<Rightarrow> 'a list \<Rightarrow> 'a list" where
  "remove_nth i xs = take i xs @ drop (Suc i) xs"

lemma victim_in:
  assumes "victim to_text cs = Some v"
  shows "\<exists>rank t. (rank, t) \<in> set cs \<and> 2 \<le> rank \<and> et_harness t = v"
  using assms by (auto simp: victim_def dest!: max_by_key_SomeD(1)) blast

lemma widest_in:
  assumes "widest to_text fd keep cs = Some (i, n)"
  shows "i < length cs \<and> fst (cs ! i) = 1 \<and> et_name (snd (cs ! i)) = n \<and> \<not> (keep \<and> n \<in> set fd)"
  using assms by (auto simp: widest_def in_set_enumerate_eq dest!: max_by_key_SomeD(1))

lemma victim_shrinks:
  assumes "victim to_text cs = Some v"
  shows "length (filter (\<lambda>(_, t). et_harness t \<noteq> v) cs) < length cs"
proof -
  obtain rank t where "(rank, t) \<in> set cs" "et_harness t = v" using victim_in [OF assms] by blast
  then show ?thesis by (auto intro!: length_filter_less)
qed

lemma remove_nth_shrinks: "i < length cs \<Longrightarrow> length (remove_nth i cs) < length cs"
  by (simp add: remove_nth_def)

function fit_loop :: "(json \<Rightarrow> string) \<Rightarrow> nat \<Rightarrow> string list \<Rightarrow> (nat \<times> exposed_tool) list \<Rightarrow> string list \<Rightarrow>
    (nat \<times> exposed_tool) list \<times> string list" where
  "fit_loop to_text budget fd cs dropped =
     (if candidates_cost to_text cs \<le> budget then (cs, dropped)
      else case victim to_text cs of
          Some v \<Rightarrow> fit_loop to_text budget fd (filter (\<lambda>(_, t). et_harness t \<noteq> v) cs) (dropped @ [v])
        | None \<Rightarrow> (case (case widest to_text fd True cs of Some w \<Rightarrow> Some w | None \<Rightarrow> widest to_text fd False cs) of
              None \<Rightarrow> (cs, dropped)
            | Some (i, n) \<Rightarrow> fit_loop to_text budget fd (remove_nth i cs) (dropped @ [n])))"
  by pat_completeness auto
termination
  by (relation "measure (\<lambda>(_, _, _, cs, _). length cs)")
    (auto simp: victim_shrinks remove_nth_shrinks split: option.splits dest: widest_in)

declare fit_loop.simps [simp del]

section \<open>What the loop keeps\<close>

lemma victim_None: "victim to_text cs = None \<longleftrightarrow> (\<forall>rank t. (rank, t) \<in> set cs \<longrightarrow> rank < 2)"
  by (auto simp: victim_def filter_empty_conv not_le)

lemma widest_NoneD:
  assumes "widest to_text fd keep cs = None" and "(1, t) \<in> set cs"
  shows "keep \<and> et_name t \<in> set fd"
proof -
  obtain i where "i < length cs" "cs ! i = (1, t)" using assms(2) by (auto simp: in_set_conv_nth)
  then have "(i, 1, t) \<in> set (enumerate 0 cs)" by (simp add: in_set_enumerate_eq)
  with assms(1) show ?thesis by (auto simp: widest_def filter_empty_conv)
qed

lemma set_remove_nth:
  assumes "i < length xs"
  shows "set (remove_nth i xs) \<subseteq> set xs" and "x \<in> set xs \<Longrightarrow> x \<noteq> xs ! i \<Longrightarrow> x \<in> set (remove_nth i xs)"
proof -
  have "set xs = set (take i xs @ xs ! i # drop (Suc i) xs)" using id_take_nth_drop [OF assms] by simp
  then show "set (remove_nth i xs) \<subseteq> set xs" "x \<in> set xs \<Longrightarrow> x \<noteq> xs ! i \<Longrightarrow> x \<in> set (remove_nth i xs)"
    by (auto simp: remove_nth_def)
qed

text \<open>A harness that is dropped whole shares its id with no builtin and not with the focused one.\<close>

definition ranks_apart :: "(nat \<times> exposed_tool) set \<Rightarrow> bool" where
  "ranks_apart C \<longleftrightarrow> (\<forall>r t r' t'. (r, t) \<in> C \<longrightarrow> (r', t') \<in> C \<longrightarrow> r < 2 \<longrightarrow> 2 \<le> r' \<longrightarrow> et_harness t \<noteq> et_harness t')"

lemma ranks_apart_mono: "ranks_apart C \<Longrightarrow> D \<subseteq> C \<Longrightarrow> ranks_apart D"
  unfolding ranks_apart_def by blast

text \<open>What is left when a set of candidates was cut to fit: builtins stay; what went is named; the focused harness loses a tool
  only when no other harness is left, and a front door only when it has nothing else left.\<close>

definition gone_well :: "string list \<Rightarrow> (nat \<times> exposed_tool) set \<Rightarrow> string set \<Rightarrow> nat \<Rightarrow> exposed_tool \<Rightarrow> bool" where
  "gone_well fd C' D r t \<longleftrightarrow> 1 \<le> r \<and> (et_harness t \<in> D \<or> et_name t \<in> D) \<and>
     (r = 1 \<longrightarrow> (\<forall>r' u. (r', u) \<in> C' \<longrightarrow> r' < 2 \<and> (et_name t \<in> set fd \<longrightarrow> r' = 1 \<longrightarrow> et_name u \<in> set fd)))"

definition fitted :: "string list \<Rightarrow> (nat \<times> exposed_tool) set \<Rightarrow> (nat \<times> exposed_tool) set \<Rightarrow> string set \<Rightarrow> bool" where
  "fitted fd C C' D \<longleftrightarrow> C' \<subseteq> C \<and> (\<forall>r t. (r, t) \<in> C \<longrightarrow> (r, t) \<notin> C' \<longrightarrow> gone_well fd C' D r t)"

lemma gone_well_mono: "gone_well fd C' D r t \<Longrightarrow> C'' \<subseteq> C' \<Longrightarrow> D \<subseteq> D' \<Longrightarrow> gone_well fd C'' D' r t"
  unfolding gone_well_def by blast

lemma fitted_refl: "fitted fd C C D"
  by (simp add: fitted_def)

lemma fitted_trans:
  assumes "fitted fd C C' D" and "fitted fd C' C'' D'" and "D \<subseteq> D'"
  shows "fitted fd C C'' D'"
  using assms gone_well_mono unfolding fitted_def by (metis (no_types, opaque_lifting) subset_trans)

lemma fitted_victim:
  assumes "ranks_apart (set cs)" and "victim to_text cs = Some v"
  shows "fitted fd (set cs) (set (filter (\<lambda>(_, t). et_harness t \<noteq> v) cs)) {v}"
proof -
  obtain rank t where v: "(rank, t) \<in> set cs" "2 \<le> rank" "et_harness t = v" using victim_in [OF assms(2)] by blast
  have "2 \<le> r" if "(r, u) \<in> set cs" "et_harness u = v" for r u
    using assms(1) that v unfolding ranks_apart_def by (metis not_le)
  then show ?thesis by (force simp: fitted_def gone_well_def)
qed

lemma fitted_widest:
  assumes "victim to_text cs = None"
    and w: "(case widest to_text fd True cs of Some w \<Rightarrow> Some w | None \<Rightarrow> widest to_text fd False cs) = Some (i, n)"
  shows "i < length cs" and "fitted fd (set cs) (set (remove_nth i cs)) {n}"
proof -
  show i: "i < length cs" using w by (auto split: option.splits dest: widest_in)
  obtain t where t: "cs ! i = (1, t)" "et_name t = n"
    using w by (cases "cs ! i") (auto split: option.splits dest: widest_in)
  have ranks: "r' < 2" if "(r', u) \<in> set cs" for r' u using assms(1) that unfolding victim_None by blast
  have fd: "et_name u \<in> set fd" if "n \<in> set fd" "(1, u) \<in> set cs" for u
  proof -
    from that(1) w have "widest to_text fd True cs = None"
      by (cases "widest to_text fd True cs") (auto dest: widest_in)
    from widest_NoneD [OF this that(2)] show ?thesis by simp
  qed
  have "gone_well fd (set (remove_nth i cs)) {n} r u" if "(r, u) \<in> set cs" "(r, u) \<notin> set (remove_nth i cs)" for r u
  proof -
    have "(r, u) = (1, t)" using that set_remove_nth(2) [OF i, of "(r, u)"] t(1) by auto
    then show ?thesis using t(2) ranks fd set_remove_nth(1) [OF i] unfolding gone_well_def by auto
  qed
  then show "fitted fd (set cs) (set (remove_nth i cs)) {n}"
    using set_remove_nth(1) [OF i] by (simp add: fitted_def)
qed

lemma fit_loop_fitted:
  assumes "ranks_apart (set cs)" and "fit_loop to_text budget fd cs dropped = (cs', dropped')"
  shows "fitted fd (set cs) (set cs') (set dropped') \<and> set dropped \<subseteq> set dropped' \<and>
    (candidates_cost to_text cs' \<le> budget \<or> (\<forall>r t. (r, t) \<in> set cs' \<longrightarrow> r = 0))"
  using assms
proof (induction to_text budget fd cs dropped rule: fit_loop.induct)
  case (1 to_text budget fd cs dropped)
  note step = "1.prems"(2) [unfolded fit_loop.simps [of to_text budget fd cs dropped]]
  consider (fits) "candidates_cost to_text cs \<le> budget"
    | (drop) v where "\<not> candidates_cost to_text cs \<le> budget" "victim to_text cs = Some v"
    | (stuck) "\<not> candidates_cost to_text cs \<le> budget" "victim to_text cs = None"
        "(case widest to_text fd True cs of Some w \<Rightarrow> Some w | None \<Rightarrow> widest to_text fd False cs) = None"
    | (trim) i n where "\<not> candidates_cost to_text cs \<le> budget" "victim to_text cs = None"
        "(case widest to_text fd True cs of Some w \<Rightarrow> Some w | None \<Rightarrow> widest to_text fd False cs) = Some (i, n)"
    by (metis not_Some_eq prod.exhaust)
  then show ?case
  proof cases
    case fits
    with step show ?thesis by (auto simp: fitted_refl)
  next
    case (drop v)
    let ?cs = "filter (\<lambda>(_, t). et_harness t \<noteq> v) cs"
    have "ranks_apart (set ?cs)" using "1.prems"(1) by (rule ranks_apart_mono) auto
    moreover have "fit_loop to_text budget fd ?cs (dropped @ [v]) = (cs', dropped')" using step drop by simp
    ultimately show ?thesis
      using "1.IH"(2) [OF drop] fitted_trans [OF fitted_victim [OF "1.prems"(1) drop(2), of fd], of "set cs'" "set dropped'"] by simp
  next
    case stuck
    then have "r \<noteq> 1" if "(r, t) \<in> set cs" for r t
      using that widest_NoneD [of to_text fd False cs] by (auto split: option.splits)
    with stuck(2) have "r = 0" if "(r, t) \<in> set cs" for r t
      using that by (metis One_nat_def less_2_cases victim_None)
    with step stuck show ?thesis by (auto simp: fitted_refl)
  next
    case (trim i n)
    note cut = fitted_widest [OF trim(2,3)]
    have "ranks_apart (set (remove_nth i cs))"
      using "1.prems"(1) set_remove_nth(1) [OF cut(1)] by (rule ranks_apart_mono)
    moreover have "fit_loop to_text budget fd (remove_nth i cs) (dropped @ [n]) = (cs', dropped')"
      using step trim by simp
    ultimately show ?thesis
      using "1.IH"(1) [OF trim refl] fitted_trans [OF cut(2), of "set cs'" "set dropped'"] by simp
  qed
qed

end
