(* ===== verification/Gateway.thy ===== *)
theory Gateway
  imports Json Tables "HOL-Library.Word"
begin

unbundle bit_operations_syntax

text \<open>
  The egress gateway (\<open>crates/localspace-core/src/gateway.rs\<close>): which URL may be fetched, how a host is compared with a pattern, an
  address with a range, what is sent, and how a page becomes text.  An HTTP exchange is a parameter; so is
  \<open>to_lowercase\<close>, whose table is Unicode's.  Addresses are machine words, and a slice of text that Rust would refuse with a
  panic is \<open>None\<close>.

  The lemmas: what an allowed URL satisfies, that stripping tracking parameters keeps the host that was checked, that a range is an interval of
  numbers, that a session stays within its limits, that a query is encoded reversibly, and which pages the extraction of text survives.
\<close>

section \<open>Configuration and state\<close>

datatype network_mode = Airgapped | Ask | Online

fun mode_rank :: "network_mode \<Rightarrow> nat" where
  "mode_rank Airgapped = 0"
| "mode_rank Ask = 1"
| "mode_rank Online = 2"

record gateway_config =
  gc_mode :: network_mode
  gc_ceiling :: network_mode
  gc_allowlist :: "string list"
  gc_blocklist :: "string list"
  gc_intranet :: "string list"
  gc_search_url :: "string option"
  gc_max_requests :: nat
  gc_max_bytes :: nat

definition default_gateway_config :: gateway_config where
  "default_gateway_config = \<lparr>gc_mode = Ask, gc_ceiling = Ask, gc_allowlist = [], gc_blocklist = [], gc_intranet = [],
     gc_search_url = None, gc_max_requests = 100, gc_max_bytes = 64 * 1024 * 1024\<rparr>"

datatype egress = Allowed | NeedsApproval string | Refused string

record gateway =
  gw_config :: gateway_config
  gw_approved :: "string list"
  gw_requests :: nat
  gw_bytes :: nat
  gw_log :: "(string \<times> bool \<times> nat) list"

definition gateway_new :: "gateway_config \<Rightarrow> gateway" where
  "gateway_new cfg = \<lparr>gw_config = cfg, gw_approved = [], gw_requests = 0, gw_bytes = 0, gw_log = []\<rparr>"

definition set_mode :: "network_mode \<Rightarrow> gateway \<Rightarrow> network_mode \<times> gateway" where
  "set_mode mode g =
     (let ceiling = gc_ceiling (gw_config g);
          clamped = (if mode_rank ceiling < mode_rank mode then ceiling else mode)
      in (clamped, g\<lparr>gw_config := (gw_config g)\<lparr>gc_mode := clamped\<rparr>\<rparr>))"

definition approve_domain :: "string \<Rightarrow> gateway \<Rightarrow> gateway" where
  "approve_domain domain g =
     (let d = to_ascii_lowercase domain
      in g\<lparr>gw_approved := (if d \<in> set (gw_approved g) then gw_approved g else d # gw_approved g)\<rparr>)"

section \<open>Addresses\<close>

datatype ip_addr = V4 "32 word" | V6 "128 word"

text \<open>\<open>read_number\<close> of the standard library's address parser: all digits that follow, at most so many, no superfluous zero where none is
  allowed, and a value that fits.\<close>

definition hex_digit :: "char \<Rightarrow> nat option" where
  "hex_digit c =
     (if is_ascii_digit c then Some (code c - 48)
      else if 97 \<le> code c \<and> code c \<le> 102 then Some (code c - 87)
      else if 65 \<le> code c \<and> code c \<le> 70 then Some (code c - 55) else None)"

definition hex_value :: "string \<Rightarrow> nat" where
  "hex_value s = foldl (\<lambda>n c. 16 * n + (case hex_digit c of Some d \<Rightarrow> d | None \<Rightarrow> 0)) 0 s"

definition read_octet :: "string \<Rightarrow> (nat \<times> string) option" where
  "read_octet s =
     (let d = takeWhile is_ascii_digit s
      in if d = [] \<or> 3 < length d \<or> (hd d = CHR ''0'' \<and> 1 < length d) \<or> 256 \<le> digits_value d then None
         else Some (digits_value d, dropWhile is_ascii_digit s))"

definition read_group :: "string \<Rightarrow> (nat \<times> string) option" where
  "read_group s =
     (let d = takeWhile (\<lambda>c. hex_digit c \<noteq> None) s
      in if d = [] \<or> 4 < length d then None else Some (hex_value d, dropWhile (\<lambda>c. hex_digit c \<noteq> None) s))"

definition read_char :: "char \<Rightarrow> string \<Rightarrow> string option" where
  "read_char c s = (case s of [] \<Rightarrow> None | b # bs \<Rightarrow> if b = c then Some bs else None)"

definition read_ipv4 :: "string \<Rightarrow> (nat \<times> string) option" where
  "read_ipv4 s =
     Option.bind (read_octet s) (\<lambda>(a, s). Option.bind (read_char CHR ''.'' s) (\<lambda>s.
     Option.bind (read_octet s) (\<lambda>(b, s). Option.bind (read_char CHR ''.'' s) (\<lambda>s.
     Option.bind (read_octet s) (\<lambda>(c, s). Option.bind (read_char CHR ''.'' s) (\<lambda>s.
     Option.bind (read_octet s) (\<lambda>(d, s). Some (((a * 256 + b) * 256 + c) * 256 + d, s))))))))"

text \<open>Groups after a colon, except the first; an IPv4 address may stand for the last two.\<close>

definition after_colon :: "bool \<Rightarrow> (string \<Rightarrow> ('a \<times> string) option) \<Rightarrow> string \<Rightarrow> ('a \<times> string) option" where
  "after_colon first read s = (if first then read s else Option.bind (read_char CHR '':'' s) read)"

fun read_groups :: "nat \<Rightarrow> bool \<Rightarrow> string \<Rightarrow> nat list \<times> bool \<times> string" where
  "read_groups 0 first s = ([], False, s)"
| "read_groups (Suc n) first s =
     (case (if 0 < n then after_colon first read_ipv4 s else None) of
        Some (a, rest) \<Rightarrow> ([a div 65536, a mod 65536], True, rest)
      | None \<Rightarrow>
          (case after_colon first read_group s of
             Some (g, rest) \<Rightarrow> (let (gs, v4, rest') = read_groups n False rest in (g # gs, v4, rest'))
           | None \<Rightarrow> ([], False, s)))"

definition groups_value :: "nat list \<Rightarrow> nat" where
  "groups_value gs = foldl (\<lambda>n g. 65536 * n + g) 0 gs"

definition read_ipv6 :: "string \<Rightarrow> (nat \<times> string) option" where
  "read_ipv6 s =
     (let (front, v4, rest) = read_groups 8 True s
      in if length front = 8 then Some (groups_value front, rest)
         else if v4 then None
         else Option.bind (read_char CHR '':'' rest) (\<lambda>rest.
              Option.bind (read_char CHR '':'' rest) (\<lambda>rest.
              let (back, _, rest) = read_groups (8 - (length front + 1)) True rest
              in Some (groups_value (front @ replicate (8 - length front - length back) 0 @ back), rest))))"

definition parse_ip :: "string \<Rightarrow> ip_addr option" where
  "parse_ip s =
     (case read_ipv4 s of
        Some (a, rest) \<Rightarrow> if rest = [] then Some (V4 (word_of_nat a)) else None
      | None \<Rightarrow>
          (case read_ipv6 s of
             Some (a, rest) \<Rightarrow> if rest = [] then Some (V6 (word_of_nat a)) else None
           | None \<Rightarrow> None))"

definition unbracket :: "string \<Rightarrow> string" where
  "unbracket host =
     (case strip_prefix ''['' host of
        Some h \<Rightarrow> if ends_with '']'' h then butlast h else host
      | None \<Rightarrow> host)"

text \<open>An IPv4 address written as IPv6 is the IPv4 one.\<close>

definition plain_address :: "ip_addr \<Rightarrow> ip_addr" where
  "plain_address a =
     (case a of
        V6 w \<Rightarrow> if drop_bit 32 w = 0xFFFF then V4 (ucast w) else a
      | V4 w \<Rightarrow> a)"

text \<open>\<open>MAX.checked_shl(width - bits)\<close>, which is nothing, and then 0, for a shift by the whole width.\<close>

definition range_mask :: "nat \<Rightarrow> 'w::len word" where
  "range_mask bits = (if bits = 0 then 0 else push_bit (LENGTH('w) - bits) (-1))"

definition in_range :: "ip_addr \<Rightarrow> string \<Rightarrow> string \<Rightarrow> bool" where
  "in_range address network bits \<longleftrightarrow>
     (case (parse_ip (unbracket network), parse_u32 bits) of
        (Some net, Some b) \<Rightarrow>
          (case (address, plain_address net) of
             (V4 a, V4 n) \<Rightarrow> b \<le> 32 \<and> a AND range_mask b = n AND range_mask b
           | (V6 a, V6 n) \<Rightarrow> b \<le> 128 \<and> a AND range_mask b = n AND range_mask b
           | _ \<Rightarrow> False)
      | _ \<Rightarrow> False)"

section \<open>Hosts\<close>

definition host_of :: "string \<Rightarrow> string option" where
  "host_of url =
     Option.bind (split_once ''://'' url) (\<lambda>(_, rest).
       let authority = hd (split_on (\<lambda>c. c \<in> set ''/?#'') rest);
           host = last (split_on (\<lambda>c. c = CHR ''@'') authority);
           host = (case strip_prefix ''['' host of
                     Some inside \<Rightarrow> hd (split_on (\<lambda>c. c = CHR '']'') inside)
                   | None \<Rightarrow> hd (split_on (\<lambda>c. c = CHR '':'') host))
       in if host = [] then None else Some (to_ascii_lowercase host))"

definition pattern_matches :: "string \<Rightarrow> ip_addr option \<Rightarrow> string \<Rightarrow> bool" where
  "pattern_matches host address pattern \<longleftrightarrow>
     (let p = to_ascii_lowercase (trim pattern)
      in case strip_prefix ''*.'' p of
           Some suffix \<Rightarrow> host = suffix \<or> ends_with (''.'' @ suffix) host
         | None \<Rightarrow>
             (case split_once ''/'' p of
                Some (network, bits) \<Rightarrow> (case address of Some a \<Rightarrow> in_range a network bits | None \<Rightarrow> False)
              | None \<Rightarrow> host = unbracket p))"

definition matches_any :: "string \<Rightarrow> string list \<Rightarrow> bool" where
  "matches_any host patterns \<longleftrightarrow>
     (let host = to_ascii_lowercase (unbracket host);
          address = map_option plain_address (parse_ip host)
      in list_ex (pattern_matches host address) patterns)"

definition tick :: "string \<Rightarrow> string" where
  "tick s = ''`'' @ s @ ''`''"

definition egress_check :: "gateway \<Rightarrow> string \<Rightarrow> egress" where
  "egress_check g url =
     (let cfg = gw_config g
      in case host_of url of
           None \<Rightarrow> Refused (tick url @ '' is not a fetchable URL'')
         | Some host \<Rightarrow>
             if gc_mode cfg = Airgapped \<and> \<not> matches_any host (gc_intranet cfg)
             then Refused ''this environment is airgapped; no egress is possible''
             else if matches_any host (gc_blocklist cfg) then Refused (tick host @ '' is on the blocklist'')
             else if gc_allowlist cfg \<noteq> [] \<and> \<not> matches_any host (gc_allowlist cfg) \<and> \<not> matches_any host (gc_intranet cfg)
             then Refused (tick host @ '' is not on the domain allowlist'')
             else if gc_max_requests cfg \<le> gw_requests g then Refused ''this session's request quota is spent''
             else if gc_max_bytes cfg \<le> gw_bytes g then Refused ''this session's byte quota is spent''
             else (case gc_mode cfg of
                 Airgapped \<Rightarrow> Allowed
               | Online \<Rightarrow> Allowed
               | Ask \<Rightarrow> if host \<in> set (gw_approved g) then Allowed else NeedsApproval host))"

section \<open>What is sent\<close>

definition tracking :: "string list" where
  "tracking = [''utm_source'', ''utm_medium'', ''utm_campaign'', ''utm_term'', ''utm_content'', ''gclid'', ''fbclid'',
     ''mc_cid'', ''mc_eid'', ''ref'', ''ref_src'']"

definition strip_tracking :: "string \<Rightarrow> string" where
  "strip_tracking url =
     (case split_once ''?'' url of
        None \<Rightarrow> url
      | Some (base, query) \<Rightarrow>
          (let (query, fragment) =
                 (case split_once ''#'' query of Some (q, f) \<Rightarrow> (q, Some f) | None \<Rightarrow> (query, None));
               kept = filter (\<lambda>p. p \<noteq> [])
                        (filter (\<lambda>pair. hd (split_on (\<lambda>c. c = CHR ''='') pair) \<notin> set tracking)
                          (split_on (\<lambda>c. c = CHR ''&'') query))
           in base @ (if kept \<noteq> [] then ''?'' @ join ''&'' kept else [])
              @ (case fragment of Some f \<Rightarrow> ''#'' @ f | None \<Rightarrow> [])))"

definition hex_upper :: "nat \<Rightarrow> char" where
  "hex_upper n = char_of (if n < 10 then 48 + n else 55 + n)"

definition unreserved :: "char \<Rightarrow> bool" where
  "unreserved c \<longleftrightarrow> is_ascii_upper c \<or> is_ascii_lower c \<or> is_ascii_digit c \<or> c \<in> set ''-_.~''"

definition encode_byte :: "char \<Rightarrow> string" where
  "encode_byte c =
     (if unreserved c then [c] else if c = CHR '' '' then ''+''
      else [CHR ''%'', hex_upper (code c div 16), hex_upper (code c mod 16)])"

definition urlencode :: "string \<Rightarrow> string" where
  "urlencode s = concat (map encode_byte s)"

section \<open>A page as text\<close>

text \<open>\<open>&s[i..]\<close> and \<open>&s[i..j]\<close>: \<open>None\<close> is the panic of a range outside the text or inside a character.\<close>

definition boundary :: "string \<Rightarrow> nat \<Rightarrow> bool" where
  "boundary s i \<longleftrightarrow> i = length s \<or> i < length s \<and> \<not> is_cont (s ! i)"

definition slice_from :: "string \<Rightarrow> nat \<Rightarrow> string option" where
  "slice_from s i = (if boundary s i then Some (drop i s) else None)"

definition slice_range :: "string \<Rightarrow> nat \<Rightarrow> nat \<Rightarrow> string option" where
  "slice_range s i j = (if i \<le> j \<and> boundary s i \<and> boundary s j then Some (take (j - i) (drop i s)) else None)"

definition decode_entities :: "string \<Rightarrow> string" where
  "decode_entities s =
     str_replace ''&apos;'' [CHR 0x27] (str_replace ''&#39;'' [CHR 0x27] (str_replace ''&quot;'' [CHR 0x22]
       (str_replace ''&gt;'' ''>'' (str_replace ''&lt;'' ''<'' (str_replace ''&amp;'' ''&'' (str_replace ''&nbsp;'' '' '' s))))))"

text \<open>The outer \<open>None\<close> is a panic, the inner one a page without a title.\<close>

definition extract_title :: "(string \<Rightarrow> string) \<Rightarrow> string \<Rightarrow> string option option" where
  "extract_title lowercase html =
     (let low = lowercase html
      in case find_str ''<title'' low of
           None \<Rightarrow> Some None
         | Some start \<Rightarrow>
             Option.bind (slice_from low start) (\<lambda>s.
               case find_str ''>'' s of
                 None \<Rightarrow> Some None
               | Some e \<Rightarrow>
                   (let open_end = e + start + 1
                    in Option.bind (slice_from low open_end) (\<lambda>s.
                         case find_str ''</title>'' s of
                           None \<Rightarrow> Some None
                         | Some e \<Rightarrow>
                             Option.bind (slice_range html open_end (e + open_end)) (\<lambda>t.
                               Some (if trim t = [] then None else Some (decode_entities (trim t))))))))"

text \<open>What the loop over the dropped elements finds at a \<open><\<close>: no such element, or where the reading goes on.\<close>

fun skip_element :: "string \<Rightarrow> nat \<Rightarrow> nat \<Rightarrow> string list \<Rightarrow> nat option option" where
  "skip_element low len i [] = Some None"
| "skip_element low len i (tag # tags) =
     Option.bind (slice_from low i) (\<lambda>s.
       if starts_with (''<'' @ tag) s
       then Some (Some (case find_str (''</'' @ tag @ ''>'') s of
             Some e \<Rightarrow> i + (e + length (''</'' @ tag @ ''>''))
           | None \<Rightarrow> len))
       else skip_element low len i tags)"

definition dropped_tags :: "string list" where
  "dropped_tags = [''script'', ''style'', ''noscript'', ''svg'']"

definition block_tags :: "string list" where
  "block_tags = [''<p'', ''<br'', ''<div'', ''<li'', ''<h1'', ''<h2'', ''<h3'', ''<tr'', ''</p'', ''</div'']"

text \<open>One tag at \<open>i\<close>: \<open>Some None\<close> ends the loop.\<close>

definition skip_tag :: "string \<Rightarrow> string \<Rightarrow> nat \<Rightarrow> (nat \<times> string) option option" where
  "skip_tag html low i =
     Option.bind (slice_from low i) (\<lambda>s.
     Option.bind (slice_from html i) (\<lambda>h.
       case find_str ''>'' h of
         Some e \<Rightarrow> Some (Some (i + e + 1, if list_ex (\<lambda>t. starts_with t s) block_tags then newline else '' ''))
       | None \<Rightarrow> Some None))"

lemma skip_element_gt: "skip_element low len i tags = Some (Some j) \<Longrightarrow> i < len \<Longrightarrow> i < j"
  by (induction tags) (auto split: if_splits option.splits simp: bind_eq_Some_conv)

lemma skip_tag_gt: "skip_tag html low i = Some (Some (j, b)) \<Longrightarrow> i < j"
  by (auto simp: skip_tag_def bind_eq_Some_conv split: option.splits)

function html_loop :: "string \<Rightarrow> string \<Rightarrow> nat \<Rightarrow> string \<Rightarrow> string option" where
  "html_loop html low i out =
     (if length html \<le> i then Some out
      else if html ! i = CHR ''<''
      then (case skip_element low (length html) i dropped_tags of
          None \<Rightarrow> None
        | Some None \<Rightarrow>
            (case skip_tag html low i of
               None \<Rightarrow> None
             | Some None \<Rightarrow> Some out
             | Some (Some (j, b)) \<Rightarrow> html_loop html low j (out @ b))
        | Some (Some k) \<Rightarrow>
            if length html \<le> k then Some (out @ '' '')
            else if html ! k \<noteq> CHR ''<'' then html_loop html low k (out @ '' '')
            else (case skip_tag html low k of
                None \<Rightarrow> None
              | Some None \<Rightarrow> Some (out @ '' '')
              | Some (Some (j, b)) \<Rightarrow> html_loop html low j (out @ '' '' @ b)))
      else (case slice_from html i of
          None \<Rightarrow> None
        | Some s \<Rightarrow> html_loop html low (i + length (hd (chars s))) (out @ hd (chars s))))"
  by pat_completeness auto
termination
proof (relation "measure (\<lambda>(html, low, i, out). length html - i)", goal_cases)
  case (2 html low i out)
  then show ?case by (auto dest: skip_tag_gt)
next
  case (5 html low i out s)
  then show ?case by (cases s) (auto simp: slice_from_def boundary_def split: if_splits)
next
  case (4 html low i out o1 k o2 p j b)
  have "i < k" "k < j" using 4 skip_element_gt skip_tag_gt by auto
  then show ?case using 4 by auto
qed (auto dest: skip_tag_gt skip_element_gt)

declare html_loop.simps [simp del]

text \<open>Runs of blank lines become one.\<close>

fun squeeze :: "string list \<Rightarrow> nat \<Rightarrow> string" where
  "squeeze [] run = []"
| "squeeze (l # ls) run =
     (let t = join '' '' (split_whitespace l)
      in if t = [] then (if 1 < run + 1 then squeeze ls (run + 1) else newline @ squeeze ls (run + 1))
         else t @ newline @ squeeze ls 0)"

definition html_to_text :: "(string \<Rightarrow> string) \<Rightarrow> string \<Rightarrow> string option" where
  "html_to_text lowercase html =
     map_option (\<lambda>out. trim (squeeze (text_lines (decode_entities out)) 0)) (html_loop html (lowercase html) 0 [])"

section \<open>Fetching and searching\<close>

record fetched =
  ft_url :: string
  ft_content :: string
  ft_at_ms :: nat
  ft_bytes :: nat
  ft_title :: "string option"

record search_hit =
  sh_title :: string
  sh_url :: string
  sh_snippet :: string

text \<open>An exchange: the request fails, or its body cannot be read, or it is read.\<close>

datatype 'a reply = NoReply string | Unreadable string | Body 'a

datatype fetch_result = FetchError string | FetchPanics | FetchedOk fetched

definition fetch :: "(string \<Rightarrow> string reply) \<Rightarrow> (string \<Rightarrow> string) \<Rightarrow> nat \<Rightarrow> string \<Rightarrow> string \<Rightarrow> gateway \<Rightarrow> fetch_result \<times> gateway" where
  "fetch http lowercase now url mode g =
     (case egress_check g url of
        NeedsApproval d \<Rightarrow> (FetchError (tick d @ '' has not been approved for this session''), g)
      | Refused why \<Rightarrow> (FetchError why, g)
      | Allowed \<Rightarrow>
          (let clean = strip_tracking url
           in case http clean of
                NoReply e \<Rightarrow> (FetchError (''fetching '' @ clean @ '': '' @ e), g\<lparr>gw_log := gw_log g @ [(clean, False, 0)]\<rparr>)
              | Unreadable e \<Rightarrow> (FetchError e, g)
              | Body raw \<Rightarrow>
                  (let g = g\<lparr>gw_requests := gw_requests g + 1, gw_bytes := gw_bytes g + length raw,
                             gw_log := gw_log g @ [(clean, True, length raw)]\<rparr>
                   in case (extract_title lowercase raw, if mode = ''raw'' then Some raw else html_to_text lowercase raw) of
                        (Some title, Some content) \<Rightarrow>
                          (FetchedOk \<lparr>ft_url = clean, ft_content = content, ft_at_ms = now, ft_bytes = length raw, ft_title = title\<rparr>, g)
                      | _ \<Rightarrow> (FetchPanics, g))))"

definition str_field :: "json \<Rightarrow> string \<Rightarrow> string" where
  "str_field j k = (case jget j k of Some (JStr s) \<Rightarrow> s | _ \<Rightarrow> [])"

definition trim_slashes :: "string \<Rightarrow> string" where
  "trim_slashes s = rev (dropWhile (\<lambda>c. c = CHR ''/'') (rev s))"

definition search_url :: "string \<Rightarrow> string \<Rightarrow> string option \<Rightarrow> string" where
  "search_url base query site =
     trim_slashes base @ ''/search?format=json&q='' @ urlencode (case site of Some s \<Rightarrow> query @ '' site:'' @ s | None \<Rightarrow> query)"

definition search :: "(string \<Rightarrow> json reply) \<Rightarrow> string \<Rightarrow> string option \<Rightarrow> gateway \<Rightarrow> (string, search_hit list) result \<times> gateway" where
  "search http query site g =
     (case gc_search_url (gw_config g) of
        None \<Rightarrow> (Inl ''no search backend is configured for this environment'', g)
      | Some base \<Rightarrow>
          (case egress_check g (search_url base query site) of
             Refused why \<Rightarrow> (Inl why, g)
           | _ \<Rightarrow>
               (case http (search_url base query site) of
                  NoReply e \<Rightarrow> (Inl (''searching via '' @ base @ '': '' @ e), g)
                | Unreadable e \<Rightarrow> (Inl e, g)
                | Body body \<Rightarrow>
                    (Inr (case jget body ''results'' of
                        Some (JArr rs) \<Rightarrow>
                          map (\<lambda>r. \<lparr>sh_title = str_field r ''title'', sh_url = str_field r ''url'', sh_snippet = str_field r ''content''\<rparr>)
                            (take 8 rs)
                      | _ \<Rightarrow> []),
                     g\<lparr>gw_requests := gw_requests g + 1\<rparr>))))"

section \<open>The host that was checked is the host that is asked\<close>

lemma hd_split_on: "hd (split_on p s) = takeWhile (\<lambda>c. \<not> p c) s"
proof (induction s)
  case (Cons c s)
  then show ?case by (cases "split_on p s") (auto dest: split_on_nonempty [THEN notE])
qed simp

lemma split_once_Some: "split_once p s = Some (a, b) \<Longrightarrow> s = a @ p @ b"
proof (induction s arbitrary: a)
  case (Cons c s)
  then show ?case
    by (cases "strip_prefix p (c # s)") (auto simp: strip_prefix_Some)
qed (auto split: if_splits)

lemma strip_prefix_None_append:
  assumes "strip_prefix p (s @ t) = None" and "length p \<le> length s"
  shows "strip_prefix p (s @ t') = None"
proof (rule ccontr)
  assume "strip_prefix p (s @ t') \<noteq> None"
  then obtain r where "s @ t' = p @ r" by (auto simp: strip_prefix_Some)
  then have "take (length p) s = p" using assms(2) by (auto simp: append_eq_append_conv_if split: if_splits)
  then have "s = p @ drop (length p) s" using append_take_drop_id [of "length p" s] by simp
  then have "s @ t = p @ (drop (length p) s @ t)" by (metis append.assoc)
  then have "strip_prefix p (s @ t) = Some (drop (length p) s @ t)" by (simp only: strip_prefix_append)
  then show False using assms(1) by simp
qed

lemma split_once_other_rest:
  "split_once p (s @ p @ r) = Some (s, r) \<Longrightarrow> p \<noteq> [] \<Longrightarrow> split_once p (s @ p @ r') = Some (s, r')"
proof (induction s)
  case Nil
  then show ?case by (cases p) auto
next
  case (Cons c s)
  have none: "strip_prefix p ((c # s) @ p @ r) = None"
    using Cons.prems(1) by (auto split: option.splits)
  have "strip_prefix p (((c # s) @ p) @ r') = None"
    by (rule strip_prefix_None_append [where t = r]) (use none in auto)
  then show ?case using Cons none by (auto split: option.splits)
qed

lemma split_once_char:
  "split_once [c] s = (if c \<in> set s then Some (takeWhile (\<lambda>x. x \<noteq> c) s, tl (dropWhile (\<lambda>x. x \<noteq> c) s)) else None)"
  by (induction s) auto

lemma strip_tracking_shape:
  "\<exists>tail. strip_tracking url = takeWhile (\<lambda>c. c \<noteq> CHR ''?'') url @ tail \<and> (tail = [] \<or> hd tail \<in> set ''?#'') \<and>
     (CHR ''?'' \<notin> set url \<longrightarrow> tail = [])"
proof (cases "CHR ''?'' \<in> set url")
  case False
  then have all: "takeWhile (\<lambda>c. c \<noteq> CHR ''?'') url = url" by (auto simp: takeWhile_eq_all_conv)
  show ?thesis using False by (simp add: strip_tracking_def split_once_char all)
next
  case True
  then show ?thesis
    by (intro exI [of _ "drop (length (takeWhile (\<lambda>c. c \<noteq> CHR ''?'') url)) (strip_tracking url)"])
       (auto simp: strip_tracking_def split_once_char Let_def split: option.split prod.split)
qed

definition scheme_first :: "string \<Rightarrow> bool" where
  "scheme_first url \<longleftrightarrow> (case split_once ''://'' url of Some (s, _) \<Rightarrow> CHR ''?'' \<notin> set s | None \<Rightarrow> False)"

lemma takeWhile_through: "(\<forall>c \<in> set s. P c) \<Longrightarrow> takeWhile P (s @ t) = s @ takeWhile P t"
  by (induction s) auto

lemma authority_same:
  assumes "tail = [] \<or> hd tail \<in> set ''?#''" and "CHR ''?'' \<notin> set r \<longrightarrow> tail = []"
  shows "takeWhile (\<lambda>c. c \<notin> set ''/?#'') (takeWhile (\<lambda>c. c \<noteq> CHR ''?'') r @ tail) = takeWhile (\<lambda>c. c \<notin> set ''/?#'') r"
  using assms
proof (induction r)
  case Nil
  then show ?case by simp
next
  case (Cons c r)
  then show ?case by (cases tail) (auto split: if_splits)
qed

lemma strip_tracking_keeps_host_of:
  assumes "scheme_first url"
  shows "host_of (strip_tracking url) = host_of url"
proof -
  obtain s r where sr: "split_once ''://'' url = Some (s, r)" "CHR ''?'' \<notin> set s"
    using assms by (auto simp: scheme_first_def split: option.splits)
  have url: "url = s @ ''://'' @ r" using split_once_Some [OF sr(1)] .
  obtain tail where tail: "strip_tracking url = takeWhile (\<lambda>c. c \<noteq> CHR ''?'') url @ tail" "tail = [] \<or> hd tail \<in> set ''?#''"
      "CHR ''?'' \<notin> set url \<longrightarrow> tail = []"
    using strip_tracking_shape by blast
  have "takeWhile (\<lambda>c. c \<noteq> CHR ''?'') url = s @ ''://'' @ takeWhile (\<lambda>c. c \<noteq> CHR ''?'') r"
    unfolding url using sr(2) by (subst takeWhile_through) auto
  then have out: "strip_tracking url = s @ ''://'' @ (takeWhile (\<lambda>c. c \<noteq> CHR ''?'') r @ tail)" using tail(1) by simp
  have "split_once ''://'' (strip_tracking url) = Some (s, takeWhile (\<lambda>c. c \<noteq> CHR ''?'') r @ tail)"
    unfolding out by (rule split_once_other_rest [where r = r]) (use sr(1) url in simp_all)
  moreover have "CHR ''?'' \<notin> set r \<longrightarrow> tail = []" using tail(3) sr(2) unfolding url by auto
  ultimately show ?thesis
    using authority_same [OF tail(2)] sr(1) by (simp add: host_of_def hd_split_on)
qed

text \<open>The host that is checked is the host that is asked: taking tracking parameters out of a URL, which happens after the check and
  before the request, leaves its host as it was, for every URL whose scheme stands before its query.\<close>

theorem strip_tracking_keeps_host:
  assumes "scheme_first url"
  shows "host_of (strip_tracking url) = host_of url"
  using assms by (rule strip_tracking_keeps_host_of)

lemma strip_tracking_keeps_host_witness:
  "host_of (strip_tracking ''https://a.example/x?utm_source=b&q=1#top'') = Some ''a.example''"
proof -
  have "scheme_first ''https://a.example/x?utm_source=b&q=1#top''"
    by (simp add: scheme_first_def)
  from strip_tracking_keeps_host [OF this] show ?thesis
    by (simp add: host_of_def to_ascii_lowercase_def ascii_lower_def is_ascii_upper_def code_def)
qed

section \<open>Address ranges\<close>

lemma range_mask_eq:
  fixes a n :: "'w::len word"
  assumes "b \<le> LENGTH('w)"
  shows "a AND range_mask b = n AND range_mask b \<longleftrightarrow> drop_bit (LENGTH('w) - b) a = drop_bit (LENGTH('w) - b) n"
proof (cases "b = 0")
  case True
  then show ?thesis by (simp add: range_mask_def drop_bit_word_beyond)
next
  case False
  have "(a AND push_bit k (-1) = n AND push_bit k (-1)) \<longleftrightarrow> drop_bit k a = drop_bit k n" for k
  proof
    assume eq: "a AND push_bit k (-1) = n AND push_bit k (-1)"
    show "drop_bit k a = drop_bit k n"
    proof (rule bit_word_eqI)
      fix i assume "i < LENGTH('w)"
      have "bit (a AND push_bit k (-1)) (i + k) = bit (n AND push_bit k (-1)) (i + k)" using eq by simp
      then show "bit (drop_bit k a) i = bit (drop_bit k n) i"
        by (auto simp: bit_simps add.commute dest: bit_imp_le_length)
    qed
  next
    assume eq: "drop_bit k a = drop_bit k n"
    show "a AND push_bit k (-1) = n AND push_bit k (-1)"
    proof (rule bit_word_eqI)
      fix i assume "i < LENGTH('w)"
      have "bit (drop_bit k a) (i - k) = bit (drop_bit k n) (i - k)" using eq by simp
      then show "bit (a AND push_bit k (-1)) i = bit (n AND push_bit k (-1)) i"
        by (auto simp: bit_simps)
    qed
  qed
  then show ?thesis using False by (simp add: range_mask_def)
qed

lemma drop_bit_unat: "drop_bit k a = drop_bit k n \<longleftrightarrow> unat a div 2 ^ k = unat n div 2 ^ k" for a n :: "'w::len word"
  by (simp add: word_unat_eq_iff unat_drop_bit_eq flip: drop_bit_eq_div)

text \<open>An address is inside \<open>network/bits\<close> exactly when both are of the same kind (an IPv4 address written as IPv6 being IPv4), the
  prefix is no longer than the address, and the address is a number of the block of that size the network is in: every prefix
  length from 0 to the whole width behaves.\<close>

theorem in_range_is_block:
  "in_range address network bits \<longleftrightarrow>
     (\<exists>net b. parse_ip (unbracket network) = Some net \<and> parse_u32 bits = Some b \<and>
        ((\<exists>a n. address = V4 a \<and> plain_address net = V4 n \<and> b \<le> 32 \<and> unat a div 2 ^ (32 - b) = unat n div 2 ^ (32 - b)) \<or>
         (\<exists>a n. address = V6 a \<and> plain_address net = V6 n \<and> b \<le> 128 \<and> unat a div 2 ^ (128 - b) = unat n div 2 ^ (128 - b))))"
proof -
  have 4: "b \<le> 32 \<and> a AND range_mask b = n AND range_mask b \<longleftrightarrow> b \<le> 32 \<and> unat a div 2 ^ (32 - b) = unat n div 2 ^ (32 - b)"
    for a n :: "32 word" and b
    using range_mask_eq [where 'w = 32, of b a n] by (auto simp: drop_bit_unat)
  have 6: "b \<le> 128 \<and> a AND range_mask b = n AND range_mask b \<longleftrightarrow> b \<le> 128 \<and> unat a div 2 ^ (128 - b) = unat n div 2 ^ (128 - b)"
    for a n :: "128 word" and b
    using range_mask_eq [where 'w = 128, of b a n] by (auto simp: drop_bit_unat)
  show ?thesis
    unfolding in_range_def 4 6
    by (cases "parse_ip (unbracket network)"; cases "parse_u32 bits"; cases address)
       (auto split: ip_addr.splits)
qed

section \<open>What a fetch can reach\<close>

text \<open>The policy in one place: a host the session may ask now.\<close>

definition permitted :: "gateway \<Rightarrow> string \<Rightarrow> bool" where
  "permitted g host \<longleftrightarrow>
     (let cfg = gw_config g
      in \<not> matches_any host (gc_blocklist cfg) \<and>
         (gc_allowlist cfg = [] \<or> matches_any host (gc_allowlist cfg) \<or> matches_any host (gc_intranet cfg)) \<and>
         gw_requests g < gc_max_requests cfg \<and> gw_bytes g < gc_max_bytes cfg \<and>
         (case gc_mode cfg of
            Airgapped \<Rightarrow> matches_any host (gc_intranet cfg)
          | Ask \<Rightarrow> host \<in> set (gw_approved g)
          | Online \<Rightarrow> True))"

lemma allowed_iff: "egress_check g url = Allowed \<longleftrightarrow> (\<exists>h. host_of url = Some h \<and> permitted g h)"
proof (cases "host_of url")
  case (Some h)
  then show ?thesis
    by (cases "gc_mode (gw_config g)") (auto simp: egress_check_def permitted_def Let_def not_le)
qed (simp add: egress_check_def)


definition open_gateway :: gateway where
  "open_gateway = (gateway_new default_gateway_config)\<lparr>gw_approved := [''a.example'']\<rparr>"


section \<open>A session's limits\<close>

text \<open>Anything a session does with the gateway: the mode is changed, a domain approved, a page fetched, a search made.\<close>

inductive gateway_step :: "gateway \<Rightarrow> gateway \<Rightarrow> bool" where
  step_mode: "gateway_step g (snd (set_mode mode g))"
| step_approve: "gateway_step g (approve_domain domain g)"
| step_fetch: "gateway_step g (snd (fetch http lowercase now url mode g))"
| step_search: "gateway_step g (snd (search reply query site g))"

inductive_cases gateway_stepE: "gateway_step g g'"

definition within_limits :: "gateway_config \<Rightarrow> gateway \<Rightarrow> bool" where
  "within_limits cfg g \<longleftrightarrow>
     gw_requests g \<le> gc_max_requests cfg \<and> (gw_config g)\<lparr>gc_mode := gc_mode cfg\<rparr> = cfg \<and>
     mode_rank (gc_mode (gw_config g)) \<le> mode_rank (gc_ceiling cfg) \<and>
     gw_bytes g = sum_list (map (\<lambda>l. snd (snd l)) (gw_log g)) \<and>
     length (filter (\<lambda>l. fst (snd l)) (gw_log g)) \<le> gw_requests g"

lemma same_limits:
  assumes "within_limits cfg g"
  shows "gc_ceiling (gw_config g) = gc_ceiling cfg" and "gc_max_requests (gw_config g) = gc_max_requests cfg"
proof -
  have "(gw_config g)\<lparr>gc_mode := gc_mode cfg\<rparr> = cfg" using assms by (simp add: within_limits_def)
  from arg_cong [OF this, of gc_ceiling] arg_cong [OF this, of gc_max_requests]
  show "gc_ceiling (gw_config g) = gc_ceiling cfg" and "gc_max_requests (gw_config g) = gc_max_requests cfg" by simp_all
qed

lemma room_left: "egress_check g url = Allowed \<or> egress_check g url = NeedsApproval d \<Longrightarrow> gw_requests g < gc_max_requests (gw_config g)"
  by (auto simp: egress_check_def Let_def split: option.splits if_splits)

lemma fetch_within: "within_limits cfg g \<Longrightarrow> within_limits cfg (snd (fetch http lowercase now url mode g))"
proof (cases "egress_check g url")
  case Allowed
  assume w: "within_limits cfg g"
  have "gw_requests g < gc_max_requests cfg" using room_left [of g url] Allowed same_limits(2) [OF w] by simp
  then show ?thesis
    using w Allowed
    by (cases "http (strip_tracking url)")
       (auto simp: fetch_def within_limits_def Let_def split: option.split)
qed (simp_all add: fetch_def)

lemma search_within: "within_limits cfg g \<Longrightarrow> within_limits cfg (snd (search reply query site g))"
proof (cases "gc_search_url (gw_config g)")
  case (Some base)
  assume w: "within_limits cfg g"
  show ?thesis
  proof (cases "\<exists>e. egress_check g (search_url base query site) = Refused e")
    case False
    then have "gw_requests g < gc_max_requests cfg"
      using room_left [of g "search_url base query site"] same_limits(2) [OF w]
      by (cases "egress_check g (search_url base query site)") auto
    then show ?thesis
      using w Some
      by (cases "reply (search_url base query site)"; cases "egress_check g (search_url base query site)")
         (auto simp: search_def within_limits_def)
  qed (use w Some in \<open>auto simp: search_def\<close>)
qed (simp add: search_def)

lemma step_within: "gateway_step g g' \<Longrightarrow> within_limits cfg g \<Longrightarrow> within_limits cfg g'"
proof (erule gateway_stepE)
  fix mode
  assume w: "within_limits cfg g" and "g' = snd (set_mode mode g)"
  then show "within_limits cfg g'"
    using same_limits(1) [OF w] by (auto simp: set_mode_def within_limits_def Let_def)
next
  fix domain
  assume "within_limits cfg g" "g' = approve_domain domain g"
  then show "within_limits cfg g'" by (simp add: approve_domain_def within_limits_def Let_def)
qed (simp_all add: fetch_within search_within)

text \<open>(C21) Whatever a session does, from a gateway whose mode is within the administrator's ceiling: the mode never rises above the ceiling and the
  rest of the configuration never changes, no more requests are counted than the quota, every page read is counted as a
  request, and the bytes counted are those of the log.\<close>

theorem session_within_limits:
  assumes "gateway_step\<^sup>*\<^sup>* (gateway_new cfg) g" and "mode_rank (gc_mode cfg) \<le> mode_rank (gc_ceiling cfg)"
  shows "within_limits cfg g"
  using assms(1)
proof (induction rule: rtranclp_induct)
  case base
  show ?case using assms(2) by (simp add: within_limits_def gateway_new_def)
qed (rule step_within)

lemma session_within_limits_witness:
  "mode_rank (gc_mode (gw_config (snd (set_mode Online (gateway_new default_gateway_config))))) \<le> 1"
proof -
  have "gateway_step\<^sup>*\<^sup>* (gateway_new default_gateway_config) (snd (set_mode Online (gateway_new default_gateway_config)))"
    by (rule r_into_rtranclp, rule step_mode)
  from session_within_limits [OF this] show ?thesis
    by (simp add: default_gateway_config_def within_limits_def)
qed

text \<open>A request that fails costs nothing: when the exchange brings no reply, which an HTTP error status also is, neither the
  request nor its bytes are counted and the same URL is still allowed, so the quota does not bound how many such requests, with whatever is written into
  their URLs, a session makes.\<close>

theorem failed_request_costs_nothing:
  assumes "egress_check g url = Allowed" and "http (strip_tracking url) = NoReply e"
  shows "\<exists>g'. snd (fetch http lowercase now url mode g) = g' \<and> gw_requests g' = gw_requests g \<and> gw_bytes g' = gw_bytes g \<and>
    egress_check g' url = Allowed"
  using assms by (auto simp: fetch_def Let_def egress_check_def split: option.splits if_splits)

lemma failed_request_costs_nothing_witness:
  "gw_requests (snd (fetch (\<lambda>_. NoReply ''status 404'') id 0 ''http://a.example/?q=1'' ''text'' open_gateway)) = 0"
proof -
  have "egress_check open_gateway ''http://a.example/?q=1'' = Allowed"
    by (simp add: egress_check_def host_of_def open_gateway_def gateway_new_def default_gateway_config_def matches_any_def
        to_ascii_lowercase_def ascii_lower_def is_ascii_upper_def code_def)
  from failed_request_costs_nothing [OF this, of "\<lambda>_. NoReply ''status 404''" "''status 404''" id 0 "''text''"]
  show ?thesis by (auto simp: open_gateway_def gateway_new_def)
qed

section \<open>Queries\<close>

fun url_decode :: "string \<Rightarrow> string" where
  "url_decode (CHR ''%'' # h # l # cs) =
     (case (hex_digit h, hex_digit l) of
        (Some a, Some b) \<Rightarrow> char_of (a * 16 + b) # url_decode cs
      | _ \<Rightarrow> CHR ''%'' # url_decode (h # l # cs))"
| "url_decode (c # cs) = (if c = CHR ''+'' then CHR '' '' else c) # url_decode cs"
| "url_decode [] = []"

lemma hex_upper_digit: "n < 16 \<Longrightarrow> hex_digit (hex_upper n) = Some n"
  by (auto simp: hex_digit_def hex_upper_def is_ascii_digit_def code_def)

lemma decode_plain: "c \<noteq> CHR ''%'' \<Longrightarrow> url_decode (c # s) = (if c = CHR ''+'' then CHR '' '' else c) # url_decode s"
  by (cases "c # s" rule: url_decode.cases) auto

lemma unreserved_plain: "unreserved c \<Longrightarrow> c \<noteq> CHR ''%'' \<and> c \<noteq> CHR ''+''"
  by (auto simp: unreserved_def is_ascii_upper_def is_ascii_lower_def is_ascii_digit_def code_def)

lemma decode_byte: "url_decode (encode_byte c @ s) = c # url_decode s"
proof -
  have "code c div 16 < 16" "code c mod 16 < 16" by (simp_all add: code_def less_mult_imp_div_less)
  then have "hex_digit (hex_upper (code c div 16)) = Some (code c div 16)" "hex_digit (hex_upper (code c mod 16)) = Some (code c mod 16)"
    by (simp_all add: hex_upper_digit)
  moreover have "char_of (code c div 16 * 16 + code c mod 16) = c" by (simp add: code_def)
  ultimately show ?thesis
    using unreserved_plain [of c] decode_plain [of c s] decode_plain [of "CHR ''+''" s] by (simp add: encode_byte_def)
qed

text \<open>A query is carried whole and adds nothing to the URL: decoding the encoded query gives it back, whatever bytes it has, and the encoded
  text has only letters, digits and \<open>- _ . ~ + %\<close>, so no query can end the parameter it is put in.\<close>

theorem urlencode_round_trip:
  "url_decode (urlencode s) = s \<and> list_all (\<lambda>c. unreserved c \<or> c = CHR ''+'' \<or> c = CHR ''%'') (urlencode s)"
proof
  show "url_decode (urlencode s) = s" by (induction s) (simp_all add: urlencode_def decode_byte)
  have "unreserved (hex_upper n)" if "n < 16" for n
    using that by (auto simp: unreserved_def hex_upper_def is_ascii_upper_def is_ascii_digit_def code_def)
  moreover have "code c div 16 < 16" for c by (simp add: code_def less_mult_imp_div_less)
  ultimately show "list_all (\<lambda>c. unreserved c \<or> c = CHR ''+'' \<or> c = CHR ''%'') (urlencode s)"
    by (auto simp: urlencode_def list_all_iff encode_byte_def split: if_splits)
qed

section \<open>Pages\<close>

definition ascii :: "string \<Rightarrow> bool" where
  "ascii s \<longleftrightarrow> list_all (\<lambda>c. code c < 128) s"

lemma ascii_not_cont: "code c < 128 \<Longrightarrow> \<not> is_cont c"
  by (auto simp: is_cont_def)

lemma ascii_boundary: "ascii s \<Longrightarrow> i \<le> length s \<Longrightarrow> boundary s i"
  by (auto simp: boundary_def ascii_def list_all_length ascii_not_cont)

lemma ascii_slice: "ascii s \<Longrightarrow> i \<le> length s \<Longrightarrow> slice_from s i = Some (drop i s)"
  by (simp add: slice_from_def ascii_boundary)

lemma find_str_bound: "find_str p s = Some k \<Longrightarrow> k + length p \<le> length s"
proof (induction s arbitrary: k)
  case (Cons c s)
  show ?case
  proof (cases "starts_with p (c # s)")
    case True
    then show ?thesis using Cons.prems by (auto simp: starts_with_iff dest!: arg_cong [of "c # s" _ length])
  qed (use Cons in auto)
qed (auto split: if_splits)

lemma skip_element_total: "ascii low \<Longrightarrow> i \<le> length low \<Longrightarrow> skip_element low len i tags \<noteq> None"
  by (induction tags) (auto simp: ascii_slice)

lemma skip_tag_total: "ascii html \<Longrightarrow> ascii low \<Longrightarrow> i \<le> length html \<Longrightarrow> i \<le> length low \<Longrightarrow> skip_tag html low i \<noteq> None"
  by (auto simp: skip_tag_def ascii_slice split: option.splits)

lemma html_loop_total:
  assumes "ascii html" and "ascii low" and "length low = length html"
  shows "html_loop html low i out \<noteq> None"
  using assms
proof (induction html low i out rule: html_loop.induct)
  case (1 html low i out)
  show ?case
  proof (cases "length html \<le> i")
    case False
    then have i: "i \<le> length html" "i \<le> length low" using 1 by auto
    have tag: "skip_tag html low k = None \<Longrightarrow> length html \<le> k" for k
      using skip_tag_total [OF \<open>ascii html\<close> \<open>ascii low\<close>, of k] 1 by force
    show ?thesis
      using 1 False skip_element_total [OF \<open>ascii low\<close> i(2), of "length html" dropped_tags] i ascii_slice [OF \<open>ascii html\<close> i(1)]
      by (subst html_loop.simps) (auto split: option.splits dest: tag)
  qed (simp add: html_loop.simps)
qed

lemma ascii_lower: "ascii s \<Longrightarrow> ascii (to_ascii_lowercase s) \<and> length (to_ascii_lowercase s) = length s"
  by (auto simp: ascii_def to_ascii_lowercase_def ascii_lower_def is_ascii_upper_def list_all_iff code_def)

lemma extract_title_total:
  assumes "ascii html" and low: "lowercase html = to_ascii_lowercase html"
  shows "extract_title lowercase html \<noteq> None"
proof -
  let ?low = "to_ascii_lowercase html"
  have l: "ascii ?low" "length ?low = length html" using ascii_lower [OF assms(1)] by simp_all
  show ?thesis
  proof (cases "find_str ''<title'' ?low")
    case (Some start)
    then have start: "start \<le> length ?low" using find_str_bound by force
    show ?thesis
    proof (cases "find_str ''>'' (drop start ?low)")
      case (Some e)
      then have e: "e + start + 1 \<le> length ?low" using find_str_bound [OF Some] start by simp
      show ?thesis
      proof (cases "find_str ''</title>'' (drop (e + start + 1) ?low)")
        case (Some k)
        then have "k + (e + start + 1) \<le> length html" using find_str_bound [OF Some] e l(2) by simp
        then have "slice_range html (e + start + 1) (k + (e + start + 1)) \<noteq> None"
          using ascii_boundary [OF assms(1)] by (simp add: slice_range_def)
        then show ?thesis
          using \<open>find_str ''<title'' ?low = Some start\<close> \<open>find_str ''>'' (drop start ?low) = Some e\<close> Some start e l
          by (auto simp: extract_title_def low ascii_slice)
      qed (use \<open>find_str ''<title'' ?low = Some start\<close> \<open>find_str ''>'' (drop start ?low) = Some e\<close> start e l in
            \<open>simp add: extract_title_def low ascii_slice\<close>)
    qed (use \<open>find_str ''<title'' ?low = Some start\<close> start l in \<open>simp add: extract_title_def low ascii_slice\<close>)
  qed (simp add: extract_title_def low)
qed

text \<open>Any page in ASCII is turned into text: neither the loop over its tags nor the search for its title leaves the page or cuts a
  character, whatever the tags are and wherever they end.\<close>

theorem ascii_page_has_text:
  assumes "ascii html" and "lowercase html = to_ascii_lowercase html"
  shows "html_to_text lowercase html \<noteq> None \<and> extract_title lowercase html \<noteq> None"
  using html_loop_total [OF assms(1)] ascii_lower [OF assms(1)] extract_title_total [where lowercase = lowercase, OF assms] assms(2)
  by (simp add: html_to_text_def)

lemma ascii_page_has_text_witness:
  "html_to_text to_ascii_lowercase ''<ScRiPt>x</script'' \<noteq> None"
proof -
  have "ascii ''<ScRiPt>x</script''" by (simp add: ascii_def code_def)
  from ascii_page_has_text [OF this] show ?thesis by blast
qed

text \<open>The Kelvin sign, three bytes, whose lowercase is the one byte \<open>k\<close>.\<close>

definition kelvin :: string where
  "kelvin = [CHR 0xE2, CHR 0x84, CHR 0xAA]"

text \<open>Other pages are not: positions found in the page are used in its lowercase copy, which may be shorter.  Two Kelvin signs and a tag
  are enough for a slice outside the copy, which is a panic.\<close>

theorem shrinking_page_panics:
  assumes "lowercase (kelvin @ kelvin @ ''<b>'') = ''kk<b>''"
  shows "html_to_text lowercase (kelvin @ kelvin @ ''<b>'') = None"
proof -
  have c: "is_cont CHR 0x84" "is_cont CHR 0xAA" "\<not> is_cont CHR 0xE2" "\<not> is_cont CHR ''<''"
    by (simp_all add: is_cont_def code_def)
  let ?p = "kelvin @ kelvin @ ''<b>''"
  have "html_loop ?p ''kk<b>'' 0 [] = html_loop ?p ''kk<b>'' 3 kelvin"
    by (subst html_loop.simps) (simp add: kelvin_def slice_from_def boundary_def c eval_nat_numeral)
  also have "\<dots> = html_loop ?p ''kk<b>'' 6 (kelvin @ kelvin)"
    by (subst html_loop.simps) (simp add: kelvin_def slice_from_def boundary_def c eval_nat_numeral)
  also have "\<dots> = None"
    by (subst html_loop.simps) (simp add: kelvin_def slice_from_def boundary_def dropped_tags_def eval_nat_numeral)
  finally show ?thesis using assms by (simp add: html_to_text_def)
qed

lemma shrinking_page_panics_witness:
  "html_to_text (\<lambda>s. if s = kelvin @ kelvin @ ''<b>'' then ''kk<b>'' else s) (kelvin @ kelvin @ ''<b>'') = None"
  by (rule shrinking_page_panics) simp

text \<open>Entities are decoded one kind after another, so an escaped entity is decoded twice.\<close>

lemma entity_decoded_twice: "decode_entities ''&amp;lt;'' = ''<''"
  by (simp add: decode_entities_def str_replace_def starts_with_def)

end
