(* ===== verification/Exposure.thy ===== *)
theory Exposure
  imports Registry Fitting Gateway "HOL-Library.Multiset"
begin

text \<open>
  Which tools the model is shown in a turn: \<open>crates/localspace-core/src/exposure.rs\<close>, the budgets of
  \<open>crates/localspace-core/src/profile.rs\<close> it works to and the identity of an active set of
  \<open>crates/localspace-core/src/grammar.rs\<close>.  The loop that drops harnesses and tools until the set fits is in the theory Fitting.  Ranking tools for a stated need uses floating-point scores and is not modelled.
\<close>

section \<open>Budgets\<close>

datatype hardware_tier = BelowFloor | W32 | W96 | TierS

definition tier_label :: "hardware_tier \<Rightarrow> string" where
  "tier_label t = (case t of BelowFloor \<Rightarrow> ''below floor'' | W32 \<Rightarrow> ''W32 (single-GPU workstation)''
     | W96 \<Rightarrow> ''W96 (multi-GPU workstation)'' | TierS \<Rightarrow> ''S (organisation server)'')"

definition may_serve :: "hardware_tier \<Rightarrow> bool" where
  "may_serve t \<longleftrightarrow> t = TierS"

definition team_mode :: "hardware_tier \<Rightarrow> bool" where
  "team_mode t \<longleftrightarrow> t = W32 \<or> t = W96"

record machine =
  gpus :: "nat list"
  ram_gb :: nat
  cores :: nat

definition total_vram_gb :: "machine \<Rightarrow> nat" where
  "total_vram_gb m = sum_list (gpus m)"

definition largest_gpu_gb :: "machine \<Rightarrow> nat" where
  "largest_gpu_gb m = (case list_max (gpus m) of Some g \<Rightarrow> g | None \<Rightarrow> 0)"

definition machine_tier :: "machine \<Rightarrow> hardware_tier" where
  "machine_tier m =
     (let vram = total_vram_gb m; big_gpus = length (filter (\<lambda>g. 70 \<le> g) (gpus m))
      in if 4 \<le> big_gpus \<and> 480 \<le> ram_gb m then TierS
         else if 96 \<le> vram \<and> 120 \<le> ram_gb m then W96
         else if 30 \<le> vram \<and> 60 \<le> ram_gb m \<and> 16 \<le> cores m then W32
         else BelowFloor)"

record model_profile =
  mp_name :: string
  tool_budget_tokens :: nat
  working_set_tokens :: nat
  context_budget_tokens :: nat
  focused_context_tokens :: nat
  pinned_context_tokens :: nat
  prompt_tokens_per_step :: nat
  ledger_tokens :: nat

definition server_profile :: model_profile where
  "server_profile = \<lparr>mp_name = ''S/W96 (70B-class reference)'', tool_budget_tokens = 4000, working_set_tokens = 24000,
     context_budget_tokens = 3000, focused_context_tokens = 1500, pinned_context_tokens = 400, prompt_tokens_per_step = 6000,
     ledger_tokens = 600\<rparr>"

definition w32_profile :: model_profile where
  "w32_profile = \<lparr>mp_name = ''W32 (100B+ MoE, hybrid)'', tool_budget_tokens = 2500, working_set_tokens = 16000,
     context_budget_tokens = 2000, focused_context_tokens = 1000, pinned_context_tokens = 300, prompt_tokens_per_step = 4000,
     ledger_tokens = 400\<rparr>"

definition small_profile :: model_profile where
  "small_profile = \<lparr>mp_name = ''small model'', tool_budget_tokens = 1500, working_set_tokens = 8000,
     context_budget_tokens = 1200, focused_context_tokens = 600, pinned_context_tokens = 200, prompt_tokens_per_step = 2500,
     ledger_tokens = 300\<rparr>"

definition for_tier :: "hardware_tier \<Rightarrow> model_profile" where
  "for_tier t = (case t of TierS \<Rightarrow> server_profile | W96 \<Rightarrow> server_profile | W32 \<Rightarrow> w32_profile | BelowFloor \<Rightarrow> small_profile)"

section \<open>Tools as the model sees them\<close>

record active_set =
  as_tools :: "exposed_tool list"
  as_token_estimate :: nat
  as_budget :: nat
  as_dropped :: "string list"
  as_grammar_hash :: string

record exposure =
  ex_registry :: registry
  ex_profile :: model_profile
  ex_focus :: "string option"
  ex_pinned :: "string list"
  ex_touched :: "string list"
  ex_network :: network_mode
  ex_search :: bool
  ex_web_results_reach_the_model :: bool
  ex_read_only :: bool
  ex_read_only_harnesses :: "string list"

definition core_harness :: string where
  "core_harness = ''core''"

definition expose :: "string \<Rightarrow> tool_decl \<Rightarrow> exposure_reason \<Rightarrow> exposed_tool" where
  "expose harness t reason = \<lparr>et_harness = harness, et_name = td_name t, et_summary = td_summary t, et_params = td_params t,
     et_kind = td_kind t, et_confirm = td_confirm t, et_cost_hint = td_cost_hint t, et_undoable = td_undoable t, et_reason = reason\<rparr>"

definition builtin :: "string \<Rightarrow> string \<Rightarrow> json \<Rightarrow> tool_kind \<Rightarrow> exposed_tool" where
  "builtin name summary params kind = \<lparr>et_harness = core_harness, et_name = name, et_summary = summary, et_params = params,
     et_kind = kind, et_confirm = Never, et_cost_hint = Seconds, et_undoable = False, et_reason = CoreBuiltin\<rparr>"

definition builtin_kind :: "string \<Rightarrow> tool_kind option" where
  "builtin_kind tool =
     (if tool \<in> {''find_capability'', ''web.search'', ''web.fetch''} then Some Read
      else if tool \<in> {''task.plan'', ''task.note''} then Some Write
      else None)"

text \<open>The schema of a parameter of one primitive type.\<close>

definition typed :: "string \<Rightarrow> json" where
  "typed ty = JObj [(''type'', JStr ty)]"

definition object_schema :: "(string \<times> json) list \<Rightarrow> string list \<Rightarrow> json" where
  "object_schema props req = JObj [(''type'', JStr ''object''), (''properties'', JObj props), (''required'', JArr (map JStr req))]"

section \<open>The candidates\<close>

definition anything_installed :: "exposure \<Rightarrow> bool" where
  "anything_installed ex \<longleftrightarrow> list_ex (\<lambda>h. in_enabled h \<and> in_tools h \<noteq> []) (reg_iter (ex_registry ex))"

definition core_tools :: "exposure \<Rightarrow> exposed_tool list" where
  "core_tools ex =
     (if \<not> anything_installed ex then []
      else
        [builtin ''find_capability'' ''Search what is installed for a tool that meets a stated need.''
           (object_schema [(''need'', typed ''string'')] [''need'']) Read,
         builtin ''task.plan''
           ''Write the plan of a task that takes several steps: one step per tool, in order, with the intent of each.''
           (object_schema
             [(''steps'', JObj [(''type'', JStr ''array''),
                (''items'', object_schema [(''harness'', typed ''string''), (''intent'', typed ''string'')] [''harness'', ''intent''])])]
             [''steps'']) Write,
         builtin ''task.note'' ''Keep a short note in the task ledger: a decision, or an open question.''
           (object_schema [(''text'', typed ''string'')] [''text'']) Write]
      @ (let web = ex_network ex \<noteq> Airgapped \<and> ex_web_results_reach_the_model ex
         in (if web \<and> ex_search ex
             then [builtin ''web.search'' ''Search the web. Results are titles, URLs and snippets.''
                     (object_schema
                       [(''query'', typed ''string''),
                        (''recency'', JObj [(''type'', JStr ''string''), (''enum'', JArr (map JStr [''day'', ''week'', ''month'', ''year'']))]),
                        (''site'', typed ''string'')]
                       [''query'']) Read]
             else [])
          @ (if web
             then [builtin ''web.fetch'' ''Fetch one URL and cache it in the workspace as a cited document.''
                     (object_schema
                       [(''url'', typed ''string''),
                        (''mode'', JObj [(''type'', JStr ''string''), (''enum'', JArr (map JStr [''text'', ''raw'']))])]
                       [''url'']) Read]
             else [])))"

definition offers_builtin :: "exposure \<Rightarrow> string \<Rightarrow> bool" where
  "offers_builtin ex tool \<longleftrightarrow> list_ex (\<lambda>t. et_name t = tool) (core_tools ex)"

definition shows_kind :: "exposure \<Rightarrow> string \<Rightarrow> tool_kind \<Rightarrow> bool" where
  "shows_kind ex harness kind =
     (if ex_read_only ex then kind = Read else kind \<noteq> Write \<or> harness \<notin> set (ex_read_only_harnesses ex))"

definition core_candidates :: "exposure \<Rightarrow> (nat \<times> exposed_tool) list" where
  "core_candidates ex = map (\<lambda>t. (0, t)) (filter (\<lambda>t. \<not> (ex_read_only ex \<and> et_kind t \<noteq> Read)) (core_tools ex))"

definition focused_candidates :: "exposure \<Rightarrow> (nat \<times> exposed_tool) list" where
  "focused_candidates ex = (case ex_focus ex of
      None \<Rightarrow> []
    | Some f \<Rightarrow> (case reg_get (ex_registry ex) f of
          None \<Rightarrow> []
        | Some h \<Rightarrow> if in_enabled h
            then map (\<lambda>t. (1, expose (in_id h) t Focused)) (filter (\<lambda>t. shows_kind ex (in_id h) (td_kind t)) (in_tools h))
            else []))"

definition side_candidates :: "exposure \<Rightarrow> installed \<Rightarrow> (nat \<times> exposed_tool) list" where
  "side_candidates ex h =
     (let pinned = in_id h \<in> set (ex_pinned ex); touched = in_id h \<in> set (ex_touched ex)
      in if \<not> in_enabled h \<or> Some (in_id h) = ex_focus ex then []
         else if \<not> pinned \<and> \<not> touched then []
         else let (rank, reason) = (if pinned then (2, Pinned) else (3, Touched))
              in map (\<lambda>t. (rank, expose (in_id h) t reason))
                   (filter (\<lambda>t. shows_kind ex (in_id h) (td_kind t)) (front_door (in_tools h))))"

definition candidates :: "exposure \<Rightarrow> (nat \<times> exposed_tool) list" where
  "candidates ex = core_candidates ex @ focused_candidates ex @ concat (map (side_candidates ex) (reg_iter (ex_registry ex)))"

section \<open>The active set\<close>

definition front_door_names :: "exposure \<Rightarrow> string list" where
  "front_door_names ex = (case Option.bind (ex_focus ex) (reg_get (ex_registry ex)) of
     Some h \<Rightarrow> map td_name (front_door (in_tools h)) | None \<Rightarrow> [])"

definition active_set_hash :: "(json \<Rightarrow> string) \<Rightarrow> (string \<Rightarrow> string) \<Rightarrow> exposed_tool list \<Rightarrow> string" where
  "active_set_hash to_text hex_hash ts =
     take 16 (hex_hash (join newline (sort (map (\<lambda>t. et_name t @ '':'' @ to_text (et_params t)) ts))))"

definition active_set_of :: "(json \<Rightarrow> string) \<Rightarrow> (string \<Rightarrow> string) \<Rightarrow> exposure \<Rightarrow> active_set" where
  "active_set_of to_text hex_hash ex =
     (let budget = tool_budget_tokens (ex_profile ex);
          (cs, dropped) = fit_loop to_text budget (front_door_names ex) (candidates ex) [];
          tools = sort_key (\<lambda>t. (et_harness t, et_name t)) (map snd cs)
      in \<lparr>as_tools = tools, as_token_estimate = sum_list (map (exposed_cost to_text) tools), as_budget = budget,
          as_dropped = dropped, as_grammar_hash = active_set_hash to_text hex_hash tools\<rparr>)"

section \<open>Which tools are due\<close>

text \<open>The rule the candidates follow, stated over the registry: Core's own tools, every tool of the focused harness, and the front
  doors of the pinned and touched ones, each as far as the caller may use them.\<close>

definition reason_for :: "exposure \<Rightarrow> string \<Rightarrow> tool_decl \<Rightarrow> exposure_reason option" where
  "reason_for ex i d =
     (if ex_focus ex = Some i then Some Focused
      else if \<not> td_front_door d then None
      else if i \<in> set (ex_pinned ex) then Some Pinned
      else if i \<in> set (ex_touched ex) then Some Touched
      else None)"

definition due_from :: "exposure \<Rightarrow> string \<Rightarrow> installed \<Rightarrow> tool_decl \<Rightarrow> exposure_reason \<Rightarrow> bool" where
  "due_from ex i h d r \<longleftrightarrow> reg_get (ex_registry ex) i = Some h \<and> in_enabled h \<and> d \<in> set (in_tools h) \<and>
     shows_kind ex i (td_kind d) \<and> reason_for ex i d = Some r"

definition due :: "exposure \<Rightarrow> exposed_tool \<Rightarrow> bool" where
  "due ex t \<longleftrightarrow> (t \<in> set (core_tools ex) \<and> (ex_read_only ex \<longrightarrow> et_kind t = Read)) \<or>
     (\<exists>i h d r. due_from ex i h d r \<and> t = expose i d r)"

definition rank_of :: "exposure_reason \<Rightarrow> nat" where
  "rank_of r = (case r of CoreBuiltin \<Rightarrow> 0 | Focused \<Rightarrow> 1 | Pinned \<Rightarrow> 2 | Touched \<Rightarrow> 3)"

lemma core_tools_fields:
  assumes "t \<in> set (core_tools ex)"
  shows "et_harness t = core_harness" and "et_reason t = CoreBuiltin"
  using assms by (auto simp: core_tools_def builtin_def Let_def split: if_splits)

lemma in_reg_iter:
  assumes "registry_ok to_text p r"
  shows "h \<in> set (reg_iter r) \<longleftrightarrow> reg_get r (in_id h) = Some h"
proof -
  have "distinct (keys r)" using assms by (simp add: registry_ok_def ordered_distinct)
  then have "h \<in> set (vals r) \<longleftrightarrow> (\<exists>i. t_get r i = Some h)" by (simp add: vals_get hashed_def)
  then show ?thesis using registry_ok_get(1) [OF assms] by (auto simp: reg_iter_def reg_get_def)
qed

lemma core_candidate:
  "(rank, t) \<in> set (core_candidates ex) \<longleftrightarrow> rank = 0 \<and> t \<in> set (core_tools ex) \<and> (ex_read_only ex \<longrightarrow> et_kind t = Read)"
  by (auto simp: core_candidates_def)

lemma expose_fields [simp]:
  "et_harness (expose i d r) = i" "et_name (expose i d r) = td_name d" "et_kind (expose i d r) = td_kind d" "et_reason (expose i d r) = r"
  by (simp_all add: expose_def)

lemma focused_candidate:
  assumes "registry_ok to_text p (ex_registry ex)"
  shows "(rank, t) \<in> set (focused_candidates ex) \<longleftrightarrow> rank = 1 \<and> (\<exists>i h d. due_from ex i h d Focused \<and> t = expose i d Focused)"
proof (cases "\<exists>f h. ex_focus ex = Some f \<and> reg_get (ex_registry ex) f = Some h \<and> in_enabled h")
  case True
  then obtain f h where f: "ex_focus ex = Some f" "reg_get (ex_registry ex) f = Some h" "in_enabled h" by blast
  have "due_from ex i h' d Focused \<longleftrightarrow> i = f \<and> h' = h \<and> d \<in> set (in_tools h) \<and> shows_kind ex f (td_kind d)" for i h' d
    using f by (auto simp: due_from_def reason_for_def split: if_splits)
  then show ?thesis using f registry_ok_get(1) [OF assms f(2)] by (auto simp: focused_candidates_def)
next
  case False
  then have "focused_candidates ex = []" by (auto simp: focused_candidates_def split: option.splits)
  moreover have "\<not> due_from ex i h d Focused" for i h d
    using False by (auto simp: due_from_def reason_for_def split: if_splits)
  ultimately show ?thesis by simp
qed

lemma side_candidate:
  assumes "reg_get (ex_registry ex) (in_id h) = Some h"
  shows "(rank, t) \<in> set (side_candidates ex h) \<longleftrightarrow>
     (\<exists>d r. due_from ex (in_id h) h d r \<and> r \<noteq> Focused \<and> rank = rank_of r \<and> t = expose (in_id h) d r)"
  using assms
  by (auto simp: side_candidates_def front_door_def Let_def due_from_def reason_for_def rank_of_def split: if_splits)

lemma due_from_reason: "due_from ex i h d r \<Longrightarrow> r \<noteq> CoreBuiltin"
  by (auto simp: due_from_def reason_for_def split: if_splits)

lemma candidate_iff:
  assumes ok: "registry_ok to_text p (ex_registry ex)"
  shows "(rank, t) \<in> set (candidates ex) \<longleftrightarrow> due ex t \<and> rank = rank_of (et_reason t)"
proof -
  have side: "(\<exists>h \<in> set (reg_iter (ex_registry ex)). (rank, t) \<in> set (side_candidates ex h)) \<longleftrightarrow>
      (\<exists>i h d r. due_from ex i h d r \<and> r \<noteq> Focused \<and> rank = rank_of r \<and> t = expose i d r)" (is "?L \<longleftrightarrow> ?R")
  proof
    assume ?L
    then show ?R using side_candidate in_reg_iter [OF ok] by blast
  next
    assume ?R
    then obtain i h d r where h: "due_from ex i h d r" "r \<noteq> Focused" "rank = rank_of r" "t = expose i d r" by blast
    then have "reg_get (ex_registry ex) i = Some h" by (simp add: due_from_def)
    moreover from this have i: "in_id h = i" by (rule registry_ok_get(1) [OF ok])
    ultimately have "h \<in> set (reg_iter (ex_registry ex))" "(rank, t) \<in> set (side_candidates ex h)"
      using h in_reg_iter [OF ok, of h] side_candidate [of ex h rank t] by auto
    then show ?L by blast
  qed
  have core: "(rank, t) \<in> set (core_candidates ex) \<longleftrightarrow>
      t \<in> set (core_tools ex) \<and> (ex_read_only ex \<longrightarrow> et_kind t = Read) \<and> rank = rank_of (et_reason t)"
    using core_tools_fields(2) [of t ex] by (auto simp: core_candidate rank_of_def)
  have focused: "(rank, t) \<in> set (focused_candidates ex) \<longleftrightarrow>
      (\<exists>i h d. due_from ex i h d Focused \<and> rank = rank_of Focused \<and> t = expose i d Focused)"
    unfolding focused_candidate [OF ok] by (auto simp: rank_of_def)
  have "(rank, t) \<in> set (candidates ex) \<longleftrightarrow> (rank, t) \<in> set (core_candidates ex) \<or> (rank, t) \<in> set (focused_candidates ex) \<or>
      (\<exists>h \<in> set (reg_iter (ex_registry ex)). (rank, t) \<in> set (side_candidates ex h))"
    by (auto simp: candidates_def)
  also have "\<dots> \<longleftrightarrow> due ex t \<and> rank = rank_of (et_reason t)"
    unfolding core focused side due_def by (metis expose_fields(4))
  finally show ?thesis .
qed

lemma candidate_due:
  assumes ok: "registry_ok to_text p (ex_registry ex)"
  shows "(\<exists>rank. (rank, t) \<in> set (candidates ex)) \<longleftrightarrow> due ex t"
  by (simp add: candidate_iff [OF ok])

lemma core_not_package: "\<not> is_package_id core_harness"
  by (simp add: is_package_id_def core_harness_def)

lemma due_rank:
  assumes ok: "registry_ok to_text p (ex_registry ex)" and "due ex t"
  shows "if et_reason t = CoreBuiltin then et_harness t = core_harness
    else is_package_id (et_harness t) \<and> (et_reason t = Focused \<longleftrightarrow> ex_focus ex = Some (et_harness t))"
proof -
  have "is_package_id i" if "due_from ex i h d r" for i h d r
    using entry_package_id registry_ok_get [OF ok] that unfolding due_from_def by blast
  moreover have "r = Focused \<longleftrightarrow> ex_focus ex = Some i" if "due_from ex i h d r" for i h d r
    using that by (auto simp: due_from_def reason_for_def split: if_splits)
  ultimately show ?thesis using assms(2) core_tools_fields [of t ex] due_from_reason unfolding due_def by fastforce
qed

lemma candidate_rank:
  assumes ok: "registry_ok to_text p (ex_registry ex)" and "(rank, t) \<in> set (candidates ex)"
  shows "if rank = 0 then et_harness t = core_harness \<and> et_reason t = CoreBuiltin
    else is_package_id (et_harness t) \<and> (rank = 1 \<longleftrightarrow> ex_focus ex = Some (et_harness t)) \<and> (rank = 1 \<longleftrightarrow> et_reason t = Focused) \<and>
      et_reason t \<noteq> CoreBuiltin"
  using assms(2) due_rank [OF ok, of t] unfolding candidate_iff [OF ok]
  by (cases "et_reason t") (auto simp: rank_of_def)

lemma candidates_apart:
  assumes "registry_ok to_text p (ex_registry ex)"
  shows "ranks_apart (set (candidates ex))"
  unfolding ranks_apart_def
proof (intro allI impI)
  fix r t r' t'
  assume "(r, t) \<in> set (candidates ex)" "(r', t') \<in> set (candidates ex)" "r < 2" "2 \<le> r'"
  with candidate_rank [OF assms, of r t] candidate_rank [OF assms, of r' t'] core_not_package
  show "et_harness t \<noteq> et_harness t'" by (auto split: if_splits)
qed

lemma active_set_fields:
  assumes "fit_loop to_text (tool_budget_tokens (ex_profile ex)) (front_door_names ex) (candidates ex) [] = (cs, dropped)"
  shows "set (as_tools (active_set_of to_text hex ex)) = snd ` set cs" and "as_dropped (active_set_of to_text hex ex) = dropped"
    and "as_token_estimate (active_set_of to_text hex ex) = candidates_cost to_text cs"
    and "as_budget (active_set_of to_text hex ex) = tool_budget_tokens (ex_profile ex)"
    and "sorted (map (\<lambda>t. (et_harness t, et_name t)) (as_tools (active_set_of to_text hex ex)))"
proof -
  let ?ts = "sort_key (\<lambda>t. (et_harness t, et_name t)) (map snd cs)"
  have "mset (map (exposed_cost to_text) ?ts) = mset (map (exposed_cost to_text) (map snd cs))"
    by (simp only: mset_map mset_sort)
  then have "sum_list (map (exposed_cost to_text) ?ts) = sum_list (map (exposed_cost to_text) (map snd cs))"
    by (metis sum_mset_sum_list)
  also have "\<dots> = candidates_cost to_text cs"
    by (simp add: candidates_cost_def case_prod_unfold comp_def)
  finally show "as_token_estimate (active_set_of to_text hex ex) = candidates_cost to_text cs"
    by (simp add: active_set_of_def assms Let_def)
qed (simp_all add: active_set_of_def assms Let_def)

section \<open>Properties\<close>

text \<open>(C38) The tools of a turn fit the budget of the model's profile, or nothing but Core's own tools is left; the estimate reported
  is their cost, and they come in the order of harness and name.  To fit, whole harnesses beside the focused one go first: while one
  of them is left the focused harness is complete, and it loses a front door only when it has nothing else left.\<close>

theorem active_set_fits:
  assumes "reg_reach to_text p (ex_registry ex)"
  shows "let a = active_set_of to_text hex ex in
    (as_token_estimate a \<le> tool_budget_tokens (ex_profile ex) \<or> (\<forall>t \<in> set (as_tools a). et_reason t = CoreBuiltin)) \<and>
    as_token_estimate a = sum_list (map (exposed_cost to_text) (as_tools a)) \<and>
    sorted (map (\<lambda>t. (et_harness t, et_name t)) (as_tools a)) \<and>
    (\<forall>t u. due ex t \<and> et_reason t = Focused \<and> t \<notin> set (as_tools a) \<and> u \<in> set (as_tools a) \<longrightarrow>
       et_reason u \<in> {Focused, CoreBuiltin} \<and>
       (et_name t \<in> set (front_door_names ex) \<and> et_reason u = Focused \<longrightarrow> et_name u \<in> set (front_door_names ex)))"
proof -
  note ok = reg_reach_ok [OF assms]
  obtain cs dropped where fit: "fit_loop to_text (tool_budget_tokens (ex_profile ex)) (front_door_names ex) (candidates ex) [] = (cs, dropped)"
    by fastforce
  note flds = active_set_fields [OF fit, of hex] and loop = fit_loop_fitted [OF candidates_apart [OF ok] fit]
  note rank = candidate_rank [OF ok]
  have sub: "set cs \<subseteq> set (candidates ex)" using loop by (simp add: fitted_def)
  have core: "et_reason u = CoreBuiltin" if zero: "\<forall>r t. (r, t) \<in> set cs \<longrightarrow> r = 0" and u: "u \<in> snd ` set cs" for u
  proof -
    obtain r where "(r, u) \<in> set cs" using u by auto
    with zero sub show ?thesis using rank [of 0 u] by (metis subsetD)
  qed
  have focus: "et_reason u \<in> {Focused, CoreBuiltin} \<and>
      (et_name t \<in> set (front_door_names ex) \<and> et_reason u = Focused \<longrightarrow> et_name u \<in> set (front_door_names ex))"
    if t: "due ex t" "et_reason t = Focused" "t \<notin> snd ` set cs" and u: "u \<in> snd ` set cs" for t u
  proof -
    obtain r where "(r, t) \<in> set (candidates ex)" using t(1) candidate_due [OF ok] by blast
    moreover from this have "r = 1" using rank [of r t] t(2) by (auto split: if_splits)
    moreover have "(r, t) \<notin> set cs" using t(3) by force
    ultimately have gone: "gone_well (front_door_names ex) (set cs) (set dropped) 1 t" using loop by (auto simp: fitted_def)
    obtain r' where r': "(r', u) \<in> set cs" using u by auto
    with gone have "r' < 2" "et_name t \<in> set (front_door_names ex) \<longrightarrow> r' = 1 \<longrightarrow> et_name u \<in> set (front_door_names ex)"
      unfolding gone_well_def by blast+
    moreover have "if r' = 0 then et_reason u = CoreBuiltin else (r' = 1 \<longleftrightarrow> et_reason u = Focused)"
      using rank [of r' u] sub r' by (auto split: if_splits)
    ultimately show ?thesis by (auto split: if_splits)
  qed
  show ?thesis
    unfolding Let_def flds(1)
    using loop core focus flds(3,5) by (auto simp: active_set_of_def fit Let_def)
qed

text \<open>(C39) The model is shown no tool that is not due: Core's own tools, all tools of the focused harness while it is enabled, the
  front doors of pinned and touched ones; a read-only account sees tools that read and nothing else, and no one sees a write of a
  harness whose document they may not change.  Every due tool is shown, or its harness or its name is among what was dropped;
  Core's own are never dropped.\<close>

theorem active_set_shows_due:
  assumes "reg_reach to_text p (ex_registry ex)"
  shows "let a = active_set_of to_text hex ex in
    (\<forall>t \<in> set (as_tools a). due ex t \<and> (ex_read_only ex \<longrightarrow> et_kind t = Read) \<and>
       (et_kind t = Write \<and> et_harness t \<noteq> core_harness \<longrightarrow> et_harness t \<notin> set (ex_read_only_harnesses ex))) \<and>
    (\<forall>t. due ex t \<longrightarrow> t \<in> set (as_tools a) \<or> et_reason t \<noteq> CoreBuiltin \<and>
       (et_harness t \<in> set (as_dropped a) \<or> et_name t \<in> set (as_dropped a)))"
proof -
  note ok = reg_reach_ok [OF assms]
  obtain cs dropped where fit: "fit_loop to_text (tool_budget_tokens (ex_profile ex)) (front_door_names ex) (candidates ex) [] = (cs, dropped)"
    by fastforce
  note flds = active_set_fields [OF fit, of hex] and loop = fit_loop_fitted [OF candidates_apart [OF ok] fit]
  have "due ex t" if "t \<in> snd ` set cs" for t
    using that loop candidate_due [OF ok, of t] by (auto simp: fitted_def)
  moreover have "(ex_read_only ex \<longrightarrow> et_kind t = Read) \<and>
      (et_kind t = Write \<and> et_harness t \<noteq> core_harness \<longrightarrow> et_harness t \<notin> set (ex_read_only_harnesses ex))" if "due ex t" for t
    using that unfolding due_def
  proof (elim disjE exE conjE)
    assume "t \<in> set (core_tools ex)" "ex_read_only ex \<longrightarrow> et_kind t = Read"
    then show ?thesis by (simp add: core_tools_fields(1))
  next
    fix i h d r
    assume "due_from ex i h d r" "t = expose i d r"
    then show ?thesis by (simp add: due_from_def shows_kind_def split: if_splits)
  qed
  moreover have "et_reason t \<noteq> CoreBuiltin \<and> (et_harness t \<in> set dropped \<or> et_name t \<in> set dropped)"
    if t: "due ex t" "t \<notin> snd ` set cs" for t
  proof -
    obtain r where "(r, t) \<in> set (candidates ex)" using t(1) candidate_due [OF ok] by blast
    moreover have "(r, t) \<notin> set cs" using t(2) by force
    ultimately have "gone_well (front_door_names ex) (set cs) (set dropped) r t" using loop by (auto simp: fitted_def)
    then show ?thesis using candidate_rank [OF ok, of r t] \<open>(r, t) \<in> set (candidates ex)\<close> by (auto simp: gone_well_def split: if_splits)
  qed
  ultimately show ?thesis unfolding Let_def flds(1,2) by blast
qed


text \<open>A registry with one board, focused by a read-only account.\<close>

definition example_exposure :: "registry \<Rightarrow> exposure" where
  "example_exposure r = \<lparr>ex_registry = r, ex_profile = small_profile, ex_focus = Some ''io.localspace.whiteboard'', ex_pinned = [],
     ex_touched = [], ex_network = Airgapped, ex_search = False, ex_web_results_reach_the_model = False, ex_read_only = True,
     ex_read_only_harnesses = []\<rparr>"

lemma example_registry:
  obtains r h where "reg_reach (\<lambda>_. ''{}'') strict_policy r" "reg_get r ''io.localspace.whiteboard'' = Some h"
    "in_tools h = [example_tool ''board.add'' True]"
proof -
  obtain h where h: "stage (\<lambda>_. ''{}'') example_files [''packages''] strict_policy 7 = Inr h"
      "in_id h = ''io.localspace.whiteboard''" "mf_package (in_manifest h) = Harness" "in_tools h = [example_tool ''board.add'' True]"
    using example_stage by blast
  let ?h = "h\<lparr>in_loaded := True, in_last_used := 7\<rparr>"
  have "instantiate Unparsed 7 h = (Inr (), ?h)" using h(3) by (simp add: instantiate_def is_harness_def)
  from reg_install [OF h(1) this] have "reg_reach (\<lambda>_. ''{}'') strict_policy (reg_insert ?h [])"
    by (blast intro: reg_new reg_next)
  moreover have "reg_get (reg_insert ?h []) ''io.localspace.whiteboard'' = Some ?h"
    using h(2) by (simp add: reg_get_def reg_insert_def in_id_def)
  ultimately show thesis using that h(4) by simp
qed

theorem active_set_fits_witness:
  "\<exists>r. reg_get r ''io.localspace.whiteboard'' \<noteq> None \<and>
     sorted (map (\<lambda>t. (et_harness t, et_name t)) (as_tools (active_set_of (\<lambda>_. ''{}'') (\<lambda>s. s) (example_exposure r))))"
proof -
  obtain r h where r: "reg_reach (\<lambda>_. ''{}'') strict_policy r" "reg_get r ''io.localspace.whiteboard'' = Some h"
    using example_registry by blast
  then have "reg_reach (\<lambda>_. ''{}'') strict_policy (ex_registry (example_exposure r))" by (simp add: example_exposure_def)
  from active_set_fits [OF this, of "\<lambda>s. s"] r(2) show ?thesis unfolding Let_def by blast
qed

theorem active_set_shows_due_witness:
  "\<exists>r h. reg_get r ''io.localspace.whiteboard'' = Some h \<and> in_tools h = [example_tool ''board.add'' True] \<and>
     expose ''io.localspace.whiteboard'' (example_tool ''board.add'' True) Focused
       \<notin> set (as_tools (active_set_of (\<lambda>_. ''{}'') (\<lambda>s. s) (example_exposure r)))"
proof -
  obtain r h where r: "reg_reach (\<lambda>_. ''{}'') strict_policy r" "reg_get r ''io.localspace.whiteboard'' = Some h"
      "in_tools h = [example_tool ''board.add'' True]"
    using example_registry by blast
  then have "reg_reach (\<lambda>_. ''{}'') strict_policy (ex_registry (example_exposure r))" by (simp add: example_exposure_def)
  note due = active_set_shows_due [OF this, of "\<lambda>s. s", unfolded Let_def]
  have "ex_read_only (example_exposure r)" "et_kind (expose ''io.localspace.whiteboard'' (example_tool ''board.add'' True) Focused) \<noteq> Read"
    by (simp_all add: example_exposure_def example_tool_def)
  then show ?thesis using due r(2,3) by blast
qed

end
