(* ===== verification/Budgets.thy ===== *)
theory Budgets
  imports Tools
begin

text \<open>
  Cutting text to a token budget on a line boundary: \<open>truncate_to_budget\<close> of
  \<open>crates/localspace-core/src/context.rs\<close>, which the context blocks and the task ledger both go through.  The lemmas bound what it
  returns: within the budget whenever the budget has room for the marker, and the bare marker below that.
\<close>

definition truncation_marker :: string where
  "truncation_marker = newline @ ''[truncated to fit the context budget '' @ map char_of [226, 128, 148 :: nat]
     @ '' call the harness's zoom tool for detail]''"

text \<open>The loop over the lines, with the text gathered so far.\<close>

fun take_lines :: "nat \<Rightarrow> string \<Rightarrow> string list \<Rightarrow> string" where
  "take_lines room out [] = out"
| "take_lines room out (l # ls) =
     (if room < estimate_tokens out + estimate_tokens l + 1 then out else take_lines room (out @ l @ newline) ls)"

definition truncate_to_budget :: "string \<Rightarrow> nat \<Rightarrow> string" where
  "truncate_to_budget text budget =
     (if estimate_tokens text \<le> budget then text
      else take_lines (budget - estimate_tokens truncation_marker) [] (text_lines text)
        @ dropWhile (\<lambda>c. code c = 10) truncation_marker)"

lemma estimate_append: "estimate_tokens (a @ b) \<le> estimate_tokens a + estimate_tokens b"
  by (auto simp: estimate_tokens_def)

lemma estimate_line: "estimate_tokens (a @ l @ newline) \<le> estimate_tokens a + estimate_tokens l + 1"
  using estimate_append [of a "l @ newline"] estimate_append [of l newline]
  by (simp add: newline_def estimate_tokens_def)

lemma take_lines_bound: "estimate_tokens out \<le> room \<Longrightarrow> estimate_tokens (take_lines room out ls) \<le> room"
proof (induction ls arbitrary: out)
  case (Cons l ls)
  then show ?case using estimate_line [of out l] by simp
qed simp

lemma take_lines_no_room: "take_lines 0 out ls = out"
  by (cases ls) simp_all

definition marker_tokens :: nat where
  "marker_tokens = estimate_tokens (dropWhile (\<lambda>c. code c = 10) truncation_marker)"

lemma marker_dropped: "dropWhile (\<lambda>c. code c = 10) truncation_marker = tl truncation_marker"
  by (simp add: truncation_marker_def newline_def code_def)

lemma marker_lengths: "length truncation_marker = 82" "estimate_tokens truncation_marker = 21" "marker_tokens = 21"
  unfolding marker_tokens_def marker_dropped
  by (simp_all add: truncation_marker_def newline_def estimate_tokens_def)

lemma truncate_bound: "estimate_tokens (truncate_to_budget text budget) \<le> max budget marker_tokens"
proof (cases "estimate_tokens text \<le> budget")
  case False
  let ?room = "budget - estimate_tokens truncation_marker"
  let ?out = "take_lines ?room [] (text_lines text)"
  have "estimate_tokens ?out \<le> ?room" by (rule take_lines_bound) (simp add: estimate_tokens_def)
  moreover have "?out = []" if "budget \<le> 21" using that by (simp add: marker_lengths take_lines_no_room)
  ultimately show ?thesis
    using estimate_append [of ?out "dropWhile (\<lambda>c. code c = 10) truncation_marker"] False
    by (cases "budget \<le> 21") (auto simp: truncate_to_budget_def marker_tokens_def [symmetric] marker_lengths)
qed (simp add: truncate_to_budget_def)

text \<open>What is kept is a beginning of the text, line by line.\<close>

lemma take_lines_prefix: "\<exists>k. take_lines room out ls = out @ concat (map (\<lambda>l. l @ newline) (take k ls))"
proof (induction ls arbitrary: out)
  case (Cons l ls)
  show ?case
  proof (cases "room < estimate_tokens out + estimate_tokens l + 1")
    case True
    then show ?thesis by (intro exI [of _ 0]) simp
  next
    case False
    obtain k where "take_lines room (out @ l @ newline) ls = (out @ l @ newline) @ concat (map (\<lambda>l. l @ newline) (take k ls))"
      using Cons by blast
    with False show ?thesis by (intro exI [of _ "Suc k"]) simp
  qed
qed simp

text \<open>Text that fits its budget is handed on unchanged; text that does not is cut to whole lines of its beginning with the marker after
  them, and then fits the budget as long as the budget is at least the marker's 21 tokens; under that the marker alone is returned.\<close>

theorem truncate_spec:
  "(estimate_tokens text \<le> budget \<longrightarrow> truncate_to_budget text budget = text) \<and>
   (budget < estimate_tokens text \<longrightarrow> (\<exists>k. truncate_to_budget text budget =
      concat (map (\<lambda>l. l @ newline) (take k (text_lines text))) @ tl truncation_marker)) \<and>
   (21 \<le> budget \<longrightarrow> estimate_tokens (truncate_to_budget text budget) \<le> budget) \<and>
   (budget < 21 \<and> budget < estimate_tokens text \<longrightarrow> truncate_to_budget text budget = tl truncation_marker)"
proof -
  have "\<exists>k. truncate_to_budget text budget = concat (map (\<lambda>l. l @ newline) (take k (text_lines text))) @ tl truncation_marker"
    if "budget < estimate_tokens text"
    using that take_lines_prefix [of "budget - estimate_tokens truncation_marker" "[]" "text_lines text"]
    by (auto simp: truncate_to_budget_def marker_dropped)
  moreover have "truncate_to_budget text budget = tl truncation_marker" if "budget < 21" "budget < estimate_tokens text"
    using that by (simp add: truncate_to_budget_def marker_lengths take_lines_no_room marker_dropped)
  ultimately show ?thesis
    using truncate_bound [of "text" budget] by (auto simp: truncate_to_budget_def marker_lengths)
qed

theorem truncate_spec_witness: "truncate_to_budget ''one line'' 5 = ''one line'' \<and> truncate_to_budget ''one line'' 1 = tl truncation_marker"
proof -
  have "estimate_tokens ''one line'' = 2" by (simp add: estimate_tokens_def)
  then show ?thesis using truncate_spec [of "''one line''" 5] truncate_spec [of "''one line''" 1] by simp
qed

end
