(* ===== verification/Briefing.thy ===== *)
theory Briefing
  imports Exposure Database Budgets
begin

text \<open>
  What the model reads beside the conversation: the context blocks of the harnesses
  (\<open>crates/localspace-core/src/context.rs\<close>), gathered within a total budget through a cache, and the task ledger
  (\<open>crates/localspace-core/src/task.rs\<close>).  A harness's provider is code outside; \<open>pv_context\<close> is what it answers at a budget for a
  document, and \<open>pv_hash\<close> is the hash the cache keys are made with.

  The lemmas: how far the blocks of a turn can go over the budget; that the cache is transparent, although its key leaves out whether the
  harness is focused; that a new artifact's id is not in the ledger.
\<close>

section \<open>Context blocks\<close>

record context_block =
  cb_harness :: string
  cb_text :: string
  cb_tokens :: nat
  cb_expandable :: bool

record provider_cache =
  pc_entries :: "(string \<times> string \<times> nat, context_block) table"
  pc_hits :: nat
  pc_misses :: nat

definition empty_cache :: provider_cache where
  "empty_cache = \<lparr>pc_entries = [], pc_hits = 0, pc_misses = 0\<rparr>"

record providers =
  pv_docs :: "string \<Rightarrow> json"
  pv_to_text :: "json \<Rightarrow> string"
  pv_hash :: "string \<Rightarrow> string"
  pv_context :: "string \<Rightarrow> nat \<Rightarrow> bool \<Rightarrow> json \<Rightarrow> (string, string \<times> bool) result"

definition doc_hash :: "providers \<Rightarrow> json \<Rightarrow> string" where
  "doc_hash pv doc = take 16 (pv_hash pv (pv_to_text pv doc))"

definition ask_provider :: "providers \<Rightarrow> installed \<Rightarrow> string \<Rightarrow> nat \<Rightarrow> bool \<Rightarrow> json \<Rightarrow> string \<times> bool" where
  "ask_provider pv h i budget focused doc =
     (if in_loaded h
      then (case pv_context pv i budget focused doc of
          Inr r \<Rightarrow> r | Inl e \<Rightarrow> (''[context provider failed: '' @ e @ '']'', False))
      else ([], False))"

definition fresh_block :: "providers \<Rightarrow> installed \<Rightarrow> string \<Rightarrow> nat \<Rightarrow> bool \<Rightarrow> json \<Rightarrow> context_block option" where
  "fresh_block pv h i budget focused doc =
     (let (txt, expandable) = ask_provider pv h i budget focused doc
      in if trim txt = [] then None
         else let txt = truncate_to_budget txt budget
              in Some \<lparr>cb_harness = i, cb_text = txt, cb_tokens = estimate_tokens txt, cb_expandable = expandable\<rparr>)"

definition wanted_blocks :: "model_profile \<Rightarrow> string option \<Rightarrow> string list \<Rightarrow> (string \<times> nat) list" where
  "wanted_blocks pr focus other =
     (case focus of Some f \<Rightarrow> [(f, focused_context_tokens pr)] | None \<Rightarrow> [])
     @ map (\<lambda>i. (i, pinned_context_tokens pr)) (filter (\<lambda>i. Some i \<noteq> focus) other)"

text \<open>The document of a harness the loop asks: it is installed, enabled and a provider, and has a document.\<close>

definition provider_doc :: "registry \<Rightarrow> (string, string) table \<Rightarrow> string \<Rightarrow> (installed \<times> string) option" where
  "provider_doc r doc_ids i = (case reg_get r i of
      None \<Rightarrow> None
    | Some h \<Rightarrow> if \<not> in_enabled h \<or> \<not> ct_context_provider (mf_contributes (in_manifest h)) then None
        else map_option (\<lambda>d. (h, d)) (t_get doc_ids i))"

fun gather :: "providers \<Rightarrow> registry \<Rightarrow> (string, string) table \<Rightarrow> nat \<Rightarrow> string option \<Rightarrow> (string \<times> nat) list \<Rightarrow> nat \<Rightarrow> provider_cache \<Rightarrow>
    context_block list \<times> provider_cache" where
  "gather pv r doc_ids cap focus [] spent cache = ([], cache)"
| "gather pv r doc_ids cap focus ((i, b) # ws) spent cache =
     (if cap \<le> spent then ([], cache)
      else let budget = min b (cap - spent)
           in case provider_doc r doc_ids i of
                None \<Rightarrow> gather pv r doc_ids cap focus ws spent cache
              | Some (h, doc_id) \<Rightarrow>
                  (let doc = pv_docs pv doc_id; key = (i, doc_hash pv doc, budget)
                   in case t_get (pc_entries cache) key of
                        Some cached \<Rightarrow>
                          (let (bs, cache') = gather pv r doc_ids cap focus ws (spent + cb_tokens cached)
                             (cache\<lparr>pc_hits := pc_hits cache + 1\<rparr>)
                           in (cached # bs, cache'))
                      | None \<Rightarrow>
                          (let cache = cache\<lparr>pc_misses := pc_misses cache + 1\<rparr>
                           in case fresh_block pv h i budget (Some i = focus) doc of
                                None \<Rightarrow> gather pv r doc_ids cap focus ws spent cache
                              | Some block \<Rightarrow>
                                  (let (bs, cache') = gather pv r doc_ids cap focus ws (spent + cb_tokens block)
                                     (cache\<lparr>pc_entries := h_put key block (pc_entries cache)\<rparr>)
                                   in (block # bs, cache')))))"

definition assemble :: "providers \<Rightarrow> registry \<Rightarrow> provider_cache \<Rightarrow> model_profile \<Rightarrow> string option \<Rightarrow> string list \<Rightarrow> (string, string) table \<Rightarrow>
    context_block list \<times> provider_cache" where
  "assemble pv r cache pr focus other doc_ids =
     gather pv r doc_ids (context_budget_tokens pr) focus (wanted_blocks pr focus other) 0 cache"

section \<open>The ledger\<close>

definition step_mark :: "step_status \<Rightarrow> string" where
  "step_mark s = (case s of Pending \<Rightarrow> ''[ ]'' | Active \<Rightarrow> ''[>]'' | Done \<Rightarrow> ''[x]'' | Failed \<Rightarrow> ''[!]'')"

definition render_step :: "nat \<times> step \<Rightarrow> string" where
  "render_step p = (case p of (i, s) \<Rightarrow>
     ''  '' @ show_nat (i + 1) @ ''. '' @ step_mark (st_status s) @ '' '' @ st_harness s @ '' '' @ em_dash @ '' '' @ st_intent s @ newline)"

definition render_artifact :: "artifact \<Rightarrow> string" where
  "render_artifact a =
     (let pin = (if art_commit a = [] then [] else '' @'' @ take_chars 7 (art_commit a))
      in ''  '' @ art_id a @ '' '' @ art_kind a @ '' from '' @ art_produced_by a @ pin @ '': '' @ art_summary a @ newline)"

definition render_lines :: "string \<Rightarrow> string list \<Rightarrow> string" where
  "render_lines heading ls = (if ls = [] then [] else heading @ newline @ concat (map (\<lambda>n. ''  - '' @ n @ newline) ls))"

definition render_ledger :: "task \<Rightarrow> nat \<Rightarrow> string" where
  "render_ledger t budget =
     (if t_plan t = [] \<and> t_artifacts t = [] \<and> t_notes t = [] \<and> t_citations t = [] then []
      else truncate_to_budget (trim_end
        (''[task '' @ t_id t @ '']'' @ newline
         @ (if t_plan t = [] then [] else ''plan:'' @ newline @ concat (map render_step (enumerate 0 (t_plan t))))
         @ (if t_artifacts t = [] then [] else ''artifacts:'' @ newline @ concat (map render_artifact (t_artifacts t)))
         @ render_lines ''notes:'' (t_notes t)
         @ render_lines ''citations:'' (t_citations t))) budget)"

definition artifact_number :: "artifact \<Rightarrow> nat option" where
  "artifact_number a = Option.bind (strip_prefix ''art_'' (art_id a)) parse_u32"

definition next_artifact_id :: "task \<Rightarrow> string" where
  "next_artifact_id t =
     (let m = (case list_max (List.map_filter artifact_number (t_artifacts t)) of Some m \<Rightarrow> m | None \<Rightarrow> 0)
      in ''art_'' @ show_nat ((m + 1) mod 2 ^ 32))"

definition who_accepts :: "registry \<Rightarrow> string \<Rightarrow> string list" where
  "who_accepts r kind = map in_id
     (filter (\<lambda>h. in_enabled h \<and> kind \<in> set (ct_accepts (mf_contributes (in_manifest h)))) (reg_iter r))"

section \<open>The cache is transparent\<close>

text \<open>The same blocks with no cache at all.\<close>

fun plain_blocks :: "providers \<Rightarrow> registry \<Rightarrow> (string, string) table \<Rightarrow> nat \<Rightarrow> string option \<Rightarrow> (string \<times> nat) list \<Rightarrow> nat \<Rightarrow> context_block list" where
  "plain_blocks pv r doc_ids cap focus [] spent = []"
| "plain_blocks pv r doc_ids cap focus ((i, b) # ws) spent =
     (if cap \<le> spent then []
      else case provider_doc r doc_ids i of
          None \<Rightarrow> plain_blocks pv r doc_ids cap focus ws spent
        | Some (h, doc_id) \<Rightarrow> (case fresh_block pv h i (min b (cap - spent)) (Some i = focus) (pv_docs pv doc_id) of
              None \<Rightarrow> plain_blocks pv r doc_ids cap focus ws spent
            | Some block \<Rightarrow> block # plain_blocks pv r doc_ids cap focus ws (spent + cb_tokens block)))"

text \<open>An entry is what the provider answered for a document of its hash, asked as focused exactly at the focused budget.\<close>

definition cache_ok :: "providers \<Rightarrow> json set \<Rightarrow> nat \<Rightarrow> provider_cache \<Rightarrow> bool" where
  "cache_ok pv D F cache \<longleftrightarrow> (\<forall>i k b block. t_get (pc_entries cache) (i, k, b) = Some block \<longrightarrow>
     (\<exists>doc \<in> D. \<exists>h. in_loaded h \<and> doc_hash pv doc = k \<and> fresh_block pv h i b (b = F) doc = Some block))"

lemma cache_ok_empty [simp]: "cache_ok pv D F empty_cache"
  by (simp add: cache_ok_def empty_cache_def)

lemma cache_ok_counts [simp]:
  "cache_ok pv D F (cache\<lparr>pc_hits := n\<rparr>) = cache_ok pv D F cache" "cache_ok pv D F (cache\<lparr>pc_misses := n\<rparr>) = cache_ok pv D F cache"
  by (simp_all add: cache_ok_def)

lemma cache_ok_put:
  assumes "cache_ok pv D F cache" and "in_loaded h" and "doc \<in> D" and "fresh_block pv h i b (b = F) doc = Some block"
  shows "cache_ok pv D F (cache\<lparr>pc_entries := h_put (i, doc_hash pv doc, b) block (pc_entries cache)\<rparr>)"
  using assms by (auto simp: cache_ok_def h_get_put)

lemma fresh_block_loaded: "in_loaded h \<Longrightarrow> in_loaded h' \<Longrightarrow> fresh_block pv h i b f doc = fresh_block pv h' i b f doc"
  by (simp add: fresh_block_def ask_provider_def)

lemma cache_ok_get:
  assumes "cache_ok pv D F cache" and "inj_on (doc_hash pv) D" and "in_loaded h" and "doc \<in> D"
    and "t_get (pc_entries cache) (i, doc_hash pv doc, b) = Some block"
  shows "fresh_block pv h i b (b = F) doc = Some block"
proof -
  obtain doc' h' where "in_loaded h'" "doc' \<in> D" "doc_hash pv doc' = doc_hash pv doc" "fresh_block pv h' i b (b = F) doc' = Some block"
    using assms(1,5) unfolding cache_ok_def by blast
  then show ?thesis using assms(2,3,4) fresh_block_loaded by (metis inj_onD)
qed

text \<open>The focused harness comes first and gets its whole budget; every other budget is smaller.\<close>

definition asked_apart :: "nat \<Rightarrow> nat \<Rightarrow> string option \<Rightarrow> (string \<times> nat) list \<Rightarrow> nat \<Rightarrow> bool" where
  "asked_apart F cap focus ws spent \<longleftrightarrow>
     (\<forall>w \<in> set ws. Some (fst w) \<noteq> focus \<and> snd w < F) \<or>
     (\<exists>f ws'. ws = (f, F) # ws' \<and> focus = Some f \<and> spent = 0 \<and> F \<le> cap \<and> (\<forall>w \<in> set ws'. Some (fst w) \<noteq> focus \<and> snd w < F))"

lemma asked_apart_Cons:
  assumes "asked_apart F cap focus ((i, b) # ws) spent"
  shows "(min b (cap - spent) = F) = (Some i = focus)" and "asked_apart F cap focus ws spent'"
  using assms by (auto simp: asked_apart_def)

lemma asked_apart_wanted:
  assumes "pinned_context_tokens pr < focused_context_tokens pr" and "focused_context_tokens pr \<le> context_budget_tokens pr"
  shows "asked_apart (focused_context_tokens pr) (context_budget_tokens pr) focus (wanted_blocks pr focus other) 0"
  using assms by (cases focus) (auto simp: asked_apart_def wanted_blocks_def)

lemma gather_plain:
  assumes "cache_ok pv D F cache" and inj: "inj_on (doc_hash pv) D" and D: "range (pv_docs pv) \<subseteq> D"
    and loaded: "\<And>i h d. provider_doc r doc_ids i = Some (h, d) \<Longrightarrow> in_loaded h" and apart: "asked_apart F cap focus ws spent"
  shows "fst (gather pv r doc_ids cap focus ws spent cache) = plain_blocks pv r doc_ids cap focus ws spent \<and>
    cache_ok pv D F (snd (gather pv r doc_ids cap focus ws spent cache))"
  using assms(1) apart
proof (induction ws arbitrary: spent cache)
  case (Cons w ws)
  obtain i b where w: "w = (i, b)" by fastforce
  let ?b = "min b (cap - spent)"
  note flag = asked_apart_Cons [OF Cons.prems(2) [unfolded w]]
  note IH = Cons.IH [OF _ flag(2)]
  consider "cap \<le> spent" | "spent < cap" "provider_doc r doc_ids i = None"
    | h d where "spent < cap" "provider_doc r doc_ids i = Some (h, d)"
    by (metis not_Some_eq not_le prod.exhaust)
  then show ?case
  proof cases
    case 1
    then show ?thesis using Cons.prems w by simp
  next
    case 2
    then show ?thesis using IH [OF Cons.prems(1)] w by (simp add: Let_def)
  next
    case (3 h d)
    note known = loaded [OF 3(2)]
    have doc: "pv_docs pv d \<in> D" using D by blast
    show ?thesis
    proof (cases "t_get (pc_entries cache) (i, doc_hash pv (pv_docs pv d), ?b)")
      case (Some block)
      have "fresh_block pv h i ?b (Some i = focus) (pv_docs pv d) = Some block"
        using cache_ok_get [OF Cons.prems(1) inj known doc Some] flag(1) by simp
      with IH [of "cache\<lparr>pc_hits := pc_hits cache + 1\<rparr>" "spent + cb_tokens block"] Cons.prems(1) 3 Some w show ?thesis
        by (simp add: Let_def case_prod_unfold)
    next
      case miss: None
      let ?cache = "cache\<lparr>pc_misses := pc_misses cache + 1\<rparr>"
      have ok: "cache_ok pv D F ?cache" using Cons.prems(1) by simp
      show ?thesis
      proof (cases "fresh_block pv h i ?b (Some i = focus) (pv_docs pv d)")
        case None
        with IH [OF ok, of spent] 3 miss w show ?thesis by (simp add: Let_def)
      next
        case (Some block)
        then have "fresh_block pv h i ?b (?b = F) (pv_docs pv d) = Some block" using flag(1) by simp
        from IH [OF cache_ok_put [OF ok known doc this], of "spent + cb_tokens block"] Some 3 miss w show ?thesis
          by (simp add: Let_def case_prod_unfold)
      qed
    qed
  qed
qed simp

section \<open>Properties\<close>

lemma fresh_block_tokens:
  "fresh_block pv h i b f doc = Some block \<Longrightarrow> cb_tokens block \<le> max b 21 \<and> cb_tokens block = estimate_tokens (cb_text block)"
  using truncate_bound marker_lengths by (auto simp: fresh_block_def Let_def case_prod_unfold split: if_splits)

lemma plain_blocks_bound:
  "sum_list (map cb_tokens (plain_blocks pv r doc_ids cap focus ws spent)) \<le> (if spent < cap then cap - spent + 20 else 0)"
proof (induction pv r doc_ids cap focus ws spent rule: plain_blocks.induct)
  case (2 pv r doc_ids cap focus i b ws spent)
  show ?case
  proof (cases "spent < cap \<and> provider_doc r doc_ids i \<noteq> None")
    case True
    then obtain h d where hd: "provider_doc r doc_ids i = Some (h, d)" by auto
    show ?thesis
    proof (cases "fresh_block pv h i (min b (cap - spent)) (Some i = focus) (pv_docs pv d)")
      case None
      with 2 True hd show ?thesis by auto
    next
      case (Some block)
      define rest where "rest = sum_list (map cb_tokens (plain_blocks pv r doc_ids cap focus ws (spent + cb_tokens block)))"
      have "rest \<le> (if spent + cb_tokens block < cap then cap - (spent + cb_tokens block) + 20 else 0)"
        unfolding rest_def using 2(3) [OF _ hd refl Some] True by simp
      moreover have "cb_tokens block \<le> max (cap - spent) 21" using fresh_block_tokens [OF Some] by auto
      ultimately have "cb_tokens block + rest \<le> cap - spent + 20" using True by (auto split: if_splits)
      with True hd Some show ?thesis by (simp add: rest_def)
    qed
  next
    case False
    with 2 show ?thesis by (auto split: option.splits)
  qed
qed simp

text \<open>The context blocks of a turn are the same with the provider cache as without it, and the cache stays right: as long as no
  two documents share a hash, the harnesses asked are online, and the focused budget is larger than the pinned one and within the
  total, as in every profile shipped.  The key of the cache leaves out whether the harness was focused; it is the budgets that keep the two
  answers apart.  Together the blocks take fewer than 21 tokens more than the total budget.\<close>

theorem context_cache_transparent:
  assumes "cache_ok pv D (focused_context_tokens pr) cache" and "inj_on (doc_hash pv) D" and "range (pv_docs pv) \<subseteq> D"
    and "\<And>i h d. provider_doc r doc_ids i = Some (h, d) \<Longrightarrow> in_loaded h"
    and "pinned_context_tokens pr < focused_context_tokens pr" and "focused_context_tokens pr \<le> context_budget_tokens pr"
  shows "fst (assemble pv r cache pr focus other doc_ids) = fst (assemble pv r empty_cache pr focus other doc_ids) \<and>
    fst (assemble pv r cache pr focus other doc_ids) =
      plain_blocks pv r doc_ids (context_budget_tokens pr) focus (wanted_blocks pr focus other) 0 \<and>
    cache_ok pv D (focused_context_tokens pr) (snd (assemble pv r cache pr focus other doc_ids)) \<and>
    sum_list (map cb_tokens (fst (assemble pv r cache pr focus other doc_ids))) \<le> context_budget_tokens pr + 20"
proof -
  let ?b = "plain_blocks pv r doc_ids (context_budget_tokens pr) focus (wanted_blocks pr focus other) 0"
  have plain: "fst (assemble pv r c pr focus other doc_ids) = ?b \<and>
      cache_ok pv D (focused_context_tokens pr) (snd (assemble pv r c pr focus other doc_ids))"
    if "cache_ok pv D (focused_context_tokens pr) c" for c
    unfolding assemble_def using that assms(2-4) asked_apart_wanted [OF assms(5,6)] by (rule gather_plain)
  have "sum_list (map cb_tokens ?b) \<le> context_budget_tokens pr + 20"
    using plain_blocks_bound [of pv r doc_ids "context_budget_tokens pr" focus "wanted_blocks pr focus other" 0]
    by (rule order_trans) simp
  then show ?thesis using plain [OF assms(1)] plain [OF cache_ok_empty] by simp
qed

definition example_providers :: providers where
  "example_providers = \<lparr>pv_docs = (\<lambda>_. JNull), pv_to_text = (\<lambda>_. ''null''), pv_hash = (\<lambda>s. s), pv_context = (\<lambda>_ _ _ _. Inr (''a board'', False))\<rparr>"

definition example_provider :: installed where
  "example_provider = \<lparr>in_manifest = example_manifest\<lparr>mf_contributes := default_contributes\<lparr>ct_context_provider := True\<rparr>\<rparr>,
     in_tools = [], in_dir = [], in_enabled = True, in_degraded = None, in_loaded = True, in_last_used = 0, in_idle_unload = 300, in_types = []\<rparr>"

theorem context_cache_transparent_witness:
  "let ask = (\<lambda>c. assemble example_providers [(''board'', example_provider)] c small_profile (Some ''board'') [] [(''board'', ''d'')])
   in fst (ask (snd (ask empty_cache))) = fst (ask empty_cache) \<and> fst (ask empty_cache) \<noteq> []"
proof -
  let ?r = "[(''board'', example_provider)]" and ?ids = "[(''board'', ''d'')]"
  have loaded: "in_loaded h" if "provider_doc ?r ?ids i = Some (h, d)" for i h d
    using that by (auto simp: provider_doc_def reg_get_def example_provider_def split: if_splits option.splits)
  have range: "inj_on (doc_hash example_providers) {JNull}" "range (pv_docs example_providers) \<subseteq> {JNull}"
    by (auto simp: example_providers_def)
  have budgets: "pinned_context_tokens small_profile < focused_context_tokens small_profile"
    "focused_context_tokens small_profile \<le> context_budget_tokens small_profile" by (simp_all add: small_profile_def)
  note transparent = context_cache_transparent [OF _ range loaded budgets, where focus = "Some ''board''" and other = "[]"]
  have "cache_ok example_providers {JNull} (focused_context_tokens small_profile)
      (snd (assemble example_providers ?r empty_cache small_profile (Some ''board'') [] ?ids))"
    using transparent [OF cache_ok_empty] by simp
  note again = transparent [OF this]
  have "trim ''a board'' \<noteq> []" by (rule trim_nonempty) (simp add: code_def)
  then have "fst (assemble example_providers ?r empty_cache small_profile (Some ''board'') [] ?ids) \<noteq> []"
    by (simp add: assemble_def wanted_blocks_def provider_doc_def reg_get_def example_provider_def example_providers_def Let_def
        empty_cache_def fresh_block_def ask_provider_def small_profile_def)
  with again show ?thesis unfolding Let_def by simp
qed

text \<open>A new artifact's id is in use by no artifact of the ledger, whatever ids the ledger holds, as long as the largest number is
  not the last of 32 bits.\<close>

theorem next_artifact_fresh:
  assumes "\<And>a n. a \<in> set (t_artifacts t) \<Longrightarrow> artifact_number a = Some n \<Longrightarrow> n + 1 < 2 ^ 32" and "a \<in> set (t_artifacts t)"
  shows "art_id a \<noteq> next_artifact_id t"
proof
  assume eq: "art_id a = next_artifact_id t"
  let ?ns = "List.map_filter artifact_number (t_artifacts t)"
  define m where "m = (case list_max ?ns of Some m \<Rightarrow> m | None \<Rightarrow> 0)"
  have numbers: "n \<in> set ?ns \<longleftrightarrow> (\<exists>a \<in> set (t_artifacts t). artifact_number a = Some n)" for n
    by (auto simp: List.map_filter_def image_iff)
  have small: "m + 1 < 2 ^ 32"
    using list_max_SomeD(1) [of ?ns] numbers assms(1) by (auto simp: m_def split: option.splits)
  have le: "n \<le> m" if "n \<in> set ?ns" for n
  proof (cases "list_max ?ns")
    case None
    then show ?thesis using that by simp
  next
    case (Some k)
    then show ?thesis using list_max_SomeD(2) [OF Some that] by (simp add: m_def)
  qed
  have "art_id a = ''art_'' @ show_nat (m + 1)"
    using eq small by (simp add: next_artifact_id_def m_def Let_def)
  then have "artifact_number a = Some (m + 1)"
    using parse_show_padded [of "m + 1" "2 ^ 32" 0] small by (simp add: artifact_number_def show_padded_def Let_def)
  then have "m + 1 \<in> set ?ns" using numbers assms(2) by blast
  from le [OF this] show False by simp
qed

theorem next_artifact_fresh_witness:
  "\<exists>t a. a \<in> set (t_artifacts t) \<and> art_id a = ''art_'' @ show_nat 7 \<and> art_id a \<noteq> next_artifact_id t"
proof -
  define a where "a = \<lparr>art_id = ''art_'' @ show_nat 7, art_kind = ''outline.v1'', art_doc = ''d'', art_commit = [], art_summary = [],
    art_produced_by = ''board'', art_fields = JNull, art_file = None\<rparr>"
  define t where "t = \<lparr>t_id = ''run_1'', t_goal = [], t_plan = [], t_artifacts = [a], t_notes = [], t_citations = []\<rparr>"
  have "artifact_number a = Some 7"
    using parse_show_padded [of 7 "2 ^ 32" 0] by (simp add: a_def artifact_number_def show_padded_def Let_def)
  then have "art_id a \<noteq> next_artifact_id t"
    by (intro next_artifact_fresh) (auto simp: t_def)
  moreover have "a \<in> set (t_artifacts t)" "art_id a = ''art_'' @ show_nat 7" by (simp_all add: t_def a_def)
  ultimately show ?thesis by blast
qed

end
