(* ===== verification/Docs.thy ===== *)
theory Docs
  imports Json Tables Database
begin

text \<open>
  The document store (\<open>crates/localspace-core/src/docs.rs\<close>).  A document is an Automerge document or a blob of bytes; a harness
  sees its JSON projection and hands back a new one, which is reconciled into the Automerge document field by field.

  Automerge is a library outside the repository.  Its operations are the fields of the record \<open>automerge\<close>, an argument
  of every definition that uses them: \<open>'d\<close> is its document and \<open>'o\<close> its object ids.  An operation of \<open>&mut self\<close>
  returns the document after it.  What the code relies on is stated in the theory \<open>Reconcile\<close>.

  The lemmas here: the count of \<open>diff_changes\<close> is empty exactly when nothing differs, and a file name offered by a surface
  never becomes a path.
\<close>

section \<open>Changes\<close>

record changes =
  ch_added :: nat
  ch_removed :: nat
  ch_changed :: nat

definition no_changes :: changes where
  "no_changes = \<lparr>ch_added = 0, ch_removed = 0, ch_changed = 0\<rparr>"

definition changes_is_empty :: "changes \<Rightarrow> bool" where
  "changes_is_empty c \<longleftrightarrow> ch_added c = 0 \<and> ch_removed c = 0 \<and> ch_changed c = 0"

definition changes_summary :: "changes \<Rightarrow> string" where
  "changes_summary c =
     (if changes_is_empty c then ''no change''
      else join '', ''
             ((if 0 < ch_added c then [''added '' @ show_nat (ch_added c)] else [])
              @ (if 0 < ch_changed c then [''changed '' @ show_nat (ch_changed c)] else [])
              @ (if 0 < ch_removed c then [''removed '' @ show_nat (ch_removed c)] else []))
           @ '' field(s)'')"

definition merge_changes :: "changes \<Rightarrow> changes \<Rightarrow> changes" where
  "merge_changes c d =
     \<lparr>ch_added = ch_added c + ch_added d, ch_removed = ch_removed c + ch_removed d, ch_changed = ch_changed c + ch_changed d\<rparr>"

definition one_added :: changes where
  "one_added = no_changes\<lparr>ch_added := 1\<rparr>"

definition one_removed :: changes where
  "one_removed = no_changes\<lparr>ch_removed := 1\<rparr>"

definition one_changed :: changes where
  "one_changed = no_changes\<lparr>ch_changed := 1\<rparr>"

section \<open>What differs between two projections\<close>

fun removed_keys :: "(string \<times> json) list \<Rightarrow> (string \<times> json) list \<Rightarrow> nat" where
  "removed_keys [] b = 0"
| "removed_keys ((k, _) # a) b = (if map_of b k = None then 1 else 0) + removed_keys a b"

definition diff_leaf :: "json \<Rightarrow> json \<Rightarrow> changes \<Rightarrow> changes" where
  "diff_leaf a b ch = (if a \<noteq> b then ch\<lparr>ch_changed := ch_changed ch + 1\<rparr> else ch)"

function (sequential) diff_into :: "json \<Rightarrow> json \<Rightarrow> changes \<Rightarrow> changes"
and diff_fields :: "(string \<times> json) list \<Rightarrow> (string \<times> json) list \<Rightarrow> changes \<Rightarrow> changes"
and diff_items :: "json list \<Rightarrow> json list \<Rightarrow> changes \<Rightarrow> changes" where
  "diff_into before after ch =
     (case before of
        JObj a \<Rightarrow>
          (case after of
             JObj b \<Rightarrow> let ch = diff_fields a b ch in ch\<lparr>ch_removed := ch_removed ch + removed_keys a b\<rparr>
           | _ \<Rightarrow> diff_leaf before after ch)
      | JArr a \<Rightarrow>
          (case after of
             JArr b \<Rightarrow>
               let ch = diff_items a b ch
               in ch\<lparr>ch_added := ch_added ch + (length b - length a), ch_removed := ch_removed ch + (length a - length b)\<rparr>
           | _ \<Rightarrow> diff_leaf before after ch)
      | _ \<Rightarrow> diff_leaf before after ch)"
| "diff_fields a [] ch = ch"
| "diff_fields a ((k, v) # b) ch =
     diff_fields a b (case map_of a k of None \<Rightarrow> ch\<lparr>ch_added := ch_added ch + 1\<rparr> | Some prev \<Rightarrow> diff_into prev v ch)"
| "diff_items (x # a) (y # b) ch = diff_items a b (diff_into x y ch)"
| "diff_items _ _ ch = ch"
  by pat_completeness auto
termination
  by (relation "measure (case_sum (\<lambda>(a, b, ch). size b)
        (case_sum (\<lambda>(a, b, ch). size_list (\<lambda>b. Suc (size (snd b))) b) (\<lambda>(a, b, ch). size_list size b)))") (auto simp: size_prod_simp)

declare diff_into.simps [simp del]

definition diff_changes :: "json \<Rightarrow> json \<Rightarrow> changes" where
  "diff_changes before after = diff_into before after no_changes"

section \<open>Automerge\<close>

text \<open>A float that is not a number or infinite is \<open>SF64 None\<close>; JSON has no such number.\<close>

datatype scalar = SNull | SBoolean bool | SStr string | SInt int | SUint nat | SCounter int | STimestamp int
  | SF64 "rat option" | SBytes string | SUnknown

datatype obj_type = OMap | OList

datatype am_prop = PMap string | PSeq nat

datatype 'o am_value = VMap 'o | VList 'o | VOther 'o | VScalar scalar

record ('d, 'o) automerge =
  am_new :: 'd
  am_root :: 'o
  am_keys :: "'d \<Rightarrow> 'o \<Rightarrow> string list"
  am_length :: "'d \<Rightarrow> 'o \<Rightarrow> nat"
  am_get :: "'d \<Rightarrow> 'o \<Rightarrow> am_prop \<Rightarrow> (string, 'o am_value option) result"
  am_delete :: "'o \<Rightarrow> am_prop \<Rightarrow> 'd \<Rightarrow> (string, unit) result \<times> 'd"
  am_put :: "'o \<Rightarrow> am_prop \<Rightarrow> scalar \<Rightarrow> 'd \<Rightarrow> (string, unit) result \<times> 'd"
  am_put_object :: "'o \<Rightarrow> am_prop \<Rightarrow> obj_type \<Rightarrow> 'd \<Rightarrow> (string, 'o) result \<times> 'd"
  am_insert :: "'o \<Rightarrow> nat \<Rightarrow> scalar \<Rightarrow> 'd \<Rightarrow> (string, unit) result \<times> 'd"
  am_insert_object :: "'o \<Rightarrow> nat \<Rightarrow> obj_type \<Rightarrow> 'd \<Rightarrow> (string, 'o) result \<times> 'd"
  am_save :: "'d \<Rightarrow> string \<times> 'd"
  am_load :: "string \<Rightarrow> (string, 'd) result"
  am_get_heads :: "'d \<Rightarrow> string list \<times> 'd"
  am_json :: "'d \<Rightarrow> (string, json) result"

section \<open>Reconciliation\<close>

fun scalar_to_json :: "scalar \<Rightarrow> json" where
  "scalar_to_json SNull = JNull"
| "scalar_to_json (SBoolean b) = JBool b"
| "scalar_to_json (SStr s) = JStr s"
| "scalar_to_json (SInt i) = JNum (if 0 \<le> i then PosInt (nat i) else NegInt i)"
| "scalar_to_json (SUint u) = JNum (PosInt u)"
| "scalar_to_json (SCounter c) = JNum (if 0 \<le> c then PosInt (nat c) else NegInt c)"
| "scalar_to_json (STimestamp t) = JNum (if 0 \<le> t then PosInt (nat t) else NegInt t)"
| "scalar_to_json (SF64 f) = (case f of Some r \<Rightarrow> JNum (Float r) | None \<Rightarrow> JNull)"
| "scalar_to_json (SBytes b) = JStr (''bytes:'' @ show_nat (length b))"
| "scalar_to_json SUnknown = JNull"

text \<open>\<open>as_i64\<close>, then \<open>as_u64\<close>, then \<open>as_f64\<close>.\<close>

fun number_scalar :: "number \<Rightarrow> scalar" where
  "number_scalar (PosInt n) = (if n < 2 ^ 63 then SInt (int n) else SUint n)"
| "number_scalar (NegInt i) = SInt i"
| "number_scalar (Float r) = SF64 (Some r)"

datatype 'o current = CAbsent | CMap 'o | CList 'o | CScalar json | COther

fun current_value :: "'o am_value option \<Rightarrow> 'o current" where
  "current_value None = CAbsent"
| "current_value (Some (VMap i)) = CMap i"
| "current_value (Some (VList i)) = CList i"
| "current_value (Some (VOther _)) = COther"
| "current_value (Some (VScalar s)) = CScalar (scalar_to_json s)"

definition current_of :: "('d, 'o) automerge \<Rightarrow> 'd \<Rightarrow> 'o \<Rightarrow> am_prop \<Rightarrow> (string, 'o current) result" where
  "current_of am d obj p = bind_result (am_get am d obj p) (\<lambda>v. Inr (current_value v))"

text \<open>An operation on the document and then another, unless the first failed; an operation of which only its success counts.\<close>

definition and_then :: "('e, 'a) result \<times> 'd \<Rightarrow> ('a \<Rightarrow> 'd \<Rightarrow> ('e, 'b) result \<times> 'd) \<Rightarrow> ('e, 'b) result \<times> 'd" where
  "and_then r f = (case fst r of Inl e \<Rightarrow> (Inl e, snd r) | Inr a \<Rightarrow> f a (snd r))"

definition counted :: "'b \<Rightarrow> ('e, 'a) result \<times> 'd \<Rightarrow> ('e, 'b) result \<times> 'd" where
  "counted c r = and_then r (\<lambda>_ d. (Inr c, d))"

lemma and_then_cong [fundef_cong]:
  "r = r' \<Longrightarrow> (\<And>a d. r' = (Inr a, d) \<Longrightarrow> f a d = g a d) \<Longrightarrow> and_then r f = and_then r' g"
  by (cases r') (auto simp: and_then_def split: sum.split)

lemma and_then_simps [simp]:
  "and_then (Inl e, d) f = (Inl e, d)"
  "and_then (Inr a, d) f = f a d"
  by (simp_all add: and_then_def)

lemma counted_Inr [simp]: "counted c (Inr a, d) = (Inr c, d)"
  by (simp add: counted_def)

fun delete_keys :: "('d, 'o) automerge \<Rightarrow> 'o \<Rightarrow> (string \<times> json) list \<Rightarrow> string list \<Rightarrow> changes \<Rightarrow> 'd \<Rightarrow>
    (string, changes) result \<times> 'd" where
  "delete_keys am obj new [] ch d = (Inr ch, d)"
| "delete_keys am obj new (k # ks) ch d =
     (if map_of new k \<noteq> None then delete_keys am obj new ks ch d
      else and_then (am_delete am obj (PMap k) d)
             (\<lambda>_. delete_keys am obj new ks (ch\<lparr>ch_removed := ch_removed ch + 1\<rparr>)))"

fun trim_list :: "('d, 'o) automerge \<Rightarrow> 'o \<Rightarrow> nat \<Rightarrow> nat \<Rightarrow> changes \<Rightarrow> 'd \<Rightarrow> (string, changes \<times> nat) result \<times> 'd" where
  "trim_list am obj n len ch d =
     (if n < len
      then and_then (am_delete am obj (PSeq (len - 1)) d)
             (\<lambda>_. trim_list am obj n (len - 1) (ch\<lparr>ch_removed := ch_removed ch + 1\<rparr>))
      else (Inr (ch, len), d))"

declare trim_list.simps [simp del]

function reconcile_map :: "('d, 'o) automerge \<Rightarrow> 'o \<Rightarrow> (string \<times> json) list \<Rightarrow> 'd \<Rightarrow> (string, changes) result \<times> 'd"
and reconcile_entries :: "('d, 'o) automerge \<Rightarrow> 'o \<Rightarrow> (string \<times> json) list \<Rightarrow> changes \<Rightarrow> 'd \<Rightarrow> (string, changes) result \<times> 'd"
and reconcile_list :: "('d, 'o) automerge \<Rightarrow> 'o \<Rightarrow> json list \<Rightarrow> 'd \<Rightarrow> (string, changes) result \<times> 'd"
and reconcile_items :: "('d, 'o) automerge \<Rightarrow> 'o \<Rightarrow> nat \<Rightarrow> nat \<Rightarrow> json list \<Rightarrow> changes \<Rightarrow> 'd \<Rightarrow> (string, changes) result \<times> 'd"
and reconcile_prop :: "('d, 'o) automerge \<Rightarrow> 'o \<Rightarrow> am_prop \<Rightarrow> 'o current \<Rightarrow> json \<Rightarrow> 'd \<Rightarrow> (string, changes) result \<times> 'd"
and put_json :: "('d, 'o) automerge \<Rightarrow> 'o \<Rightarrow> am_prop \<Rightarrow> json \<Rightarrow> 'd \<Rightarrow> (string, unit) result \<times> 'd"
and insert_json :: "('d, 'o) automerge \<Rightarrow> 'o \<Rightarrow> nat \<Rightarrow> json \<Rightarrow> 'd \<Rightarrow> (string, unit) result \<times> 'd"
and insert_items :: "('d, 'o) automerge \<Rightarrow> 'o \<Rightarrow> nat \<Rightarrow> json list \<Rightarrow> 'd \<Rightarrow> (string, unit) result \<times> 'd"
where
  "reconcile_map am obj new d =
     and_then (delete_keys am obj new (am_keys am d obj) no_changes d) (\<lambda>ch. reconcile_entries am obj new ch)"
| "reconcile_entries am obj [] ch d = (Inr ch, d)"
| "reconcile_entries am obj (b # kvs) ch d =
     and_then (current_of am d obj (PMap (fst b)), d) (\<lambda>cur d.
     and_then (reconcile_prop am obj (PMap (fst b)) cur (snd b) d) (\<lambda>ch' d.
     reconcile_entries am obj kvs (merge_changes ch ch') d))"
| "reconcile_list am obj new d =
     and_then (trim_list am obj (length new) (am_length am d obj) no_changes d) (\<lambda>cl d.
     reconcile_items am obj (snd cl) 0 new (fst cl) d)"
| "reconcile_items am obj len i [] ch d = (Inr ch, d)"
| "reconcile_items am obj len i (v # vs) ch d =
     (if i < len
      then and_then (current_of am d obj (PSeq i), d) (\<lambda>cur d.
           and_then (reconcile_prop am obj (PSeq i) cur v d) (\<lambda>ch' d.
           reconcile_items am obj len (i + 1) vs (merge_changes ch ch') d))
      else and_then (insert_json am obj i v d) (\<lambda>_ d.
           reconcile_items am obj len (i + 1) vs (ch\<lparr>ch_added := ch_added ch + 1\<rparr>) d))"
| "reconcile_prop am obj p cur new d =
     (case cur of
        CMap i \<Rightarrow> (case new of JObj m \<Rightarrow> reconcile_map am i m d | _ \<Rightarrow> counted one_changed (put_json am obj p new d))
      | CList i \<Rightarrow> (case new of JArr a \<Rightarrow> reconcile_list am i a d | _ \<Rightarrow> counted one_changed (put_json am obj p new d))
      | CScalar ex \<Rightarrow>
          if \<not> is_object new \<and> \<not> is_array new \<and> ex = new then (Inr no_changes, d)
          else counted one_changed (put_json am obj p new d)
      | CAbsent \<Rightarrow> counted one_added (put_json am obj p new d)
      | COther \<Rightarrow> counted one_changed (put_json am obj p new d))"
| "put_json am obj p value d =
     (case value of
        JObj m \<Rightarrow> and_then (am_put_object am obj p OMap d) (\<lambda>i d. counted () (reconcile_map am i m d))
      | JArr a \<Rightarrow> and_then (am_put_object am obj p OList d) (\<lambda>i d. insert_items am i 0 a d)
      | JNull \<Rightarrow> am_put am obj p SNull d
      | JBool b \<Rightarrow> am_put am obj p (SBoolean b) d
      | JStr s \<Rightarrow> am_put am obj p (SStr s) d
      | JNum n \<Rightarrow> am_put am obj p (number_scalar n) d)"
| "insert_json am obj i value d =
     (case value of
        JObj m \<Rightarrow> and_then (am_insert_object am obj i OMap d) (\<lambda>j d. counted () (reconcile_map am j m d))
      | JArr a \<Rightarrow> and_then (am_insert_object am obj i OList d) (\<lambda>j d. insert_items am j 0 a d)
      | JNull \<Rightarrow> am_insert am obj i SNull d
      | JBool b \<Rightarrow> am_insert am obj i (SBoolean b) d
      | JStr s \<Rightarrow> am_insert am obj i (SStr s) d
      | JNum n \<Rightarrow> am_insert am obj i (number_scalar n) d)"
| "insert_items am obj i [] d = (Inr (), d)"
| "insert_items am obj i (v # vs) d =
     and_then (insert_json am obj i v d) (\<lambda>_ d. insert_items am obj (i + 1) vs d)"
  by pat_completeness auto
termination
proof (relation "measure (case_sum
    (case_sum
      (case_sum (\<lambda>(am, obj, kvs, d). 3 * size_list (\<lambda>b. Suc (size (snd b))) kvs + 1)
                (\<lambda>(am, obj, kvs, ch, d). 3 * size_list (\<lambda>b. Suc (size (snd b))) kvs))
      (case_sum (\<lambda>(am, obj, xs, d). 3 * size_list size xs + 1)
                (\<lambda>(am, obj, len, i, xs, ch, d). 3 * size_list size xs)))
    (case_sum
      (case_sum (\<lambda>(am, obj, p, cur, new, d). 3 * size new + 2) (\<lambda>(am, obj, p, value, d). 3 * size value + 1))
      (case_sum (\<lambda>(am, obj, i, value, d). 3 * size value + 1) (\<lambda>(am, obj, i, xs, d). 3 * size_list size xs))))",
    goal_cases)
qed (auto simp: size_prod_simp)

section \<open>The store\<close>

datatype 'd doc = DCrdt 'd | DBlob string

record 'd doc_store =
  ds_docs :: "(string, 'd doc) table"
  ds_kinds :: "(string, doc_kind) table"

datatype doc_error = UnknownDocument string | RootNotObject | CrdtError string | NotABlob string | BadSnapshot string | BadRestore string

definition ds_new :: "'d doc_store" where
  "ds_new = \<lparr>ds_docs = [], ds_kinds = []\<rparr>"

definition ds_put :: "string \<Rightarrow> 'd doc \<Rightarrow> 'd doc_store \<Rightarrow> 'd doc_store" where
  "ds_put i doc st = st\<lparr>ds_docs := h_put i doc (ds_docs st)\<rparr>"

definition ds_put_as :: "doc_kind \<Rightarrow> string \<Rightarrow> 'd doc \<Rightarrow> 'd doc_store \<Rightarrow> 'd doc_store" where
  "ds_put_as kind i doc st = (ds_put i doc st)\<lparr>ds_kinds := h_put i kind (ds_kinds st)\<rparr>"

definition ds_ensure :: "('d, 'o) automerge \<Rightarrow> string \<Rightarrow> doc_kind \<Rightarrow> 'd doc_store \<Rightarrow> 'd doc_store" where
  "ds_ensure am i kind st =
     (if t_get (ds_docs st) i = None
      then ds_put_as kind i (case kind of Crdt \<Rightarrow> DCrdt (am_new am) | Blob \<Rightarrow> DBlob []) st
      else st)"

definition ds_kind :: "'d doc_store \<Rightarrow> string \<Rightarrow> doc_kind option" where
  "ds_kind st i = t_get (ds_kinds st) i"

definition ds_exists :: "'d doc_store \<Rightarrow> string \<Rightarrow> bool" where
  "ds_exists st i \<longleftrightarrow> t_get (ds_docs st) i \<noteq> None"

definition blob_json :: "(string \<Rightarrow> string) \<Rightarrow> string \<Rightarrow> json" where
  "blob_json hash b = JObj [(''blob'', JBool True), (''bytes'', JNum (PosInt (length b))), (''hash'', JStr (hash b))]"

definition crdt_json :: "('d, 'o) automerge \<Rightarrow> 'd \<Rightarrow> json" where
  "crdt_json am d = (case am_json am d of Inr j \<Rightarrow> j | Inl _ \<Rightarrow> JNull)"

definition ds_json :: "('d, 'o) automerge \<Rightarrow> (string \<Rightarrow> string) \<Rightarrow> 'd doc_store \<Rightarrow> string \<Rightarrow> json" where
  "ds_json am hash st i =
     (case t_get (ds_docs st) i of
        Some (DCrdt d) \<Rightarrow> crdt_json am d
      | Some (DBlob b) \<Rightarrow> blob_json hash b
      | None \<Rightarrow> JNull)"

definition blob_changes :: "bool \<Rightarrow> changes" where
  "blob_changes changed = (if changed then one_changed else no_changes)"

definition apply_json :: "('d, 'o) automerge \<Rightarrow> (json \<Rightarrow> string) \<Rightarrow> string \<Rightarrow> json \<Rightarrow> 'd doc_store \<Rightarrow>
    (doc_error, changes) result \<times> 'd doc_store" where
  "apply_json am to_text i new st =
     (case t_get (ds_docs st) i of
        None \<Rightarrow> (Inl (UnknownDocument i), st)
      | Some (DCrdt d) \<Rightarrow>
          (case as_object new of
             None \<Rightarrow> (Inl RootNotObject, st)
           | Some obj \<Rightarrow>
               (let (r, d') = reconcile_map am (am_root am) obj d
                in (case r of Inl e \<Rightarrow> Inl (CrdtError e) | Inr ch \<Rightarrow> Inr ch, ds_put i (DCrdt d') st)))
      | Some (DBlob b) \<Rightarrow> (Inr (blob_changes (b \<noteq> to_text new)), ds_put i (DBlob (to_text new)) st))"

definition ds_put_blob :: "string \<Rightarrow> string \<Rightarrow> 'd doc_store \<Rightarrow> (doc_error, changes) result \<times> 'd doc_store" where
  "ds_put_blob i bytes st =
     (case t_get (ds_docs st) i of
        Some (DBlob b) \<Rightarrow> (Inr (blob_changes (b \<noteq> bytes)), ds_put i (DBlob bytes) st)
      | _ \<Rightarrow> (Inl (NotABlob i), st))"

definition json_of_snapshot :: "('d, 'o) automerge \<Rightarrow> (string \<Rightarrow> string) \<Rightarrow> doc_kind \<Rightarrow> string \<Rightarrow> (doc_error, json) result" where
  "json_of_snapshot am hash kind bytes =
     (case kind of
        Crdt \<Rightarrow>
          if bytes = [] then Inr (JObj [])
          else (case am_load am bytes of Inl e \<Rightarrow> Inl (BadSnapshot e) | Inr d \<Rightarrow> Inr (crdt_json am d))
      | Blob \<Rightarrow> Inr (blob_json hash bytes))"

definition ds_snapshot :: "('d, 'o) automerge \<Rightarrow> string \<Rightarrow> 'd doc_store \<Rightarrow> string \<times> 'd doc_store" where
  "ds_snapshot am i st =
     (case t_get (ds_docs st) i of
        Some (DCrdt d) \<Rightarrow> (let (bytes, d') = am_save am d in (bytes, ds_put i (DCrdt d') st))
      | Some (DBlob b) \<Rightarrow> (b, st)
      | None \<Rightarrow> ([], st))"

text \<open>Whether the document has no changes yet, as \<open>restore\<close> asks; \<open>get_heads\<close> closes the open transaction.\<close>

definition untouched :: "('d, 'o) automerge \<Rightarrow> string \<Rightarrow> 'd doc_store \<Rightarrow> bool \<times> 'd doc_store" where
  "untouched am i st =
     (case t_get (ds_docs st) i of
        None \<Rightarrow> (True, st)
      | Some (DCrdt d) \<Rightarrow> (let (heads, d') = am_get_heads am d in (heads = [], ds_put i (DCrdt d') st))
      | Some (DBlob _) \<Rightarrow> (False, st))"

definition ds_restore :: "('d, 'o) automerge \<Rightarrow> (json \<Rightarrow> string) \<Rightarrow> (string \<Rightarrow> string) \<Rightarrow> string \<Rightarrow> string option \<Rightarrow>
    'd doc_store \<Rightarrow> (doc_error, changes) result \<times> 'd doc_store" where
  "ds_restore am to_text hash i bytes st =
     (let kind = (case ds_kind st i of Some k \<Rightarrow> k | None \<Rightarrow> Crdt);
          (fresh, st) = untouched am i st;
          given = (case bytes of Some b \<Rightarrow> b | None \<Rightarrow> [])
      in case kind of
          Crdt \<Rightarrow>
            if fresh
            then (case (if given = [] then Inr (am_new am) else am_load am given) of
                Inl e \<Rightarrow> (Inl (BadRestore e), st)
              | Inr d \<Rightarrow> (Inr no_changes, ds_put_as Crdt i (DCrdt d) st))
            else (case (if given = [] then Inr (JObj []) else json_of_snapshot am hash Crdt given) of
                Inl e \<Rightarrow> (Inl e, st)
              | Inr target \<Rightarrow> apply_json am to_text i target st)
        | Blob \<Rightarrow>
            (Inr (blob_changes (t_get (ds_docs st) i \<noteq> Some (DBlob given))), ds_put_as Blob i (DBlob given) st))"

section \<open>File names\<close>

text \<open>The control characters of Unicode: C0, DEL and C1 (two bytes in UTF-8).\<close>

definition is_control :: "string \<Rightarrow> bool" where
  "is_control c \<longleftrightarrow>
     (case c of
        [b] \<Rightarrow> code b < 32 \<or> code b = 127
      | [b1, b2] \<Rightarrow> code b1 = 194 \<and> 128 \<le> code b2 \<and> code b2 < 160
      | _ \<Rightarrow> False)"

definition refused_in_name :: "string \<Rightarrow> bool" where
  "refused_in_name c \<longleftrightarrow>
     is_control c \<or> c \<in> set [[CHR 0x22], [CHR 0x27], ''<'', ''>'', '':'', ''|'', ''?'', ''*'']"

definition trim_dots :: "string \<Rightarrow> string" where
  "trim_dots s = rev (dropWhile (\<lambda>c. c = CHR ''.'') (rev (dropWhile (\<lambda>c. c = CHR ''.'') s)))"

definition trim_joiners :: "string \<Rightarrow> string" where
  "trim_joiners s = rev (dropWhile (\<lambda>c. c \<in> set ''-_.'') (rev s))"

definition last_component :: "string \<Rightarrow> string" where
  "last_component offered = last (split_on (\<lambda>c. c = CHR ''/'' \<or> c = CHR 0x5C) offered)"

definition offered_stem :: "string \<Rightarrow> string \<Rightarrow> string" where
  "offered_stem offered extension =
     (let stem = trim_dots (trim (concat (filter (\<lambda>c. \<not> refused_in_name c) (chars (last_component offered)))));
          stem = (if ends_with (to_ascii_lowercase extension) (to_ascii_lowercase stem)
                  then take (length stem - length extension) stem else stem)
      in trim_joiners (trim stem))"

definition file_name :: "string \<Rightarrow> string \<Rightarrow> string \<Rightarrow> string" where
  "file_name offered suffix extension =
     (let stem = offered_stem offered extension;
          stem = (if stem = [] then ''export'' else take_chars 100 stem)
      in if suffix = [] then stem @ extension else stem @ ''-'' @ suffix @ extension)"

section \<open>What the counts mean\<close>

text \<open>A \<open>serde_json\<close> object is a \<open>BTreeMap\<close>: its keys are in order, at every level; a number kept as negative is negative.\<close>

fun number_ok :: "number \<Rightarrow> bool" where
  "number_ok (NegInt i) \<longleftrightarrow> i < 0"
| "number_ok _ \<longleftrightarrow> True"

fun jwf :: "json \<Rightarrow> bool" where
  "jwf (JObj kvs) \<longleftrightarrow> ordered kvs \<and> list_all (\<lambda>b. jwf (snd b)) kvs"
| "jwf (JArr xs) \<longleftrightarrow> list_all jwf xs"
| "jwf (JNum n) \<longleftrightarrow> number_ok n"
| "jwf _ \<longleftrightarrow> True"

lemma ordered_keys_eq:
  assumes "ordered a" and "ordered b" and "set (keys a) = set (keys b)"
  shows "keys a = keys b"
  using assms by (simp add: ordered_def strict_sorted_equal)

lemma table_of_keys: "distinct (keys a) \<Longrightarrow> a = map (\<lambda>k. (k, the (map_of a k))) (keys a)"
  by (auto simp: keys_def comp_def intro!: map_idI [symmetric])

lemma ordered_eqI:
  assumes "ordered a" and "ordered b" and "map_of a = map_of b"
  shows "a = b"
proof -
  have "keys a = keys b"
    using ordered_keys_eq [OF assms(1,2)] assms(3) by (simp add: keys_def flip: dom_map_of_conv_image_fst)
  then show ?thesis
    using table_of_keys [of a] table_of_keys [of b] assms by (simp add: ordered_distinct)
qed

lemma removed_keys_0: "removed_keys a b = 0 \<longleftrightarrow> set (keys a) \<subseteq> dom (map_of b)"
  by (induction a) (auto simp: keys_def split: if_splits)

lemma same_bindings:
  assumes "ordered a" and "ordered b"
  shows "(\<forall>k v. (k, v) \<in> set b \<longrightarrow> map_of a k = Some v) \<and> removed_keys a b = 0 \<longleftrightarrow> a = b" (is "?l \<longleftrightarrow> ?r")
proof
  assume l: ?l
  have "map_of a k = map_of b k" for k
  proof (cases "map_of b k")
    case None
    then show ?thesis
      using l unfolding removed_keys_0 by (metis domIff keys_def map_of_eq_None_iff image_set subsetD)
  next
    case (Some v)
    then show ?thesis using l by (auto dest: map_of_SomeD)
  qed
  then show ?r using ordered_eqI [OF assms] by blast
next
  assume ?r
  then show ?l
    using items_map_of [OF ordered_distinct [OF assms(2)]]
    by (auto simp: removed_keys_0 keys_def dom_map_of_conv_image_fst)
qed

lemma changes_is_empty_upd [simp]:
  "changes_is_empty (ch\<lparr>ch_added := n\<rparr>) \<longleftrightarrow> n = 0 \<and> ch_removed ch = 0 \<and> ch_changed ch = 0"
  "changes_is_empty (ch\<lparr>ch_removed := n\<rparr>) \<longleftrightarrow> n = 0 \<and> ch_added ch = 0 \<and> ch_changed ch = 0"
  "changes_is_empty (ch\<lparr>ch_changed := n\<rparr>) \<longleftrightarrow> n = 0 \<and> ch_added ch = 0 \<and> ch_removed ch = 0"
  "changes_is_empty no_changes"
  by (auto simp: changes_is_empty_def no_changes_def)

lemma list_all_map_of: "list_all (\<lambda>b. P (snd b)) kvs \<Longrightarrow> map_of kvs k = Some v \<Longrightarrow> P v"
  by (force simp: list_all_iff dest: map_of_SomeD)

lemma diff_into_cases:
  obtains (obj) kas kbs where "a = JObj kas" "b = JObj kbs" | (arr) xs ys where "a = JArr xs" "b = JArr ys"
    | (leaf) "\<And>ch. diff_into a b ch = diff_leaf a b ch"
  by (cases a; cases b) (simp_all add: diff_into.simps)

lemma diff_empty:
  "jwf a \<Longrightarrow> jwf b \<Longrightarrow> changes_is_empty (diff_into a b ch) \<longleftrightarrow> changes_is_empty ch \<and> a = b"
  "list_all (\<lambda>b. jwf (snd b)) kas \<Longrightarrow> list_all (\<lambda>b. jwf (snd b)) kbs \<Longrightarrow>
     changes_is_empty (diff_fields kas kbs ch) \<longleftrightarrow> changes_is_empty ch \<and> (\<forall>k v. (k, v) \<in> set kbs \<longrightarrow> map_of kas k = Some v)"
  "list_all jwf xs \<Longrightarrow> list_all jwf ys \<Longrightarrow>
     changes_is_empty (diff_items xs ys ch) \<longleftrightarrow>
     changes_is_empty ch \<and> take (length ys) xs = take (length xs) ys"
proof (induction a b ch and kas kbs ch and xs ys ch rule: diff_into_diff_fields_diff_items.induct)
  case (1 a b ch)
  show ?case
  proof (cases rule: diff_into_cases [of a b])
    case (obj kas kbs)
    let ?ch = "diff_fields kas kbs ch"
    have "changes_is_empty (diff_into a b ch) \<longleftrightarrow> changes_is_empty ?ch \<and> removed_keys kas kbs = 0"
      by (auto simp: obj changes_is_empty_def diff_into.simps Let_def)
    then show ?thesis using 1 obj same_bindings [of kas kbs] by auto
  next
    case (arr xs ys)
    let ?ch = "diff_items xs ys ch"
    have "changes_is_empty (diff_into a b ch) \<longleftrightarrow> changes_is_empty ?ch \<and> length xs = length ys"
      by (auto simp: arr changes_is_empty_def diff_into.simps Let_def)
    then show ?thesis using 1 arr by auto
  next
    case leaf
    then show ?thesis by (auto simp: diff_leaf_def changes_is_empty_def)
  qed
next
  case (3 a k v b ch)
  show ?case
  proof (cases "map_of a k")
    case None
    then show ?thesis using 3 by auto
  next
    case (Some w)
    then show ?thesis using 3 list_all_map_of [OF 3(3) Some] by auto
  qed
qed auto

section \<open>A file name is one component\<close>

lemma split_on_free: "\<forall>w \<in> set (split_on p s). \<forall>c \<in> set w. \<not> p c"
  by (induction s) (auto split: list.splits)

lemma chars_set: "w \<in> set (chars s) \<Longrightarrow> set w \<subseteq> set s"
proof -
  assume "w \<in> set (chars s)"
  then have "set w \<subseteq> set (concat (chars s))" by (simp only: set_concat) (rule UN_upper)
  then show ?thesis by simp
qed

lemma pieces_set: "set ws \<subseteq> set (chars s) \<Longrightarrow> set (concat ws) \<subseteq> set s"
  using chars_set by (simp only: set_concat) blast

lemma trims_set: "set (trim_dots s) \<subseteq> set s" "set (trim_joiners s) \<subseteq> set s" "set (trim s) \<subseteq> set s"
proof -
  have dw: "set (rev (dropWhile p (rev xs))) \<subseteq> set xs" for p and xs :: "'a list"
    by (auto dest!: set_dropWhileD)
  have dw': "set (dropWhile p xs) \<subseteq> set xs" for p and xs :: "'a list"
    by (auto dest!: set_dropWhileD)
  show "set (trim_dots s) \<subseteq> set s" "set (trim_joiners s) \<subseteq> set s"
    unfolding trim_dots_def trim_joiners_def by (rule order_trans [OF dw dw']) (rule dw)
  show "set (trim s) \<subseteq> set s"
    unfolding trim_def by (rule pieces_set) (rule order_trans [OF dw dw'])
qed

lemma last_component_free: "c \<in> set (last_component s) \<Longrightarrow> c \<noteq> CHR ''/'' \<and> c \<noteq> CHR 0x5C"
  using split_on_free [of "\<lambda>c. c = CHR ''/'' \<or> c = CHR 0x5C" s] last_in_set [OF split_on_nonempty [of "\<lambda>c. c = CHR ''/'' \<or> c = CHR 0x5C" s]]
  unfolding last_component_def by blast

lemma offered_stem_set: "set (offered_stem offered ext) \<subseteq> set (last_component offered)"
proof -
  let ?kept = "concat (filter (\<lambda>c. \<not> refused_in_name c) (chars (last_component offered)))"
  have "set ?kept \<subseteq> set (last_component offered)"
    by (auto dest: subsetD [OF chars_set])
  then have "set (trim_dots (trim ?kept)) \<subseteq> set (last_component offered)"
    using trims_set by blast
  then have "set (take n (trim_dots (trim ?kept))) \<subseteq> set (last_component offered)" for n
    using set_take_subset by fast
  then show ?thesis
    using \<open>set (trim_dots (trim ?kept)) \<subseteq> _\<close> trims_set unfolding offered_stem_def Let_def by (smt (verit) order_trans)
qed

lemma trim_joiners_end: "trim_joiners s \<noteq> [] \<Longrightarrow> last (trim_joiners s) \<noteq> CHR ''.''"
  using hd_dropWhile [of "\<lambda>c. c \<in> set ''-_.''" "rev s"] by (auto simp: trim_joiners_def last_rev)

lemma offered_stem_end: "offered_stem offered ext \<noteq> [] \<Longrightarrow> last (offered_stem offered ext) \<noteq> CHR ''.''"
  by (simp add: offered_stem_def Let_def trim_joiners_end)

lemma take_chars_set: "set (take_chars n s) \<subseteq> set s"
  by (auto simp: take_chars_def dest!: in_set_takeD dest: subsetD [OF chars_set])

lemma chars_pieces: "[] \<notin> set (chars s)"
  by (induction s rule: chars.induct) auto

lemma length_concat_pieces: "[] \<notin> set ws \<Longrightarrow> length ws \<le> length (concat ws)"
proof (induction ws)
  case (Cons w ws)
  then show ?case by (cases w) auto
qed simp

lemma take_chars_short: "length (take_chars n s) < n \<Longrightarrow> take_chars n s = s"
proof (cases "n \<le> length (chars s)")
  case True
  have "n = length (take n (chars s))" using True by simp
  also have "\<dots> \<le> length (concat (take n (chars s)))"
    by (rule length_concat_pieces) (meson chars_pieces in_set_takeD)
  finally show "length (take_chars n s) < n \<Longrightarrow> take_chars n s = s" by (simp add: take_chars_def)
qed (simp add: take_chars_def)

text \<open>
  The name under which a file document is offered is one component of a path, whatever the surface offered: with a
  suffix and an extension free of separators, it holds neither a slash nor a backslash, and it is neither empty nor one
  of the two names that mean a directory.
\<close>

theorem file_name_is_one_component:
  assumes "set suffix \<inter> {CHR ''/'', CHR 0x5C} = {}" and "set ext \<inter> {CHR ''/'', CHR 0x5C} = {}"
  shows "set (file_name offered suffix ext) \<inter> {CHR ''/'', CHR 0x5C} = {} \<and> file_name offered suffix ext \<notin> {[], ''.'', ''..''}"
proof -
  let ?s = "offered_stem offered ext"
  define stem where "stem = (if ?s = [] then ''export'' else take_chars 100 ?s)"
  have name: "file_name offered suffix ext = (if suffix = [] then stem @ ext else stem @ ''-'' @ suffix @ ext)"
    by (simp add: file_name_def stem_def Let_def)
  have "set stem \<inter> {CHR ''/'', CHR 0x5C} = {}"
    using take_chars_set [of 100 ?s] offered_stem_set [of offered ext] last_component_free [of _ offered]
    by (auto simp: stem_def)
  moreover have "stem \<noteq> [] \<and> (length stem < 100 \<longrightarrow> last stem \<noteq> CHR ''.'')"
    using take_chars_short [of 100 ?s] offered_stem_end [of offered ext] by (auto simp: stem_def)
  then have "stem \<notin> {[], ''.'', ''..''}" by auto
  moreover have "stem @ w = v \<Longrightarrow> v \<in> {[], ''.'', ''..''} \<Longrightarrow> False" for v w
    using \<open>stem \<noteq> [] \<and> _\<close> by (cases stem) (auto simp: Cons_eq_append_conv append_eq_Cons_conv)
  ultimately show ?thesis using assms by (auto simp: name)
qed

theorem file_name_is_one_component_witness:
  "set (file_name ''a/..'' ''c1'' ''.png'') \<inter> {CHR ''/'', CHR 0x5C} = {} \<and> file_name ''a/..'' ''c1'' ''.png'' \<noteq> []"
  using file_name_is_one_component [of "''c1''" "''.png''" "''a/..''"] by simp

end
