(* ===== verification/Reconcile.thy ===== *)
theory Reconcile
  imports Docs
begin

text \<open>
  What reconciliation does to an Automerge document, from what Automerge's documentation promises of its operations.

  \<open>view d\<close> is the document as a heap: the object an id names, a map with its keys in order or a list.  \<open>automerge_ok\<close> collects the
  laws: reading an object, what \<open>put\<close>, \<open>insert\<close> and \<open>delete\<close> change and that they change nothing else, that a new object has a
  fresh id, that the JSON projection is that of the tree at the root, and that a saved document can be loaded.

  \<open>rep h v j F\<close> says that the value \<open>v\<close> stands for the JSON value \<open>j\<close> and that \<open>F\<close> are the objects below it, each used once.
  The lemmas follow the recursion of the code with such footprints: every operation changes only the objects of its own
  subtree and new ones.  The result is that reconciling a JSON object leaves a document that reads as that object, and that it counts what
  \<open>diff_changes\<close> counts.
\<close>

section \<open>The document as a heap\<close>

datatype 'o node = MapNode "(string, 'o am_value) table" | ListNode "'o am_value list"

type_synonym 'o heap = "'o \<Rightarrow> 'o node option"

fun node_takes :: "'o node \<Rightarrow> am_prop \<Rightarrow> bool" where
  "node_takes (MapNode t) (PMap k) \<longleftrightarrow> True"
| "node_takes (ListNode xs) (PSeq i) \<longleftrightarrow> i < length xs"
| "node_takes _ _ \<longleftrightarrow> False"

fun node_get :: "'o node \<Rightarrow> am_prop \<Rightarrow> 'o am_value option" where
  "node_get (MapNode t) (PMap k) = t_get t k"
| "node_get (ListNode xs) (PSeq i) = (if i < length xs then Some (xs ! i) else None)"
| "node_get _ _ = None"

fun node_put :: "'o node \<Rightarrow> am_prop \<Rightarrow> 'o am_value \<Rightarrow> 'o node" where
  "node_put (MapNode t) (PMap k) v = MapNode (t_put k v t)"
| "node_put (ListNode xs) (PSeq i) v = ListNode (xs[i := v])"
| "node_put nd _ _ = nd"

fun node_delete :: "'o node \<Rightarrow> am_prop \<Rightarrow> 'o node" where
  "node_delete (MapNode t) (PMap k) = MapNode (t_del k t)"
| "node_delete (ListNode xs) (PSeq i) = ListNode (take i xs @ drop (Suc i) xs)"
| "node_delete nd _ = nd"

fun empty_node :: "obj_type \<Rightarrow> 'o node" where
  "empty_node OMap = MapNode []"
| "empty_node OList = ListNode []"

fun object_value :: "obj_type \<Rightarrow> 'o \<Rightarrow> 'o am_value" where
  "object_value OMap i = VMap i"
| "object_value OList i = VList i"

text \<open>The scalars Core writes, which the projection and \<open>scalar_to_json\<close> render alike.\<close>

fun plain_scalar :: "scalar \<Rightarrow> bool" where
  "plain_scalar (SBytes _) \<longleftrightarrow> False"
| "plain_scalar SUnknown \<longleftrightarrow> False"
| "plain_scalar (SF64 None) \<longleftrightarrow> False"
| "plain_scalar (SCounter _) \<longleftrightarrow> False"
| "plain_scalar (STimestamp _) \<longleftrightarrow> False"
| "plain_scalar _ \<longleftrightarrow> True"

inductive rep :: "'o heap \<Rightarrow> 'o am_value \<Rightarrow> json \<Rightarrow> 'o set \<Rightarrow> bool"
  and reps :: "'o heap \<Rightarrow> 'o am_value list \<Rightarrow> json list \<Rightarrow> 'o set \<Rightarrow> bool"
  for h :: "'o heap" where
  rep_scalar: "plain_scalar s \<Longrightarrow> rep h (VScalar s) (scalar_to_json s) {}"
| rep_map: "h ob = Some (MapNode t) \<Longrightarrow> ordered t \<Longrightarrow> keys kvs = keys t \<Longrightarrow> reps h (vals t) (vals kvs) F \<Longrightarrow> ob \<notin> F \<Longrightarrow>
    rep h (VMap ob) (JObj kvs) (insert ob F)"
| rep_list: "h ob = Some (ListNode xs) \<Longrightarrow> reps h xs js F \<Longrightarrow> ob \<notin> F \<Longrightarrow> rep h (VList ob) (JArr js) (insert ob F)"
| reps_Nil: "reps h [] [] {}"
| reps_Cons: "rep h v j F \<Longrightarrow> reps h vs js G \<Longrightarrow> F \<inter> G = {} \<Longrightarrow> reps h (v # vs) (j # js) (F \<union> G)"

inductive_cases rep_mapE: "rep h (VMap ob) j F"
inductive_cases rep_listE: "rep h (VList ob) j F"
inductive_cases rep_scalarE: "rep h (VScalar s) j F"
inductive_cases rep_otherE: "rep h (VOther ob) j F"
inductive_cases reps_NilE: "reps h [] js F"
inductive_cases reps_ConsE: "reps h (v # vs) js F"

section \<open>What Automerge promises\<close>

definition law_read :: "('d, 'o) automerge \<Rightarrow> ('d \<Rightarrow> 'o heap) \<Rightarrow> bool" where
  "law_read am view \<longleftrightarrow>
     (\<forall>d ob t. view d ob = Some (MapNode t) \<longrightarrow> am_keys am d ob = keys t) \<and>
     (\<forall>d ob xs. view d ob = Some (ListNode xs) \<longrightarrow> am_length am d ob = length xs) \<and>
     (\<forall>d ob nd p. view d ob = Some nd \<longrightarrow> node_takes nd p \<longrightarrow> am_get am d ob p = Inr (node_get nd p))"

definition law_delete :: "('d, 'o) automerge \<Rightarrow> ('d \<Rightarrow> 'o heap) \<Rightarrow> bool" where
  "law_delete am view \<longleftrightarrow>
     (\<forall>d ob nd p. view d ob = Some nd \<longrightarrow> node_get nd p \<noteq> None \<longrightarrow>
        (\<exists>d'. am_delete am ob p d = (Inr (), d') \<and> view d' = (view d)(ob \<mapsto> node_delete nd p)))"

definition law_put :: "('d, 'o) automerge \<Rightarrow> ('d \<Rightarrow> 'o heap) \<Rightarrow> bool" where
  "law_put am view \<longleftrightarrow>
     (\<forall>d ob nd p s. view d ob = Some nd \<longrightarrow> node_takes nd p \<longrightarrow>
        (\<exists>d'. am_put am ob p s d = (Inr (), d') \<and> view d' = (view d)(ob \<mapsto> node_put nd p (VScalar s)))) \<and>
     (\<forall>d ob nd p ty. view d ob = Some nd \<longrightarrow> node_takes nd p \<longrightarrow>
        (\<exists>i d'. am_put_object am ob p ty d = (Inr i, d') \<and> view d i = None \<and>
           view d' = (view d)(i \<mapsto> empty_node ty, ob \<mapsto> node_put nd p (object_value ty i))))"

definition law_insert :: "('d, 'o) automerge \<Rightarrow> ('d \<Rightarrow> 'o heap) \<Rightarrow> bool" where
  "law_insert am view \<longleftrightarrow>
     (\<forall>d ob xs n s. view d ob = Some (ListNode xs) \<longrightarrow> n \<le> length xs \<longrightarrow>
        (\<exists>d'. am_insert am ob n s d = (Inr (), d') \<and>
           view d' = (view d)(ob \<mapsto> ListNode (take n xs @ VScalar s # drop n xs)))) \<and>
     (\<forall>d ob xs n ty. view d ob = Some (ListNode xs) \<longrightarrow> n \<le> length xs \<longrightarrow>
        (\<exists>i d'. am_insert_object am ob n ty d = (Inr i, d') \<and> view d i = None \<and>
           view d' = (view d)(i \<mapsto> empty_node ty, ob \<mapsto> ListNode (take n xs @ object_value ty i # drop n xs))))"

definition law_document :: "('d, 'o) automerge \<Rightarrow> ('d \<Rightarrow> 'o heap) \<Rightarrow> bool" where
  "law_document am view \<longleftrightarrow>
     view (am_new am) (am_root am) = Some (MapNode []) \<and>
     (\<forall>d j F. rep (view d) (VMap (am_root am)) j F \<longrightarrow> am_json am d = Inr j) \<and>
     (\<forall>d. view (snd (am_get_heads am d)) = view d \<and> view (snd (am_save am d)) = view d) \<and>
     (\<forall>d j F. rep (view d) (VMap (am_root am)) j F \<longrightarrow>
        fst (am_save am d) \<noteq> [] \<and>
        (\<exists>d' G. am_load am (fst (am_save am d)) = Inr d' \<and> rep (view d') (VMap (am_root am)) j G))"

definition automerge_ok :: "('d, 'o) automerge \<Rightarrow> ('d \<Rightarrow> 'o heap) \<Rightarrow> bool" where
  "automerge_ok am view \<longleftrightarrow>
     law_read am view \<and> law_delete am view \<and> law_put am view \<and> law_insert am view \<and> law_document am view"

section \<open>Footprints\<close>

lemma rep_dom:
  "rep h v j F \<Longrightarrow> F \<subseteq> dom h"
  "reps h vs js G \<Longrightarrow> G \<subseteq> dom h"
  by (induction rule: rep_reps.inducts) auto

lemma rep_frame:
  "rep h v j F \<Longrightarrow> (\<forall>x \<in> F. h' x = h x) \<Longrightarrow> rep h' v j F"
  "reps h vs js G \<Longrightarrow> (\<forall>x \<in> G. h' x = h x) \<Longrightarrow> reps h' vs js G"
proof (induction rule: rep_reps.inducts)
  case (rep_map ob t kvs F)
  then show ?case by (intro rep_reps.rep_map) auto
next
  case (rep_list ob xs js F)
  then show ?case by (intro rep_reps.rep_list) auto
qed (auto intro: rep_reps.intros)

lemma reps_length: "reps h vs js F \<Longrightarrow> length js = length vs"
  by (induction vs arbitrary: js F) (auto elim: reps_NilE reps_ConsE)

lemma reps_append:
  "reps h (vs @ ws) js F \<longleftrightarrow>
     (\<exists>js1 js2 F1 F2. js = js1 @ js2 \<and> length js1 = length vs \<and> F = F1 \<union> F2 \<and> F1 \<inter> F2 = {} \<and> reps h vs js1 F1 \<and> reps h ws js2 F2)"
proof (induction vs arbitrary: js F)
  case Nil
  show ?case by (auto elim: reps_NilE intro: reps_Nil)
next
  case (Cons v vs)
  show ?case (is "?l \<longleftrightarrow> ?r")
  proof
    assume ?l
    then obtain j js' F1 G where 1: "js = j # js'" "F = F1 \<union> G" "rep h v j F1" "reps h (vs @ ws) js' G" "F1 \<inter> G = {}"
      by (auto elim: reps_ConsE)
    then obtain js1 js2 G1 G2 where 2: "js' = js1 @ js2" "length js1 = length vs" "G = G1 \<union> G2" "G1 \<inter> G2 = {}"
        "reps h vs js1 G1" "reps h ws js2 G2"
      using Cons by auto
    show ?r
      by (rule exI [of _ "j # js1"], rule exI [of _ js2], rule exI [of _ "F1 \<union> G1"], rule exI [of _ G2])
         (use 1 2 in \<open>auto intro: reps_Cons\<close>)
  next
    assume ?r
    then obtain js1 js2 F1 F2 where r: "js = js1 @ js2" "length js1 = Suc (length vs)" "F = F1 \<union> F2" "F1 \<inter> F2 = {}"
        "reps h (v # vs) js1 F1" "reps h ws js2 F2" by auto
    then obtain j js' E G where e: "js1 = j # js'" "F1 = E \<union> G" "rep h v j E" "reps h vs js' G" "E \<inter> G = {}"
      by (auto elim: reps_ConsE)
    have "reps h (vs @ ws) (js' @ js2) (G \<union> F2)"
      unfolding Cons by (rule exI [of _ js'], rule exI [of _ js2], rule exI [of _ G], rule exI [of _ F2]) (use r e in auto)
    then have "reps h (v # vs @ ws) (j # js' @ js2) (E \<union> (G \<union> F2))"
      by (rule reps_Cons [OF e(3)]) (use r e in auto)
    then show ?l using r e by (simp add: Un_assoc)
  qed
qed

text \<open>Some values of a list give way to others; the rest is a footprint of its own.\<close>

lemma reps_splice:
  assumes "reps h (as @ os @ bs) (as' @ os' @ bs') F" and "length as' = length as" and "length os' = length os"
  shows "\<exists>Fo Fr. F = Fo \<union> Fr \<and> Fo \<inter> Fr = {} \<and> reps h os os' Fo \<and>
    (\<forall>h' ns ns' Fn. (\<forall>x \<in> Fr. h' x = h x) \<longrightarrow> reps h' ns ns' Fn \<longrightarrow> Fn \<inter> Fr = {} \<longrightarrow>
       reps h' (as @ ns @ bs) (as' @ ns' @ bs') (Fn \<union> Fr))"
proof -
  obtain Fa Fo Fb where F: "F = Fa \<union> (Fo \<union> Fb)" "Fa \<inter> (Fo \<union> Fb) = {}" "Fo \<inter> Fb = {}"
    "reps h as as' Fa" "reps h os os' Fo" "reps h bs bs' Fb"
    using assms by (auto simp: reps_append)
  have "reps h' (as @ ns @ bs) (as' @ ns' @ bs') (Fn \<union> (Fa \<union> Fb))"
    if "\<forall>x \<in> Fa \<union> Fb. h' x = h x" and n: "reps h' ns ns' Fn" "Fn \<inter> (Fa \<union> Fb) = {}" for h' ns ns' Fn
  proof -
    have "reps h' as as' Fa" "reps h' bs bs' Fb" using F that(1) rep_frame(2) by blast+
    then have "reps h' (ns @ bs) (ns' @ bs') (Fn \<union> Fb)"
      unfolding reps_append using n reps_length [OF n(1)] by blast
    then have "reps h' (as @ ns @ bs) (as' @ ns' @ bs') (Fa \<union> (Fn \<union> Fb))"
      unfolding reps_append [of _ as] using \<open>reps h' as as' Fa\<close> F n assms(2) by blast
    then show ?thesis by (simp add: Un_left_commute)
  qed
  then show ?thesis by (intro exI [of _ Fo] exI [of _ "Fa \<union> Fb"]) (use F in auto)
qed

lemma reps_single: "reps h [v] [j] F \<longleftrightarrow> rep h v j F"
  using reps_Cons [OF _ reps_Nil, of h v j F] by (auto elim!: reps_ConsE reps_NilE)

section \<open>Where a key stands in a table\<close>

definition binding :: "('k, 'v) table \<Rightarrow> 'k \<Rightarrow> 'v list" where
  "binding t k = (case t_get t k of None \<Rightarrow> [] | Some w \<Rightarrow> [w])"

lemma table_split:
  assumes "ordered t"
  shows "\<exists>as bs. length as = length (filter (\<lambda>x. x < k) (keys t)) \<and> t = as @ map (Pair k) (binding t k) @ bs \<and>
    (\<forall>v. t_put k v t = as @ (k, v) # bs) \<and> t_del k t = as @ bs"
  using assms
proof (induction t)
  case Nil
  show ?case by (simp add: binding_def t_del_def keys_def)
next
  case (Cons b t)
  consider (less) "k < fst b" | (eq) "k = fst b" | (gr) "fst b < k" by (rule linorder_cases)
  then show ?case
  proof cases
    case less
    then have "\<forall>x \<in> set (keys (b # t)). k < x"
      using Cons.prems by (auto simp: ordered_Cons keys_def)
    then have "filter (\<lambda>x. x < k) (keys (b # t)) = []" "t_get (b # t) k = None" "t_del k (b # t) = b # t"
      by (auto simp: keys_def filter_empty_conv map_of_eq_None_iff t_del_def intro!: filter_True)
    then show ?thesis using less by (intro exI [of _ "[]"] exI [of _ "b # t"]) (simp add: binding_def)
  next
    case eq
    then have "\<forall>x \<in> set (keys t). k < x" using Cons.prems by (auto simp: ordered_Cons)
    then have "filter (\<lambda>x. x < k) (keys (b # t)) = []" "t_del k (b # t) = t"
      using eq by (auto simp: keys_def filter_empty_conv t_del_def intro!: filter_True)
    then show ?thesis using eq by (intro exI [of _ "[]"] exI [of _ t]) (cases b, simp add: binding_def)
  next
    case gr
    obtain as bs where i: "length as = length (filter (\<lambda>x. x < k) (keys t))" "t = as @ map (Pair k) (binding t k) @ bs"
        "\<forall>v. t_put k v t = as @ (k, v) # bs" "t_del k t = as @ bs"
      using Cons by (auto simp: ordered_Cons)
    have "t_get (b # t) k = t_get t k" using gr by (cases b) auto
    then have "binding (b # t) k = binding t k" by (simp add: binding_def)
    then show ?thesis
      using i gr by (intro exI [of _ "b # as"] exI [of _ bs]) (auto simp: keys_def t_del_def)
  qed
qed

lemma table_split2:
  assumes "ordered t" and "ordered s" and "keys s = keys t"
  obtains as bs as' bs' where "t = as @ map (Pair k) (binding t k) @ bs" "s = as' @ map (Pair k) (binding s k) @ bs'"
    "length as' = length as" "\<forall>v. t_put k v t = as @ (k, v) # bs" "\<forall>v. t_put k v s = as' @ (k, v) # bs'"
    "t_del k t = as @ bs" "t_del k s = as' @ bs'"
  using table_split [OF assms(1), of k] table_split [OF assms(2), of k] assms(3) by auto

lemma vals_split: "t = as @ map (Pair k) ws @ bs \<Longrightarrow> vals t = vals as @ ws @ vals bs"
  by (simp add: vals_def comp_def)

lemma length_binding: "length (binding t k) = (if k \<in> set (keys t) then 1 else 0)"
  using map_of_eq_None_iff [of t k] by (auto simp: binding_def keys_def split: option.split)

lemma binding_length: "keys s = keys t \<Longrightarrow> length (binding s k) = length (binding t k)"
  by (simp add: length_binding)

lemma keys_t_put_eq:
  assumes "ordered t" and "ordered s" and "keys s = keys t"
  shows "keys (t_put k v s) = keys (t_put k w t)" and "keys (t_del k s) = keys (t_del k t)"
proof -
  show "keys (t_put k v s) = keys (t_put k w t)"
    by (rule ordered_keys_eq) (use assms in \<open>auto simp: ordered_t_put keys_t_put\<close>)
  have "set (keys (t_del k s)) = set (keys s) - {k}" "set (keys (t_del k t)) = set (keys t) - {k}"
    by (auto simp: keys_def t_del_def)
  then show "keys (t_del k s) = keys (t_del k t)"
    by (intro ordered_keys_eq) (use assms in \<open>auto simp: ordered_t_del\<close>)
qed

lemma ordered_of_keys: "ordered t \<Longrightarrow> keys s = keys t \<Longrightarrow> ordered s"
  by (simp add: ordered_def)

section \<open>A value inside an object\<close>

fun jtakes :: "json \<Rightarrow> am_prop \<Rightarrow> bool" where
  "jtakes (JObj kvs) (PMap k) \<longleftrightarrow> True"
| "jtakes (JArr js) (PSeq i) \<longleftrightarrow> i < length js"
| "jtakes _ _ \<longleftrightarrow> False"

fun jchild :: "json \<Rightarrow> am_prop \<Rightarrow> json option" where
  "jchild (JObj kvs) (PMap k) = map_of kvs k"
| "jchild (JArr js) (PSeq i) = (if i < length js then Some (js ! i) else None)"
| "jchild _ _ = None"

fun jplace :: "json \<Rightarrow> am_prop \<Rightarrow> json \<Rightarrow> json" where
  "jplace (JObj kvs) (PMap k) v = JObj (t_put k v kvs)"
| "jplace (JArr js) (PSeq i) v = JArr (js[i := v])"
| "jplace j _ _ = j"

definition in_place :: "'o heap \<Rightarrow> 'o am_value \<Rightarrow> 'o \<Rightarrow> json \<Rightarrow> am_prop \<Rightarrow> 'o node \<Rightarrow> 'o set \<Rightarrow> 'o set \<Rightarrow> bool" where
  "in_place h v0 ob J p nd Fc Fr \<longleftrightarrow>
     h ob = Some nd \<and> node_takes nd p \<and> ob \<notin> Fc \<union> Fr \<and> Fc \<inter> Fr = {} \<and>
     (case node_get nd p of None \<Rightarrow> jchild J p = None \<and> Fc = {} | Some w \<Rightarrow> (\<exists>j. jchild J p = Some j \<and> rep h w j Fc)) \<and>
     (\<forall>w. node_get nd p = Some w \<longrightarrow> node_put nd p w = nd) \<and>
     (\<forall>h' v j Fn. h' ob = Some (node_put nd p v) \<longrightarrow> (\<forall>x \<in> Fr. h' x = h x) \<longrightarrow> rep h' v j Fn \<longrightarrow> ob \<notin> Fn \<longrightarrow>
        Fn \<inter> Fr = {} \<longrightarrow> rep h' v0 (jplace J p j) (insert ob (Fn \<union> Fr)))"

lemma binding_None [simp]: "binding t k = [] \<longleftrightarrow> t_get t k = None"
  by (simp add: binding_def split: option.split)

lemma rep_in_map:
  assumes "rep h (VMap ob) J F" and "jtakes J p"
  shows "\<exists>nd Fc Fr. F = insert ob (Fc \<union> Fr) \<and> in_place h (VMap ob) ob J p nd Fc Fr"
proof -
  obtain t kvs G where m: "J = JObj kvs" "F = insert ob G" "h ob = Some (MapNode t)" "ordered t" "keys kvs = keys t"
      "reps h (vals t) (vals kvs) G" "ob \<notin> G"
    using assms(1) by (auto elim: rep_mapE)
  obtain k where p: "p = PMap k" using assms(2) m(1) by (cases p) auto
  have ord: "ordered kvs" using m by (simp add: ordered_of_keys)
  obtain as bs as' bs' where sp: "t = as @ map (Pair k) (binding t k) @ bs" "kvs = as' @ map (Pair k) (binding kvs k) @ bs'"
    "length as' = length as" "\<forall>v. t_put k v t = as @ (k, v) # bs" "\<forall>v. t_put k v kvs = as' @ (k, v) # bs'"
    "t_del k t = as @ bs" "t_del k kvs = as' @ bs'"
    by (rule table_split2 [OF m(4) ord m(5), of k])
  have vs: "vals t = vals as @ binding t k @ vals bs" "vals kvs = vals as' @ binding kvs k @ vals bs'"
    using vals_split [OF sp(1)] vals_split [OF sp(2)] by blast+
  obtain Fo Fr where r: "G = Fo \<union> Fr" "Fo \<inter> Fr = {}" "reps h (binding t k) (binding kvs k) Fo"
    "\<And>h' ns ns' Fn. (\<forall>x \<in> Fr. h' x = h x) \<Longrightarrow> reps h' ns ns' Fn \<Longrightarrow> Fn \<inter> Fr = {} \<Longrightarrow>
       reps h' (vals as @ ns @ vals bs) (vals as' @ ns' @ vals bs') (Fn \<union> Fr)"
    using reps_splice [of h "vals as" "binding t k" "vals bs" "vals as'" "binding kvs k" "vals bs'" G] m(6) vs sp(3)
      binding_length [OF m(5)] by (auto simp: vals_def)
  have child: "case t_get t k of None \<Rightarrow> map_of kvs k = None \<and> Fo = {} | Some w \<Rightarrow> (\<exists>j. map_of kvs k = Some j \<and> rep h w j Fo)"
    using r(3) binding_length [OF m(5), of k]
    by (auto simp: binding_def reps_single elim: reps_NilE split: option.splits)
  have same: "t_put k w t = t" if "t_get t k = Some w" for w
    using sp(1,4) that by (simp add: binding_def)
  have "rep h' (VMap ob) (JObj (t_put k j kvs)) (insert ob (Fn \<union> Fr))"
    if "h' ob = Some (MapNode (t_put k v t))" "\<forall>x \<in> Fr. h' x = h x" "rep h' v j Fn" "ob \<notin> Fn" "Fn \<inter> Fr = {}" for h' v j Fn
  proof (rule rep_map [where h = h' and ob = ob, OF that(1)])
    show "reps h' (vals (t_put k v t)) (vals (t_put k j kvs)) (Fn \<union> Fr)"
      using r(4) [of h' "[v]" "[j]" Fn] that by (simp add: sp(4,5) vals_def reps_single)
  qed (use that m r keys_t_put_eq(1) [OF m(4) ord m(5)] in \<open>auto simp: ordered_t_put\<close>)
  then show ?thesis
    unfolding in_place_def
    by (intro exI [of _ "MapNode t"] exI [of _ Fo] exI [of _ Fr]) (use m r p child same in \<open>auto split: option.splits\<close>)
qed

lemma rep_in_list:
  assumes "rep h (VList ob) J F" and "jtakes J p"
  shows "\<exists>nd Fc Fr. F = insert ob (Fc \<union> Fr) \<and> in_place h (VList ob) ob J p nd Fc Fr"
proof -
  obtain xs js G where m: "J = JArr js" "F = insert ob G" "h ob = Some (ListNode xs)" "reps h xs js G" "ob \<notin> G"
    using assms(1) by (auto elim: rep_listE)
  obtain i where p: "p = PSeq i" "i < length js" using assms(2) m(1) by (cases p) auto
  have len: "length js = length xs" using reps_length [OF m(4)] .
  have split: "xs = take i xs @ [xs ! i] @ drop (Suc i) xs" "js = take i js @ [js ! i] @ drop (Suc i) js"
    using p len by (simp_all add: id_take_nth_drop)
  obtain Fo Fr where r: "G = Fo \<union> Fr" "Fo \<inter> Fr = {}" "reps h [xs ! i] [js ! i] Fo"
    "\<And>h' ns ns' Fn. (\<forall>x \<in> Fr. h' x = h x) \<Longrightarrow> reps h' ns ns' Fn \<Longrightarrow> Fn \<inter> Fr = {} \<Longrightarrow>
       reps h' (take i xs @ ns @ drop (Suc i) xs) (take i js @ ns' @ drop (Suc i) js) (Fn \<union> Fr)"
    using reps_splice [of h "take i xs" "[xs ! i]" "drop (Suc i) xs" "take i js" "[js ! i]" "drop (Suc i) js" G]
      m(4) split len by (metis length_take length_Cons list.size(3))
  have "rep h' (VList ob) (JArr (js[i := j])) (insert ob (Fn \<union> Fr))"
    if "h' ob = Some (ListNode (xs[i := v]))" "\<forall>x \<in> Fr. h' x = h x" "rep h' v j Fn" "ob \<notin> Fn" "Fn \<inter> Fr = {}" for h' v j Fn
  proof (rule rep_list [where h = h' and ob = ob, OF that(1)])
    show "reps h' (xs[i := v]) (js[i := j]) (Fn \<union> Fr)"
      using r(4) [of h' "[v]" "[j]" Fn] that p len by (simp add: upd_conv_take_nth_drop reps_single)
  qed (use that m r in auto)
  then show ?thesis
    unfolding in_place_def
    by (intro exI [of _ "ListNode xs"] exI [of _ Fo] exI [of _ Fr]) (use m r p len in \<open>auto simp: reps_single\<close>)
qed

definition holds :: "'o am_value \<Rightarrow> 'o \<Rightarrow> bool" where
  "holds v0 ob \<longleftrightarrow> v0 = VMap ob \<or> v0 = VList ob"

lemma rep_in_object:
  assumes "rep h v0 J F" and "holds v0 ob" and "jtakes J p"
  obtains nd Fc Fr where "F = insert ob (Fc \<union> Fr)" "in_place h v0 ob J p nd Fc Fr"
  using rep_in_map [of h ob J F p] rep_in_list [of h ob J F p] assms by (auto simp: holds_def)

section \<open>What an operation may touch\<close>

text \<open>From \<open>h\<close> to \<open>h'\<close> only objects of \<open>F\<close> changed, and \<open>F'\<close> has only objects of \<open>F\<close> and new ones.\<close>

definition local_change :: "'o heap \<Rightarrow> 'o heap \<Rightarrow> 'o set \<Rightarrow> 'o set \<Rightarrow> bool" where
  "local_change h h' F F' \<longleftrightarrow>
     (\<forall>x. x \<notin> F \<longrightarrow> h x \<noteq> None \<longrightarrow> h' x = h x) \<and> (\<forall>x \<in> F'. x \<in> F \<or> h x = None)"

lemma local_change_refl: "local_change h h F F"
  by (simp add: local_change_def)

lemma local_change_trans:
  assumes "local_change h h1 F F1" and "local_change h1 h2 F1 F2"
  shows "local_change h h2 F F2"
  using assms unfolding local_change_def by metis

text \<open>An object is overwritten and new objects \<open>N\<close> are made and then filled.\<close>

lemma new_objects:
  assumes "N \<inter> dom h = {}" and "h ob \<noteq> None" and "h1 ob = Some n" and "\<forall>x. x \<notin> N \<longrightarrow> x \<noteq> ob \<longrightarrow> h1 x = h x"
    and lc: "local_change h1 h2 N Fn"
  shows "\<forall>x. x \<in> dom h \<longrightarrow> x \<noteq> ob \<longrightarrow> h2 x = h x" and "h2 ob = Some n" and "\<forall>x \<in> Fn. h x = None \<and> x \<noteq> ob"
proof -
  have ob: "ob \<notin> N" using assms(1,2) by auto
  show "h2 ob = Some n" using lc ob assms(3) by (auto simp: local_change_def)
  have "h2 x = h x" if "x \<in> dom h" "x \<noteq> ob" for x
  proof -
    have "x \<notin> N" "h1 x = h x" using that assms(1,4) by auto
    then show ?thesis using lc that by (auto simp: local_change_def)
  qed
  then show "\<forall>x. x \<in> dom h \<longrightarrow> x \<noteq> ob \<longrightarrow> h2 x = h x" by blast
  have "h x = None \<and> x \<noteq> ob" if "x \<in> Fn" for x
  proof (cases "x \<in> N")
    case True
    then show ?thesis using assms(1) ob by auto
  next
    case False
    then have "h1 x = None" using lc that by (auto simp: local_change_def)
    moreover from this have "x \<noteq> ob" using assms(3) by auto
    ultimately show ?thesis using assms(4) False by simp
  qed
  then show "\<forall>x \<in> Fn. h x = None \<and> x \<noteq> ob" by blast
qed

lemma local_changeI:
  assumes "\<forall>x. x \<in> dom h \<longrightarrow> x \<noteq> ob \<longrightarrow> h2 x = h x" and "\<forall>x \<in> Fn. h x = None \<and> x \<noteq> ob" and "ob \<in> F" and "Fr \<subseteq> F"
  shows "local_change h h2 F (insert ob (Fn \<union> Fr))"
  unfolding local_change_def
proof (intro conjI allI impI ballI)
  show "h2 x = h x" if "x \<notin> F" "h x \<noteq> None" for x using assms(1,3) that by auto
  show "x \<in> F \<or> h x = None" if "x \<in> insert ob (Fn \<union> Fr)" for x using assms(2-4) that by auto
qed

lemma in_place_update:
  assumes "in_place h v0 ob J p nd Fc Fr" and "h' ob = Some (node_put nd p v)" and "\<forall>x \<in> Fr. h' x = h x" and "rep h' v j Fn"
    and "ob \<notin> Fn" and "Fn \<inter> Fr = {}"
  shows "rep h' v0 (jplace J p j) (insert ob (Fn \<union> Fr))"
  using assms unfolding in_place_def by simp

text \<open>A new value takes its place in the object.\<close>

lemma place_new:
  assumes ip: "in_place h v0 ob J p nd Fc Fr" and dom: "insert ob (Fc \<union> Fr) \<subseteq> dom h" and N: "N \<inter> dom h = {}"
    and h1: "h1 ob = Some (node_put nd p w)" "\<forall>x. x \<notin> N \<longrightarrow> x \<noteq> ob \<longrightarrow> h1 x = h x"
    and lc: "local_change h1 h2 N Fn" and w: "rep h2 w j Fn"
  shows "\<exists>F'. rep h2 v0 (jplace J p j) F' \<and> local_change h h2 (insert ob (Fc \<union> Fr)) F'"
proof -
  have ob: "ob \<notin> Fr" "h ob \<noteq> None" using ip by (auto simp: in_place_def)
  note new = new_objects [OF N ob(2) h1 lc]
  have "rep h2 v0 (jplace J p j) (insert ob (Fn \<union> Fr))"
  proof -
    have "\<forall>x \<in> Fr. h2 x = h x" using new(1) dom ob by blast
    moreover have "Fn \<inter> Fr = {}" "ob \<notin> Fn" using new(3) dom by auto
    ultimately show ?thesis using in_place_update [OF ip new(2) _ w] by blast
  qed
  moreover have "local_change h h2 (insert ob (Fc \<union> Fr)) (insert ob (Fn \<union> Fr))"
    by (rule local_changeI [OF new(1,3)]) auto
  ultimately show ?thesis by blast
qed

text \<open>The value in its place changed in its own objects.\<close>

lemma place_inner:
  assumes ip: "in_place h v0 ob J p nd Fc Fr" and dom: "insert ob (Fc \<union> Fr) \<subseteq> dom h" and w: "node_get nd p = Some w"
    and lc: "local_change h h' Fc Fn" and rep: "rep h' w j Fn"
  shows "\<exists>F'. rep h' v0 (jplace J p j) F' \<and> local_change h h' (insert ob (Fc \<union> Fr)) F'"
proof -
  have ob: "ob \<notin> Fr" "ob \<notin> Fc" "Fc \<inter> Fr = {}" "h ob = Some nd" "node_put nd p w = nd"
    using ip w by (auto simp: in_place_def)
  have "h' ob = Some (node_put nd p w)" using lc ob by (auto simp: local_change_def)
  moreover have "\<forall>x \<in> Fr. h' x = h x" using lc dom ob by (auto simp: local_change_def)
  moreover have "Fn \<inter> Fr = {}" "ob \<notin> Fn" using lc dom ob by (auto simp: local_change_def)
  ultimately have "rep h' v0 (jplace J p j) (insert ob (Fn \<union> Fr))" using in_place_update [OF ip _ _ rep] by blast
  moreover have "local_change h h' (insert ob (Fc \<union> Fr)) (insert ob (Fn \<union> Fr))"
    using lc unfolding local_change_def by auto
  ultimately show ?thesis by blast
qed

lemma rep_empty_node: "h i = Some (empty_node ty) \<Longrightarrow> rep h (object_value ty i) (case ty of OMap \<Rightarrow> JObj [] | OList \<Rightarrow> JArr []) {i}"
  using rep_map [of h i "[]" "[]" "{}"] rep_list [of h i "[]" "[]" "{}"]
  by (cases ty) (simp_all add: keys_def vals_def reps_Nil)

text \<open>A value is appended to a list.\<close>

lemma rep_append:
  assumes "rep h (VList ob) (JArr js) F" and N: "N \<inter> dom h = {}" and xs: "h ob = Some (ListNode xs)"
    and h1: "h1 ob = Some (ListNode (xs @ [w]))" "\<forall>x. x \<notin> N \<longrightarrow> x \<noteq> ob \<longrightarrow> h1 x = h x"
    and lc: "local_change h1 h2 N Fn" and w: "rep h2 w j Fn"
  shows "\<exists>F'. rep h2 (VList ob) (JArr (js @ [j])) F' \<and> local_change h h2 F F'"
proof -
  obtain G where G: "F = insert ob G" "reps h xs js G" "ob \<notin> G"
    by (rule rep_listE [OF assms(1)]) (use xs in simp)
  have dom: "F \<subseteq> dom h" using rep_dom(1) [OF assms(1)] .
  have "h ob \<noteq> None" using xs by simp
  note new = new_objects [OF N this h1 lc]
  have "\<forall>x \<in> G. h2 x = h x" using new(1) dom G by auto
  then have old: "reps h2 xs js G" by (rule rep_frame(2) [OF G(2)])
  have new_j: "reps h2 [w] [j] Fn" using w by (simp only: reps_single)
  have "G \<inter> Fn = {}" using new(3) dom G by auto
  then have both: "reps h2 (xs @ [w]) (js @ [j]) (G \<union> Fn)"
    unfolding reps_append
    by (intro exI [of _ js] exI [of _ "[j]"] exI [of _ G] exI [of _ Fn]) (simp add: old new_j reps_length [OF G(2)])
  have "ob \<notin> G \<union> Fn" using G new(3) by auto
  then have "rep h2 (VList ob) (JArr (js @ [j])) (insert ob (G \<union> Fn))"
    by (rule rep_list [where h = h2 and ob = ob, OF new(2) both])
  moreover have "local_change h h2 F (insert ob (Fn \<union> G))"
    by (rule local_changeI [OF new(1,3)]) (use G in auto)
  ultimately show ?thesis by (auto simp: Un_commute)
qed

section \<open>Counting\<close>

lemma merge_changes_assoc: "merge_changes (merge_changes a b) c = merge_changes a (merge_changes b c)"
  by (simp add: merge_changes_def)

lemma merge_no_changes [simp]: "merge_changes c no_changes = c" "merge_changes no_changes c = c"
  by (simp_all add: merge_changes_def no_changes_def)

lemma merge_upd:
  "(merge_changes c ch)\<lparr>ch_added := ch_added (merge_changes c ch) + n\<rparr> = merge_changes c (ch\<lparr>ch_added := ch_added ch + n\<rparr>)"
  "(merge_changes c ch)\<lparr>ch_removed := ch_removed (merge_changes c ch) + n\<rparr> = merge_changes c (ch\<lparr>ch_removed := ch_removed ch + n\<rparr>)"
  "(merge_changes c ch)\<lparr>ch_changed := ch_changed (merge_changes c ch) + n\<rparr> = merge_changes c (ch\<lparr>ch_changed := ch_changed ch + n\<rparr>)"
  by (simp_all add: merge_changes_def)

lemma diff_leaf_merge: "diff_leaf a b (merge_changes c ch) = merge_changes c (diff_leaf a b ch)"
  by (simp add: diff_leaf_def merge_changes_def)

lemma diff_merge:
  "diff_into a b (merge_changes c ch) = merge_changes c (diff_into a b ch)"
  "diff_fields kas kbs (merge_changes c ch) = merge_changes c (diff_fields kas kbs ch)"
  "diff_items xs ys (merge_changes c ch) = merge_changes c (diff_items xs ys ch)"
proof (induction a b ch and kas kbs ch and xs ys ch rule: diff_into_diff_fields_diff_items.induct)
  case (1 before after ch)
  show ?case
  proof (cases rule: diff_into_cases [of before after])
    case obj
    then show ?thesis using 1 merge_upd(2) by (simp add: diff_into.simps Let_def)
  next
    case arr
    then show ?thesis using 1 by (simp add: diff_into.simps Let_def) (simp add: merge_changes_def)
  qed (simp add: diff_leaf_merge)
next
  case (3 a k v b ch)
  then show ?case using merge_upd(1) [of c ch 1] by (cases "map_of a k") simp_all
qed simp_all

lemma diff_into_merge: "diff_into a b ch = merge_changes ch (diff_changes a b)"
  using diff_merge(1) [of a b ch no_changes] by (simp add: diff_changes_def)

section \<open>Writing one value\<close>

declare reconcile_map.simps [simp del] reconcile_list.simps [simp del] reconcile_prop.simps [simp del]
  put_json.simps [simp del] insert_json.simps [simp del]

lemma ok_put:
  assumes "automerge_ok am view" and "view d ob = Some nd" and "node_takes nd p"
  shows "\<exists>d'. am_put am ob p s d = (Inr (), d') \<and> view d' = (view d)(ob \<mapsto> node_put nd p (VScalar s))"
  using assms unfolding automerge_ok_def law_put_def by blast

lemma ok_put_object:
  assumes "automerge_ok am view" and "view d ob = Some nd" and "node_takes nd p"
  shows "\<exists>i d'. am_put_object am ob p ty d = (Inr i, d') \<and> view d i = None \<and>
           view d' = (view d)(i \<mapsto> empty_node ty, ob \<mapsto> node_put nd p (object_value ty i))"
  using assms unfolding automerge_ok_def law_put_def by blast

lemma ok_insert:
  assumes "automerge_ok am view" and "view d ob = Some (ListNode xs)"
  shows "\<exists>d'. am_insert am ob (length xs) s d = (Inr (), d') \<and> view d' = (view d)(ob \<mapsto> ListNode (xs @ [VScalar s]))"
proof -
  have "\<exists>d'. am_insert am ob (length xs) s d = (Inr (), d') \<and>
      view d' = (view d)(ob \<mapsto> ListNode (take (length xs) xs @ VScalar s # drop (length xs) xs))"
    using assms unfolding automerge_ok_def law_insert_def by blast
  then show ?thesis by simp
qed

lemma ok_insert_object:
  assumes "automerge_ok am view" and "view d ob = Some (ListNode xs)"
  shows "\<exists>i d'. am_insert_object am ob (length xs) ty d = (Inr i, d') \<and> view d i = None \<and>
           view d' = (view d)(i \<mapsto> empty_node ty, ob \<mapsto> ListNode (xs @ [object_value ty i]))"
proof -
  have "\<exists>i d'. am_insert_object am ob (length xs) ty d = (Inr i, d') \<and> view d i = None \<and>
           view d' = (view d)(i \<mapsto> empty_node ty, ob \<mapsto> ListNode (take (length xs) xs @ object_value ty i # drop (length xs) xs))"
    using assms unfolding automerge_ok_def law_insert_def by blast
  then show ?thesis by simp
qed

lemma ok_get:
  assumes "automerge_ok am view" and "in_place (view d) v0 ob J p nd Fc Fr"
  shows "current_of am d ob p = Inr (current_value (node_get nd p))"
proof -
  have "am_get am d ob p = Inr (node_get nd p)" using assms unfolding automerge_ok_def law_read_def in_place_def by blast
  then show ?thesis by (simp add: current_of_def)
qed

lemma put_scalar:
  assumes ok: "automerge_ok am view" and "plain_scalar s"
    and rep: "rep (view d) v0 J F" and at_ob: "holds v0 ob" "jtakes J p"
  shows "\<exists>d' F'. am_put am ob p s d = (Inr (), d') \<and> rep (view d') v0 (jplace J p (scalar_to_json s)) F' \<and>
    local_change (view d) (view d') F F'"
proof -
  obtain nd Fc Fr where F: "F = insert ob (Fc \<union> Fr)" and ip: "in_place (view d) v0 ob J p nd Fc Fr"
    by (rule rep_in_object [OF rep at_ob])
  obtain d' where d': "am_put am ob p s d = (Inr (), d')" "view d' = (view d)(ob \<mapsto> node_put nd p (VScalar s))"
    using ok_put [OF ok, of d ob nd p s] ip by (auto simp: in_place_def)
  have "\<exists>F'. rep (view d') v0 (jplace J p (scalar_to_json s)) F' \<and> local_change (view d) (view d') F F'"
    unfolding F
    by (rule place_new [OF ip _ _ _ _ local_change_refl [of _ "{}"] rep_scalar [OF \<open>plain_scalar s\<close>]])
       (use rep_dom(1) [OF rep] F d' in auto)
  then show ?thesis using d' by blast
qed

definition jempty :: "obj_type \<Rightarrow> json" where
  "jempty ty = (case ty of OMap \<Rightarrow> JObj [] | OList \<Rightarrow> JArr [])"

text \<open>What filling a new object must do.\<close>

definition builds :: "('d \<Rightarrow> 'o heap) \<Rightarrow> obj_type \<Rightarrow> ('o \<Rightarrow> 'd \<Rightarrow> ('e, 'a) result \<times> 'd) \<Rightarrow> json \<Rightarrow> bool" where
  "builds view ty g j \<longleftrightarrow>
     (\<forall>i d. rep (view d) (object_value ty i) (jempty ty) {i} \<longrightarrow>
        (\<exists>r d' F'. g i d = (Inr r, d') \<and> rep (view d') (object_value ty i) j F' \<and> local_change (view d) (view d') {i} F'))"

lemma put_object:
  assumes ok: "automerge_ok am view" and build: "builds view ty g j"
    and rep: "rep (view d) v0 J F" and at_ob: "holds v0 ob" "jtakes J p"
  shows "\<exists>r d' F'. and_then (am_put_object am ob p ty d) g = (Inr r, d') \<and> rep (view d') v0 (jplace J p j) F' \<and>
    local_change (view d) (view d') F F'"
proof -
  obtain nd Fc Fr where F: "F = insert ob (Fc \<union> Fr)" and ip: "in_place (view d) v0 ob J p nd Fc Fr"
    by (rule rep_in_object [OF rep at_ob])
  then have nd: "view d ob = Some nd" "node_takes nd p" by (simp_all add: in_place_def)
  obtain i d1 where d1: "am_put_object am ob p ty d = (Inr i, d1)" "view d i = None"
    "view d1 = (view d)(i \<mapsto> empty_node ty, ob \<mapsto> node_put nd p (object_value ty i))"
    using ok_put_object [OF ok nd, of ty] by blast
  have "i \<noteq> ob" using d1(2) nd by auto
  then have "rep (view d1) (object_value ty i) (jempty ty) {i}"
    using d1(3) rep_empty_node [of "view d1" i ty] by (simp add: jempty_def)
  then obtain r d2 Fn where d2: "g i d1 = (Inr r, d2)" "rep (view d2) (object_value ty i) j Fn"
      "local_change (view d1) (view d2) {i} Fn"
    using build unfolding builds_def by blast
  have "\<exists>F'. rep (view d2) v0 (jplace J p j) F' \<and> local_change (view d) (view d2) F F'"
    unfolding F
    by (rule place_new [OF ip _ _ _ _ d2(3,2)]) (use rep_dom(1) [OF rep] F d1 in auto)
  then show ?thesis using d1(1) d2(1) by auto
qed

lemma insert_scalar:
  assumes ok: "automerge_ok am view" and "plain_scalar s" and rep: "rep (view d) (VList ob) (JArr js) F"
  shows "\<exists>d' F'. am_insert am ob (length js) s d = (Inr (), d') \<and> rep (view d') (VList ob) (JArr (js @ [scalar_to_json s])) F' \<and>
    local_change (view d) (view d') F F'"
proof -
  obtain xs where xs: "view d ob = Some (ListNode xs)" "length js = length xs"
    by (rule rep_listE [OF rep]) (use reps_length in auto)
  obtain d' where d': "am_insert am ob (length xs) s d = (Inr (), d')" "view d' = (view d)(ob \<mapsto> ListNode (xs @ [VScalar s]))"
    using ok_insert [OF ok xs(1)] by blast
  have "\<exists>F'. rep (view d') (VList ob) (JArr (js @ [scalar_to_json s])) F' \<and> local_change (view d) (view d') F F'"
    by (rule rep_append [OF rep _ xs(1) _ _ local_change_refl [of _ "{}"] rep_scalar [OF \<open>plain_scalar s\<close>]]) (use d' in auto)
  then show ?thesis using d' xs by auto
qed

lemma insert_object:
  assumes ok: "automerge_ok am view" and build: "builds view ty g j" and rep: "rep (view d) (VList ob) (JArr js) F"
  shows "\<exists>r d' F'. and_then (am_insert_object am ob (length js) ty d) g = (Inr r, d') \<and>
    rep (view d') (VList ob) (JArr (js @ [j])) F' \<and> local_change (view d) (view d') F F'"
proof -
  obtain xs where xs: "view d ob = Some (ListNode xs)" "length js = length xs"
    by (rule rep_listE [OF rep]) (use reps_length in auto)
  obtain i d1 where d1: "am_insert_object am ob (length xs) ty d = (Inr i, d1)" "view d i = None"
    "view d1 = (view d)(i \<mapsto> empty_node ty, ob \<mapsto> ListNode (xs @ [object_value ty i]))"
    using ok_insert_object [OF ok xs(1)] by blast
  have "i \<noteq> ob" using d1(2) xs by auto
  then have "rep (view d1) (object_value ty i) (jempty ty) {i}"
    using d1(3) rep_empty_node [of "view d1" i ty] by (simp add: jempty_def)
  then obtain r d2 Fn where d2: "g i d1 = (Inr r, d2)" "rep (view d2) (object_value ty i) j Fn"
      "local_change (view d1) (view d2) {i} Fn"
    using build unfolding builds_def by blast
  have "\<exists>F'. rep (view d2) (VList ob) (JArr (js @ [j])) F' \<and> local_change (view d) (view d2) F F'"
    by (rule rep_append [OF rep _ xs(1) _ _ d2(3,2)]) (use d1 in auto)
  then show ?thesis using d1(1) d2(1) xs by auto
qed

section \<open>The recursion\<close>

definition fills :: "('d, 'o) automerge \<Rightarrow> ('d \<Rightarrow> 'o heap) \<Rightarrow> json \<Rightarrow> bool" where
  "fills am view v \<longleftrightarrow>
     (\<forall>d v0 ob J F p. rep (view d) v0 J F \<longrightarrow> holds v0 ob \<longrightarrow> jtakes J p \<longrightarrow>
        (\<exists>r d' F'. put_json am ob p v d = (Inr r, d') \<and> rep (view d') v0 (jplace J p v) F' \<and>
           local_change (view d) (view d') F F'))"

definition appends :: "('d, 'o) automerge \<Rightarrow> ('d \<Rightarrow> 'o heap) \<Rightarrow> json \<Rightarrow> bool" where
  "appends am view v \<longleftrightarrow>
     (\<forall>d ob js F. rep (view d) (VList ob) (JArr js) F \<longrightarrow>
        (\<exists>r d' F'. insert_json am ob (length js) v d = (Inr r, d') \<and> rep (view d') (VList ob) (JArr (js @ [v])) F' \<and>
           local_change (view d) (view d') F F'))"

definition settles :: "('d, 'o) automerge \<Rightarrow> ('d \<Rightarrow> 'o heap) \<Rightarrow> json \<Rightarrow> bool" where
  "settles am view v \<longleftrightarrow>
     (\<forall>d v0 ob J F p. rep (view d) v0 J F \<longrightarrow> holds v0 ob \<longrightarrow> jtakes J p \<longrightarrow>
        (\<exists>cur d' F'. current_of am d ob p = Inr cur \<and>
           reconcile_prop am ob p cur v d =
             (Inr (case jchild J p of None \<Rightarrow> one_added | Some j \<Rightarrow> diff_changes j v), d') \<and>
           rep (view d') v0 (jplace J p v) F' \<and> local_change (view d) (view d') F F'))"

definition maps_to :: "('d, 'o) automerge \<Rightarrow> ('d \<Rightarrow> 'o heap) \<Rightarrow> (string \<times> json) list \<Rightarrow> bool" where
  "maps_to am view kvs \<longleftrightarrow>
     (\<forall>d ob cur F. rep (view d) (VMap ob) (JObj cur) F \<longrightarrow>
        (\<exists>d' F'. reconcile_map am ob kvs d = (Inr (diff_changes (JObj cur) (JObj kvs)), d') \<and>
           rep (view d') (VMap ob) (JObj kvs) F' \<and> local_change (view d) (view d') F F'))"

definition lists_to :: "('d, 'o) automerge \<Rightarrow> ('d \<Rightarrow> 'o heap) \<Rightarrow> json list \<Rightarrow> bool" where
  "lists_to am view xs \<longleftrightarrow>
     (\<forall>d ob cur F. rep (view d) (VList ob) (JArr cur) F \<longrightarrow>
        (\<exists>d' F'. reconcile_list am ob xs d = (Inr (diff_changes (JArr cur) (JArr xs)), d') \<and>
           rep (view d') (VList ob) (JArr xs) F' \<and> local_change (view d) (view d') F F'))"

lemma diff_changes_leaf:
  assumes "\<not> (is_object a \<and> is_object b)" and "\<not> (is_array a \<and> is_array b)"
  shows "diff_changes a b = (if a \<noteq> b then one_changed else no_changes)"
proof -
  have "diff_into a b no_changes = diff_leaf a b no_changes"
    by (cases rule: diff_into_cases [of a b]) (use assms in \<open>auto simp: is_object_def is_array_def\<close>)
  then show ?thesis by (simp add: diff_changes_def diff_leaf_def one_changed_def no_changes_def)
qed

text \<open>One property is brought to a value.\<close>

definition settled :: "('d, 'o) automerge \<Rightarrow> ('d \<Rightarrow> 'o heap) \<Rightarrow> 'd \<Rightarrow> 'o am_value \<Rightarrow> 'o \<Rightarrow> json \<Rightarrow> 'o set \<Rightarrow> am_prop \<Rightarrow>
    'o current \<Rightarrow> json \<Rightarrow> changes \<Rightarrow> bool" where
  "settled am view d v0 ob J F p cur v ch \<longleftrightarrow>
     (\<exists>d' F'. reconcile_prop am ob p cur v d = (Inr ch, d') \<and> rep (view d') v0 (jplace J p v) F' \<and>
        local_change (view d) (view d') F F')"

lemma settled_put:
  assumes "fills am view v" and "rep (view d) v0 J F" and "holds v0 ob" and "jtakes J p"
    and eq: "reconcile_prop am ob p cur v d = counted c (put_json am ob p v d)"
  shows "settled am view d v0 ob J F p cur v c"
proof -
  obtain r d' F' where "put_json am ob p v d = (Inr r, d')" "rep (view d') v0 (jplace J p v) F'"
      "local_change (view d) (view d') F F'"
    using assms unfolding fills_def by blast
  then show ?thesis by (simp add: settled_def eq) blast
qed

lemma settled_inner:
  assumes ip: "in_place (view d) v0 ob J p nd Fc Fr" and F: "insert ob (Fc \<union> Fr) \<subseteq> dom (view d)" and w: "node_get nd p = Some w"
    and "reconcile_prop am ob p cur v d = (Inr ch, d')" and "rep (view d') w v Fn" and "local_change (view d) (view d') Fc Fn"
  shows "settled am view d v0 ob J (insert ob (Fc \<union> Fr)) p cur v ch"
  using place_inner [OF ip F w assms(6,5)] assms(4) by (simp add: settled_def)

lemma settled_map:
  assumes fills: "fills am view v" and obj: "\<And>m. v = JObj m \<Longrightarrow> maps_to am view m"
    and rep: "rep (view d) v0 J (insert ob (Fc \<union> Fr))" "holds v0 ob" "jtakes J p" and ip: "in_place (view d) v0 ob J p nd Fc Fr"
    and w: "node_get nd p = Some (VMap i)" and j: "rep (view d) (VMap i) j Fc"
  shows "settled am view d v0 ob J (insert ob (Fc \<union> Fr)) p (CMap i) v (diff_changes j v)"
proof -
  obtain kvs where kvs: "j = JObj kvs" using j by (auto elim: rep_mapE)
  consider (obj) m where "v = JObj m" | (other) "\<not> is_object v" "j \<noteq> v"
    "reconcile_prop am ob p (CMap i) v d = counted one_changed (put_json am ob p v d)"
    by (cases v) (auto simp: is_object_def reconcile_prop.simps kvs)
  then show ?thesis
  proof cases
    case obj
    obtain d' Fn where d': "reconcile_map am i m d = (Inr (diff_changes (JObj kvs) (JObj m)), d')"
        "rep (view d') (VMap i) (JObj m) Fn" "local_change (view d) (view d') Fc Fn"
      using assms(2) [OF obj] j unfolding kvs maps_to_def by blast
    show ?thesis
      by (rule settled_inner [OF ip rep_dom(1) [OF rep(1)] w _ _ d'(3)]) (use d' obj kvs in \<open>simp_all add: reconcile_prop.simps\<close>)
  next
    case other
    then show ?thesis
      using settled_put [OF fills rep other(3)] diff_changes_leaf [of j v] kvs by (simp add: is_array_def)
  qed
qed

lemma settled_list:
  assumes fills: "fills am view v" and arr: "\<And>a. v = JArr a \<Longrightarrow> lists_to am view a"
    and rep: "rep (view d) v0 J (insert ob (Fc \<union> Fr))" "holds v0 ob" "jtakes J p" and ip: "in_place (view d) v0 ob J p nd Fc Fr"
    and w: "node_get nd p = Some (VList i)" and j: "rep (view d) (VList i) j Fc"
  shows "settled am view d v0 ob J (insert ob (Fc \<union> Fr)) p (CList i) v (diff_changes j v)"
proof -
  obtain js where js: "j = JArr js" using j by (auto elim: rep_listE)
  consider (arr) a where "v = JArr a" | (other) "\<not> is_array v" "j \<noteq> v"
    "reconcile_prop am ob p (CList i) v d = counted one_changed (put_json am ob p v d)"
    by (cases v) (auto simp: is_array_def reconcile_prop.simps js)
  then show ?thesis
  proof cases
    case arr
    obtain d' Fn where d': "reconcile_list am i a d = (Inr (diff_changes (JArr js) (JArr a)), d')"
        "rep (view d') (VList i) (JArr a) Fn" "local_change (view d) (view d') Fc Fn"
      using assms(2) [OF arr] j unfolding js lists_to_def by blast
    show ?thesis
      by (rule settled_inner [OF ip rep_dom(1) [OF rep(1)] w _ _ d'(3)]) (use d' arr js in \<open>simp_all add: reconcile_prop.simps\<close>)
  next
    case other
    then show ?thesis
      using settled_put [OF fills rep other(3)] diff_changes_leaf [of j v] js by (simp add: is_object_def)
  qed
qed

lemma settled_scalar:
  assumes fills: "fills am view v"
    and rep: "rep (view d) v0 J (insert ob (Fc \<union> Fr))" "holds v0 ob" "jtakes J p" and ip: "in_place (view d) v0 ob J p nd Fc Fr"
    and w: "node_get nd p = Some (VScalar s)" and j: "rep (view d) (VScalar s) j Fc"
  shows "settled am view d v0 ob J (insert ob (Fc \<union> Fr)) p (CScalar (scalar_to_json s)) v (diff_changes j v)"
proof -
  have js: "j = scalar_to_json s" "plain_scalar s" using j by (auto elim: rep_scalarE)
  then have leaf: "\<not> is_object j" "\<not> is_array j"
    by (cases s; auto simp: is_object_def is_array_def split: option.splits)+
  show ?thesis
  proof (cases "j = v")
    case True
    have "settled am view d v0 ob J (insert ob (Fc \<union> Fr)) p (CScalar (scalar_to_json s)) v no_changes"
        using settled_inner [where view = view and d = d and d' = d, OF ip rep_dom(1) [OF rep(1)] w, of am "CScalar (scalar_to_json s)" v no_changes Fc]
        True leaf js j local_change_refl [of "view d" Fc] by (simp add: reconcile_prop.simps)
    then show ?thesis using True leaf diff_changes_leaf [of j v] by simp
  next
    case False
    have "reconcile_prop am ob p (CScalar (scalar_to_json s)) v d = counted one_changed (put_json am ob p v d)"
      using False js by (simp add: reconcile_prop.simps)
    then show ?thesis
      using settled_put [OF fills rep] diff_changes_leaf [of j v] leaf False by simp
  qed
qed

lemma settles_value:
  assumes ok: "automerge_ok am view" and fills: "fills am view v"
    and obj: "\<And>m. v = JObj m \<Longrightarrow> maps_to am view m" and arr: "\<And>a. v = JArr a \<Longrightarrow> lists_to am view a"
  shows "settles am view v"
  unfolding settles_def
proof (intro allI impI)
  fix d v0 ob J F p
  assume rep: "rep (view d) v0 J F" "holds v0 ob" "jtakes J p"
  obtain nd Fc Fr where F: "F = insert ob (Fc \<union> Fr)" and ip: "in_place (view d) v0 ob J p nd Fc Fr"
    by (rule rep_in_object [OF rep])
  note rep' = rep [unfolded F]
  have "settled am view d v0 ob J F p (current_value (node_get nd p)) v
      (case jchild J p of None \<Rightarrow> one_added | Some j \<Rightarrow> diff_changes j v)"
  proof (cases "node_get nd p")
    case None
    have "settled am view d v0 ob J F p CAbsent v one_added"
      by (rule settled_put [OF fills rep]) (simp add: reconcile_prop.simps)
    then show ?thesis using None ip by (simp add: in_place_def)
  next
    case (Some w)
    then obtain j where j: "jchild J p = Some j" "rep (view d) w j Fc" using ip by (auto simp: in_place_def)
    then show ?thesis
      using settled_map [OF fills obj rep' ip] settled_list [OF fills arr rep' ip] settled_scalar [OF fills rep' ip] Some
      by (cases w) (auto simp: F elim: rep_otherE)
  qed
  then show "\<exists>cur d' F'. current_of am d ob p = Inr cur \<and>
      reconcile_prop am ob p cur v d = (Inr (case jchild J p of None \<Rightarrow> one_added | Some j \<Rightarrow> diff_changes j v), d') \<and>
      rep (view d') v0 (jplace J p v) F' \<and> local_change (view d) (view d') F F'"
    using ok_get [OF ok ip] unfolding settled_def by blast
qed

section \<open>The loops\<close>

lemma settles_in_map:
  assumes "settles am view v" and "rep (view d) (VMap ob) (JObj cur) F"
  shows "\<exists>c d' F'. current_of am d ob (PMap k) = Inr c \<and>
    reconcile_prop am ob (PMap k) c v d =
      (Inr (case map_of cur k of None \<Rightarrow> one_added | Some j \<Rightarrow> diff_changes j v), d') \<and>
    rep (view d') (VMap ob) (JObj (t_put k v cur)) F' \<and> local_change (view d) (view d') F F'"
proof -
  have "holds (VMap ob) ob" "jtakes (JObj cur) (PMap k)" by (simp_all add: holds_def)
  then have "\<exists>c d' F'. current_of am d ob (PMap k) = Inr c \<and>
    reconcile_prop am ob (PMap k) c v d =
      (Inr (case jchild (JObj cur) (PMap k) of None \<Rightarrow> one_added | Some j \<Rightarrow> diff_changes j v), d') \<and>
    rep (view d') (VMap ob) (jplace (JObj cur) (PMap k) v) F' \<and> local_change (view d) (view d') F F'"
    using assms unfolding settles_def by blast
  then show ?thesis by simp
qed

lemma settles_in_list:
  assumes "settles am view v" and "rep (view d) (VList ob) (JArr js) F" and "i < length js"
  shows "\<exists>c d' F'. current_of am d ob (PSeq i) = Inr c \<and>
    reconcile_prop am ob (PSeq i) c v d = (Inr (diff_changes (js ! i) v), d') \<and>
    rep (view d') (VList ob) (JArr (js[i := v])) F' \<and> local_change (view d) (view d') F F'"
proof -
  have "holds (VList ob) ob" "jtakes (JArr js) (PSeq i)" using assms(3) by (simp_all add: holds_def)
  then have "\<exists>c d' F'. current_of am d ob (PSeq i) = Inr c \<and>
    reconcile_prop am ob (PSeq i) c v d =
      (Inr (case jchild (JArr js) (PSeq i) of None \<Rightarrow> one_added | Some j \<Rightarrow> diff_changes j v), d') \<and>
    rep (view d') (VList ob) (jplace (JArr js) (PSeq i) v) F' \<and> local_change (view d) (view d') F F'"
    using assms unfolding settles_def by blast
  then show ?thesis using assms(3) by simp
qed

definition put_all :: "(string \<times> json) list \<Rightarrow> (string \<times> json) list \<Rightarrow> (string \<times> json) list" where
  "put_all kvs cur = fold (\<lambda>b. t_put (fst b) (snd b)) kvs cur"

lemma diff_fields_cong:
  "(\<forall>k \<in> set (keys b). map_of a k = map_of a' k) \<Longrightarrow> diff_fields a b ch = diff_fields a' b ch"
  by (induction b arbitrary: ch) (auto simp: keys_def)

lemma reconcile_entries_rep:
  assumes "\<forall>b \<in> set kvs. settles am view (snd b)" and "distinct (keys kvs)" and "rep (view d) (VMap ob) (JObj cur) F"
  shows "\<exists>d' F'. reconcile_entries am ob kvs ch d = (Inr (diff_fields cur kvs ch), d') \<and>
    rep (view d') (VMap ob) (JObj (put_all kvs cur)) F' \<and> local_change (view d) (view d') F F'"
  using assms
proof (induction kvs arbitrary: cur F ch d)
  case Nil
  then show ?case using local_change_refl by (auto simp: put_all_def)
next
  case (Cons b kvs)
  obtain k v where b: "b = (k, v)" by (cases b)
  let ?ch = "case map_of cur k of None \<Rightarrow> one_added | Some j \<Rightarrow> diff_changes j v"
  obtain c d1 F1 where 1: "current_of am d ob (PMap k) = Inr c" "reconcile_prop am ob (PMap k) c v d = (Inr ?ch, d1)"
      "rep (view d1) (VMap ob) (JObj (t_put k v cur)) F1" "local_change (view d) (view d1) F F1"
    using settles_in_map [where view = view and d = d, OF _ Cons.prems(3), of am v k] Cons.prems(1) b by auto
  have ch: "merge_changes ch ?ch = (case map_of cur k of None \<Rightarrow> ch\<lparr>ch_added := ch_added ch + 1\<rparr> | Some j \<Rightarrow> diff_into j v ch)"
    by (simp add: diff_into_merge merge_changes_def one_added_def no_changes_def split: option.split)
  have same: "diff_fields (t_put k v cur) kvs c' = diff_fields cur kvs c'" for c'
    using Cons.prems(2) b by (intro diff_fields_cong) (auto simp: keys_def t_get_put)
  obtain d2 F2 where 2: "reconcile_entries am ob kvs (merge_changes ch ?ch) d1 = (Inr (diff_fields cur kvs (merge_changes ch ?ch)), d2)"
      "rep (view d2) (VMap ob) (JObj (put_all kvs (t_put k v cur))) F2" "local_change (view d1) (view d2) F1 F2"
    using Cons.IH [OF _ _ 1(3), of "merge_changes ch ?ch"] Cons.prems(1,2) unfolding same by (auto simp: keys_def)
  have "reconcile_entries am ob (b # kvs) ch d = (Inr (diff_fields cur (b # kvs) ch), d2)"
    using 1(1,2) 2(1) by (simp add: b ch)
  then show ?case using 2(2) local_change_trans [OF 1(4) 2(3)] by (auto simp: b put_all_def)
qed

lemma reconcile_items_append:
  assumes "\<forall>v \<in> set vs. appends am view v" and "rep (view d) (VList ob) (JArr js) F" and "len \<le> length js"
  shows "\<exists>d' F'. reconcile_items am ob len (length js) vs ch d = (Inr (ch\<lparr>ch_added := ch_added ch + length vs\<rparr>), d') \<and>
    rep (view d') (VList ob) (JArr (js @ vs)) F' \<and> local_change (view d) (view d') F F'"
  using assms
proof (induction vs arbitrary: js F ch d)
  case Nil
  then show ?case using local_change_refl by auto
next
  case (Cons v vs)
  obtain r d1 F1 where 1: "insert_json am ob (length js) v d = (Inr r, d1)" "rep (view d1) (VList ob) (JArr (js @ [v])) F1"
      "local_change (view d) (view d1) F F1"
    using Cons.prems unfolding appends_def by (meson list.set_intros(1))
  then obtain d2 F2 where 2: "reconcile_items am ob len (length (js @ [v])) vs (ch\<lparr>ch_added := ch_added ch + 1\<rparr>) d1 =
      (Inr (ch\<lparr>ch_added := ch_added ch + 1 + length vs\<rparr>), d2)"
      "rep (view d2) (VList ob) (JArr ((js @ [v]) @ vs)) F2" "local_change (view d1) (view d2) F1 F2"
    using Cons.IH [of d1 "js @ [v]" F1 "ch\<lparr>ch_added := ch_added ch + 1\<rparr>"] Cons.prems by auto
  then show ?case using 1(1) Cons.prems(3) local_change_trans [OF 1(3) 2(3)] by auto
qed

lemma insert_items_rep:
  assumes "\<forall>v \<in> set vs. appends am view v" and "rep (view d) (VList ob) (JArr js) F"
  shows "\<exists>r d' F'. insert_items am ob (length js) vs d = (Inr r, d') \<and>
    rep (view d') (VList ob) (JArr (js @ vs)) F' \<and> local_change (view d) (view d') F F'"
  using assms
proof (induction vs arbitrary: js F d)
  case Nil
  then show ?case using local_change_refl by auto
next
  case (Cons v vs)
  obtain r d1 F1 where 1: "insert_json am ob (length js) v d = (Inr r, d1)" "rep (view d1) (VList ob) (JArr (js @ [v])) F1"
      "local_change (view d) (view d1) F F1"
    using Cons.prems unfolding appends_def by (meson list.set_intros(1))
  then obtain r' d2 F2 where 2: "insert_items am ob (length (js @ [v])) vs d1 = (Inr r', d2)"
      "rep (view d2) (VList ob) (JArr ((js @ [v]) @ vs)) F2" "local_change (view d1) (view d2) F1 F2"
    using Cons.IH [of d1 "js @ [v]" F1] Cons.prems by auto
  then show ?case using 1(1) local_change_trans [OF 1(3) 2(3)] by auto
qed

lemma reconcile_items_rep:
  assumes "\<forall>v \<in> set vs. settles am view v \<and> appends am view v" and "rep (view d) (VList ob) (JArr (old @ rest)) F"
    and "length rest \<le> length vs"
  shows "\<exists>d' F'. reconcile_items am ob (length (old @ rest)) (length old) vs ch d =
      (Inr ((diff_items rest vs ch)\<lparr>ch_added := ch_added (diff_items rest vs ch) + (length vs - length rest)\<rparr>), d') \<and>
    rep (view d') (VList ob) (JArr (old @ vs)) F' \<and> local_change (view d) (view d') F F'"
  using assms
proof (induction rest arbitrary: old vs F ch d)
  case Nil
  then show ?case using reconcile_items_append [of vs am view d ob old F "length old" ch] by (cases vs) auto
next
  case (Cons x rest)
  then obtain v vs' where vs: "vs = v # vs'" by (cases vs) auto
  obtain c d1 F1 where 1: "current_of am d ob (PSeq (length old)) = Inr c"
      "reconcile_prop am ob (PSeq (length old)) c v d = (Inr (diff_changes x v), d1)"
      "rep (view d1) (VList ob) (JArr ((old @ [v]) @ rest)) F1" "local_change (view d) (view d1) F F1"
    using settles_in_list [where view = view and d = d, OF _ Cons.prems(2), of am v "length old"] Cons.prems(1) vs by auto
  let ?ch = "diff_into x v ch"
  obtain d2 F2 where 2: "reconcile_items am ob (length ((old @ [v]) @ rest)) (length (old @ [v])) vs' ?ch d1 =
      (Inr ((diff_items rest vs' ?ch)\<lparr>ch_added := ch_added (diff_items rest vs' ?ch) + (length vs' - length rest)\<rparr>), d2)"
      "rep (view d2) (VList ob) (JArr ((old @ [v]) @ vs')) F2" "local_change (view d1) (view d2) F1 F2"
    using Cons.IH [OF _ 1(3), of vs' ?ch] Cons.prems vs by auto
  have "reconcile_items am ob (length (old @ x # rest)) (length old) vs ch d =
      (Inr ((diff_items (x # rest) vs ch)\<lparr>ch_added := ch_added (diff_items (x # rest) vs ch) + (length vs - length (x # rest))\<rparr>), d2)"
    using 1(1,2) 2(1) by (simp add: vs diff_into_merge)
  then show ?case using 2(2) local_change_trans [OF 1(4) 2(3)] by (auto simp: vs)
qed

section \<open>Deleting\<close>

lemma rep_delete_key:
  assumes "rep h (VMap ob) (JObj cur) F" and "h ob = Some (MapNode t)"
  shows "\<exists>F'. rep (h(ob \<mapsto> MapNode (t_del k t))) (VMap ob) (JObj (t_del k cur)) F' \<and> F' \<subseteq> F \<and> ob \<in> F \<and> keys t = keys cur"
proof -
  obtain G where m: "F = insert ob G" "ordered t" "keys cur = keys t" "reps h (vals t) (vals cur) G" "ob \<notin> G"
    by (rule rep_mapE [OF assms(1)]) (use assms(2) in simp)
  have ord: "ordered cur" using m by (simp add: ordered_of_keys)
  obtain as bs as' bs' where sp: "t = as @ map (Pair k) (binding t k) @ bs" "cur = as' @ map (Pair k) (binding cur k) @ bs'"
    "length as' = length as" "\<forall>v. t_put k v t = as @ (k, v) # bs" "\<forall>v. t_put k v cur = as' @ (k, v) # bs'"
    "t_del k t = as @ bs" "t_del k cur = as' @ bs'"
    by (rule table_split2 [OF m(2) ord m(3), of k])
  have vs: "reps h (vals as @ binding t k @ vals bs) (vals as' @ binding cur k @ vals bs') G"
    using m(4) vals_split [OF sp(1)] vals_split [OF sp(2)] by simp
  obtain Fo Fr where r: "G = Fo \<union> Fr"
    "\<And>h' ns ns' Fn. (\<forall>x \<in> Fr. h' x = h x) \<Longrightarrow> reps h' ns ns' Fn \<Longrightarrow> Fn \<inter> Fr = {} \<Longrightarrow>
       reps h' (vals as @ ns @ vals bs) (vals as' @ ns' @ vals bs') (Fn \<union> Fr)"
    using reps_splice [OF vs] sp(3) binding_length [OF m(3)] by (auto simp: vals_def)
  let ?h = "h(ob \<mapsto> MapNode (t_del k t))"
  have "reps ?h (vals (t_del k t)) (vals (t_del k cur)) Fr"
    using r(2) [of ?h "[]" "[]" "{}"] m(5) r(1) by (auto simp: sp(6,7) vals_def reps_Nil)
  then have "rep ?h (VMap ob) (JObj (t_del k cur)) (insert ob Fr)"
    using m r(1) keys_t_put_eq(2) [OF m(2) ord m(3)] by (intro rep_map) (auto simp: ordered_t_del)
  then show ?thesis using m r(1) by auto
qed

lemma rep_delete_last:
  assumes "rep h (VList ob) (JArr js) F" and "h ob = Some (ListNode xs)" and "js \<noteq> []"
  shows "\<exists>F'. rep (h(ob \<mapsto> ListNode (butlast xs))) (VList ob) (JArr (butlast js)) F' \<and> F' \<subseteq> F \<and> ob \<in> F"
proof -
  obtain G where m: "F = insert ob G" "reps h xs js G" "ob \<notin> G"
    by (rule rep_listE [OF assms(1)]) (use assms(2) in simp)
  have "xs \<noteq> []" using reps_length [OF m(2)] assms(3) by auto
  then have "reps h (butlast xs @ [last xs]) js G" using m(2) by simp
  then obtain js1 js2 F1 where s: "js = js1 @ js2" "length js1 = length (butlast xs)" "reps h (butlast xs) js1 F1" "F1 \<subseteq> G"
    unfolding reps_append by blast
  then have "js1 = butlast js" using reps_length [OF m(2)] by (simp add: butlast_append butlast_conv_take)
  then have "reps (h(ob \<mapsto> ListNode (butlast xs))) (butlast xs) (butlast js) F1"
    using s m(3) by (auto intro!: rep_frame(2) [of h])
  then have "rep (h(ob \<mapsto> ListNode (butlast xs))) (VList ob) (JArr (butlast js)) (insert ob F1)"
    using s(4) m(3) by (intro rep_list) auto
  then show ?thesis using m(1) s(4) by auto
qed

lemma local_change_at: "F' \<subseteq> F \<Longrightarrow> ob \<in> F \<Longrightarrow> local_change h (h(ob \<mapsto> n)) F F'"
  by (auto simp: local_change_def)

lemma ok_delete:
  assumes "automerge_ok am view" and "view d ob = Some nd" and "node_get nd p \<noteq> None"
  shows "\<exists>d'. am_delete am ob p d = (Inr (), d') \<and> view d' = (view d)(ob \<mapsto> node_delete nd p)"
  using assms unfolding automerge_ok_def law_delete_def by blast

lemma delete_keys_rep:
  assumes ok: "automerge_ok am view" and "rep (view d) (VMap ob) (JObj cur) F" and "distinct ks" and "set ks \<subseteq> set (keys cur)"
  shows "\<exists>d' F'. delete_keys am ob new ks ch d =
      (Inr (ch\<lparr>ch_removed := ch_removed ch + length (filter (\<lambda>k. map_of new k = None) ks)\<rparr>), d') \<and>
    rep (view d') (VMap ob) (JObj (filter (\<lambda>b. fst b \<in> set ks \<longrightarrow> map_of new (fst b) \<noteq> None) cur)) F' \<and>
    local_change (view d) (view d') F F'"
  using assms(2-)
proof (induction ks arbitrary: cur F ch d)
  case Nil
  then show ?case using local_change_refl by auto
next
  case (Cons k ks)
  show ?case
  proof (cases "map_of new k")
    case None
    obtain t where t: "view d ob = Some (MapNode t)" "ordered t" "keys cur = keys t" by (rule rep_mapE [OF Cons.prems(1)]) auto
    then have "t_get t k \<noteq> None" using Cons.prems(3) by (auto simp: keys_def map_of_eq_None_iff)
    then obtain d1 where d1: "am_delete am ob (PMap k) d = (Inr (), d1)" "view d1 = (view d)(ob \<mapsto> MapNode (t_del k t))"
      using ok_delete [OF ok t(1), of "PMap k"] by auto
    obtain F1 where F1: "rep (view d1) (VMap ob) (JObj (t_del k cur)) F1" "local_change (view d) (view d1) F F1"
      using rep_delete_key [OF Cons.prems(1) t(1), of k] local_change_at d1(2) by metis
    have f: "filter (\<lambda>b. fst b \<in> set ks \<longrightarrow> map_of new (fst b) \<noteq> None) (t_del k cur) =
        filter (\<lambda>b. fst b \<in> set (k # ks) \<longrightarrow> map_of new (fst b) \<noteq> None) cur"
      using None by (auto simp: t_del_def intro!: filter_cong)
    have "set (keys (t_del k cur)) = set (keys cur) - {k}" by (auto simp: t_del_def keys_def)
    then have "set ks \<subseteq> set (keys (t_del k cur))" using Cons.prems(2,3) by auto
    then obtain d2 F2 where 2: "delete_keys am ob new ks (ch\<lparr>ch_removed := ch_removed ch + 1\<rparr>) d1 =
        (Inr (ch\<lparr>ch_removed := ch_removed ch + 1 + length (filter (\<lambda>k. map_of new k = None) ks)\<rparr>), d2)"
      "rep (view d2) (VMap ob) (JObj (filter (\<lambda>b. fst b \<in> set (k # ks) \<longrightarrow> map_of new (fst b) \<noteq> None) cur)) F2"
      "local_change (view d1) (view d2) F1 F2"
      using Cons.IH [OF F1(1), of "ch\<lparr>ch_removed := ch_removed ch + 1\<rparr>"] Cons.prems(2) unfolding f by auto
    have "delete_keys am ob new (k # ks) ch d =
        (Inr (ch\<lparr>ch_removed := ch_removed ch + length (filter (\<lambda>k. map_of new k = None) (k # ks))\<rparr>), d2)"
      using None d1(1) 2(1) by simp
    then show ?thesis using 2(2) local_change_trans [OF F1(2) 2(3)] by blast
  next
    case (Some v)
    have f: "filter (\<lambda>b. fst b \<in> set ks \<longrightarrow> map_of new (fst b) \<noteq> None) cur =
        filter (\<lambda>b. fst b \<in> set (k # ks) \<longrightarrow> map_of new (fst b) \<noteq> None) cur"
      using Some by (auto intro!: filter_cong)
    have "set ks \<subseteq> set (keys cur)" using Cons.prems(3) by simp
    from Cons.IH [OF Cons.prems(1) _ this, of ch] show ?thesis
      using Some Cons.prems(2) unfolding f by simp
  qed
qed

lemma trim_list_rep:
  assumes ok: "automerge_ok am view" and "rep (view d) (VList ob) (JArr js) F" and "len = length js"
  shows "\<exists>d' F'. trim_list am ob n len ch d = (Inr (ch\<lparr>ch_removed := ch_removed ch + (len - n)\<rparr>, min len n), d') \<and>
    rep (view d') (VList ob) (JArr (take n js)) F' \<and> local_change (view d) (view d') F F'"
  using assms(2-)
proof (induction len arbitrary: js F ch d)
  case 0
  then show ?case using local_change_refl by (auto simp: trim_list.simps [of _ _ _ 0])
next
  case (Suc len)
  show ?case
  proof (cases "n < Suc len")
    case True
    obtain xs where xs: "view d ob = Some (ListNode xs)" "length js = length xs"
      by (rule rep_listE [OF Suc.prems(1)]) (use reps_length in auto)
    have "length xs = Suc len" using xs(2) Suc.prems(2) by simp
    then have last: "node_delete (ListNode xs) (PSeq len) = ListNode (butlast xs)" "node_get (ListNode xs) (PSeq len) \<noteq> None"
      by (simp_all add: butlast_conv_take)
    obtain d1 where d1: "am_delete am ob (PSeq len) d = (Inr (), d1)" "view d1 = (view d)(ob \<mapsto> ListNode (butlast xs))"
      using ok_delete [OF ok xs(1) last(2)] last(1) by auto
    have "js \<noteq> []" using Suc.prems(2) by auto
    then obtain F1 where F1: "rep (view d1) (VList ob) (JArr (butlast js)) F1" "local_change (view d) (view d1) F F1"
      using rep_delete_last [OF Suc.prems(1) xs(1)] local_change_at d1(2) by metis
    have take: "take n (butlast js) = take n js" "len = length (butlast js)" using True Suc.prems(2) by (auto simp: butlast_conv_take)
    obtain d2 F2 where 2: "trim_list am ob n len (ch\<lparr>ch_removed := ch_removed ch + 1\<rparr>) d1 =
        (Inr (ch\<lparr>ch_removed := ch_removed ch + 1 + (len - n)\<rparr>, min len n), d2)"
        "rep (view d2) (VList ob) (JArr (take n js)) F2" "local_change (view d1) (view d2) F1 F2"
      using Suc.IH [OF F1(1) take(2), of "ch\<lparr>ch_removed := ch_removed ch + 1\<rparr>"] unfolding take(1) by auto
    have "trim_list am ob n (Suc len) ch d = (Inr (ch\<lparr>ch_removed := ch_removed ch + (Suc len - n)\<rparr>, min (Suc len) n), d2)"
      using True d1(1) 2(1) by (subst trim_list.simps) (simp add: Suc_diff_le)
    then show ?thesis using 2(2) local_change_trans [OF F1(2) 2(3)] by blast
  next
    case False
    then show ?thesis using Suc.prems local_change_refl by (subst trim_list.simps) auto
  qed
qed

section \<open>A JSON value is reached, and counted as a difference\<close>

lemma map_of_put_all: "distinct (keys kvs) \<Longrightarrow> map_of (put_all kvs cur) = map_of cur ++ map_of kvs"
proof (induction kvs arbitrary: cur)
  case (Cons b kvs)
  have "map_of kvs (fst b) = None" using Cons.prems by (simp add: keys_def map_of_eq_None_iff)
  then show ?case
    using Cons by (cases b) (auto simp: put_all_def keys_def map_add_def t_get_put fun_eq_iff split: option.split)
qed (simp add: put_all_def)

lemma ordered_put_all: "ordered cur \<Longrightarrow> ordered (put_all kvs cur)"
  by (induction kvs arbitrary: cur) (auto simp: put_all_def ordered_t_put)

lemma ordered_filter: "ordered t \<Longrightarrow> ordered (filter P t)"
  by (induction t) (auto simp: ordered_Cons keys_def)

lemma put_all_kept:
  assumes "ordered cur" and "ordered kvs"
  shows "put_all kvs (filter (\<lambda>b. map_of kvs (fst b) \<noteq> None) cur) = kvs"
proof (rule ordered_eqI)
  let ?kept = "filter (\<lambda>b. map_of kvs (fst b) \<noteq> None) cur"
  show "ordered (put_all kvs ?kept)" using assms by (simp add: ordered_put_all ordered_filter)
  have "map_of ?kept k = None" if "map_of kvs k = None" for k
    using that by (auto simp: map_of_eq_None_iff)
  then show "map_of (put_all kvs ?kept) = map_of kvs"
    using assms by (auto simp: map_of_put_all ordered_distinct map_add_def fun_eq_iff split: option.split)
qed (rule assms)

lemma removed_keys_filter: "removed_keys cur new = length (filter (\<lambda>k. map_of new k = None) (keys cur))"
  by (induction cur) (auto simp: keys_def)

lemma map_of_filter_kept:
  "map_of kvs k \<noteq> None \<Longrightarrow> map_of (filter (\<lambda>b. map_of kvs (fst b) \<noteq> None) cur) k = map_of cur k"
  by (induction cur) auto

lemma maps_to_object:
  assumes ok: "automerge_ok am view" and set: "\<forall>b \<in> set kvs. settles am view (snd b)" and ord: "ordered kvs"
  shows "maps_to am view kvs"
  unfolding maps_to_def
proof (intro allI impI)
  fix d ob cur F
  assume rep: "rep (view d) (VMap ob) (JObj cur) F"
  obtain t where t: "view d ob = Some (MapNode t)" "ordered t" "keys cur = keys t" by (rule rep_mapE [OF rep]) auto
  have ks: "am_keys am d ob = keys cur" using ok t unfolding automerge_ok_def law_read_def by simp
  have cur: "ordered cur" using t by (simp add: ordered_of_keys)
  let ?kept = "filter (\<lambda>b. map_of kvs (fst b) \<noteq> None) cur"
  let ?ch = "no_changes\<lparr>ch_removed := removed_keys cur kvs\<rparr>"
  have keep: "filter (\<lambda>b. fst b \<in> set (keys cur) \<longrightarrow> map_of kvs (fst b) \<noteq> None) cur = ?kept"
    by (auto simp: keys_def intro!: filter_cong)
  obtain d1 F1 where 1: "delete_keys am ob kvs (am_keys am d ob) no_changes d = (Inr ?ch, d1)"
      "rep (view d1) (VMap ob) (JObj ?kept) F1" "local_change (view d) (view d1) F F1"
    using delete_keys_rep [where view = view and d = d, OF ok rep ordered_distinct [OF cur] subset_refl, of kvs no_changes]
    unfolding keep ks by (auto simp: removed_keys_filter no_changes_def)
  obtain d2 F2 where 2: "reconcile_entries am ob kvs ?ch d1 = (Inr (diff_fields ?kept kvs ?ch), d2)"
      "rep (view d2) (VMap ob) (JObj kvs) F2" "local_change (view d1) (view d2) F1 F2"
    using reconcile_entries_rep [where view = view and d = d1, OF set ordered_distinct [OF ord] 1(2), of ?ch]
    unfolding put_all_kept [OF cur ord] by blast
  have "diff_fields ?kept kvs ?ch = diff_fields cur kvs ?ch"
    by (intro diff_fields_cong ballI map_of_filter_kept) (simp add: keys_def map_of_eq_None_iff)
  also have "\<dots> = merge_changes ?ch (diff_fields cur kvs no_changes)"
    using diff_merge(2) [of cur kvs ?ch no_changes] by simp
  also have "\<dots> = diff_changes (JObj cur) (JObj kvs)"
    by (simp add: diff_changes_def diff_into.simps Let_def merge_changes_def no_changes_def)
  finally have "reconcile_map am ob kvs d = (Inr (diff_changes (JObj cur) (JObj kvs)), d2)"
    using 1(1) 2(1) by (simp add: reconcile_map.simps)
  then show "\<exists>d' F'. reconcile_map am ob kvs d = (Inr (diff_changes (JObj cur) (JObj kvs)), d') \<and>
      rep (view d') (VMap ob) (JObj kvs) F' \<and> local_change (view d) (view d') F F'"
    using 2(2) local_change_trans [OF 1(3) 2(3)] by blast
qed

lemma diff_items_take: "diff_items (take (length ys) xs) ys ch = diff_items xs ys ch"
  by (induction xs ys ch rule: diff_into_diff_fields_diff_items.induct(3) [where P = "\<lambda>_ _ _. True" and Q = "\<lambda>_ _ _. True"]) auto

lemma lists_to_array:
  assumes ok: "automerge_ok am view" and set: "\<forall>v \<in> set xs. settles am view v \<and> appends am view v"
  shows "lists_to am view xs"
  unfolding lists_to_def
proof (intro allI impI)
  fix d ob cur F
  assume rep: "rep (view d) (VList ob) (JArr cur) F"
  obtain ws where ws: "view d ob = Some (ListNode ws)" "length cur = length ws"
    by (rule rep_listE [OF rep]) (use reps_length in auto)
  have len: "am_length am d ob = length cur" using ok ws unfolding automerge_ok_def law_read_def by simp
  let ?ch = "no_changes\<lparr>ch_removed := length cur - length xs\<rparr>" and ?kept = "take (length xs) cur"
  obtain d1 F1 where 1: "trim_list am ob (length xs) (am_length am d ob) no_changes d = (Inr (?ch, length ?kept), d1)"
      "rep (view d1) (VList ob) (JArr ?kept) F1" "local_change (view d) (view d1) F F1"
    using trim_list_rep [OF ok rep refl, of "length xs" no_changes] len by (auto simp: no_changes_def)
  let ?n = "length xs - length ?kept"
  obtain d2 F2 where 2: "reconcile_items am ob (length ?kept) 0 xs ?ch d1 =
      (Inr ((diff_items ?kept xs ?ch)\<lparr>ch_added := ch_added (diff_items ?kept xs ?ch) + ?n\<rparr>), d2)"
      "rep (view d2) (VList ob) (JArr xs) F2" "local_change (view d1) (view d2) F1 F2"
    using reconcile_items_rep [where view = view and d = d1 and old = "[]" and rest = ?kept, OF set, of ob F1 ?ch] 1(2) by auto
  have "diff_items ?kept xs ?ch = merge_changes ?ch (diff_items cur xs no_changes)"
    using diff_merge(3) [of cur xs ?ch no_changes] by (simp add: diff_items_take)
  then have "(diff_items ?kept xs ?ch)\<lparr>ch_added := ch_added (diff_items ?kept xs ?ch) + ?n\<rparr> = diff_changes (JArr cur) (JArr xs)"
    by (simp add: diff_changes_def diff_into.simps Let_def merge_changes_def no_changes_def min_def)
  then have "reconcile_list am ob xs d = (Inr (diff_changes (JArr cur) (JArr xs)), d2)"
    using 1(1) 2(1) by (simp add: reconcile_list.simps)
  then show "\<exists>d' F'. reconcile_list am ob xs d = (Inr (diff_changes (JArr cur) (JArr xs)), d') \<and>
      rep (view d') (VList ob) (JArr xs) F' \<and> local_change (view d) (view d') F F'"
    using 2(2) local_change_trans [OF 1(3) 2(3)] by blast
qed

lemma builds_map: "maps_to am view m \<Longrightarrow> builds view OMap (\<lambda>i d. counted () (reconcile_map am i m d)) (JObj m)"
  unfolding builds_def maps_to_def jempty_def by (fastforce simp: counted_def)

lemma builds_list:
  assumes "\<forall>v \<in> set xs. appends am view v"
  shows "builds view OList (\<lambda>i d. insert_items am i 0 xs d) (JArr xs)"
  unfolding builds_def jempty_def
proof (intro allI impI)
  fix i d
  assume "rep (view d) (object_value OList i) (case OList of OMap \<Rightarrow> JObj [] | OList \<Rightarrow> JArr []) {i}"
  then show "\<exists>r d' F'. insert_items am i 0 xs d = (Inr r, d') \<and> rep (view d') (object_value OList i) (JArr xs) F' \<and>
      local_change (view d) (view d') {i} F'"
    using insert_items_rep [where view = view and d = d, OF assms, of i "[]" "{i}"] by simp
qed

lemma number_round_trip: "number_ok n \<Longrightarrow> scalar_to_json (number_scalar n) = JNum n \<and> plain_scalar (number_scalar n)"
  by (cases n) auto

lemma writes_scalar:
  assumes ok: "automerge_ok am view" and s: "plain_scalar s" "scalar_to_json s = v"
    and eq: "\<And>ob p d. put_json am ob p v d = am_put am ob p s d" "\<And>ob i d. insert_json am ob i v d = am_insert am ob i s d"
  shows "fills am view v \<and> appends am view v"
  unfolding fills_def appends_def eq
  using put_scalar [OF ok s(1)] insert_scalar [OF ok s(1)] unfolding s(2) by blast

lemma writes_object:
  assumes ok: "automerge_ok am view" and b: "builds view ty g v"
    and eq: "\<And>ob p d. put_json am ob p v d = and_then (am_put_object am ob p ty d) g"
      "\<And>ob i d. insert_json am ob i v d = and_then (am_insert_object am ob i ty d) g"
  shows "fills am view v \<and> appends am view v"
  unfolding fills_def appends_def eq using put_object [OF ok b] insert_object [OF ok b] by blast

lemma reaches:
  assumes ok: "automerge_ok am view"
  shows "jwf v \<Longrightarrow> fills am view v \<and> appends am view v \<and> settles am view v"
proof (induction v)
  case (JNum n)
  have "fills am view (JNum n) \<and> appends am view (JNum n)"
    by (rule writes_scalar [OF ok]) (use number_round_trip [of n] JNum in \<open>auto simp: put_json.simps insert_json.simps\<close>)
  then show ?case using settles_value [OF ok] by blast
next
  case (JArr xs)
  then have xs: "\<forall>v \<in> set xs. fills am view v \<and> appends am view v \<and> settles am view v" by (auto simp: list_all_iff)
  then have "fills am view (JArr xs) \<and> appends am view (JArr xs)"
    by (intro writes_object [OF ok builds_list]) (auto simp: put_json.simps insert_json.simps)
  then show ?case using settles_value [OF ok] lists_to_array [OF ok, of xs] xs by blast
next
  case (JObj kvs)
  then have "\<forall>b \<in> set kvs. settles am view (snd b)" "ordered kvs" by (auto simp: list_all_iff snds.simps)
  then have m: "maps_to am view kvs" using maps_to_object [OF ok] by blast
  then have "fills am view (JObj kvs) \<and> appends am view (JObj kvs)"
    by (intro writes_object [OF ok builds_map]) (auto simp: put_json.simps insert_json.simps)
  then show ?case using settles_value [OF ok] m by blast
next
  case JNull
  have "fills am view JNull \<and> appends am view JNull"
    by (rule writes_scalar [OF ok, of SNull]) (auto simp: put_json.simps insert_json.simps)
  then show ?case using settles_value [OF ok] by blast
next
  case (JBool b)
  have "fills am view (JBool b) \<and> appends am view (JBool b)"
    by (rule writes_scalar [OF ok, of "SBoolean b"]) (auto simp: put_json.simps insert_json.simps)
  then show ?case using settles_value [OF ok] by blast
next
  case (JStr s)
  have "fills am view (JStr s) \<and> appends am view (JStr s)"
    by (rule writes_scalar [OF ok, of "SStr s"]) (auto simp: put_json.simps insert_json.simps)
  then show ?case using settles_value [OF ok] by blast
qed

end
