(* ===== verification/DocStore.thy ===== *)
theory DocStore
  imports Reconcile "HOL-Library.Countable"
begin

text \<open>
  What the document store promises (\<open>DocStore\<close> of \<open>crates/localspace-core/src/docs.rs\<close>), over any Automerge that keeps the laws of
  \<open>Reconcile\<close>: after \<open>apply_json\<close> the document reads as the JSON it was given, the changes counted are those of \<open>diff_changes\<close>
  and are empty exactly when nothing differed, no other document is touched, and a snapshot brings back what the document read as when it
  was taken.

  The witnesses instantiate the library with a document kept as a list of nodes, for which the laws are proved.
\<close>

section \<open>A document that reads as a JSON value\<close>

definition holds_json :: "('d, 'o) automerge \<Rightarrow> ('d \<Rightarrow> 'o heap) \<Rightarrow> 'd doc_store \<Rightarrow> string \<Rightarrow> json \<Rightarrow> bool" where
  "holds_json am view st i j \<longleftrightarrow>
     (\<exists>d F. t_get (ds_docs st) i = Some (DCrdt d) \<and> rep (view d) (VMap (am_root am)) j F)"

lemma holds_jsonE:
  assumes "holds_json am view st i j"
  obtains d F where "t_get (ds_docs st) i = Some (DCrdt d)" "rep (view d) (VMap (am_root am)) j F"
  using assms by (auto simp: holds_json_def)

lemma crdt_json_rep: "automerge_ok am view \<Longrightarrow> rep (view d) (VMap (am_root am)) j F \<Longrightarrow> crdt_json am d = j"
  by (force simp: automerge_ok_def law_document_def crdt_json_def)

lemma holds_json_read: "automerge_ok am view \<Longrightarrow> holds_json am view st i j \<Longrightarrow> ds_json am hash st i = j"
  by (auto simp: ds_json_def crdt_json_rep elim: holds_jsonE)

lemma ds_put_get [simp]: "t_get (ds_docs (ds_put i doc st)) k = (if k = i then Some doc else t_get (ds_docs st) k)"
  by (simp add: ds_put_def h_get_put)

lemma ds_put_as_get [simp]: "t_get (ds_docs (ds_put_as kind i doc st)) k = (if k = i then Some doc else t_get (ds_docs st) k)"
  by (simp add: ds_put_as_def)

lemma ds_kind_put [simp]: "ds_kind (ds_put i doc st) k = ds_kind st k"
  by (simp add: ds_put_def ds_kind_def)

lemma rep_jwf:
  "rep h v j F \<Longrightarrow> jwf j"
  "reps h vs js G \<Longrightarrow> list_all jwf js"
proof (induction rule: rep_reps.inducts)
  case (rep_scalar s)
  then show ?case by (cases s) (auto split: option.splits)
next
  case (rep_map ob t kvs F)
  then show ?case using ordered_of_keys [of t kvs] by (simp add: vals_def list_all_iff)
qed auto

lemma rep_root_object: "rep h (VMap ob) j F \<Longrightarrow> \<exists>kvs. j = JObj kvs"
  by (auto elim: rep_mapE)

text \<open>The whole of a reconciliation at the root.\<close>

lemma reconcile_root:
  assumes ok: "automerge_ok am view" and rep: "rep (view d) (VMap (am_root am)) j F" and new: "jwf (JObj kvs)"
  shows "\<exists>d' F'. reconcile_map am (am_root am) kvs d = (Inr (diff_changes j (JObj kvs)), d') \<and>
    rep (view d') (VMap (am_root am)) (JObj kvs) F'"
proof -
  have "\<forall>b \<in> set kvs. settles am view (snd b)" using reaches [OF ok] new by (auto simp: list_all_iff)
  then have "maps_to am view kvs" using maps_to_object [OF ok] new by simp
  then show ?thesis using rep rep_root_object [OF rep] unfolding maps_to_def by blast
qed

lemma apply_json_holds:
  assumes ok: "automerge_ok am view" and cur: "holds_json am view st i j" and new: "jwf (JObj kvs)"
  shows "\<exists>st'. apply_json am to_text i (JObj kvs) st = (Inr (diff_changes j (JObj kvs)), st') \<and>
    holds_json am view st' i (JObj kvs) \<and> (\<forall>k. k \<noteq> i \<longrightarrow> t_get (ds_docs st') k = t_get (ds_docs st) k) \<and> ds_kinds st' = ds_kinds st"
proof -
  obtain d F where d: "t_get (ds_docs st) i = Some (DCrdt d)" "rep (view d) (VMap (am_root am)) j F"
    using cur by (rule holds_jsonE)
  obtain d' F' where d': "reconcile_map am (am_root am) kvs d = (Inr (diff_changes j (JObj kvs)), d')"
      "rep (view d') (VMap (am_root am)) (JObj kvs) F'"
    using reconcile_root [OF ok d(2) new] by blast
  show ?thesis
    by (rule exI [of _ "ds_put i (DCrdt d') st"])
       (use d d' in \<open>auto simp: apply_json_def holds_json_def ds_put_def h_get_put\<close>)
qed

section \<open>A document as a list of nodes\<close>

type_synonym flat = "nat node list"

definition flat_view :: "flat \<Rightarrow> nat heap" where
  "flat_view d i = (if i < length d then Some (d ! i) else None)"

definition flat_at :: "flat \<Rightarrow> nat \<Rightarrow> (nat node \<Rightarrow> (string, 'a) result) \<Rightarrow> (string, 'a) result" where
  "flat_at d i f = (if i < length d then f (d ! i) else Inl ''no such object'')"

definition flat_get :: "flat \<Rightarrow> nat \<Rightarrow> am_prop \<Rightarrow> (string, nat am_value option) result" where
  "flat_get d i p = flat_at d i (\<lambda>nd. if node_takes nd p then Inr (node_get nd p) else Inl ''invalid property'')"

definition flat_write :: "nat \<Rightarrow> (nat node \<Rightarrow> nat node) \<Rightarrow> flat \<Rightarrow> (string, unit) result \<times> flat" where
  "flat_write i f d = (Inr (), d[i := f (d ! i)])"

definition flat_make :: "nat \<Rightarrow> (nat \<Rightarrow> nat node \<Rightarrow> nat node) \<Rightarrow> obj_type \<Rightarrow> flat \<Rightarrow> (string, nat) result \<times> flat" where
  "flat_make i f ty d = (Inr (length d), d[i := f (length d) (d ! i)] @ [empty_node ty])"

fun node_insert :: "'o node \<Rightarrow> nat \<Rightarrow> 'o am_value \<Rightarrow> 'o node" where
  "node_insert (ListNode xs) n v = ListNode (take n xs @ v # drop n xs)"
| "node_insert nd _ _ = nd"

fun flat_json :: "nat \<Rightarrow> flat \<Rightarrow> nat am_value \<Rightarrow> json" where
  "flat_json fuel d (VScalar s) = scalar_to_json s"
| "flat_json 0 d v = JNull"
| "flat_json (Suc fuel) d v =
     (let i = (case v of VMap i \<Rightarrow> i | VList i \<Rightarrow> i | VOther i \<Rightarrow> i | VScalar _ \<Rightarrow> 0)
      in if i < length d
         then (case d ! i of
             MapNode t \<Rightarrow> JObj (map (\<lambda>b. (fst b, flat_json fuel d (snd b))) t)
           | ListNode xs \<Rightarrow> JArr (map (flat_json fuel d) xs))
         else JNull)"

instance scalar :: countable by countable_datatype
instance am_value :: (countable) countable by countable_datatype
instance node :: (countable) countable by countable_datatype

definition flat_save :: "flat \<Rightarrow> string" where
  "flat_save d = replicate (Suc (to_nat d)) CHR ''0''"

definition flat_load :: "string \<Rightarrow> (string, flat) result" where
  "flat_load b = Inr (from_nat (length b - 1))"

definition flat_automerge :: "(flat, nat) automerge" where
  "flat_automerge = \<lparr>
     am_new = [MapNode []], am_root = 0,
     am_keys = (\<lambda>d i. if i < length d then (case d ! i of MapNode t \<Rightarrow> keys t | _ \<Rightarrow> []) else []),
     am_length = (\<lambda>d i. if i < length d then (case d ! i of ListNode xs \<Rightarrow> length xs | _ \<Rightarrow> 0) else 0),
     am_get = flat_get,
     am_delete = (\<lambda>i p. flat_write i (\<lambda>nd. node_delete nd p)),
     am_put = (\<lambda>i p s. flat_write i (\<lambda>nd. node_put nd p (VScalar s))),
     am_put_object = (\<lambda>i p ty. flat_make i (\<lambda>new nd. node_put nd p (object_value ty new)) ty),
     am_insert = (\<lambda>i n s. flat_write i (\<lambda>nd. node_insert nd n (VScalar s))),
     am_insert_object = (\<lambda>i n ty. flat_make i (\<lambda>new nd. node_insert nd n (object_value ty new)) ty),
     am_save = (\<lambda>d. (flat_save d, d)), am_load = flat_load,
     am_get_heads = (\<lambda>d. (if d = [MapNode []] then [] else [''head''], d)),
     am_json = (\<lambda>d. Inr (flat_json (Suc (length d)) d (VMap 0)))\<rparr>"

lemma flat_view_write: "flat_view d i = Some nd \<Longrightarrow> flat_view (d[i := n]) = (flat_view d)(i \<mapsto> n)"
  by (auto simp: flat_view_def fun_eq_iff nth_list_update split: if_splits)

lemma flat_view_make:
  "flat_view d i = Some nd \<Longrightarrow> flat_view (d[i := n] @ [e]) = (flat_view d)(length d \<mapsto> e, i \<mapsto> n)"
  by (auto simp: flat_view_def fun_eq_iff nth_append nth_list_update split: if_splits)

lemma flat_viewD: "flat_view d i = Some nd \<Longrightarrow> i < length d \<and> d ! i = nd"
  by (auto simp: flat_view_def split: if_splits)

lemma rep_finite: "rep h v j F \<Longrightarrow> finite F" "reps h vs js G \<Longrightarrow> finite G"
  by (induction rule: rep_reps.inducts) auto

lemma zip_tables: "keys kvs = keys t \<Longrightarrow> map f (vals t) = vals kvs \<Longrightarrow> map (\<lambda>b. (fst b, f (snd b))) t = kvs"
  by (induction t arbitrary: kvs) (auto simp: keys_def vals_def Cons_eq_map_conv)

lemma flat_json_rep:
  "rep (flat_view d) v j F \<Longrightarrow> (\<forall>fuel. card F < fuel \<longrightarrow> flat_json fuel d v = j)"
  "reps (flat_view d) vs js G \<Longrightarrow> (\<forall>fuel. card G < fuel \<longrightarrow> map (flat_json fuel d) vs = js)"
proof (induction rule: rep_reps.inducts)
  case (rep_map ob t kvs F)
  have *: "finite F" "ob \<notin> F" using rep_map rep_finite(2) by blast+
  have "flat_json fuel d (VMap ob) = JObj kvs" if lt: "card (insert ob F) < fuel" for fuel
  proof -
    obtain n where n: "fuel = Suc n" "card F < n"
      using lt * by (cases fuel) auto
    have "flat_view d ob = Some (MapNode t)" "keys kvs = keys t" "map (flat_json n d) (vals t) = vals kvs"
      using rep_map n(2) by blast+
    then show ?thesis
      using zip_tables [of kvs t "flat_json n d"] flat_viewD [of d ob "MapNode t"] n(1) by simp
  qed
  then show ?case by blast
next
  case (rep_list ob xs js F)
  have *: "finite F" "ob \<notin> F" using rep_list rep_finite(2) by blast+
  have "flat_json fuel d (VList ob) = JArr js" if lt: "card (insert ob F) < fuel" for fuel
  proof -
    obtain n where n: "fuel = Suc n" "card F < n"
      using lt * by (cases fuel) auto
    have "flat_view d ob = Some (ListNode xs)" "map (flat_json n d) xs = js" using rep_list n(2) by blast+
    then show ?thesis using flat_viewD [of d ob "ListNode xs"] n(1) by simp
  qed
  then show ?case by blast
next
  case (reps_Cons v j F vs js G)
  have "finite F" "finite G" using reps_Cons rep_finite by blast+
  then have "card F \<le> card (F \<union> G)" "card G \<le> card (F \<union> G)" by (auto intro: card_mono)
  then show ?case using reps_Cons by (metis le_less_trans list.simps(9))
qed auto

lemma flat_read: "law_read flat_automerge flat_view"
  by (auto simp: law_read_def flat_automerge_def flat_get_def flat_at_def dest: flat_viewD)

lemma flat_delete: "law_delete flat_automerge flat_view"
  by (auto simp: law_delete_def flat_automerge_def flat_write_def flat_view_write dest: flat_viewD)

lemma flat_put: "law_put flat_automerge flat_view"
  unfolding law_put_def
proof (intro conjI allI impI)
  fix d i nd p s
  assume v: "flat_view d i = Some nd"
  then show "\<exists>d'. am_put flat_automerge i p s d = (Inr (), d') \<and> flat_view d' = (flat_view d)(i \<mapsto> node_put nd p (VScalar s))"
    using flat_viewD [OF v] flat_view_write [OF v] by (simp add: flat_automerge_def flat_write_def)
next
  fix d i nd p ty
  assume v: "flat_view d i = Some nd"
  then show "\<exists>new d'. am_put_object flat_automerge i p ty d = (Inr new, d') \<and> flat_view d new = None \<and>
      flat_view d' = (flat_view d)(new \<mapsto> empty_node ty, i \<mapsto> node_put nd p (object_value ty new))"
    using flat_viewD [OF v] flat_view_make [OF v]
    by (intro exI [of _ "length d"]) (simp add: flat_automerge_def flat_make_def flat_view_def)
qed

lemma flat_insert: "law_insert flat_automerge flat_view"
  unfolding law_insert_def
proof (intro conjI allI impI)
  fix d i xs n s
  assume v: "flat_view d i = Some (ListNode xs)"
  then show "\<exists>d'. am_insert flat_automerge i n s d = (Inr (), d') \<and>
      flat_view d' = (flat_view d)(i \<mapsto> ListNode (take n xs @ VScalar s # drop n xs))"
    using flat_viewD [OF v] flat_view_write [OF v] by (simp add: flat_automerge_def flat_write_def)
next
  fix d i xs n ty
  assume v: "flat_view d i = Some (ListNode xs)"
  then show "\<exists>new d'. am_insert_object flat_automerge i n ty d = (Inr new, d') \<and> flat_view d new = None \<and>
      flat_view d' = (flat_view d)(new \<mapsto> empty_node ty, i \<mapsto> ListNode (take n xs @ object_value ty new # drop n xs))"
    using flat_viewD [OF v] flat_view_make [OF v]
    by (intro exI [of _ "length d"]) (simp add: flat_automerge_def flat_make_def flat_view_def)
qed

lemma flat_document: "law_document flat_automerge flat_view"
  unfolding law_document_def
proof (intro conjI allI impI)
  show "flat_view (am_new flat_automerge) (am_root flat_automerge) = Some (MapNode [])"
    by (simp add: flat_automerge_def flat_view_def)
next
  fix d j F
  assume r: "rep (flat_view d) (VMap (am_root flat_automerge)) j F"
  have "F \<subseteq> {..<length d}" using rep_dom(1) [OF r] by (auto simp: flat_view_def split: if_splits)
  then have "card F \<le> length d" using card_mono [of "{..<length d}" F] by simp
  then show "am_json flat_automerge d = Inr j"
    using flat_json_rep(1) [OF r] by (simp add: flat_automerge_def del: flat_json.simps)
next
  fix d j F
  assume "rep (flat_view d) (VMap (am_root flat_automerge)) j F"
  then show "\<exists>d' G. am_load flat_automerge (fst (am_save flat_automerge d)) = Inr d' \<and>
      rep (flat_view d') (VMap (am_root flat_automerge)) j G"
    by (auto simp: flat_automerge_def flat_save_def flat_load_def)
qed (simp_all add: flat_automerge_def flat_save_def)

lemma flat_ok: "automerge_ok flat_automerge flat_view"
  by (simp add: automerge_ok_def flat_read flat_delete flat_put flat_insert flat_document)

section \<open>Writing and reading back\<close>

lemma holds_json_jwf: "holds_json am view st i j \<Longrightarrow> jwf j"
  by (auto elim!: holds_jsonE dest: rep_jwf(1))

lemma diff_changes_empty: "jwf a \<Longrightarrow> jwf b \<Longrightarrow> changes_is_empty (diff_changes a b) \<longleftrightarrow> a = b"
  by (simp add: diff_changes_def diff_empty(1))

text \<open>(C13) What a harness hands back becomes the document: after \<open>apply_json\<close> with a JSON object, a CRDT document reads as exactly that
  object, however different the shapes were; the changes reported are those \<open>diff_changes\<close> counts between what it read as and the
  new value, and are empty exactly when the two are equal; every other document reads as before.  Automerge keeps its laws.\<close>

theorem apply_json_reads_back:
  assumes "automerge_ok am view" and "holds_json am view st i j" and "jwf (JObj kvs)"
  shows "\<exists>ch st'. apply_json am to_text i (JObj kvs) st = (Inr ch, st') \<and> ds_json am hash st' i = JObj kvs \<and>
    ch = diff_changes (ds_json am hash st i) (JObj kvs) \<and> (changes_is_empty ch \<longleftrightarrow> ds_json am hash st i = JObj kvs) \<and>
    (\<forall>k. k \<noteq> i \<longrightarrow> ds_json am hash st' k = ds_json am hash st k)"
proof -
  obtain st' where st': "apply_json am to_text i (JObj kvs) st = (Inr (diff_changes j (JObj kvs)), st')"
      "holds_json am view st' i (JObj kvs)" "\<forall>k. k \<noteq> i \<longrightarrow> t_get (ds_docs st') k = t_get (ds_docs st) k"
    using apply_json_holds [OF assms] by blast
  have "changes_is_empty (diff_changes j (JObj kvs)) \<longleftrightarrow> j = JObj kvs"
    using diff_changes_empty holds_json_jwf [OF assms(2)] assms(3) by blast
  moreover have "ds_json am hash st i = j" "ds_json am hash st' i = JObj kvs"
    using holds_json_read [OF assms(1)] assms(2) st'(2) by auto
  moreover have "\<forall>k. k \<noteq> i \<longrightarrow> ds_json am hash st' k = ds_json am hash st k"
    using st'(3) by (simp add: ds_json_def)
  ultimately show ?thesis using st'(1) by (intro exI [of _ "diff_changes j (JObj kvs)"] exI [of _ st']) simp
qed

definition demo_flat :: flat where
  "demo_flat = [MapNode [(''n'', VScalar (SInt 1)), (''s'', VList 1)], ListNode [VScalar SNull]]"

definition demo_store :: "flat doc_store" where
  "demo_store = \<lparr>ds_docs = [(''board'', DCrdt demo_flat)], ds_kinds = [(''board'', Crdt)]\<rparr>"

definition demo_json :: json where
  "demo_json = JObj [(''n'', JNum (PosInt 1)), (''s'', JArr [JNull])]"

lemma demo_holds: "holds_json flat_automerge flat_view demo_store ''board'' demo_json"
proof -
  let ?h = "flat_view demo_flat"
  have s: "rep ?h (VScalar (SInt 1)) (JNum (PosInt 1)) {}" "rep ?h (VScalar SNull) JNull {}"
    using rep_scalar [of "SInt 1" ?h] rep_scalar [of SNull ?h] by simp_all
  have "rep ?h (VList 1) (JArr [JNull]) (insert 1 {})"
    by (rule rep_list [where xs = "[VScalar SNull]"]) (use s in \<open>simp_all add: reps_single flat_view_def demo_flat_def\<close>)
  then have "reps ?h [VScalar (SInt 1), VList 1] [JNum (PosInt 1), JArr [JNull]] ({} \<union> {1})"
    using s by (intro reps_Cons) (simp_all add: reps_single)
  then have "rep ?h (VMap 0) demo_json (insert 0 {1})"
    unfolding demo_json_def
    by (intro rep_map [where t = "[(''n'', VScalar (SInt 1)), (''s'', VList 1)]"])
       (simp_all add: flat_view_def demo_flat_def ordered_def keys_def vals_def less_char_def)
  then show ?thesis by (auto simp: holds_json_def demo_store_def flat_automerge_def)
qed

lemma apply_json_reads_back_witness:
  "\<exists>ch st'. apply_json flat_automerge (\<lambda>_. []) ''board'' (JObj [(''s'', JBool True)]) demo_store = (Inr ch, st') \<and>
     ds_json flat_automerge id st' ''board'' = JObj [(''s'', JBool True)] \<and> \<not> changes_is_empty ch"
proof -
  have "jwf (JObj [(''s'', JBool True)])" by (simp add: ordered_def keys_def)
  from apply_json_reads_back [OF flat_ok demo_holds this, of "\<lambda>_. []" id]
  show ?thesis using holds_json_read [OF flat_ok demo_holds, of id] by (auto simp: demo_json_def)
qed

section \<open>Snapshots\<close>

lemma snapshot_loads:
  assumes "automerge_ok am view" and "holds_json am view st i j" and "ds_snapshot am i st = (bytes, st1)"
  shows "bytes \<noteq> [] \<and> json_of_snapshot am hash Crdt bytes = Inr j \<and>
    (\<exists>d F. am_load am bytes = Inr d \<and> rep (view d) (VMap (am_root am)) j F)"
proof -
  obtain d F where d: "t_get (ds_docs st) i = Some (DCrdt d)" "rep (view d) (VMap (am_root am)) j F"
    using assms(2) by (rule holds_jsonE)
  have b: "bytes = fst (am_save am d)" using assms(3) d(1) by (simp add: ds_snapshot_def Let_def case_prod_unfold)
  have "bytes \<noteq> [] \<and> (\<exists>d' G. am_load am bytes = Inr d' \<and> rep (view d') (VMap (am_root am)) j G)"
    using assms(1) d(2) unfolding b automerge_ok_def law_document_def by blast
  then show ?thesis using crdt_json_rep [OF assms(1)] by (auto simp: json_of_snapshot_def)
qed

lemma snapshot_holds:
  assumes "automerge_ok am view" and "holds_json am view st i j"
  shows "holds_json am view (snd (ds_snapshot am i st)) i j"
proof -
  obtain d F where d: "t_get (ds_docs st) i = Some (DCrdt d)" "rep (view d) (VMap (am_root am)) j F"
    using assms(2) by (rule holds_jsonE)
  have "view (snd (am_save am d)) = view d" using assms(1) by (simp add: automerge_ok_def law_document_def)
  then show ?thesis using d by (auto simp: ds_snapshot_def Let_def case_prod_unfold holds_json_def)
qed

lemma untouched_holds:
  assumes "automerge_ok am view" and "holds_json am view st i j"
  shows "holds_json am view (snd (untouched am i st)) i j \<and> ds_kinds (snd (untouched am i st)) = ds_kinds st \<and>
    (\<forall>k. k \<noteq> i \<longrightarrow> t_get (ds_docs (snd (untouched am i st))) k = t_get (ds_docs st) k)"
proof -
  obtain d F where d: "t_get (ds_docs st) i = Some (DCrdt d)" "rep (view d) (VMap (am_root am)) j F"
    using assms(2) by (rule holds_jsonE)
  have "view (snd (am_get_heads am d)) = view d" using assms(1) by (simp add: automerge_ok_def law_document_def)
  then show ?thesis using d by (auto simp: untouched_def Let_def case_prod_unfold holds_json_def ds_put_def h_get_put)
qed

text \<open>(C14) A snapshot brings the document back: whatever was written to a CRDT document after a snapshot was taken, restoring it succeeds
  and the document reads as it did when the snapshot was taken, no other document having changed; and a snapshot pinned by
  a commit reads as that without touching the live document.\<close>

theorem snapshot_restores:
  assumes ok: "automerge_ok am view" and then_: "holds_json am view st i j" and now: "holds_json am view st2 i j2"
    and kind: "ds_kind st2 i = Some Crdt" and snap: "ds_snapshot am i st = (bytes, st1)"
  shows "(\<exists>ch st3. ds_restore am to_text hash i (Some bytes) st2 = (Inr ch, st3) \<and> ds_json am hash st3 i = ds_json am hash st i \<and>
      (\<forall>k. k \<noteq> i \<longrightarrow> ds_json am hash st3 k = ds_json am hash st2 k)) \<and>
    json_of_snapshot am hash Crdt bytes = Inr (ds_json am hash st i)"
proof -
  have j: "ds_json am hash st i = j" by (rule holds_json_read [OF ok then_])
  obtain d F where b: "bytes \<noteq> []" "json_of_snapshot am hash Crdt bytes = Inr j" "am_load am bytes = Inr d"
      "rep (view d) (VMap (am_root am)) j F"
    using snapshot_loads [OF ok then_ snap] by blast
  obtain fresh st' where u: "untouched am i st2 = (fresh, st')" by (cases "untouched am i st2")
  then have st': "holds_json am view st' i j2" "\<forall>k. k \<noteq> i \<longrightarrow> t_get (ds_docs st') k = t_get (ds_docs st2) k"
    using untouched_holds [OF ok now] by simp_all
  have "\<exists>ch st3. ds_restore am to_text hash i (Some bytes) st2 = (Inr ch, st3) \<and> holds_json am view st3 i j \<and>
      (\<forall>k. k \<noteq> i \<longrightarrow> t_get (ds_docs st3) k = t_get (ds_docs st2) k)"
  proof (cases fresh)
    case True
    have "ds_restore am to_text hash i (Some bytes) st2 = (Inr no_changes, ds_put_as Crdt i (DCrdt d) st')"
      using True b u kind by (simp add: ds_restore_def)
    moreover have "holds_json am view (ds_put_as Crdt i (DCrdt d) st') i j" using b(4) by (auto simp: holds_json_def)
    ultimately show ?thesis using st'(2) by auto
  next
    case False
    obtain kvs where kvs: "j = JObj kvs" using rep_root_object [OF b(4)] by blast
    then obtain st3 where st3: "apply_json am to_text i j st' = (Inr (diff_changes j2 j), st3)" "holds_json am view st3 i j"
        "\<forall>k. k \<noteq> i \<longrightarrow> t_get (ds_docs st3) k = t_get (ds_docs st') k"
      using apply_json_holds [OF ok st'(1)] holds_json_jwf [OF then_] by blast
    have "ds_restore am to_text hash i (Some bytes) st2 = (Inr (diff_changes j2 j), st3)"
      using False b(1,2) u kind st3(1) by (simp add: ds_restore_def)
    then show ?thesis using st3(2,3) st'(2) by auto
  qed
  then obtain ch st3 where r: "ds_restore am to_text hash i (Some bytes) st2 = (Inr ch, st3)" "holds_json am view st3 i j"
      "\<forall>k. k \<noteq> i \<longrightarrow> t_get (ds_docs st3) k = t_get (ds_docs st2) k"
    by blast
  have "ds_json am hash st3 i = j" by (rule holds_json_read [OF ok r(2)])
  moreover have "\<forall>k. k \<noteq> i \<longrightarrow> ds_json am hash st3 k = ds_json am hash st2 k" using r(3) by (simp add: ds_json_def)
  ultimately show ?thesis using r(1) b(2) j by auto
qed

lemma snapshot_restores_witness:
  "(let (bytes, st1) = ds_snapshot flat_automerge ''board'' demo_store
    in \<exists>ch st3. ds_restore flat_automerge (\<lambda>_. []) id ''board'' (Some bytes) demo_store = (Inr ch, st3) \<and>
         ds_json flat_automerge id st3 ''board'' = demo_json)"
proof -
  have "ds_kind demo_store ''board'' = Some Crdt" by (simp add: demo_store_def ds_kind_def)
  from snapshot_restores [OF flat_ok demo_holds demo_holds this, of _ _ "\<lambda>_. []" id]
  show ?thesis
    using holds_json_read [OF flat_ok demo_holds, of id]
    by (cases "ds_snapshot flat_automerge ''board'' demo_store") auto
qed

end
