(* ===== verification/CoreState.thy ===== *)
theory CoreState
  imports Briefing Chats DocStore Dag AuditLog
begin

text \<open>
  Core's state and what every request uses of it (\<open>crates/localspace-core/src/lib.rs\<close>, \<open>lock.rs\<close>): the caller, the
  state of the user whose request is handled and of the others, parked; events; the audit trail; a harness's document,
  brought in on first use and restored from its history; the environment's lock; replicas of a document.

  What Core asks of the outside is a parameter: Automerge and its sync protocol, the hash, the text of a JSON value and
  of an audit record (\<open>world\<close>), and, for one request, the clock, new identifiers, the answers of a harness's logic and of
  the network (\<open>io\<close>).  Events go to a list; the text of an error keeps its source's words.
\<close>

section \<open>The outside\<close>

record ('d, 's) sync =
  sy_new :: 's
  sy_decode_error :: "string \<Rightarrow> string option"
  sy_generate :: "'d \<Rightarrow> 's \<Rightarrow> string option \<times> 'd \<times> 's"
  sy_receive :: "'d \<Rightarrow> 's \<Rightarrow> string \<Rightarrow> (string, unit) result \<times> 'd \<times> 's"

record ('d, 'o, 's) world =
  w_am :: "('d, 'o) automerge"
  w_sync :: "('d, 's) sync"
  w_text :: "json \<Rightarrow> string"
  w_hash :: "string \<Rightarrow> string"
  w_record_hash :: "arecord \<Rightarrow> string"
  w_package_hash :: "string list \<Rightarrow> string"
  w_profile :: model_profile
  w_set_aside :: "string list"
  w_slots :: nat
  w_local_user :: string

text \<open>What a call of a harness's logic returns: \<open>HarnessOutput\<close>, or an error, and whether it went over its memory.\<close>

record harness_output =
  ho_ok :: bool
  ho_result :: json
  ho_error :: "string option"
  ho_diff_summary :: "string option"
  ho_doc :: "json option"
  ho_logs :: "string list"

text \<open>
  A call the model wrote into its answer, as \<open>model::call_block\<close> finds it: whether the answer is nothing else, and the words
  around it.
\<close>

record call_block =
  bl_tool :: string
  bl_params :: json
  bl_alone :: bool
  bl_words_around :: string

text \<open>
  One request's answers from outside.  The clock is read once per record written: the time of an audit record is a function
  of its number, the two times of a commit of its place in the log, the identifier of a new document of how many there are.
\<close>

record io =
  io_now :: nat
  io_audit_ms :: "nat \<Rightarrow> nat"
  io_commit_ms :: "nat \<Rightarrow> nat \<times> nat"
  io_doc_id :: "nat \<Rightarrow> string"
  io_ws_id :: string
  io_load :: "string \<Rightarrow> load_result"
  io_call :: "string \<Rightarrow> (string \<times> string) list \<Rightarrow> string \<Rightarrow> json \<Rightarrow> json \<Rightarrow> (string, harness_output) result \<times> nat option"
  io_http :: "string \<Rightarrow> string reply"
  io_http_json :: "string \<Rightarrow> json reply"
  io_lowercase :: "string \<Rightarrow> string"
  io_rank :: "registry \<Rightarrow> string \<Rightarrow> (string \<times> json) list"
  io_context :: "string \<Rightarrow> nat \<Rightarrow> bool \<Rightarrow> json \<Rightarrow> (string, string \<times> bool) result"
  io_call_block :: "string \<Rightarrow> call_block option"

section \<open>Callers, outcomes, events\<close>

record caller =
  cl_user :: string
  cl_session :: string
  cl_ip :: string
  cl_roles :: "user_role list"
  cl_groups :: "string list"

definition caller_local :: "string \<Rightarrow> caller" where
  "caller_local user = \<lparr>cl_user = user, cl_session = ''local'', cl_ip = [], cl_roles = [Admin], cl_groups = []\<rparr>"

definition caller_system :: caller where
  "caller_system = \<lparr>cl_user = ''system'', cl_session = ''system'', cl_ip = [], cl_roles = [], cl_groups = []\<rparr>"

definition cl_is_system :: "caller \<Rightarrow> bool" where
  "cl_is_system cl \<longleftrightarrow> cl_user cl = ''system'' \<and> cl_session cl = ''system''"

definition cl_is_admin :: "caller \<Rightarrow> bool" where
  "cl_is_admin cl \<longleftrightarrow> Admin \<in> set (cl_roles cl)"

definition cl_is_viewer :: "caller \<Rightarrow> bool" where
  "cl_is_viewer cl \<longleftrightarrow> Viewer \<in> set (cl_roles cl) \<and> Admin \<notin> set (cl_roles cl) \<and> Member \<notin> set (cl_roles cl)"

definition cl_role_label :: "caller \<Rightarrow> string" where
  "cl_role_label cl = (case cl_roles cl of r # _ \<Rightarrow> role_label r | [] \<Rightarrow> ''member'')"

text \<open>
  \<open>Queued\<close>, which nothing here makes, is left out; \<open>CallPanics\<close> is no outcome of the source: it stands for a call that does
  not return because Core's thread panics (a slice of a page's text that splits a character, see \<open>Gateway\<close>).
\<close>

datatype tool_outcome =
    CallOk string json "string option"
  | CallDenied string
  | CallAwaits string
  | CallDeclined string
  | CallError string
  | CallPanics

datatype notice_level = NoticeInfo | NoticeWarn | NoticeError

datatype approval_kind = ToolConfirm | EgressApproval

section \<open>Answers being written\<close>

datatype turn_state = WaitsForAnotherChat | WaitsForTheModel | Writing | AwaitsApproval | TurnDone | TurnStopped | TurnCut

record proposed_call =
  pl_id :: string
  pl_tool :: string
  pl_params :: json

text \<open>\<open>Stop\<close>, an atomic shared with the thread that reads the model, is a flag of the turn.\<close>

record turn =
  tn_id :: nat
  tn_caller :: caller
  tn_workspace :: string
  tn_conversation :: string
  tn_state :: turn_state
  tn_begun :: bool
  tn_steps :: nat
  tn_stop :: bool
  tn_calls :: "proposed_call list"
  tn_continuing :: bool
  tn_refused :: bool

text \<open>What a step of the model ended with (\<open>StepEnd\<close>): its figures, for the log, are left out.\<close>

datatype model_reply =
    Replies string "proposed_call list" bool nat
  | ReplyCut bool
  | ReplyNoRoom
  | ReplyFailed

record step_end =
  se_reply :: model_reply
  se_shown :: string
  se_thought :: string
  se_repeated :: "string option"
  se_alone :: bool
  se_max_tokens :: nat

datatype internal = Replied nat step_end | GoOn nat

text \<open>The events made here; the environment's payload, a view of the whole state, is left out.\<close>

datatype event =
    EnvironmentChanged
  | EnvironmentOutdated
  | AssistantDelta string string
  | AssistantDone string
  | TurnChanged string turn_state
  | ToolCallStarted string string string json
  | ApprovalWithdrawn string
  | ToolCallFinished string string string tool_outcome
  | DocPatch string string string
  | DocChanged string
  | ApprovalRequest string approval_kind string
  | ConversationChanged string
  | TaskChanged task
  | TraceLine string
  | Notice notice_level string
  | PresenceChanged string "(string \<times> string) list"

datatype recipient = ToUser string | ToAll

section \<open>State\<close>

record pending_call =
  pc_tool :: string
  pc_params :: json
  pc_resume_agent :: bool
  pc_turn :: "nat option"

record proposal =
  pr_run :: string
  pr_docs :: "string list"
  pr_summary :: string
  pr_by :: string

record user_state =
  us_workspace :: string
  us_break_glass :: "break_glass option"
  us_focus :: "string option"
  us_pinned :: "string list"
  us_touched :: "string list"
  us_transcript :: "chat_message list"
  us_pending :: "(string, pending_call) table"
  us_next_approval :: nat
  us_proposals :: "proposal list"
  us_run :: "string option"
  us_task :: task
  us_chats :: chats

record 's replica =
  rp_state :: 's
  rp_seen :: nat
  rp_user :: string

definition max_replicas_per_doc :: nat where
  "max_replicas_per_doc = 32"

text \<open>
  \<open>Core\<close>: the fields that \<open>activate\<close> swaps are together, as \<open>UserState\<close> has them.  The database is one; the handle a
  user's conversations keep to it is refreshed whenever they are used (\<open>on_chats\<close>).  \<open>c_posted\<close> is what a turn put into
  Core's queue, \<open>c_asked\<close> the turns for which a thread reads the model.
\<close>

record ('d, 's) core =
  c_registry :: registry
  c_docs :: "'d doc_store"
  c_store :: store
  c_dag :: dag
  c_gateway :: gateway
  c_audit :: audit_log
  c_access :: access_control
  c_providers :: provider_cache
  c_us :: user_state
  c_users :: "(string, user_state) table"
  c_active :: caller
  c_sync :: "(string, (string, 's replica) table) table"
  c_sync_clock :: nat
  c_turns :: "turn list"
  c_next_turn :: nat
  c_turn_at_work :: "nat option"
  c_posted :: "internal list"
  c_asked :: "nat list"
  c_evals_running :: bool
  c_events :: "(recipient \<times> event) list"

section \<open>Events, the audit trail\<close>

definition emit_to :: "recipient \<Rightarrow> event \<Rightarrow> ('d, 's) core \<Rightarrow> ('d, 's) core" where
  "emit_to r ev c = c\<lparr>c_events := c_events c @ [(r, ev)]\<rparr>"

definition emit :: "event \<Rightarrow> ('d, 's) core \<Rightarrow> ('d, 's) core" where
  "emit ev c = emit_to (ToUser (cl_user (c_active c))) ev c"

definition emit_all :: "event \<Rightarrow> ('d, 's) core \<Rightarrow> ('d, 's) core" where
  "emit_all ev c = emit_to ToAll ev c"

definition trace :: "string \<Rightarrow> ('d, 's) core \<Rightarrow> ('d, 's) core" where
  "trace line c = emit (TraceLine line) c"

definition notice :: "notice_level \<Rightarrow> string \<Rightarrow> ('d, 's) core \<Rightarrow> ('d, 's) core" where
  "notice level t c = emit (Notice level t) c"

definition emit_environment :: "('d, 's) core \<Rightarrow> ('d, 's) core" where
  "emit_environment c = emit EnvironmentChanged c"

definition broadcast_environment :: "('d, 's) core \<Rightarrow> ('d, 's) core" where
  "broadcast_environment c = emit_all EnvironmentOutdated (emit EnvironmentChanged c)"

definition core_identity :: "('d, 's) core \<Rightarrow> identity" where
  "core_identity c = \<lparr>i_user = cl_user (c_active c), i_groups = cl_groups (c_active c), i_break_glass = us_break_glass (c_us c)\<rparr>"

definition core_actor :: "('d, 's) core \<Rightarrow> actor" where
  "core_actor c = \<lparr>ac_user = cl_user (c_active c), ac_session = cl_session (c_active c), ac_ip = cl_ip (c_active c),
     ac_role = cl_role_label (c_active c), ac_break_glass = map_option bg_reason (us_break_glass (c_us c))\<rparr>"

definition core_scope :: "string \<Rightarrow> ('d, 's) core \<Rightarrow> scope" where
  "core_scope document c = \<lparr>sc_workspace = us_workspace (c_us c), sc_conversation = current (us_chats (c_us c)), sc_document = document\<rparr>"

definition ws_scope :: "string \<Rightarrow> scope" where
  "ws_scope workspace = \<lparr>sc_workspace = workspace, sc_conversation = [], sc_document = []\<rparr>"

definition audit_in :: "('d, 'o, 's) world \<Rightarrow> io \<Rightarrow> scope \<Rightarrow> string \<Rightarrow> (string \<times> json) list \<Rightarrow> string \<Rightarrow> ('d, 's) core \<Rightarrow> ('d, 's) core" where
  "audit_in w io sc event detail result c =
     c\<lparr>c_audit := snd (append_at (w_record_hash w) (c_audit c) (io_audit_ms io (al_seq (c_audit c))) (core_actor c) sc event (JObj detail) result)\<rparr>"

definition audit_doc :: "('d, 'o, 's) world \<Rightarrow> io \<Rightarrow> string \<Rightarrow> string \<Rightarrow> (string \<times> json) list \<Rightarrow> string \<Rightarrow> ('d, 's) core \<Rightarrow> ('d, 's) core" where
  "audit_doc w io document event detail result c = audit_in w io (core_scope document c) event detail result c"

section \<open>A user's state\<close>

definition on_chats :: "(chats \<Rightarrow> chats) \<Rightarrow> ('d, 's) core \<Rightarrow> ('d, 's) core" where
  "on_chats f c =
     (let ch = f ((us_chats (c_us c))\<lparr>db := c_store c\<rparr>)
      in c\<lparr>c_store := db ch, c_us := (c_us c)\<lparr>us_chats := ch\<rparr>\<rparr>)"

definition set_task :: "task \<Rightarrow> ('d, 's) core \<Rightarrow> ('d, 's) core" where
  "set_task t c = c\<lparr>c_us := (c_us c)\<lparr>us_task := t\<rparr>\<rparr>"

definition empty_task :: task where
  "empty_task = \<lparr>t_id = [], t_goal = [], t_plan = [], t_artifacts = [], t_notes = [], t_citations = []\<rparr>"

definition emit_task :: "('d, 's) core \<Rightarrow> ('d, 's) core" where
  "emit_task c = emit (TaskChanged (us_task (c_us c)))
     (c\<lparr>c_store := put_ledger (cl_user (c_active c)) (us_workspace (c_us c)) (us_task (c_us c)) (c_store c)\<rparr>)"

definition transcript_of :: "chats \<Rightarrow> chat_message list" where
  "transcript_of ch = (case current_chat ch of Some v \<Rightarrow> cv_messages v | None \<Rightarrow> [])"

definition task_of :: "store \<Rightarrow> string \<Rightarrow> string \<Rightarrow> task" where
  "task_of st user workspace = (case ledger st user workspace of Some t \<Rightarrow> t | None \<Rightarrow> empty_task)"

definition first_harness :: "registry \<Rightarrow> string option" where
  "first_harness r = map_option in_id (List.find (\<lambda>h. is_harness (mf_package (in_manifest h))) (reg_iter r))"

text \<open>The personal workspace is made when there is none, then the one the person was last in is taken if they may still be in it.\<close>

definition own_workspace :: "string \<Rightarrow> ('d, 's) core \<Rightarrow> ('d, 's) core" where
  "own_workspace user c =
     (if get_workspace (c_access c) (''ws_'' @ user) = None
      then c\<lparr>c_store := put_workspace (ws_personal user) (c_store c), c_access := add_workspace (c_access c) (ws_personal user)\<rparr>
      else c)"

definition fresh_user_state :: "nat \<Rightarrow> string \<Rightarrow> ('d, 's) core \<Rightarrow> user_state \<times> ('d, 's) core" where
  "fresh_user_state now user c0 =
     (let c = own_workspace user c0;
          ws = (case current_workspace (c_store c) user of
                  Some ws \<Rightarrow> if level_in (c_access c) ws (identity_user user) \<noteq> None then ws else ''ws_'' @ user
                | None \<Rightarrow> ''ws_'' @ user);
          ch = load (c_store c) user ws now
      in (\<lparr>us_workspace = ws, us_break_glass = None, us_focus = first_harness (c_registry c), us_pinned = [], us_touched = [],
           us_transcript = transcript_of ch, us_pending = [], us_next_approval = 1, us_proposals = [], us_run = None,
           us_task = task_of (db ch) user ws, us_chats = ch\<rparr>, c\<lparr>c_store := db ch\<rparr>))"

definition activate :: "nat \<Rightarrow> caller \<Rightarrow> ('d, 's) core \<Rightarrow> ('d, 's) core" where
  "activate now cl c =
     (if cl_user (c_active c) = cl_user cl then c\<lparr>c_active := cl\<rparr>
      else
        (let (incoming, c') = (case t_get (c_users c) (cl_user cl) of
                Some u \<Rightarrow> (u, c\<lparr>c_users := t_del (cl_user cl) (c_users c)\<rparr>)
              | None \<Rightarrow> fresh_user_state now (cl_user cl) c)
         in c'\<lparr>c_us := incoming, c_active := cl, c_users := h_put (cl_user (c_active c')) (c_us c') (c_users c')\<rparr>))"

section \<open>Documents\<close>

fun doc_error_text :: "doc_error \<Rightarrow> string" where
  "doc_error_text (UnknownDocument i) = ''unknown document '' @ tick i"
| "doc_error_text RootNotObject = ''a crdt document's root must be a JSON object''"
| "doc_error_text (CrdtError e) = e"
| "doc_error_text (NotABlob i) = tick i @ '' is not a blob document''"
| "doc_error_text (BadSnapshot e) = ''loading a crdt snapshot: '' @ e"
| "doc_error_text (BadRestore e) = ''loading crdt snapshot: '' @ e"

definition in_doc_kind :: "installed \<Rightarrow> doc_kind" where
  "in_doc_kind h = (case ct_doc (mf_contributes (in_manifest h)) of PkgCrdt \<Rightarrow> Crdt | PkgBlob \<Rightarrow> Blob)"

definition existing_document_of :: "string \<Rightarrow> ('d, 's) core \<Rightarrow> string option" where
  "existing_document_of harness c =
     (let mine = filter (\<lambda>(i, r). dr_workspace r = us_workspace (c_us c) \<and> dr_harness r = Some harness) (store_documents (c_store c))
      in case sort_key (\<lambda>(i, r). (dr_created_ms r, i)) mine of [] \<Rightarrow> None | (i, r) # _ \<Rightarrow> Some i)"

definition harness_record :: "io \<Rightarrow> string \<Rightarrow> string \<Rightarrow> doc_kind \<Rightarrow> ('d, 's) core \<Rightarrow> document_record" where
  "harness_record io harness title kind c =
     \<lparr>dr_title = title, dr_kind = kind,
      dr_mime = (case kind of Crdt \<Rightarrow> ''application/json'' | Blob \<Rightarrow> ''application/octet-stream''),
      dr_bytes = 0, dr_hash = [], dr_source = FromHarness harness, dr_created_ms = io_now io,
      dr_workspace = us_workspace (c_us c), dr_harness = Some harness, dr_created_by = cl_user (c_active c), dr_acl = None\<rparr>"

definition harness_document :: "io \<Rightarrow> string \<Rightarrow> string \<Rightarrow> doc_kind \<Rightarrow> ('d, 's) core \<Rightarrow> string \<times> ('d, 's) core" where
  "harness_document io harness title kind c =
     (case existing_document_of harness c of
        Some i \<Rightarrow> (i, c)
      | None \<Rightarrow>
          (let i = io_doc_id io (length (store_documents (c_store c)))
           in (i, c\<lparr>c_store := put_document i (harness_record io harness title kind c) (c_store c)\<rparr>)))"

definition restore_from_dag :: "('d, 'o, 's) world \<Rightarrow> string \<Rightarrow> ('d, 's) core \<Rightarrow> ('d, 's) core" where
  "restore_from_dag w doc c =
     (case Option.bind (head (c_dag c) doc) (get_commit (c_dag c)) of
        None \<Rightarrow> c
      | Some k \<Rightarrow>
          (case get_blob (c_dag c) (c_doc_hash k) of
             Some bytes \<Rightarrow>
               (case ds_restore (w_am w) (w_text w) (w_hash w) doc (Some bytes) (c_docs c) of
                  (Inr _, ds) \<Rightarrow> c\<lparr>c_docs := ds\<rparr>
                | (Inl e, ds) \<Rightarrow> notice NoticeError (tick doc @ '' could not be restored from its history: '' @ doc_error_text e) (c\<lparr>c_docs := ds\<rparr>))
           | None \<Rightarrow> notice NoticeWarn (tick doc @ '' has history but its content is missing from the blob store'') c))"

definition doc_for :: "('d, 'o, 's) world \<Rightarrow> io \<Rightarrow> string \<Rightarrow> ('d, 's) core \<Rightarrow> string option \<times> ('d, 's) core" where
  "doc_for w io harness c0 =
     (case reg_get (c_registry c0) harness of
        None \<Rightarrow> (None, c0)
      | Some h \<Rightarrow>
          if \<not> is_harness (mf_package (in_manifest h)) then (None, c0)
          else
            (let title = hm_title (mf_harness (in_manifest h));
                 (doc, c) = harness_document io harness title (in_doc_kind h) c0
             in if ds_exists (c_docs c) doc then (Some doc, c)
                else (Some doc, restore_from_dag w doc
                        (c\<lparr>c_docs := ds_ensure (w_am w) doc (in_doc_kind h) (c_docs c),
                           c_access := add_document (c_access c) doc (us_workspace (c_us c)) title None\<rparr>))))"

text \<open>\<open>load_documents\<close>, as Core starts: every document of the database known to the access control, a file's also to the store.\<close>

fun load_records :: "('d, 'o, 's) world \<Rightarrow> (string \<times> document_record) list \<Rightarrow> ('d, 's) core \<Rightarrow> ('d, 's) core" where
  "load_records w [] c = c"
| "load_records w ((i, r) # rs) c =
     load_records w rs
       (c\<lparr>c_docs := (if dr_harness r = None then ds_ensure (w_am w) i (dr_kind r) (c_docs c) else c_docs c),
          c_access := add_document (c_access c) i (if dr_workspace r = [] then us_workspace (c_us c) else dr_workspace r)
             (dr_title r) (dr_acl r)\<rparr>)"

definition load_documents :: "('d, 'o, 's) world \<Rightarrow> ('d, 's) core \<Rightarrow> ('d, 's) core" where
  "load_documents w c = load_records w (store_documents (c_store c)) c"

end
