(* ===== verification/Turns.thy ===== *)
theory Turns
  imports CoreCalls
begin

text \<open>
  Answers being written (\<open>crates/localspace-core/src/agent.rs\<close>, \<open>turns.rs\<close>): a message queues a turn, which waits for its
  person's other answer or for the model, is begun, asks the model step by step, runs the calls the model proposes one at a
  time through Core's queue, waits for approvals, and ends; whoever waited then starts.

  Reading the model is outside: \<open>c_asked\<close> notes that a thread was started, and its answer comes back as \<open>Replied\<close>.  The
  prompt's text, attachments and the log's figures are not modelled.  In the source \<open>end\<close> calls \<open>schedule\<close>, which may
  call \<open>end\<close> again through \<open>begin\<close>; that inner \<open>schedule\<close> returns only when nobody can start, so the loop it returns to
  ends too, and after it nothing follows: here a turn that ends while it begins is closed, and the one loop goes on.
\<close>

section \<open>A turn's chat\<close>

definition record_conversation :: "nat \<Rightarrow> ('d, 's) core \<Rightarrow> ('d, 's) core" where
  "record_conversation now c = (if c_evals_running c then c else on_chats (record_messages (us_transcript (c_us c)) now) c)"

definition chat_messages :: "string \<Rightarrow> string \<Rightarrow> string \<Rightarrow> ('d, 's) core \<Rightarrow> chat_message list" where
  "chat_messages user workspace conv c =
     (let elsewhere = (case messages_elsewhere (c_store c) user workspace conv of Some ms \<Rightarrow> ms | None \<Rightarrow> [])
      in if cl_user (c_active c) = user \<and> us_workspace (c_us c) = workspace
         then (if current (us_chats (c_us c)) = conv then us_transcript (c_us c)
               else (case messages_of (us_chats (c_us c)) conv of Some ms \<Rightarrow> ms | None \<Rightarrow> elsewhere))
         else elsewhere)"

definition write_chat :: "nat \<Rightarrow> string \<Rightarrow> string \<Rightarrow> string \<Rightarrow> (chat_message list \<Rightarrow> chat_message list) \<Rightarrow> ('d, 's) core \<Rightarrow> ('d, 's) core" where
  "write_chat now user workspace conv change c =
     (let elsewhere = c\<lparr>c_store := snd (update_elsewhere (c_store c) user workspace conv now change)\<rparr>
      in if cl_user (c_active c) = user \<and> us_workspace (c_us c) = workspace
         then (if current (us_chats (c_us c)) = conv
               then record_conversation now (c\<lparr>c_us := (c_us c)\<lparr>us_transcript := change (us_transcript (c_us c))\<rparr>\<rparr>)
               else if messages_of (us_chats (c_us c)) conv \<noteq> None
               then on_chats (\<lambda>ch. snd (update_chat conv now change ch)) c
               else elsewhere)
         else elsewhere)"

definition said :: "role \<Rightarrow> string \<Rightarrow> chat_message" where
  "said r txt = \<lparr>cm_role = r, cm_content = txt, cm_tool_calls = [], cm_stopped = False, cm_thinking = [], cm_cut_short = None, cm_attachments = []\<rparr>"

definition chat_of_the_caller :: "string option \<Rightarrow> ('d, 's) core \<Rightarrow> (string, string) result" where
  "chat_of_the_caller named c =
     (let i = (case named of Some i \<Rightarrow> i | None \<Rightarrow> current (us_chats (c_us c)))
      in if i \<in> set (map cv_id (convs (us_chats (c_us c)))) then Inr i else Inl (''no conversation '' @ tick i))"

section \<open>Finding and marking a turn\<close>

definition turn_in :: "string \<Rightarrow> ('d, 's) core \<Rightarrow> nat option" where
  "turn_in conv c = map_option tn_id (List.find (\<lambda>t. cl_user (tn_caller t) = cl_user (c_active c) \<and> tn_conversation t = conv) (c_turns c))"

definition turn_of :: "nat \<Rightarrow> ('d, 's) core \<Rightarrow> turn option" where
  "turn_of i c = List.find (\<lambda>t. tn_id t = i) (c_turns c)"

fun alter_first :: "('a \<Rightarrow> bool) \<Rightarrow> ('a \<Rightarrow> 'a) \<Rightarrow> 'a list \<Rightarrow> 'a list" where
  "alter_first p f [] = []"
| "alter_first p f (x # xs) = (if p x then f x # xs else x # alter_first p f xs)"

fun remove_first :: "('a \<Rightarrow> bool) \<Rightarrow> 'a list \<Rightarrow> 'a list" where
  "remove_first p [] = []"
| "remove_first p (x # xs) = (if p x then xs else x # remove_first p xs)"

definition alter_turn :: "nat \<Rightarrow> (turn \<Rightarrow> turn) \<Rightarrow> ('d, 's) core \<Rightarrow> ('d, 's) core" where
  "alter_turn i f c = c\<lparr>c_turns := alter_first (\<lambda>t. tn_id t = i) f (c_turns c)\<rparr>"

definition stop_turn :: "nat \<Rightarrow> ('d, 's) core \<Rightarrow> turn_state option \<times> ('d, 's) core" where
  "stop_turn i c = (map_option tn_state (turn_of i c), alter_turn i (\<lambda>t. t\<lparr>tn_stop := True\<rparr>) c)"

definition waiting :: "turn \<Rightarrow> bool" where
  "waiting t \<longleftrightarrow> tn_state t \<in> {WaitsForAnotherChat, WaitsForTheModel}"

definition live :: "turn \<Rightarrow> bool" where
  "live t \<longleftrightarrow> tn_state t \<in> {Writing, AwaitsApproval}"

definition set_turn_state :: "nat \<Rightarrow> turn_state \<Rightarrow> ('d, 's) core \<Rightarrow> ('d, 's) core" where
  "set_turn_state i st c =
     (case turn_of i c of
        None \<Rightarrow> c
      | Some t \<Rightarrow> if tn_state t = st then c
          else emit (TurnChanged (tn_conversation t) st) (alter_turn i (\<lambda>t. t\<lparr>tn_state := st\<rparr>) c))"

definition where_it_goes :: "nat \<Rightarrow> turn list \<Rightarrow> nat \<Rightarrow> turn_state" where
  "where_it_goes slots ts i =
     (if list_ex (\<lambda>t. cl_user (tn_caller t) = cl_user (tn_caller (ts ! i))) (take i ts) then WaitsForAnotherChat
      else if max slots 1 \<le> length (filter (\<lambda>t. tn_state t = Writing) ts) then WaitsForTheModel
      else Writing)"

section \<open>The end of a turn\<close>

text \<open>The run's commits, newest first, among the last 256.\<close>

definition settle_plan :: "('d, 's) core \<Rightarrow> ('d, 's) core" where
  "settle_plan c =
     (let plan = t_plan (us_task (c_us c))
      in if list_ex (\<lambda>s. st_status s = Active) plan
         then emit_task (set_task ((us_task (c_us c))\<lparr>t_plan := map (\<lambda>s. if st_status s = Active then s\<lparr>st_status := Done\<rparr> else s) plan\<rparr>) c)
         else c)"

definition propose :: "('d, 'o, 's) world \<Rightarrow> string \<Rightarrow> ('d, 's) core \<Rightarrow> ('d, 's) core" where
  "propose w run c =
     (let mine = filter (\<lambda>k. c_run k = Some run) (history (c_dag c) 256);
          held_back = filter (\<lambda>d. doc_agent_writes (c_access c) d = Proposal) (remdups (sort (map c_doc mine)));
          summary = join ''; '' (map c_diff_summary mine);
          p = \<lparr>pr_run = run, pr_docs = held_back, pr_summary = summary, pr_by = w_local_user w\<rparr>
      in if mine = [] \<or> held_back = [] then c
         else notice NoticeInfo (''1 proposal from your agent: '' @ summary @ '' '' @ em_dash @ '' apply or discard it'')
                (c\<lparr>c_us := (c_us c)\<lparr>us_proposals := us_proposals (c_us c) @ [p]\<rparr>\<rparr>))"

definition finish_run :: "('d, 'o, 's) world \<Rightarrow> ('d, 's) core \<Rightarrow> ('d, 's) core" where
  "finish_run w c =
     (case us_run (c_us c) of
        None \<Rightarrow> c
      | Some run \<Rightarrow> propose w run (settle_plan (c\<lparr>c_us := (c_us c)\<lparr>us_run := None\<rparr>\<rparr>)))"

definition withdraw :: "nat \<Rightarrow> ('d, 's) core \<Rightarrow> ('d, 's) core" where
  "withdraw i c =
     (let withdrawn = keys (filter (\<lambda>(k, p). pc_turn p = Some i) (us_pending (c_us c)));
          c1 = fold (\<lambda>k d. emit (ApprovalWithdrawn k) (d\<lparr>c_us := (c_us d)\<lparr>us_pending := t_del k (us_pending (c_us d))\<rparr>\<rparr>)) withdrawn c
      in if withdrawn = [] then c1
         else notice NoticeInfo ''Stopped. The change that waited for your approval was not made.'' c1)"

text \<open>\<open>end\<close>, up to its call of \<open>schedule\<close>.\<close>

definition close_turn :: "('d, 'o, 's) world \<Rightarrow> io \<Rightarrow> nat \<Rightarrow> turn_state \<Rightarrow> ('d, 's) core \<Rightarrow> ('d, 's) core" where
  "close_turn w io i how c =
     (case turn_of i c of
        None \<Rightarrow> c
      | Some t \<Rightarrow>
          (let c1 = withdraw i (activate (io_now io) (tn_caller t) (c\<lparr>c_turns := remove_first (\<lambda>t. tn_id t = i) (c_turns c)\<rparr>));
               c2 = (if tn_begun t then finish_run w c1 else c1)
           in emit (TurnChanged (tn_conversation t) how) (emit (AssistantDone (tn_conversation t)) c2)))"

section \<open>Asking the model\<close>

definition online :: "('d, 'o, 's) world \<Rightarrow> io \<Rightarrow> string \<Rightarrow> ('d, 's) core \<Rightarrow> ('d, 's) core" where
  "online w io i c =
     (case reg_get (c_registry c) i of
        None \<Rightarrow> c
      | Some h \<Rightarrow>
          if in_enabled h \<and> ct_context_provider (mf_contributes (in_manifest h))
          then (case ensure_runtime (io_load io i) (io_now io) h of
                  (Inr _, h') \<Rightarrow> set_installed i h' c
                | (Inl e, h') \<Rightarrow> trace (tick i @ '' could not start for its context provider: '' @ run_error_text i e) (set_installed i h' c))
          else c)"

definition open_doc :: "('d, 'o, 's) world \<Rightarrow> io \<Rightarrow> string \<Rightarrow> (string, string) table \<times> ('d, 's) core \<Rightarrow> (string, string) table \<times> ('d, 's) core" where
  "open_doc w io i p =
     (case doc_for w io i (snd p) of (Some doc, c) \<Rightarrow> (h_put i doc (fst p), c) | (None, c) \<Rightarrow> (fst p, c))"

definition context_blocks :: "('d, 'o, 's) world \<Rightarrow> io \<Rightarrow> ('d, 's) core \<Rightarrow> context_block list \<times> ('d, 's) core" where
  "context_blocks w io c0 =
     (let focus = us_focus (c_us c0);
          also = fold (\<lambda>t ts. if t \<in> set ts then ts else ts @ [t]) (us_touched (c_us c0)) (us_pinned (c_us c0));
          wanted = (case focus of Some f \<Rightarrow> [f] | None \<Rightarrow> []) @ also;
          c1 = fold (online w io) wanted c0;
          (doc_ids, c2) = fold (open_doc w io) wanted ([], c1);
          pv = \<lparr>pv_docs = ds_json (w_am w) (w_hash w) (c_docs c2), pv_to_text = w_text w, pv_hash = w_hash w, pv_context = io_context io\<rparr>;
          (blocks, cache) = assemble pv (c_registry c2) (c_providers c2) (w_profile w) focus also doc_ids
      in (blocks, c2\<lparr>c_providers := cache\<rparr>))"

definition max_agent_steps :: nat where
  "max_agent_steps = 24"

text \<open>Carrying on an answer that stopped before its first word: it leaves the chat.\<close>

definition drop_unsaid :: "chat_message list \<Rightarrow> chat_message list" where
  "drop_unsaid ms = (if ms \<noteq> [] \<and> cm_role (last ms) = RAssistant \<and> cm_stopped (last ms) \<and> cm_content (last ms) = [] then butlast ms else ms)"

definition words_begun :: "chat_message list \<Rightarrow> string option" where
  "words_begun ms =
     (if ms \<noteq> [] \<and> cm_role (last ms) = RAssistant \<and> cm_stopped (last ms) \<and> cm_content (last ms) \<noteq> [] then Some (cm_content (last ms)) else None)"

definition send_to_model :: "('d, 'o, 's) world \<Rightarrow> io \<Rightarrow> turn \<Rightarrow> ('d, 's) core \<Rightarrow> ('d, 's) core" where
  "send_to_model w io t c =
     (let active = core_active_set w c;
          c1 = (if as_dropped active = [] then c
                else trace (''tool budget '' @ show_nat (as_token_estimate active) @ ''/'' @ show_nat (as_budget active) @ '': dropped ''
                       @ join '', '' (as_dropped active)) c);
          (blocks, c2) = context_blocks w io c1;
          user = cl_user (tn_caller t);
          continuing = (tn_continuing t \<and> tn_steps t = 0);
          afresh = (continuing \<and> words_begun (chat_messages user (tn_workspace t) (tn_conversation t) c2) = None);
          c3 = (if afresh
                then alter_turn (tn_id t) (\<lambda>t. t\<lparr>tn_continuing := False\<rparr>)
                       (write_chat (io_now io) user (tn_workspace t) (tn_conversation t) drop_unsaid c2)
                else c2)
      in c3\<lparr>c_asked := c_asked c3 @ [tn_id t]\<rparr>)"

text \<open>\<open>ask_the_model\<close>: whether the turn ended instead.\<close>

definition moved_away :: string where
  "moved_away = ''The answer stopped when you moved to another workspace.''"

definition ask_step :: "('d, 'o, 's) world \<Rightarrow> io \<Rightarrow> nat \<Rightarrow> ('d, 's) core \<Rightarrow> bool \<times> ('d, 's) core" where
  "ask_step w io i c =
     (case turn_of i c of
        None \<Rightarrow> (False, c)
      | Some t \<Rightarrow>
          if tn_stop t then (True, close_turn w io i TurnStopped c)
          else if us_workspace (c_us c) \<noteq> tn_workspace t then (True, close_turn w io i TurnStopped (notice NoticeInfo moved_away c))
          else if max_agent_steps \<le> tn_steps t
          then (True, close_turn w io i TurnDone (notice NoticeWarn (''stopped after '' @ show_nat max_agent_steps @ '' tool calls in one turn'') c))
          else (False, send_to_model w io t c))"

definition run_task :: "string \<Rightarrow> string \<Rightarrow> artifact list \<Rightarrow> task" where
  "run_task run goal carried = \<lparr>t_id = run, t_goal = goal, t_plan = [], t_artifacts = carried, t_notes = [], t_citations = []\<rparr>"

definition begin_step :: "('d, 'o, 's) world \<Rightarrow> io \<Rightarrow> nat \<Rightarrow> ('d, 's) core \<Rightarrow> bool \<times> ('d, 's) core" where
  "begin_step w io i c =
     (case turn_of i c of
        None \<Rightarrow> (False, c)
      | Some t \<Rightarrow>
          (let c1 = activate (io_now io) (tn_caller t) (alter_turn i (\<lambda>t. t\<lparr>tn_begun := True\<rparr>) c);
               goal = (case List.find (\<lambda>m. cm_role m = RUser) (rev (chat_messages (cl_user (tn_caller t)) (tn_workspace t) (tn_conversation t) c1)) of
                         Some m \<Rightarrow> cm_content m | None \<Rightarrow> []);
               run = ''run_'' @ show_nat (io_now io);
               c2 = c1\<lparr>c_us := (c_us c1)\<lparr>us_run := Some run\<rparr>\<rparr>
           in ask_step w io i (emit_task (set_task (run_task run goal (t_artifacts (us_task (c_us c2)))) c2))))"

section \<open>Whoever may start, starts\<close>

definition next_to_move :: "nat \<Rightarrow> turn list \<Rightarrow> (turn \<times> turn_state) option" where
  "next_to_move slots ts =
     map_option (\<lambda>i. (ts ! i, where_it_goes slots ts i))
       (List.find (\<lambda>i. waiting (ts ! i) \<and> where_it_goes slots ts i \<noteq> tn_state (ts ! i)) [0..<length ts])"

definition move_turn :: "('d, 'o, 's) world \<Rightarrow> io \<Rightarrow> turn \<Rightarrow> turn_state \<Rightarrow> ('d, 's) core \<Rightarrow> ('d, 's) core" where
  "move_turn w io t st c =
     (let c1 = set_turn_state (tn_id t) st (activate (io_now io) (tn_caller t) c)
      in if st = Writing then snd (begin_step w io (tn_id t) c1) else c1)"

text \<open>What leaves the turns alone.\<close>

named_theorems keeps_turns

lemma emit_turns [keeps_turns]: "c_turns (emit_to r ev c) = c_turns c" "c_turns (emit ev c) = c_turns c" "c_turns (emit_all ev c) = c_turns c"
  "c_turns (trace l c) = c_turns c" "c_turns (notice lv l c) = c_turns c" "c_turns (emit_environment c) = c_turns c"
  "c_turns (broadcast_environment c) = c_turns c"
  by (simp_all add: emit_to_def emit_def emit_all_def trace_def notice_def emit_environment_def broadcast_environment_def)

lemma state_turns [keeps_turns]: "c_turns (on_chats f c) = c_turns c" "c_turns (set_task t c) = c_turns c" "c_turns (emit_task c) = c_turns c"
  "c_turns (record_conversation now c) = c_turns c" "c_turns (write_chat now u ws cv ch c) = c_turns c"
  "c_turns (set_installed i h c) = c_turns c"
  by (simp_all add: on_chats_def set_task_def emit_task_def emit_turns record_conversation_def write_chat_def Let_def set_installed_def)

lemma fresh_user_state_turns: "c_turns (snd (fresh_user_state now u c)) = c_turns c"
  by (simp add: fresh_user_state_def own_workspace_def Let_def)

lemma activate_turns [keeps_turns]: "c_turns (activate now cl c) = c_turns c"
  using fresh_user_state_turns [of now "cl_user cl" c] by (auto simp: activate_def split: option.splits prod.splits)

lemma finish_run_turns [keeps_turns]: "c_turns (finish_run w c) = c_turns c"
  by (simp add: finish_run_def settle_plan_def propose_def Let_def keeps_turns split: option.split)

lemma fold_turns: "(\<And>x d. x \<in> set xs \<Longrightarrow> c_turns (f x d) = c_turns d) \<Longrightarrow> c_turns (fold f xs c) = c_turns c"
  by (induction xs arbitrary: c) auto

lemma withdraw_turns [keeps_turns]: "c_turns (withdraw i c) = c_turns c"
  by (simp add: withdraw_def Let_def keeps_turns fold_turns)

lemma doc_for_turns [keeps_turns]: "c_turns (snd (doc_for w io h c)) = c_turns c"
  by (auto simp: doc_for_def harness_document_def restore_from_dag_def Let_def keeps_turns split: option.splits prod.splits sum.splits)

lemma online_turns [keeps_turns]: "c_turns (online w io h c) = c_turns c"
  by (auto simp: online_def keeps_turns split: option.splits prod.splits sum.splits)

lemma open_doc_turns: "c_turns (snd (fold (open_doc w io) hs p)) = c_turns (snd p)"
proof (induction hs arbitrary: p)
  case (Cons h hs)
  have "c_turns (snd (open_doc w io h p)) = c_turns (snd p)"
    using doc_for_turns [of w io h "snd p"] by (auto simp: open_doc_def split: prod.splits option.splits)
  then show ?case using Cons by simp
qed simp

lemma context_blocks_turns [keeps_turns]: "c_turns (snd (context_blocks w io c)) = c_turns c"
proof -
  have "c_turns (fold (online w io) hs d) = c_turns d" for hs d
    by (rule fold_turns) (rule online_turns)
  then show ?thesis
    by (simp add: context_blocks_def Let_def case_prod_unfold open_doc_turns)
qed

section \<open>Turns by their place\<close>

lemma find_nth_distinct:
  assumes "distinct (map f xs)" and "i < length xs"
  shows "List.find (\<lambda>x. f x = f (xs ! i)) xs = Some (xs ! i)"
  using assms by (auto simp: find_Some_iff distinct_conv_nth intro!: exI [of _ i])

lemma alter_first_nth:
  assumes "distinct (map f xs)" and "i < length xs"
  shows "alter_first (\<lambda>x. f x = f (xs ! i)) g xs = xs[i := g (xs ! i)]"
  using assms
proof (induction xs arbitrary: i)
  case (Cons x xs)
  then show ?case by (cases i) (auto simp: image_iff)
qed simp

lemma remove_first_length: "List.find p xs \<noteq> None \<Longrightarrow> length (remove_first p xs) < length xs"
  by (induction xs) (auto split: if_splits)

lemma next_to_move_nth:
  assumes "next_to_move slots ts = Some (t, st)"
  shows "\<exists>i < length ts. t = ts ! i \<and> waiting t \<and> st = where_it_goes slots ts i \<and> st \<noteq> tn_state t"
  using assms by (auto simp: next_to_move_def find_Some_iff)

lemma close_turn_shrinks:
  assumes "turn_of i c \<noteq> None"
  shows "length (c_turns (close_turn w io i how c)) < length (c_turns c)"
  using assms remove_first_length [of "\<lambda>t. tn_id t = i" "c_turns c"]
  by (auto simp: close_turn_def turn_of_def Let_def keeps_turns)

lemma alter_first_map: "(\<And>x. f (g x) = f x) \<Longrightarrow> map f (alter_first p g xs) = map f xs"
  by (induction xs) auto

lemma alter_first_length [simp]: "length (alter_first p g xs) = length xs"
  by (induction xs) auto

lemma send_to_model_states: "map tn_state (c_turns (send_to_model w io t c)) = map tn_state (c_turns c)"
  using context_blocks_turns [of w io]
  by (simp add: send_to_model_def Let_def keeps_turns alter_turn_def alter_first_map case_prod_unfold)

lemma ask_step_turns:
  shows "(\<not> fst (ask_step w io i c) \<longrightarrow> map tn_state (c_turns (snd (ask_step w io i c))) = map tn_state (c_turns c)) \<and>
         (fst (ask_step w io i c) \<longrightarrow> length (c_turns (snd (ask_step w io i c))) < length (c_turns c))"
proof (cases "turn_of i c")
  case (Some t)
  have "length (c_turns (close_turn w io i how (notice lv l c))) < length (c_turns c)" for how lv l
    using close_turn_shrinks [of i "notice lv l c"] Some by (simp add: turn_of_def keeps_turns)
  then show ?thesis
    using Some close_turn_shrinks [of i c w io TurnStopped] send_to_model_states [of w io t c] by (simp add: ask_step_def)
qed (simp add: ask_step_def)

lemma begin_step_turns:
  shows "(\<not> fst (begin_step w io i c) \<longrightarrow> map tn_state (c_turns (snd (begin_step w io i c))) = map tn_state (c_turns c)) \<and>
         (fst (begin_step w io i c) \<longrightarrow> length (c_turns (snd (begin_step w io i c))) < length (c_turns c))"
proof (cases "turn_of i c")
  case (Some t)
  obtain c' where c': "begin_step w io i c = ask_step w io i c'" "c_turns c' = c_turns (alter_turn i (\<lambda>t. t\<lparr>tn_begun := True\<rparr>) c)"
    using Some by (simp add: begin_step_def Let_def keeps_turns)
  have "map tn_state (c_turns c') = map tn_state (c_turns c)" "length (c_turns c') = length (c_turns c)"
    by (simp_all add: c'(2) alter_turn_def alter_first_map)
  then show ?thesis using ask_step_turns [of w io i c'] by (simp add: c'(1))
qed (simp add: begin_step_def)

text \<open>What grows smaller as turns start: how many there are, how many wait, and how many are told a place they are not in.\<close>

definition misplaced :: "nat \<Rightarrow> turn list \<Rightarrow> nat \<Rightarrow> bool" where
  "misplaced slots ts i \<longleftrightarrow> i < length ts \<and> waiting (ts ! i) \<and> where_it_goes slots ts i \<noteq> tn_state (ts ! i)"

definition count_waiting :: "turn list \<Rightarrow> nat" where
  "count_waiting ts = length (filter waiting ts)"

definition count_misplaced :: "nat \<Rightarrow> turn list \<Rightarrow> nat" where
  "count_misplaced slots ts = card {i. misplaced slots ts i}"

lemma count_waiting_states: "count_waiting ts = length (filter (\<lambda>s. s \<in> {WaitsForAnotherChat, WaitsForTheModel}) (map tn_state ts))"
  by (induction ts) (auto simp: count_waiting_def waiting_def)

lemma length_filter_update_less:
  assumes "i < length xs" and "P (xs ! i)" and "\<not> P y"
  shows "length (filter P (xs[i := y])) < length (filter P xs)"
  using assms
proof (induction xs arbitrary: i)
  case (Cons x xs)
  then show ?case by (cases i) auto
qed simp

lemma length_filter_update_same:
  assumes "i < length xs" and "P (xs ! i) \<longleftrightarrow> P y"
  shows "length (filter P (xs[i := y])) = length (filter P xs)"
  using assms
proof (induction xs arbitrary: i)
  case (Cons x xs)
  then show ?case by (cases i) auto
qed simp

lemma where_it_goes_waiting_update:
  assumes "i < length ts" and "waiting (ts ! i)" and "st \<in> {WaitsForAnotherChat, WaitsForTheModel}" and "j < length ts"
  shows "where_it_goes slots (ts[i := (ts ! i)\<lparr>tn_state := st\<rparr>]) j = where_it_goes slots ts j"
proof -
  let ?ts = "ts[i := (ts ! i)\<lparr>tn_state := st\<rparr>]"
  have users: "map (\<lambda>t. cl_user (tn_caller t)) ?ts = map (\<lambda>t. cl_user (tn_caller t)) ts"
    using assms(1) by (simp add: map_update) (metis list_update_id map_update)
  have "list_ex (\<lambda>t. cl_user (tn_caller t) = u) (take j ?ts) \<longleftrightarrow> list_ex (\<lambda>t. cl_user (tn_caller t) = u) (take j ts)" for u
    using arg_cong [OF users, of "\<lambda>us. u \<in> set (take j us)"] by (auto simp: list_ex_iff take_map)
  moreover have "cl_user (tn_caller (?ts ! j)) = cl_user (tn_caller (ts ! j))"
    using assms by (simp add: nth_list_update)
  moreover have "length (filter (\<lambda>t. tn_state t = Writing) ?ts) = length (filter (\<lambda>t. tn_state t = Writing) ts)"
    using assms by (intro length_filter_update_same) (auto simp: waiting_def)
  ultimately show ?thesis by (simp add: where_it_goes_def)
qed

lemma count_misplaced_less:
  assumes "i < length ts" and "waiting (ts ! i)" and st: "st = where_it_goes slots ts i" "st \<noteq> tn_state (ts ! i)" "st \<noteq> Writing"
  shows "count_misplaced slots (ts[i := (ts ! i)\<lparr>tn_state := st\<rparr>]) < count_misplaced slots ts"
proof -
  let ?ts = "ts[i := (ts ! i)\<lparr>tn_state := st\<rparr>]"
  have w: "st \<in> {WaitsForAnotherChat, WaitsForTheModel}"
    using st by (auto simp: where_it_goes_def split: if_splits)
  have "{j. misplaced slots ?ts j} \<subseteq> {j. misplaced slots ts j} - {i}"
    using assms where_it_goes_waiting_update [OF assms(1,2) w] by (auto simp: misplaced_def nth_list_update split: if_splits)
  moreover have "i \<in> {j. misplaced slots ts j}" using assms by (simp add: misplaced_def)
  moreover have "finite {j. misplaced slots ts j}" by (rule finite_subset [of _ "{..<length ts}"]) (auto simp: misplaced_def)
  ultimately show ?thesis
    unfolding count_misplaced_def by (intro psubset_card_mono) auto
qed

lemma set_turn_state_nth:
  assumes "distinct (map tn_id (c_turns c))" and "i < length (c_turns c)" and "tn_state (c_turns c ! i) \<noteq> st"
  shows "c_turns (set_turn_state (tn_id (c_turns c ! i)) st c) = (c_turns c)[i := (c_turns c ! i)\<lparr>tn_state := st\<rparr>]"
  using assms by (simp add: set_turn_state_def turn_of_def find_nth_distinct alter_turn_def alter_first_nth keeps_turns)

lemma move_turn_measure:
  assumes d: "distinct (map tn_id (c_turns c))" and n: "next_to_move slots (c_turns c) = Some (t, st)"
  shows "(move_turn w io t st c, c) \<in> measures [\<lambda>c. length (c_turns c), \<lambda>c. count_waiting (c_turns c), \<lambda>c. count_misplaced slots (c_turns c)]"
proof -
  obtain i where i: "i < length (c_turns c)" "t = c_turns c ! i" "waiting t" "st = where_it_goes slots (c_turns c) i" "st \<noteq> tn_state t"
    using next_to_move_nth [OF n] by auto
  let ?a = "activate (io_now io) (tn_caller t) c"
  let ?ts = "(c_turns c)[i := t\<lparr>tn_state := st\<rparr>]"
  have c1: "c_turns (set_turn_state (tn_id t) st ?a) = ?ts"
    using set_turn_state_nth [of ?a i st] d i by (simp add: keeps_turns)
  show ?thesis
  proof (cases "st = Writing")
    case True
    have less: "count_waiting ?ts < count_waiting (c_turns c)"
      unfolding count_waiting_def using i True by (intro length_filter_update_less) (auto simp: waiting_def)
    let ?c1 = "set_turn_state (tn_id t) st ?a"
    let ?c2 = "snd (begin_step w io (tn_id t) ?c1)"
    have c2: "move_turn w io t st c = ?c2" using True by (simp add: move_turn_def)
    have "length (c_turns ?c1) = length (c_turns c)" by (simp add: c1)
    moreover have "count_waiting (c_turns ?c1) < count_waiting (c_turns c)" by (simp add: c1 less)
    moreover have "length (c_turns ?c2) < length (c_turns ?c1) \<or> map tn_state (c_turns ?c2) = map tn_state (c_turns ?c1)"
      using begin_step_turns [of w io "tn_id t" ?c1] by blast
    then have "length (c_turns ?c2) < length (c_turns ?c1) \<or>
        length (c_turns ?c2) = length (c_turns ?c1) \<and> count_waiting (c_turns ?c2) = count_waiting (c_turns ?c1)"
      by (metis count_waiting_states length_map)
    ultimately show ?thesis by (auto simp: c2)
  next
    case False
    have "count_waiting ?ts = count_waiting (c_turns c)"
      unfolding count_waiting_def using i False
      by (intro length_filter_update_same) (auto simp: waiting_def where_it_goes_def split: if_splits)
    moreover have "count_misplaced slots ?ts < count_misplaced slots (c_turns c)"
      using count_misplaced_less [of i "c_turns c" st slots] i False by simp
    moreover have "c_turns (move_turn w io t st c) = ?ts" using False c1 by (simp add: move_turn_def)
    ultimately show ?thesis by simp
  qed
qed

text \<open>
  The loop of \<open>schedule\<close>.  That no two turns share an identifier is kept by every operation (\<open>turns_ok\<close> below); the guard
  only makes the function total, and where it holds the loop always comes to rest.
\<close>

function schedule :: "('d, 'o, 's) world \<Rightarrow> io \<Rightarrow> ('d, 's) core \<Rightarrow> ('d, 's) core" where
  "schedule w io c =
     (if \<not> distinct (map tn_id (c_turns c)) then c
      else case next_to_move (w_slots w) (c_turns c) of
          None \<Rightarrow> c
        | Some (t, st) \<Rightarrow> schedule w io (move_turn w io t st c))"
  by pat_completeness auto
termination
proof (relation "inv_image (measures [\<lambda>(w, c). length (c_turns c), \<lambda>(w, c). count_waiting (c_turns c), \<lambda>(w, c). count_misplaced (w_slots w) (c_turns c)]) (\<lambda>(w, io, c). (w, c))")
qed (auto dest: move_turn_measure)

declare schedule.simps [simp del]

section \<open>Queueing, going on, ending\<close>

definition end_turn :: "('d, 'o, 's) world \<Rightarrow> io \<Rightarrow> nat \<Rightarrow> turn_state \<Rightarrow> ('d, 's) core \<Rightarrow> ('d, 's) core" where
  "end_turn w io i how c = (if turn_of i c = None then c else schedule w io (close_turn w io i how c))"

text \<open>A step that may have ended its turn, and then the others.\<close>

definition settle :: "('d, 'o, 's) world \<Rightarrow> io \<Rightarrow> bool \<times> ('d, 's) core \<Rightarrow> ('d, 's) core" where
  "settle w io p = (if fst p then schedule w io (snd p) else snd p)"

definition ask_the_model :: "('d, 'o, 's) world \<Rightarrow> io \<Rightarrow> nat \<Rightarrow> ('d, 's) core \<Rightarrow> ('d, 's) core" where
  "ask_the_model w io i c = settle w io (ask_step w io i c)"

definition new_turn :: "string \<Rightarrow> bool \<Rightarrow> ('d, 's) core \<Rightarrow> turn" where
  "new_turn conv continuing c =
     \<lparr>tn_id = c_next_turn c, tn_caller = c_active c, tn_workspace = us_workspace (c_us c), tn_conversation = conv,
      tn_state = WaitsForAnotherChat, tn_begun = False, tn_steps = 0, tn_stop = False, tn_calls = [], tn_continuing = continuing,
      tn_refused = False\<rparr>"

definition queue_turn :: "('d, 'o, 's) world \<Rightarrow> io \<Rightarrow> string \<Rightarrow> bool \<Rightarrow> ('d, 's) core \<Rightarrow> ('d, 's) core" where
  "queue_turn w io conv continuing c =
     (let i = c_next_turn c;
          c1 = c\<lparr>c_next_turn := i + 1, c_turns := c_turns c @ [new_turn conv continuing c]\<rparr>;
          st = where_it_goes (w_slots w) (c_turns c1) (length (c_turns c));
          c2 = emit (TurnChanged conv st) (alter_turn i (\<lambda>t. t\<lparr>tn_state := st\<rparr>) c1)
      in if st = Writing then settle w io (begin_step w io i c2) else c2)"

definition post :: "internal \<Rightarrow> ('d, 's) core \<Rightarrow> ('d, 's) core" where
  "post m c = c\<lparr>c_posted := c_posted c @ [m]\<rparr>"

text \<open>\<open>keep\<close>: the words of an answer into its chat; carrying on an answer that stopped, they join it.\<close>

definition join_answer :: "string \<Rightarrow> string \<Rightarrow> bool \<Rightarrow> json option \<Rightarrow> chat_message \<Rightarrow> chat_message" where
  "join_answer txt thinking stopped why m =
     m\<lparr>cm_content := cm_content m @ txt, cm_stopped := stopped, cm_cut_short := why,
       cm_thinking := (if thinking = [] then cm_thinking m
                       else if cm_thinking m = [] then thinking else cm_thinking m @ newline @ newline @ thinking)\<rparr>"

definition add_answer :: "bool \<Rightarrow> string \<Rightarrow> string \<Rightarrow> bool \<Rightarrow> json option \<Rightarrow> chat_message list \<Rightarrow> chat_message list" where
  "add_answer joins txt thinking stopped why ms =
     (let fresh = ms @ [(said RAssistant txt)\<lparr>cm_stopped := stopped, cm_thinking := thinking, cm_cut_short := why\<rparr>]
      in case List.find (\<lambda>m. cm_role m = RAssistant) (rev ms) of
           None \<Rightarrow> fresh
         | Some m \<Rightarrow>
             if joins \<and> cm_stopped m
             then rev (alter_first (\<lambda>m. cm_role m = RAssistant) (join_answer txt thinking stopped why) (rev ms))
             else fresh)"

definition keep :: "io \<Rightarrow> nat \<Rightarrow> string \<Rightarrow> string \<Rightarrow> bool \<Rightarrow> bool \<Rightarrow> json option \<Rightarrow> ('d, 's) core \<Rightarrow> ('d, 's) core" where
  "keep io i txt thinking stopped joins why c =
     (case turn_of i c of
        None \<Rightarrow> c
      | Some t \<Rightarrow> write_chat (io_now io) (cl_user (tn_caller t)) (tn_workspace t) (tn_conversation t)
          (add_answer (joins \<and> tn_continuing t) txt thinking stopped why) c)"

text \<open>What serde writes of an outcome and of a call's record.\<close>

fun outcome_json :: "tool_outcome \<Rightarrow> json" where
  "outcome_json (CallOk summary result commit) =
     JObj [(''ok'', JObj [(''commit'', option_json commit), (''diff_summary'', JStr summary), (''result'', result)])]"
| "outcome_json (CallDenied reason) = JObj [(''denied'', JObj [(''reason'', JStr reason)])]"
| "outcome_json (CallAwaits prompt) = JObj [(''awaiting_confirm'', JObj [(''prompt'', JStr prompt)])]"
| "outcome_json (CallDeclined prompt) = JObj [(''declined'', JObj [(''prompt'', JStr prompt)])]"
| "outcome_json (CallError message) = JObj [(''error'', JObj [(''message'', JStr message)])]"
| "outcome_json CallPanics = JNull"

definition call_record :: "string \<Rightarrow> string \<Rightarrow> json \<Rightarrow> tool_outcome \<Rightarrow> json" where
  "call_record i tool params outcome = JObj [(''id'', JStr i), (''outcome'', outcome_json outcome), (''params'', params), (''tool'', JStr tool)]"

definition record_call :: "io \<Rightarrow> nat \<Rightarrow> string \<Rightarrow> json \<Rightarrow> tool_outcome \<Rightarrow> ('d, 's) core \<Rightarrow> ('d, 's) core" where
  "record_call io i tool params outcome c =
     (case turn_of i c of
        None \<Rightarrow> c
      | Some t \<Rightarrow> write_chat (io_now io) (cl_user (tn_caller t)) (tn_workspace t) (tn_conversation t)
          (\<lambda>ms. ms @ [(said RTool [])\<lparr>cm_tool_calls := [call_record (''t'' @ show_nat (length ms)) tool params outcome]\<rparr>]) c)"

text \<open>The newest call of the tool that waits for an answer, marked as declined.\<close>

definition awaits :: "string \<Rightarrow> json \<Rightarrow> bool" where
  "awaits tool call \<longleftrightarrow> str_field call ''tool'' = tool \<and>
     (case jget call ''outcome'' of Some (JObj [(k, p)]) \<Rightarrow> k = ''awaiting_confirm'' | _ \<Rightarrow> False)"

definition decline_call :: "json \<Rightarrow> json" where
  "decline_call call = (case call of
     JObj kvs \<Rightarrow> JObj (map (\<lambda>(k, v). if k = ''outcome'' then (k, case v of JObj [(_, p)] \<Rightarrow> JObj [(''declined'', p)] | _ \<Rightarrow> v) else (k, v)) kvs)
   | _ \<Rightarrow> call)"

definition mark_declined :: "string \<Rightarrow> chat_message list \<Rightarrow> chat_message list" where
  "mark_declined tool ms =
     rev (alter_first (\<lambda>m. list_ex (awaits tool) (cm_tool_calls m))
            (\<lambda>m. m\<lparr>cm_tool_calls := alter_first (awaits tool) decline_call (cm_tool_calls m)\<rparr>) (rev ms))"

section \<open>What a person asks\<close>

text \<open>A message without attachments: kept, and answered now or when the answer before it is done.\<close>

definition send_message :: "('d, 'o, 's) world \<Rightarrow> io \<Rightarrow> string option \<Rightarrow> string \<Rightarrow> ('d, 's) core \<Rightarrow> (string, unit) result \<times> ('d, 's) core" where
  "send_message w io named txt c =
     (case chat_of_the_caller named c of
        Inl e \<Rightarrow> (Inl e, c)
      | Inr conv \<Rightarrow>
          if turn_in conv c \<noteq> None
          then (Inl ''An answer is still being written in this chat. Stop it, or wait for it to finish.'', c)
          else (Inr (), queue_turn w io conv False
                  (write_chat (io_now io) (cl_user (c_active c)) (us_workspace (c_us c)) conv (\<lambda>ms. ms @ [said RUser txt]) c)))"

definition continue_answer :: "('d, 'o, 's) world \<Rightarrow> io \<Rightarrow> string option \<Rightarrow> ('d, 's) core \<Rightarrow> (string, unit) result \<times> ('d, 's) core" where
  "continue_answer w io named c =
     (case chat_of_the_caller named c of
        Inl e \<Rightarrow> (Inl e, c)
      | Inr conv \<Rightarrow>
          if turn_in conv c \<noteq> None then (Inl ''An answer is still being written in this chat.'', c)
          else (let ms = chat_messages (cl_user (c_active c)) (us_workspace (c_us c)) conv c
                in if ms \<noteq> [] \<and> cm_role (last ms) = RAssistant \<and> cm_stopped (last ms)
                   then (Inr (), queue_turn w io conv True c)
                   else (Inl ''There is no stopped answer to carry on in this chat.'', c)))"

definition cancel_turn :: "('d, 'o, 's) world \<Rightarrow> io \<Rightarrow> string option \<Rightarrow> ('d, 's) core \<Rightarrow> ('d, 's) core" where
  "cancel_turn w io named c =
     (case turn_in (case named of Some i \<Rightarrow> i | None \<Rightarrow> current (us_chats (c_us c))) c of
        None \<Rightarrow> c
      | Some i \<Rightarrow>
          (case stop_turn i c of
             (None, c1) \<Rightarrow> c1
           | (Some st, c1) \<Rightarrow> if st \<noteq> Writing then end_turn w io i TurnStopped c1 else c1))"

definition forget_turn :: "('d, 'o, 's) world \<Rightarrow> io \<Rightarrow> string \<Rightarrow> ('d, 's) core \<Rightarrow> ('d, 's) core" where
  "forget_turn w io conv c =
     (case turn_in conv c of None \<Rightarrow> c | Some i \<Rightarrow> end_turn w io i TurnStopped (snd (stop_turn i c)))"

definition resume :: "io \<Rightarrow> nat option \<Rightarrow> string \<Rightarrow> json \<Rightarrow> tool_outcome \<Rightarrow> ('d, 's) core \<Rightarrow> ('d, 's) core" where
  "resume io turn tool params outcome c =
     (case turn of
        None \<Rightarrow> c
      | Some i \<Rightarrow> if turn_of i c = None then c
          else post (GoOn i) (set_turn_state i Writing (record_call io i tool params outcome c)))"

definition declined :: "('d, 'o, 's) world \<Rightarrow> io \<Rightarrow> nat option \<Rightarrow> string \<Rightarrow> ('d, 's) core \<Rightarrow> ('d, 's) core" where
  "declined w io turn tool c =
     (case Option.bind turn (\<lambda>i. turn_of i c) of
        None \<Rightarrow> c
      | Some t \<Rightarrow> end_turn w io (tn_id t) TurnStopped
          (write_chat (io_now io) (cl_user (tn_caller t)) (tn_workspace t) (tn_conversation t) (mark_declined tool) c))"

text \<open>Every answer of the person's there asked to stop first, then those not being written ended.\<close>

fun end_stopped :: "('d, 'o, 's) world \<Rightarrow> io \<Rightarrow> (nat \<times> turn_state option) list \<Rightarrow> ('d, 's) core \<Rightarrow> ('d, 's) core" where
  "end_stopped w io [] c = c"
| "end_stopped w io ((i, st) # rest) c =
     end_stopped w io rest (if st \<noteq> None \<and> st \<noteq> Some Writing then end_turn w io i TurnStopped c else c)"

definition stop_on_leaving :: "('d, 'o, 's) world \<Rightarrow> io \<Rightarrow> string \<Rightarrow> ('d, 's) core \<Rightarrow> ('d, 's) core" where
  "stop_on_leaving w io workspace c =
     (let leaving = map tn_id (filter (\<lambda>t. cl_user (tn_caller t) = cl_user (c_active c) \<and> tn_workspace t = workspace) (c_turns c))
      in if leaving = [] then c
         else notice NoticeInfo moved_away
                (end_stopped w io (map (\<lambda>i. (i, map_option tn_state (turn_of i c))) leaving)
                   (fold (\<lambda>i. snd \<circ> stop_turn i) leaving c)))"

section \<open>What comes back\<close>

text \<open>Why an answer was cut short, as it is stored.\<close>

definition out_of_room :: "bool \<Rightarrow> json option" where
  "out_of_room alone = Some (JStr (if alone then ''too_long'' else ''chat_full''))"

text \<open>A tool's name as the engine is given it.\<close>

definition engine_name :: "string \<Rightarrow> string" where
  "engine_name tool = str_replace ''.'' ''__'' tool"

definition on_offer :: "('d, 'o, 's) world \<Rightarrow> string \<Rightarrow> ('d, 's) core \<Rightarrow> bool" where
  "on_offer w tool c = list_ex (\<lambda>t. et_name t = tool \<or> engine_name (et_name t) = tool) (as_tools (core_active_set w c))"

definition could_not :: string where
  "could_not = ''I couldn't do that.''"

definition attempted :: "('d, 'o, 's) world \<Rightarrow> io \<Rightarrow> nat \<Rightarrow> string \<Rightarrow> string \<Rightarrow> call_block \<Rightarrow> bool \<Rightarrow> ('d, 's) core \<Rightarrow> ('d, 's) core" where
  "attempted w io i shown thought block offered c =
     (case turn_of i c of
        None \<Rightarrow> c
      | Some t \<Rightarrow>
          if \<not> tn_refused t then ask_the_model w io i (alter_turn i (\<lambda>t. t\<lparr>tn_refused := True\<rparr>) c)
          else
            (let answer = (if offered then bl_words_around block else could_not);
                 unseen = (case strip_prefix shown answer of Some r \<Rightarrow> r | None \<Rightarrow> answer);
                 c1 = (if unseen = [] then c else emit (AssistantDelta (tn_conversation t) unseen) c)
             in end_turn w io i TurnDone (keep io i answer thought False True None c1)))"

definition finish_answer :: "('d, 'o, 's) world \<Rightarrow> io \<Rightarrow> nat \<Rightarrow> string \<Rightarrow> bool \<Rightarrow> nat \<Rightarrow> step_end \<Rightarrow> turn \<Rightarrow> ('d, 's) core \<Rightarrow> ('d, 's) core" where
  "finish_answer w io i txt at_limit written se t c =
     (let rest = (case strip_prefix (se_shown se) txt of Some r \<Rightarrow> r | None \<Rightarrow> []);
          c1 = (if rest = [] then c else emit (AssistantDelta (tn_conversation t) rest) c);
          full = (0 < written \<and> written < se_max_tokens se)
      in end_turn w io i TurnDone
           (if at_limit
            then keep io i txt (se_thought se) True True (if full then out_of_room (se_alone se) else Some (JStr ''length'')) c1
            else keep io i txt (se_thought se) False True None c1))"

definition replied :: "('d, 'o, 's) world \<Rightarrow> io \<Rightarrow> nat \<Rightarrow> step_end \<Rightarrow> ('d, 's) core \<Rightarrow> ('d, 's) core" where
  "replied w io i se c0 =
     (case turn_of i c0 of
        None \<Rightarrow> c0
      | Some t \<Rightarrow>
          (let c = activate (io_now io) (tn_caller t) c0
           in case se_repeated se of
                Some kept \<Rightarrow> end_turn w io i TurnDone (keep io i kept (se_thought se) False True (Some (JStr ''repeated'')) c)
              | None \<Rightarrow>
                  (case se_reply se of
                     ReplyCut stopped \<Rightarrow>
                       end_turn w io i (if stopped then TurnStopped else TurnCut) (keep io i (se_shown se) (se_thought se) True True None c)
                   | ReplyNoRoom \<Rightarrow> end_turn w io i TurnDone (keep io i [] [] True True (out_of_room (se_alone se)) c)
                   | ReplyFailed \<Rightarrow> end_turn w io i TurnDone (keep io i [] [] True True (Some (JStr ''failed'')) c)
                   | Replies txt calls at_limit written \<Rightarrow>
                       if calls \<noteq> [] then post (GoOn i) (alter_turn i (\<lambda>t. t\<lparr>tn_calls := calls\<rparr>) c)
                       else (case io_call_block io txt of
                               None \<Rightarrow> finish_answer w io i txt at_limit written se t c
                             | Some block \<Rightarrow>
                                 (let offered = on_offer w (bl_tool block) c
                                  in if offered \<and> bl_alone block
                                     then post (GoOn i) (alter_turn i (\<lambda>t. t\<lparr>tn_calls := [\<lparr>pl_id = ''call_0'',
                                            pl_tool = str_replace ''__'' ''.'' (bl_tool block), pl_params = bl_params block\<rparr>]\<rparr>) c)
                                     else attempted w io i (se_shown se) (se_thought se) block offered c)))))"

text \<open>The next call of the turn, made as the agent; or, with none left, its next step of the model.\<close>

definition make_call :: "('d, 'o, 's) world \<Rightarrow> io \<Rightarrow> turn \<Rightarrow> proposed_call \<Rightarrow> ('d, 's) core \<Rightarrow> ('d, 's) core" where
  "make_call w io t call c =
     (let i = tn_id t;
          c1 = emit (ToolCallStarted (tn_conversation t) (pl_id call) (pl_tool call) (pl_params call)) c;
          (outcome, c2) = call_tool w io (pl_tool call) (pl_params call) ByAgent (c1\<lparr>c_turn_at_work := Some i\<rparr>);
          c3 = task_progress (pl_tool call) outcome (c2\<lparr>c_turn_at_work := None\<rparr>);
          c4 = emit (ToolCallFinished (tn_conversation t) (pl_id call) (pl_tool call) outcome) c3;
          c5 = record_call io i (pl_tool call) (pl_params call) outcome c4
      in case outcome of
           CallAwaits _ \<Rightarrow> set_turn_state i AwaitsApproval c5
         | _ \<Rightarrow> post (GoOn i) c5)"

definition go_on :: "('d, 'o, 's) world \<Rightarrow> io \<Rightarrow> nat \<Rightarrow> ('d, 's) core \<Rightarrow> ('d, 's) core" where
  "go_on w io i c0 =
     (case turn_of i c0 of
        None \<Rightarrow> c0
      | Some t \<Rightarrow>
          (let c = activate (io_now io) (tn_caller t) c0
           in if tn_stop t then end_turn w io i TurnStopped c
              else if us_workspace (c_us c) \<noteq> tn_workspace t then end_turn w io i TurnStopped (notice NoticeInfo moved_away c)
              else (case tn_calls t of
                      [] \<Rightarrow> ask_the_model w io i (alter_turn i (\<lambda>t. t\<lparr>tn_steps := tn_steps t + 1\<rparr>) c)
                    | call # rest \<Rightarrow> make_call w io t call (alter_turn i (\<lambda>t. t\<lparr>tn_calls := rest\<rparr>) c))))"

definition handle_internal :: "('d, 'o, 's) world \<Rightarrow> io \<Rightarrow> internal \<Rightarrow> ('d, 's) core \<Rightarrow> ('d, 's) core" where
  "handle_internal w io m c = (case m of Replied i se \<Rightarrow> replied w io i se c | GoOn i \<Rightarrow> go_on w io i c)"

end
