(* ===== verification/Requests.thy ===== *)
theory Requests
  imports Turns
begin

text \<open>
  Requests (\<open>Core::handle_as\<close> in \<open>crates/localspace-core/src/lib.rs\<close>): what a person asks, checked as that person.  Tool calls
  and approvals, documents and their replicas, history and undo, workspaces and their members, the environment.  Requests about
  packages' installation, models, attachments, features and accounts are not here.
\<close>

section \<open>Requests and responses\<close>

record member =
  mb_principal :: principal
  mb_level :: level

record workspace_info =
  wi_id :: string
  wi_name :: string
  wi_personal_to :: "string option"
  wi_members :: "member list"
  wi_agent_writes :: agent_writes
  wi_created_ms :: nat
  wi_mine :: "level option"
  wi_current :: bool

record document_info =
  di_id :: string
  di_title :: string
  di_kind :: doc_kind
  di_mime :: string
  di_bytes :: "nat option"
  di_hash :: string
  di_head :: "string option"
  di_source :: document_source
  di_created_ms :: nat

datatype request =
    SetNetworkMode network_mode
  | SetFocus "string option"
  | SetPinned string bool
  | SetHarnessEnabled string bool
  | SendMessage string "string option"
  | CancelTurn "string option"
  | ContinueAnswer "string option"
  | NewConversation
  | SelectConversation string
  | DeleteConversation string
  | RenameConversation string string
  | Approve string bool
  | CallTool string json
  | OpenDoc string
  | GetDocJson string
  | ProduceArtifact string string string string string string json string
  | ListDocuments
  | GetDocBlob string
  | WriteDoc string string json bool
  | DocSync string string string
  | DocSyncEnd string string
  | GetHistory nat
  | Undo
  | Redo
  | DropRun string
  | ListWorkspaces
  | CreateWorkspace string
  | SetMember string principal level
  | RemoveMember string principal
  | SetAgentWrites string agent_writes
  | SelectWorkspace string "string option"
  | SetDocumentAccess string "member list option"

datatype response =
    Okay
  | Failure string
  | Environment
  | Transcript "chat_message list"
  | Conversations "summary list" string
  | ToolResult tool_outcome
  | DocOpened string string doc_kind
  | DocJson string string json
  | ArtifactMade artifact
  | Documents "document_info list"
  | DocBlob string string string
  | History "commit list"
  | Workspaces "workspace_info list"

section \<open>Who may ask\<close>

text \<open>The requests of those modelled here that only an administrator makes, with the event a refusal is recorded under.\<close>

definition admin_only :: "request \<Rightarrow> string option" where
  "admin_only r = (case r of
     SetNetworkMode _ \<Rightarrow> Some ''network.mode''
   | SetHarnessEnabled _ _ \<Rightarrow> Some ''harness.enable''
   | _ \<Rightarrow> None)"

definition require_admin :: "('d, 'o, 's) world \<Rightarrow> io \<Rightarrow> string \<Rightarrow> ('d, 's) core \<Rightarrow> (response, unit) result \<times> ('d, 's) core" where
  "require_admin w io ev c =
     (if cl_is_admin (c_active c) then (Inr (), c)
      else (Inl (Failure ''Only an administrator can do that.''), audit_doc w io [] ev [] ''denied'' c))"

definition require_workspace_owner :: "('d, 'o, 's) world \<Rightarrow> io \<Rightarrow> string \<Rightarrow> string \<Rightarrow> ('d, 's) core \<Rightarrow> (response, unit) result \<times> ('d, 's) core" where
  "require_workspace_owner w io workspace ev c =
     (case get_workspace (c_access c) workspace of
        None \<Rightarrow> (Inl (Failure (''no workspace '' @ tick workspace)), c)
      | Some ws \<Rightarrow>
          if personal_to ws \<noteq> None
          then (Inl (Failure ''A personal workspace is its owner's alone; share from a workspace an administrator made.''), c)
          else if level_of ws (core_identity c) = Some Owner \<or> cl_is_admin (c_active c) then (Inr (), c)
          else (Inl (Failure ''Only the workspace's owner or an administrator can do that.''),
                audit_in w io (ws_scope workspace) ev [] ''denied'' c))"

definition persist_workspace :: "string \<Rightarrow> ('d, 's) core \<Rightarrow> ('d, 's) core" where
  "persist_workspace i c =
     (case get_workspace (c_access c) i of None \<Rightarrow> c | Some ws \<Rightarrow> c\<lparr>c_store := put_workspace ws (c_store c)\<rparr>)"

definition workspace_infos :: "('d, 's) core \<Rightarrow> workspace_info list" where
  "workspace_infos c =
     (let seen = filter (\<lambda>ws. level_of ws (core_identity c) \<noteq> None \<or> cl_is_admin (c_active c)) (vals (workspaces (c_access c)))
      in sort_key (\<lambda>wi. (wi_personal_to wi = None, wi_name wi))
           (map (\<lambda>ws. \<lparr>wi_id = ws_id ws, wi_name = ws_name ws, wi_personal_to = personal_to ws,
                       wi_members = map (\<lambda>(p, l). \<lparr>mb_principal = p, mb_level = l\<rparr>) (entries (default_acl ws)),
                       wi_agent_writes = ws_agent_writes ws, wi_created_ms = ws_created_ms ws,
                       wi_mine = level_of ws (core_identity c), wi_current = (ws_id ws = us_workspace (c_us c))\<rparr>) seen))"

section \<open>Documents\<close>

definition open_document :: "('d, 'o, 's) world \<Rightarrow> io \<Rightarrow> string \<Rightarrow> ('d, 's) core \<Rightarrow> response \<times> ('d, 's) core" where
  "open_document w io harness c0 =
     (case reg_get (c_registry c0) harness of
        None \<Rightarrow> (Failure (''no harness '' @ tick harness), c0)
      | Some h \<Rightarrow>
          (case doc_for w io harness c0 of
             (None, c) \<Rightarrow> (Failure (tick harness @ '' has no document''), c)
           | (Some doc, c) \<Rightarrow>
               (case check (c_access c) (core_identity c) doc View of
                  Inl denied \<Rightarrow> (Failure (denied_text denied), c)
                | Inr _ \<Rightarrow> (let (bytes, ds) = ds_snapshot (w_am w) doc (c_docs c)
                            in (DocOpened doc bytes (in_doc_kind h), c\<lparr>c_docs := ds\<rparr>)))))"

definition get_doc_json :: "('d, 'o, 's) world \<Rightarrow> io \<Rightarrow> string \<Rightarrow> ('d, 's) core \<Rightarrow> response \<times> ('d, 's) core" where
  "get_doc_json w io harness c0 =
     (case doc_for w io harness c0 of
        (None, c) \<Rightarrow> (Failure (''no harness '' @ tick harness), c)
      | (Some doc, c) \<Rightarrow>
          (case check (c_access c) (core_identity c) doc View of
             Inl denied \<Rightarrow> (Failure (denied_text denied), c)
           | Inr _ \<Rightarrow> (DocJson harness doc (ds_json (w_am w) (w_hash w) (c_docs c) doc), c)))"

definition refuse_read_only_write :: "('d, 'o, 's) world \<Rightarrow> io \<Rightarrow> string \<Rightarrow> ('d, 's) core \<Rightarrow> response \<times> ('d, 's) core" where
  "refuse_read_only_write w io doc c =
     (Failure read_only_reason, audit_doc w io doc ''document.write'' [(''why'', JStr ''read-only account'')] ''denied'' c)"

definition write_doc :: "('d, 'o, 's) world \<Rightarrow> io \<Rightarrow> string \<Rightarrow> string \<Rightarrow> json \<Rightarrow> bool \<Rightarrow> ('d, 's) core \<Rightarrow> response \<times> ('d, 's) core" where
  "write_doc w io harness view new commit c0 =
     (case reg_get (c_registry c0) harness of
        None \<Rightarrow> (Failure (''no harness '' @ tick harness), c0)
      | Some h \<Rightarrow>
          if manifest_view (in_manifest h) view = None then (Failure (tick harness @ '' has no view '' @ tick view), c0)
          else
            (case doc_for w io harness c0 of
               (None, c) \<Rightarrow> (Failure (tick harness @ '' has no document''), c)
             | (Some doc, c) \<Rightarrow>
                 if cl_is_viewer (c_active c) then refuse_read_only_write w io doc c
                 else
                   (case check (c_access c) (core_identity c) doc Edit of
                      Inl denied \<Rightarrow> (Failure (denied_text denied), c)
                    | Inr _ \<Rightarrow>
                        (case apply_json (w_am w) (w_text w) doc new (c_docs c) of
                           (Inl e, ds) \<Rightarrow> (Failure (''the document could not be applied: '' @ doc_error_text e), c\<lparr>c_docs := ds\<rparr>)
                         | (Inr ch, ds) \<Rightarrow>
                             (let c1 = c\<lparr>c_docs := ds\<rparr>
                              in if changes_is_empty ch then (Okay, c1)
                                 else (Okay, doc_changed w doc
                                   (if commit
                                    then snd (commit_change w io doc harness (''surface:'' @ view) JNull (changes_summary ch) ByUser None c1)
                                    else c1)))))))"

definition receive_sync :: "('d, 'o, 's) world \<Rightarrow> string \<Rightarrow> 's \<Rightarrow> string \<Rightarrow> 'd doc_store \<Rightarrow> (string, bool) result \<times> 's \<times> 'd doc_store" where
  "receive_sync w doc state message ds =
     (case sy_decode_error (w_sync w) message of
        Some e \<Rightarrow> (Inl (''decoding sync message: '' @ e), state, ds)
      | None \<Rightarrow>
          (case t_get (ds_docs ds) doc of
             Some (DCrdt d) \<Rightarrow>
               (let (before, d1) = am_get_heads (w_am w) d;
                    (r, d2, s') = sy_receive (w_sync w) d1 state message
                in case r of
                     Inl e \<Rightarrow> (Inl (''applying sync message: '' @ e), s', ds_put doc (DCrdt d2) ds)
                   | Inr _ \<Rightarrow> (let (after, d3) = am_get_heads (w_am w) d2 in (Inr (after \<noteq> before), s', ds_put doc (DCrdt d3) ds)))
           | _ \<Rightarrow> (Inl (tick doc @ '' is not a crdt document''), state, ds)))"

definition doc_sync :: "('d, 'o, 's) world \<Rightarrow> io \<Rightarrow> string \<Rightarrow> string \<Rightarrow> string \<Rightarrow> ('d, 's) core \<Rightarrow> response \<times> ('d, 's) core" where
  "doc_sync w io doc peer message c0 =
     (if cl_is_viewer (c_active c0) then refuse_read_only_write w io doc c0
      else
        (case check (c_access c0) (core_identity c0) doc Edit of
           Inl denied \<Rightarrow> (Failure (denied_text denied), c0)
         | Inr _ \<Rightarrow>
             (let (r, c1) = take_replica w doc peer c0;
                  before = ds_json (w_am w) (w_hash w) (c_docs c1) doc;
                  (res, s', ds) = receive_sync w doc (rp_state r) message (c_docs c1);
                  c2 = put_replica doc peer (r\<lparr>rp_state := s'\<rparr>) (c1\<lparr>c_docs := ds\<rparr>)
              in case res of
                   Inl e \<Rightarrow> (Failure e, c2)
                 | Inr True \<Rightarrow>
                     (let after = ds_json (w_am w) (w_hash w) (c_docs c2) doc;
                          harness = (case Option.bind (store_document (c_store c2) doc) dr_harness of Some h \<Rightarrow> h | None \<Rightarrow> ''core'');
                          c3 = snd (commit_change w io doc harness ''surface:sync'' JNull (changes_summary (diff_changes before after)) ByUser None c2)
                      in (Okay, doc_changed w doc c3))
                 | Inr False \<Rightarrow> (Okay, sync_replica w doc peer c2))))"

definition doc_sync_end :: "string \<Rightarrow> string \<Rightarrow> ('d, 's) core \<Rightarrow> response \<times> ('d, 's) core" where
  "doc_sync_end doc peer c =
     (Okay, case t_get (c_sync c) doc of
        None \<Rightarrow> c
      | Some rs \<Rightarrow> if t_del peer rs = [] then c\<lparr>c_sync := t_del doc (c_sync c)\<rparr> else set_replicas doc (t_del peer rs) c)"

section \<open>Files\<close>

definition max_artifact_bytes :: nat where
  "max_artifact_bytes = 200 * 1024 * 1024"

text \<open>The checks before an export is written: the name of the file, the fields and the commit it shows, or why not.\<close>

definition export_commit_error :: "string \<Rightarrow> string \<Rightarrow> ('d, 's) core \<Rightarrow> string option" where
  "export_commit_error own_doc source_commit c =
     (case get_commit (c_dag c) source_commit of
        Some k \<Rightarrow> if c_doc k = own_doc then None
                  else Some (''commit '' @ tick source_commit @ '' is on '' @ tick (c_doc k) @ '', not on '' @ tick own_doc)
      | None \<Rightarrow> if source_commit = [] \<and> head (c_dag c) own_doc = None then None
                else Some (tick source_commit @ '' is not a commit on '' @ tick own_doc))"

definition entry_or_insert :: "string \<Rightarrow> json \<Rightarrow> (string \<times> json) list \<Rightarrow> (string \<times> json) list" where
  "entry_or_insert k v t = (if t_get t k = None then t_put k v t else t)"

definition export_fields :: "string \<Rightarrow> json \<Rightarrow> ('d, 's) core \<Rightarrow> (string \<times> json) list" where
  "export_fields own_doc given c =
     entry_or_insert ''commit'' (JStr (case head (c_dag c) own_doc of Some h \<Rightarrow> h | None \<Rightarrow> []))
       (entry_or_insert ''document'' (JStr own_doc) (case as_object given of Some o1 \<Rightarrow> o1 | None \<Rightarrow> []))"

definition check_export :: "string \<Rightarrow> string \<Rightarrow> string \<Rightarrow> string \<Rightarrow> string \<Rightarrow> string \<Rightarrow> json \<Rightarrow> ('d, 's) core \<Rightarrow>
    (string, string \<times> (string \<times> json) list \<times> string) result" where
  "check_export harness own_doc kind offered mime bytes given c =
     (case reg_type_decl (c_registry c) kind of
        None \<Rightarrow> Inl (tick kind @ '' is not declared by any installed types package'')
      | Some (package, decl) \<Rightarrow>
          if ty_mime decl \<noteq> mime
          then Inl (''an artifact of '' @ tick kind @ '' is '' @ tick (ty_mime decl) @ '', says '' @ tick (in_id package)
                 @ ''; this export claims '' @ tick mime)
          else
            (let flds = export_fields own_doc given c;
                 source_doc = Option.bind (t_get flds ''document'') as_str;
                 source_commit = (case Option.bind (t_get flds ''commit'') as_str of Some k \<Rightarrow> k | None \<Rightarrow> [])
             in if missing_fields decl flds \<noteq> [] then Inl (lacking_fields kind (missing_fields decl flds) (in_id package))
                else if source_doc \<noteq> None \<and> source_doc \<noteq> Some own_doc
                then Inl (tick harness @ '' may export its own document '' @ tick own_doc @ '', not '' @ tick (the source_doc))
                else (case export_commit_error own_doc source_commit c of
                        Some e \<Rightarrow> Inl e
                      | None \<Rightarrow>
                          if bytes = [] then Inl ''the export is empty''
                          else if max_artifact_bytes < length bytes
                          then Inl (''the export is '' @ show_nat (length bytes) @ '' bytes; the limit is 200 MiB'')
                          else Inr (file_name offered (take_chars 7 source_commit) (ty_extension decl), flds, source_commit))))"

definition store_export :: "('d, 'o, 's) world \<Rightarrow> io \<Rightarrow> string \<Rightarrow> string \<Rightarrow> string \<Rightarrow> string \<Rightarrow> string \<Rightarrow> string \<Rightarrow> string \<Rightarrow> ('d, 's) core \<Rightarrow>
    string \<times> ('d, 's) core" where
  "store_export w io harness own_doc kind name mime bytes source_commit c =
     (let doc = ''blob:'' @ w_hash w bytes;
          c1 = c\<lparr>c_docs := ds_ensure (w_am w) doc Blob (c_docs c), c_access := add_document (c_access c) doc (us_workspace (c_us c)) name None\<rparr>;
          diff = ''exported '' @ name @ '', '' @ show_nat (length bytes) @ '' bytes of '' @ kind;
          (now, now') = io_commit_ms io (next_slot (c_dag c1));
          (k, dag') = dag_commit (w_hash w) (c_dag c1) doc harness ''surface:export''
            (JObj [(''commit'', JStr source_commit), (''document'', JStr own_doc), (''kind'', JStr kind), (''name'', JStr name)])
            bytes diff ByUser None now now';
          r = \<lparr>dr_title = name, dr_kind = Blob, dr_mime = mime, dr_bytes = length bytes, dr_hash = w_hash w bytes,
               dr_source = Export harness own_doc source_commit, dr_created_ms = io_now io, dr_workspace = us_workspace (c_us c),
               dr_harness = None, dr_created_by = cl_user (c_active c), dr_acl = None\<rparr>
      in (c_id k, audit_doc w io doc ''document.create''
            [(''bytes'', JNum (PosInt (length bytes))), (''harness'', JStr harness), (''kind'', JStr kind), (''mime'', JStr mime),
             (''name'', JStr name), (''source'', JStr ''export'')] ''ok''
            (c1\<lparr>c_dag := dag', c_store := put_document doc r (c_store c1)\<rparr>)))"

definition register_export :: "('d, 'o, 's) world \<Rightarrow> io \<Rightarrow> string \<Rightarrow> string \<Rightarrow> string \<Rightarrow> string \<Rightarrow> string \<Rightarrow> string \<Rightarrow> string \<Rightarrow>
    (string \<times> json) list \<Rightarrow> string \<Rightarrow> ('d, 's) core \<Rightarrow> response \<times> ('d, 's) core" where
  "register_export w io harness doc k name mime bytes kind flds summary c1 =
     (let diff = ''exported '' @ name @ '', '' @ show_nat (length bytes) @ '' bytes of '' @ kind;
          spec = JObj [(''fields'', JObj flds), (''kind'', JStr kind), (''summary'', JStr summary)]
      in case register_artifact w io harness doc (Some k) spec diff
            (Some \<lparr>af_name = name, af_mime = mime, af_bytes = length bytes\<rparr>) c1 of
           (Inl e, c2) \<Rightarrow> (Failure e, c2)
         | (Inr i, c2) \<Rightarrow>
             (case List.find (\<lambda>a. art_id a = i) (t_artifacts (us_task (c_us c2))) of
                Some a \<Rightarrow> (ArtifactMade a, emit (DocChanged doc) c2)
              | None \<Rightarrow> (Failure (tick i @ '' was registered and is not in the ledger''), emit (DocChanged doc) c2)))"

definition produce_artifact :: "('d, 'o, 's) world \<Rightarrow> io \<Rightarrow> string \<Rightarrow> string \<Rightarrow> string \<Rightarrow> string \<Rightarrow> string \<Rightarrow> string \<Rightarrow> json \<Rightarrow> string \<Rightarrow>
    ('d, 's) core \<Rightarrow> response \<times> ('d, 's) core" where
  "produce_artifact w io harness view kind offered mime bytes given summary c0 =
     (case reg_get (c_registry c0) harness of
        None \<Rightarrow> (Failure (''no harness '' @ tick harness), c0)
      | Some h \<Rightarrow>
          if manifest_view (in_manifest h) view = None then (Failure (tick harness @ '' has no view '' @ tick view), c0)
          else if kind \<notin> set (ct_produces (mf_contributes (in_manifest h)))
          then (Failure (tick harness @ '' does not declare that it produces '' @ kind @ ''; add it to [contributes] produces''), c0)
          else
            (case doc_for w io harness c0 of
               (None, c) \<Rightarrow> (Failure (tick harness @ '' has no document to export''), c)
             | (Some own_doc, c) \<Rightarrow>
                 (case check (c_access c) (core_identity c) own_doc View of
                    Inl denied \<Rightarrow> (Failure (denied_text denied), c)
                  | Inr _ \<Rightarrow>
                      (case check_export harness own_doc kind offered mime bytes given c of
                         Inl e \<Rightarrow> (Failure e, c)
                       | Inr (name, flds, source_commit) \<Rightarrow>
                           (let (k, c1) = store_export w io harness own_doc kind name mime bytes source_commit c
                            in register_export w io harness (''blob:'' @ w_hash w bytes) k name mime bytes kind flds summary c1)))))"

definition source_harness :: "document_source \<Rightarrow> string" where
  "source_harness s = (case s of FromHarness h \<Rightarrow> h | Export h _ _ \<Rightarrow> h)"

definition document_info_of :: "('d, 's) core \<Rightarrow> string \<Rightarrow> document_record \<Rightarrow> document_info" where
  "document_info_of c i r =
     (let h = head (c_dag c) i;
          hash = (case Option.bind h (get_commit (c_dag c)) of Some k \<Rightarrow> c_doc_hash k | None \<Rightarrow> [])
      in \<lparr>di_id = i, di_title = dr_title r, di_kind = dr_kind r, di_mime = dr_mime r,
          di_bytes = (if dr_harness r = None \<and> hash = dr_hash r then Some (dr_bytes r) else None), di_hash = hash, di_head = h,
          di_source = dr_source r, di_created_ms = dr_created_ms r\<rparr>)"

definition list_documents :: "('d, 'o, 's) world \<Rightarrow> ('d, 's) core \<Rightarrow> document_info list" where
  "list_documents w c =
     sort_key (\<lambda>d. (di_title d, di_id d))
       (map (\<lambda>(i, r). document_info_of c i r)
         (filter (\<lambda>(i, r). \<not> isl (check (c_access c) (core_identity c) i View) \<and> source_harness (dr_source r) \<notin> set (w_set_aside w))
           (store_documents (c_store c))))"

definition doc_blob :: "('d, 'o, 's) world \<Rightarrow> io \<Rightarrow> string \<Rightarrow> ('d, 's) core \<Rightarrow> response \<times> ('d, 's) core" where
  "doc_blob w io doc c =
     (case check (c_access c) (core_identity c) doc View of
        Inl denied \<Rightarrow> (Failure (denied_text denied), c)
      | Inr _ \<Rightarrow>
          (case Option.bind (store_document (c_store c) doc) (\<lambda>r. if dr_harness r = None then Some r else None) of
             None \<Rightarrow> (Failure (tick doc @ '' is not a file''), c)
           | Some r \<Rightarrow>
               (case head (c_dag c) doc of
                  None \<Rightarrow> (Failure (tick doc @ '' has no content; its export was undone''), c)
                | Some h \<Rightarrow>
                    (case get_commit (c_dag c) h of
                       None \<Rightarrow> (Failure (''commit '' @ tick h @ '' is missing from the history''), c)
                     | Some k \<Rightarrow>
                         (case get_blob (c_dag c) (c_doc_hash k) of
                            None \<Rightarrow> (Failure (''the content of '' @ tick doc @ '' is missing from the blob store''), c)
                          | Some bytes \<Rightarrow>
                              (DocBlob (dr_title r) (dr_mime r) bytes,
                               audit_doc w io doc ''document.read'' [(''bytes'', JNum (PosInt (length bytes))), (''name'', JStr (dr_title r))] ''ok'' c))))))"

section \<open>History\<close>

definition lock_doc :: string where
  "lock_doc = ''environment_lock''"

definition get_history :: "nat \<Rightarrow> ('d, 's) core \<Rightarrow> response \<times> ('d, 's) core" where
  "get_history limit c =
     (History (take limit (filter (\<lambda>k. if c_doc k = lock_doc then cl_is_admin (c_active c)
           else \<not> isl (check (c_access c) (core_identity c) (c_doc k) View))
         (history (c_dag c) (max (min usize_max (limit * 8)) 200)))), c)"

definition undoable_doc :: "('d, 's) core \<Rightarrow> string option" where
  "undoable_doc c =
     (if cl_is_viewer (c_active c) then None
      else List.find (\<lambda>doc. doc \<noteq> lock_doc
               \<and> (case get_document (c_access c) doc of Some m \<Rightarrow> d_workspace m = us_workspace (c_us c) | None \<Rightarrow> False)
               \<and> \<not> isl (check (c_access c) (core_identity c) doc Edit))
             (map c_doc (history (c_dag c) 200)))"

definition apply_revert :: "('d, 'o, 's) world \<Rightarrow> revert \<Rightarrow> ('d, 's) core \<Rightarrow> response \<times> ('d, 's) core" where
  "apply_revert w r c =
     (case ds_restore (w_am w) (w_text w) (w_hash w) (r_doc r) (r_bytes r) (c_docs c) of
        (Inl e, ds) \<Rightarrow> (Failure (doc_error_text e), c\<lparr>c_docs := ds\<rparr>)
      | (Inr _, ds) \<Rightarrow>
          (Okay, notice NoticeInfo (r_summary r) (doc_changed w (r_doc r) (c\<lparr>c_docs := ds, c_providers := empty_cache\<rparr>))))"

definition move_head :: "('d, 'o, 's) world \<Rightarrow> string \<Rightarrow> (dag \<Rightarrow> string \<Rightarrow> (string, revert) result \<times> dag) \<Rightarrow> ('d, 's) core \<Rightarrow> response \<times> ('d, 's) core" where
  "move_head w nothing f c =
     (case undoable_doc c of
        None \<Rightarrow> (Failure nothing, c)
      | Some doc \<Rightarrow>
          (case f (c_dag c) doc of
             (Inl e, dag') \<Rightarrow> (Failure e, c\<lparr>c_dag := dag'\<rparr>)
           | (Inr r, dag') \<Rightarrow> apply_revert w r (c\<lparr>c_dag := dag'\<rparr>)))"

definition undo_request :: "('d, 'o, 's) world \<Rightarrow> ('d, 's) core \<Rightarrow> response \<times> ('d, 's) core" where
  "undo_request w c = move_head w ''nothing to undo'' undo c"

definition redo_request :: "('d, 'o, 's) world \<Rightarrow> ('d, 's) core \<Rightarrow> response \<times> ('d, 's) core" where
  "redo_request w c = move_head w ''nothing to redo'' redo c"

text \<open>Where \<open>Dag::drop_run\<close> panics, the thread does too; the answer stands for that.\<close>

definition drop_run_request :: "('d, 'o, 's) world \<Rightarrow> string \<Rightarrow> ('d, 's) core \<Rightarrow> response \<times> ('d, 's) core" where
  "drop_run_request w run c =
     (if cl_is_viewer (c_active c) then (Failure read_only_reason, c)
      else
        (let touched = map c_doc (filter (\<lambda>k. c_run k = Some run) (history (c_dag c) usize_max))
         in case find_map (\<lambda>doc. case check (c_access c) (core_identity c) doc Edit of Inl e \<Rightarrow> Some e | Inr _ \<Rightarrow> None) touched of
              Some denied \<Rightarrow> (Failure (denied_text denied), c)
            | None \<Rightarrow>
                (case drop_run (c_dag c) run of
                   (Dropped rs, dag') \<Rightarrow>
                     (let c1 = fold (\<lambda>r d. snd (apply_revert w r d)) rs (c\<lparr>c_dag := dag'\<rparr>)
                      in (Okay, c1\<lparr>c_us := (c_us c1)\<lparr>us_proposals := filter (\<lambda>p. pr_run p \<noteq> run) (us_proposals (c_us c1))\<rparr>\<rparr>))
                 | (NoSuchRun e, dag') \<Rightarrow> (Failure e, c\<lparr>c_dag := dag'\<rparr>)
                 | (Panicked, dag') \<Rightarrow> (Failure [], c\<lparr>c_dag := dag'\<rparr>))))"

section \<open>Workspaces\<close>

definition create_workspace :: "('d, 'o, 's) world \<Rightarrow> io \<Rightarrow> string \<Rightarrow> ('d, 's) core \<Rightarrow> response \<times> ('d, 's) core" where
  "create_workspace w io name c =
     (case require_admin w io ''workspace.create'' c of
        (Inl r, c') \<Rightarrow> (r, c')
      | (Inr _, c') \<Rightarrow>
          if trim name = [] then (Failure ''Give the workspace a name.'', c')
          else
            (let i = ''ws_'' @ io_ws_id io;
                 ws = ws_shared_by i (trim name) (cl_user (c_active c')) (io_now io);
                 c1 = audit_in w io (ws_scope i) ''workspace.create'' [(''name'', JStr (trim name)), (''workspace'', JStr i)] ''ok''
                   (c'\<lparr>c_store := put_workspace ws (c_store c'), c_access := add_workspace (c_access c') ws\<rparr>)
             in (Workspaces (workspace_infos c1), c1)))"

text \<open>What the change of a member is recorded as.\<close>

definition principal_json :: "principal \<Rightarrow> json" where
  "principal_json p = (case p of User u \<Rightarrow> JObj [(''User'', JStr u)] | Group g \<Rightarrow> JObj [(''Group'', JStr g)] | Workspace \<Rightarrow> JStr ''Workspace'')"

definition change_workspace :: "string \<Rightarrow> workspace \<Rightarrow> ('d, 's) core \<Rightarrow> ('d, 's) core" where
  "change_workspace i ws c = persist_workspace i (c\<lparr>c_access := (c_access c)\<lparr>workspaces := h_put i ws (workspaces (c_access c))\<rparr>\<rparr>)"

definition set_member_request :: "('d, 'o, 's) world \<Rightarrow> io \<Rightarrow> string \<Rightarrow> principal \<Rightarrow> level \<Rightarrow> ('d, 's) core \<Rightarrow> response \<times> ('d, 's) core" where
  "set_member_request w io workspace p l c =
     (case require_workspace_owner w io workspace ''workspace.member'' c of
        (Inl r, c') \<Rightarrow> (r, c')
      | (Inr _, c') \<Rightarrow>
          if p = Workspace
          then (Failure (''a workspace's members are people and groups; '' @ [CHR 0x22] @ ''everyone in the workspace'' @ [CHR 0x22] @ '' is not one of them''), c')
          else (case get_workspace (c_access c') workspace of
                  None \<Rightarrow> (Failure (''no workspace '' @ tick workspace), c')
                | Some ws \<Rightarrow>
                    (let c1 = audit_in w io (ws_scope workspace) ''workspace.member''
                           [(''level'', JStr (level_label l)), (''principal'', principal_json p)] ''ok''
                           (change_workspace workspace (set_member ws p l) c')
                     in (Workspaces (workspace_infos c1), c1))))"

definition remove_member_request :: "('d, 'o, 's) world \<Rightarrow> io \<Rightarrow> string \<Rightarrow> principal \<Rightarrow> ('d, 's) core \<Rightarrow> response \<times> ('d, 's) core" where
  "remove_member_request w io workspace p c =
     (case require_workspace_owner w io workspace ''workspace.member'' c of
        (Inl r, c') \<Rightarrow> (r, c')
      | (Inr _, c') \<Rightarrow>
          (case map_option (\<lambda>ws. remove_member ws p) (get_workspace (c_access c') workspace) of
             Some (True, ws) \<Rightarrow>
               (let c1 = audit_in w io (ws_scope workspace) ''workspace.member''
                      [(''level'', JNull), (''principal'', principal_json p)] ''ok'' (change_workspace workspace ws c')
                in (Workspaces (workspace_infos c1), c1))
           | _ \<Rightarrow> (Failure ''That member is not in the workspace.'', c')))"

definition set_agent_writes_request :: "('d, 'o, 's) world \<Rightarrow> io \<Rightarrow> string \<Rightarrow> agent_writes \<Rightarrow> ('d, 's) core \<Rightarrow> response \<times> ('d, 's) core" where
  "set_agent_writes_request w io workspace mode c =
     (case require_workspace_owner w io workspace ''workspace.agent_writes'' c of
        (Inl r, c') \<Rightarrow> (r, c')
      | (Inr _, c') \<Rightarrow>
          (case get_workspace (c_access c') workspace of
             None \<Rightarrow> (Failure (''no workspace '' @ tick workspace), c')
           | Some ws \<Rightarrow>
               (let c1 = audit_in w io (ws_scope workspace) ''workspace.agent_writes''
                      [(''mode'', JStr (case mode of Direct \<Rightarrow> ''direct'' | Proposal \<Rightarrow> ''proposal''))] ''ok''
                      (change_workspace workspace (ws\<lparr>ws_agent_writes := mode\<rparr>) c')
                in (Workspaces (workspace_infos c1), c1))))"

text \<open>
  The way into a workspace: a member's ends any break-glass; an administrator's, who is no member, asks for a reason and
  is recorded.  Then the move: the answers of the person left behind are stopped, their conversation is kept, and the
  conversations and the ledger of the new workspace are brought in.
\<close>

definition enter_workspace :: "('d, 'o, 's) world \<Rightarrow> io \<Rightarrow> workspace \<Rightarrow> string \<Rightarrow> string option \<Rightarrow> ('d, 's) core \<Rightarrow> (response, unit) result \<times> ('d, 's) core" where
  "enter_workspace w io ws workspace reason c =
     (if level_of ws (core_identity c) \<noteq> None then (Inr (), c\<lparr>c_us := (c_us c)\<lparr>us_break_glass := None\<rparr>\<rparr>)
      else (case (cl_is_admin (c_active c), Option.bind reason (\<lambda>r. if trim r = [] then None else Some (trim r))) of
              (True, Some r) \<Rightarrow>
                (let c1 = audit_in w io (ws_scope workspace) ''workspace.break_glass'' [(''reason'', JStr r)] ''ok'' c
                 in (Inr (), c1\<lparr>c_us := (c_us c1)\<lparr>us_break_glass := Some \<lparr>bg_workspace = ws_id ws, bg_reason = r\<rparr>\<rparr>\<rparr>))
            | (True, None) \<Rightarrow>
                (Inl (Failure ''You are not a member of that workspace. As an administrator you can open it with a reason, which is kept.''), c)
            | (False, _) \<Rightarrow>
                (Inl (Failure ''You are not a member of that workspace.''),
                 audit_in w io (ws_scope workspace) ''workspace.select'' [] ''denied'' c)))"

definition move_workspace :: "('d, 'o, 's) world \<Rightarrow> io \<Rightarrow> workspace \<Rightarrow> string \<Rightarrow> ('d, 's) core \<Rightarrow> ('d, 's) core" where
  "move_workspace w io ws workspace c =
     (let c1 = record_conversation (io_now io) (stop_on_leaving w io (us_workspace (c_us c)) c);
          user = cl_user (c_active c1);
          ch = load (c_store c1) user (ws_id ws) (io_now io);
          c2 = c1\<lparr>c_store := set_current_workspace user (ws_id ws) (db ch),
                  c_us := (c_us c1)\<lparr>us_workspace := ws_id ws, us_chats := ch, us_transcript := transcript_of ch,
                                    us_task := task_of (db ch) user (ws_id ws)\<rparr>\<rparr>;
          c3 = audit_in w io (ws_scope workspace) ''workspace.select'' [] ''ok'' c2
      in emit_task (emit (ConversationChanged (current (us_chats (c_us c3)))) c3))"

definition select_workspace :: "('d, 'o, 's) world \<Rightarrow> io \<Rightarrow> string \<Rightarrow> string option \<Rightarrow> ('d, 's) core \<Rightarrow> response \<times> ('d, 's) core" where
  "select_workspace w io workspace reason c =
     (case get_workspace (c_access c) workspace of
        None \<Rightarrow> (Failure ''There is no such workspace.'', c)
      | Some ws \<Rightarrow>
          (case enter_workspace w io ws workspace reason c of
             (Inl r, c1) \<Rightarrow> (r, c1)
           | (Inr _, c1) \<Rightarrow>
               (Environment, emit_environment (if us_workspace (c_us c1) \<noteq> ws_id ws then move_workspace w io ws workspace c1 else c1))))"

definition wire_principal_json :: "principal \<Rightarrow> json" where
  "wire_principal_json p = (case p of User u \<Rightarrow> JObj [(''user'', JStr u)] | Group g \<Rightarrow> JObj [(''group'', JStr g)] | Workspace \<Rightarrow> JStr ''workspace'')"

definition member_json :: "member \<Rightarrow> json" where
  "member_json m = JObj [(''level'', JStr (level_label (mb_level m))), (''principal'', wire_principal_json (mb_principal m))]"

definition set_document_access :: "('d, 'o, 's) world \<Rightarrow> io \<Rightarrow> string \<Rightarrow> member list option \<Rightarrow> ('d, 's) core \<Rightarrow> response \<times> ('d, 's) core" where
  "set_document_access w io doc members c =
     (if isl (check (c_access c) (core_identity c) doc Owner) \<and> \<not> cl_is_admin (c_active c)
      then (Failure ''Only the document's owner or an administrator can change who may open it.'',
            audit_doc w io doc ''document.access'' [] ''denied'' c)
      else
        (let given = map_option (\<lambda>ms. \<lparr>entries = map (\<lambda>m. (mb_principal m, mb_level m)) ms\<rparr>) members
         in case set_document_acl (c_access c) doc given of
              Inl e \<Rightarrow> (Failure e, c)
            | Inr ac \<Rightarrow>
                (let c1 = c\<lparr>c_access := ac, c_store := (case store_document (c_store c) doc of
                               Some r \<Rightarrow> put_document doc (r\<lparr>dr_acl := given\<rparr>) (c_store c) | None \<Rightarrow> c_store c)\<rparr>
                 in (Okay, audit_doc w io doc ''document.access''
                       [(''members'', case members of Some ms \<Rightarrow> JArr (map member_json ms) | None \<Rightarrow> JNull)] ''ok'' c1))))"

section \<open>Conversations and the environment\<close>

definition conversations_response :: "('d, 's) core \<Rightarrow> response" where
  "conversations_response c = Conversations (summaries (us_chats (c_us c))) (current (us_chats (c_us c)))"

definition show_chat :: "chat_message list \<Rightarrow> string \<Rightarrow> ('d, 's) core \<Rightarrow> response \<times> ('d, 's) core" where
  "show_chat ms conv c =
     (let c1 = emit (ConversationChanged conv) (c\<lparr>c_us := (c_us c)\<lparr>us_transcript := ms\<rparr>\<rparr>) in (conversations_response c1, c1))"

definition new_conversation :: "io \<Rightarrow> ('d, 's) core \<Rightarrow> response \<times> ('d, 's) core" where
  "new_conversation io c =
     (let c1 = on_chats (\<lambda>ch. snd (start (io_now io) ch)) (record_conversation (io_now io) c)
      in show_chat [] (current (us_chats (c_us c1))) c1)"

definition select_conversation :: "io \<Rightarrow> string \<Rightarrow> ('d, 's) core \<Rightarrow> response \<times> ('d, 's) core" where
  "select_conversation io i c0 =
     (let c = record_conversation (io_now io) c0
      in case fst (select i (us_chats (c_us c))) of
           None \<Rightarrow> (Failure (''no conversation '' @ tick i), c)
         | Some v \<Rightarrow> show_chat (cv_messages v) i (on_chats (\<lambda>ch. snd (select i ch)) c))"

definition delete_conversation_request :: "('d, 'o, 's) world \<Rightarrow> io \<Rightarrow> string \<Rightarrow> ('d, 's) core \<Rightarrow> response \<times> ('d, 's) core" where
  "delete_conversation_request w io i c0 =
     (let c = record_conversation (io_now io) (forget_turn w io i c0);
          gone = fst (delete i (io_now io) ((us_chats (c_us c))\<lparr>db := c_store c\<rparr>));
          c1 = on_chats (\<lambda>ch. snd (delete i (io_now io) ch)) c
      in if \<not> gone then (Failure (''no conversation '' @ tick i), c1)
         else show_chat (transcript_of (us_chats (c_us c1))) (current (us_chats (c_us c1))) c1)"

definition rename_conversation :: "string \<Rightarrow> string \<Rightarrow> ('d, 's) core \<Rightarrow> response \<times> ('d, 's) core" where
  "rename_conversation i title c =
     (let done = fst (rename i title ((us_chats (c_us c))\<lparr>db := c_store c\<rparr>));
          c1 = on_chats (\<lambda>ch. snd (rename i title ch)) c
      in (if done then conversations_response c1 else Failure (''no conversation '' @ tick i), c1))"

definition set_network_mode :: "network_mode \<Rightarrow> ('d, 's) core \<Rightarrow> response \<times> ('d, 's) core" where
  "set_network_mode mode c =
     (let (applied, g) = set_mode mode (c_gateway c);
          c1 = c\<lparr>c_gateway := g\<rparr>;
          label = (case applied of Airgapped \<Rightarrow> ''airgapped'' | Ask \<Rightarrow> ''ask'' | Online \<Rightarrow> ''online'');
          c2 = (if applied \<noteq> mode
                then notice NoticeWarn (''the administrator's ceiling is '' @ tick label @ ''; the environment stays there'') c1 else c1)
      in (Okay, broadcast_environment c2))"

definition set_pinned :: "string \<Rightarrow> bool \<Rightarrow> ('d, 's) core \<Rightarrow> response \<times> ('d, 's) core" where
  "set_pinned harness pinned c =
     (let kept = filter (\<lambda>p. p \<noteq> harness) (us_pinned (c_us c))
      in (Okay, emit_environment (c\<lparr>c_us := (c_us c)\<lparr>us_pinned := (if pinned then kept @ [harness] else kept)\<rparr>\<rparr>)))"

definition set_harness_enabled :: "string \<Rightarrow> bool \<Rightarrow> ('d, 's) core \<Rightarrow> response \<times> ('d, 's) core" where
  "set_harness_enabled harness enabled c =
     (Okay, broadcast_environment (case reg_get (c_registry c) harness of
        None \<Rightarrow> c | Some h \<Rightarrow> set_installed harness (h\<lparr>in_enabled := enabled\<rparr>) c))"

section \<open>Approvals\<close>

definition approve :: "('d, 'o, 's) world \<Rightarrow> io \<Rightarrow> string \<Rightarrow> bool \<Rightarrow> ('d, 's) core \<Rightarrow> response \<times> ('d, 's) core" where
  "approve w io i granted c0 =
     (case t_get (us_pending (c_us c0)) i of
        None \<Rightarrow> (Failure (''no approval '' @ tick i @ '' is outstanding''), c0)
      | Some p \<Rightarrow>
          (let c = c0\<lparr>c_us := (c_us c0)\<lparr>us_pending := t_del i (us_pending (c_us c0))\<rparr>\<rparr>
           in if \<not> granted
              then (Okay, if pc_resume_agent p then declined w io (pc_turn p) (pc_tool p) c else notice NoticeInfo ''declined'' c)
              else
                (let c1 = (case Option.bind (Option.bind (if starts_with ''egress:'' i then jget (pc_params p) ''url'' else None) as_str) host_of of
                             Some domain \<Rightarrow> c\<lparr>c_gateway := approve_domain domain (c_gateway c)\<rparr> | None \<Rightarrow> c);
                     (outcome, c2) = call_tool w io (pc_tool p) (pc_params p) ByUser c1;
                     conv = (case Option.bind (pc_turn p) (\<lambda>k. turn_of k c2) of Some t \<Rightarrow> tn_conversation t | None \<Rightarrow> current (us_chats (c_us c2)));
                     c3 = emit (ToolCallFinished conv i (pc_tool p) outcome) c2
                 in (ToolResult outcome, if pc_resume_agent p then resume io (pc_turn p) (pc_tool p) (pc_params p) outcome c3 else c3))))"

section \<open>Dispatch\<close>

definition idle_tick :: "io \<Rightarrow> ('d, 's) core \<Rightarrow> ('d, 's) core" where
  "idle_tick io c =
     (let (dropped, r) = unload_idle (io_now io) (c_registry c);
          c1 = c\<lparr>c_registry := r\<rparr>
      in if dropped = [] then c1
         else broadcast_environment (fold (\<lambda>i. trace (''unloaded '' @ tick i @ '' after idle_unload; its document stays'')) dropped c1))"

definition chat_response :: "(string, unit) result \<times> ('d, 's) core \<Rightarrow> response \<times> ('d, 's) core" where
  "chat_response p = (case fst p of Inl e \<Rightarrow> Failure e | Inr _ \<Rightarrow> Transcript (us_transcript (c_us (snd p))), snd p)"

fun answer :: "('d, 'o, 's) world \<Rightarrow> io \<Rightarrow> request \<Rightarrow> ('d, 's) core \<Rightarrow> response \<times> ('d, 's) core" where
  "answer w io (SetNetworkMode mode) c = set_network_mode mode c"
| "answer w io (SetFocus harness) c = (Okay, emit_environment (c\<lparr>c_us := (c_us c)\<lparr>us_focus := harness\<rparr>\<rparr>))"
| "answer w io (SetPinned harness pinned) c = set_pinned harness pinned c"
| "answer w io (SetHarnessEnabled harness enabled) c = set_harness_enabled harness enabled c"
| "answer w io (SendMessage txt conv) c = chat_response (send_message w io conv txt c)"
| "answer w io (CancelTurn conv) c = (Okay, cancel_turn w io conv c)"
| "answer w io (ContinueAnswer conv) c = chat_response (continue_answer w io conv c)"
| "answer w io NewConversation c = new_conversation io c"
| "answer w io (SelectConversation i) c = select_conversation io i c"
| "answer w io (DeleteConversation i) c = delete_conversation_request w io i c"
| "answer w io (RenameConversation i title) c = rename_conversation i title c"
| "answer w io (Approve i granted) c = approve w io i granted c"
| "answer w io (CallTool tool params) c = (let (outcome, c') = call_tool w io tool params ByUser c in (ToolResult outcome, c'))"
| "answer w io (OpenDoc harness) c = open_document w io harness c"
| "answer w io (GetDocJson harness) c = get_doc_json w io harness c"
| "answer w io (ProduceArtifact harness view kind name mime bytes given summary) c =
     produce_artifact w io harness view kind name mime bytes given summary c"
| "answer w io ListDocuments c = (Documents (list_documents w c), c)"
| "answer w io (GetDocBlob doc) c = doc_blob w io doc c"
| "answer w io (WriteDoc harness view new commit) c = write_doc w io harness view new commit c"
| "answer w io (DocSync doc peer message) c = doc_sync w io doc peer message c"
| "answer w io (DocSyncEnd doc peer) c = doc_sync_end doc peer c"
| "answer w io (GetHistory limit) c = get_history limit c"
| "answer w io Undo c = undo_request w c"
| "answer w io Redo c = redo_request w c"
| "answer w io (DropRun run) c = drop_run_request w run c"
| "answer w io ListWorkspaces c = (Workspaces (workspace_infos c), c)"
| "answer w io (CreateWorkspace name) c = create_workspace w io name c"
| "answer w io (SetMember workspace p l) c = set_member_request w io workspace p l c"
| "answer w io (RemoveMember workspace p) c = remove_member_request w io workspace p c"
| "answer w io (SetAgentWrites workspace mode) c = set_agent_writes_request w io workspace mode c"
| "answer w io (SelectWorkspace workspace reason) c = select_workspace w io workspace reason c"
| "answer w io (SetDocumentAccess doc members) c = set_document_access w io doc members c"

definition handle_inner :: "('d, 'o, 's) world \<Rightarrow> io \<Rightarrow> request \<Rightarrow> ('d, 's) core \<Rightarrow> response \<times> ('d, 's) core" where
  "handle_inner w io r c0 =
     (let c = idle_tick io c0
      in case admin_only r of
           None \<Rightarrow> answer w io r c
         | Some ev \<Rightarrow> (case require_admin w io ev c of (Inl refused, c') \<Rightarrow> (refused, c') | (Inr _, c') \<Rightarrow> answer w io r c'))"

text \<open>A request of a person; those of the server itself (\<open>handle_system\<close>) are in \<open>Accounts\<close>.\<close>

definition handle_as :: "('d, 'o, 's) world \<Rightarrow> io \<Rightarrow> caller \<Rightarrow> request \<Rightarrow> ('d, 's) core \<Rightarrow> response \<times> ('d, 's) core" where
  "handle_as w io cl r c = handle_inner w io r (activate (io_now io) cl c)"

end
