(* ===== verification/Framing.thy ===== *)
theory Framing
  imports Requests
begin

text \<open>
  What the operations of Core leave alone: a projection of the state (\<open>frame\<close>: the workspaces, the turns, who is active and where,
  the parked users), the calls held for an answer, and a second one (\<open>core3\<close>: the replicas, the history and the workspaces).  Each operation that only
  does its own work has a rewrite rule here, so that a request's effect on the rest is found by simplification.
\<close>

named_theorems framing

definition frame :: "('d, 's) core \<Rightarrow> (string, workspace) table \<times> turn list \<times> nat \<times> nat option \<times> caller \<times>
    (string, user_state) table \<times> string \<times> break_glass option \<times> internal list \<times> nat list" where
  "frame c = (workspaces (c_access c), c_turns c, c_next_turn c, c_turn_at_work c, c_active c, c_users c,
     us_workspace (c_us c), us_break_glass (c_us c), c_posted c, c_asked c)"

definition core3 :: "('d, 's) core \<Rightarrow> (string, (string, 's replica) table) table \<times> dag \<times> (string, workspace) table" where
  "core3 c = (c_sync c, c_dag c, workspaces (c_access c))"

definition held_calls :: "('d, 's) core \<Rightarrow> (string, pending_call) table" where
  "held_calls c = us_pending (c_us c)"

definition next_call :: "('d, 's) core \<Rightarrow> nat" where
  "next_call c = us_next_approval (c_us c)"

lemma frame_updates [framing]:
  "frame (c\<lparr>c_registry := r\<rparr>) = frame c" "frame (c\<lparr>c_docs := d\<rparr>) = frame c" "frame (c\<lparr>c_store := st\<rparr>) = frame c"
  "frame (c\<lparr>c_dag := dg\<rparr>) = frame c" "frame (c\<lparr>c_gateway := g\<rparr>) = frame c" "frame (c\<lparr>c_audit := al\<rparr>) = frame c"
  "frame (c\<lparr>c_providers := pv\<rparr>) = frame c" "frame (c\<lparr>c_sync := sy\<rparr>) = frame c" "frame (c\<lparr>c_sync_clock := n\<rparr>) = frame c"
  "frame (c\<lparr>c_events := ev\<rparr>) = frame c"
  "workspaces ac = workspaces (c_access c) \<Longrightarrow> frame (c\<lparr>c_access := ac\<rparr>) = frame c"
  "us_workspace us = us_workspace (c_us c) \<Longrightarrow> us_break_glass us = us_break_glass (c_us c) \<Longrightarrow> frame (c\<lparr>c_us := us\<rparr>) = frame c"
  by (simp_all add: frame_def)

lemma frameD:
  assumes "frame c' = frame c"
  shows "c_turns c' = c_turns c" "c_next_turn c' = c_next_turn c" "c_turn_at_work c' = c_turn_at_work c" "c_active c' = c_active c"
    "c_users c' = c_users c" "us_workspace (c_us c') = us_workspace (c_us c)" "c_posted c' = c_posted c" "c_asked c' = c_asked c"
    "workspaces (c_access c') = workspaces (c_access c)" "us_break_glass (c_us c') = us_break_glass (c_us c)"
  using assms by (simp_all add: frame_def)

lemma held_calls_updates [framing]:
  "held_calls (c\<lparr>c_registry := r\<rparr>) = held_calls c" "held_calls (c\<lparr>c_docs := d\<rparr>) = held_calls c"
  "held_calls (c\<lparr>c_store := st\<rparr>) = held_calls c" "held_calls (c\<lparr>c_dag := dg\<rparr>) = held_calls c"
  "held_calls (c\<lparr>c_gateway := g\<rparr>) = held_calls c" "held_calls (c\<lparr>c_audit := al\<rparr>) = held_calls c"
  "held_calls (c\<lparr>c_providers := pv\<rparr>) = held_calls c" "held_calls (c\<lparr>c_sync := sy\<rparr>) = held_calls c"
  "held_calls (c\<lparr>c_sync_clock := n\<rparr>) = held_calls c" "held_calls (c\<lparr>c_posted := ps\<rparr>) = held_calls c"
  "held_calls (c\<lparr>c_asked := ks\<rparr>) = held_calls c" "held_calls (c\<lparr>c_events := ev\<rparr>) = held_calls c"
  "held_calls (c\<lparr>c_access := ac\<rparr>) = held_calls c" "held_calls (c\<lparr>c_turns := ts\<rparr>) = held_calls c"
  "held_calls (c\<lparr>c_us := us\<rparr>) = us_pending us" "held_calls (c\<lparr>c_turn_at_work := tw\<rparr>) = held_calls c"
  "held_calls (c\<lparr>c_next_turn := n\<rparr>) = held_calls c"
  "next_call (c\<lparr>c_registry := r\<rparr>) = next_call c" "next_call (c\<lparr>c_docs := d\<rparr>) = next_call c"
  "next_call (c\<lparr>c_store := st\<rparr>) = next_call c" "next_call (c\<lparr>c_dag := dg\<rparr>) = next_call c"
  "next_call (c\<lparr>c_gateway := g\<rparr>) = next_call c" "next_call (c\<lparr>c_audit := al\<rparr>) = next_call c"
  "next_call (c\<lparr>c_providers := pv\<rparr>) = next_call c" "next_call (c\<lparr>c_sync := sy\<rparr>) = next_call c"
  "next_call (c\<lparr>c_sync_clock := n\<rparr>) = next_call c" "next_call (c\<lparr>c_posted := ps\<rparr>) = next_call c"
  "next_call (c\<lparr>c_asked := ks\<rparr>) = next_call c" "next_call (c\<lparr>c_events := ev\<rparr>) = next_call c"
  "next_call (c\<lparr>c_access := ac\<rparr>) = next_call c" "next_call (c\<lparr>c_turns := ts\<rparr>) = next_call c"
  "next_call (c\<lparr>c_us := us\<rparr>) = us_next_approval us" "next_call (c\<lparr>c_turn_at_work := tw\<rparr>) = next_call c"
  "next_call (c\<lparr>c_next_turn := n\<rparr>) = next_call c"
  by (simp_all add: held_calls_def next_call_def)

lemma held_calls_fold [framing]: "us_pending (c_us c) = held_calls c" "us_next_approval (c_us c) = next_call c"
  by (simp_all add: held_calls_def next_call_def)

lemma core3_updates [framing]:
  "core3 (c\<lparr>c_registry := r\<rparr>) = core3 c" "core3 (c\<lparr>c_docs := d\<rparr>) = core3 c" "core3 (c\<lparr>c_store := st\<rparr>) = core3 c"
  "core3 (c\<lparr>c_gateway := g\<rparr>) = core3 c" "core3 (c\<lparr>c_audit := al\<rparr>) = core3 c" "core3 (c\<lparr>c_providers := pv\<rparr>) = core3 c"
  "core3 (c\<lparr>c_sync_clock := n\<rparr>) = core3 c" "core3 (c\<lparr>c_posted := ps\<rparr>) = core3 c" "core3 (c\<lparr>c_asked := ks\<rparr>) = core3 c"
  "core3 (c\<lparr>c_events := ev\<rparr>) = core3 c" "core3 (c\<lparr>c_us := us\<rparr>) = core3 c" "core3 (c\<lparr>c_turns := ts\<rparr>) = core3 c"
  "core3 (c\<lparr>c_turn_at_work := tw\<rparr>) = core3 c" "core3 (c\<lparr>c_next_turn := n\<rparr>) = core3 c" "core3 (c\<lparr>c_active := cl\<rparr>) = core3 c"
  "core3 (c\<lparr>c_users := ut\<rparr>) = core3 c"
  "workspaces ac = workspaces (c_access c) \<Longrightarrow> core3 (c\<lparr>c_access := ac\<rparr>) = core3 c"
  "core3 (c\<lparr>c_sync := sy\<rparr>) = (sy, snd (core3 c))" "core3 (c\<lparr>c_dag := dg\<rparr>) = (fst (core3 c), dg, snd (snd (core3 c)))"
  by (simp_all add: core3_def)

section \<open>Events, the audit trail, a user's state\<close>

lemma emit_to_framing [framing]:
  "frame (emit_to r ev c) = frame c" "held_calls (emit_to r ev c) = held_calls c" "core3 (emit_to r ev c) = core3 c"
  "next_call (emit_to r ev c) = next_call c"
  by (simp_all add: emit_to_def framing)

lemma emit_framing [framing]:
  "frame (emit ev c) = frame c" "held_calls (emit ev c) = held_calls c" "core3 (emit ev c) = core3 c"
  "frame (emit_all ev c) = frame c" "held_calls (emit_all ev c) = held_calls c" "core3 (emit_all ev c) = core3 c"
  "next_call (emit ev c) = next_call c" "next_call (emit_all ev c) = next_call c"
  by (simp_all add: emit_def emit_all_def framing)

lemma trace_framing [framing]:
  "frame (trace l c) = frame c" "held_calls (trace l c) = held_calls c" "core3 (trace l c) = core3 c"
  "frame (notice lv l c) = frame c" "held_calls (notice lv l c) = held_calls c" "core3 (notice lv l c) = core3 c"
  "frame (emit_environment c) = frame c" "held_calls (emit_environment c) = held_calls c" "core3 (emit_environment c) = core3 c"
  "frame (broadcast_environment c) = frame c" "held_calls (broadcast_environment c) = held_calls c"
  "core3 (broadcast_environment c) = core3 c"
  "next_call (trace l c) = next_call c" "next_call (notice lv l c) = next_call c" "next_call (emit_environment c) = next_call c"
  "next_call (broadcast_environment c) = next_call c"
  by (simp_all add: trace_def notice_def emit_environment_def broadcast_environment_def framing)

lemma audit_framing [framing]:
  "frame (audit_in w io sc ev d r c) = frame c" "held_calls (audit_in w io sc ev d r c) = held_calls c"
  "core3 (audit_in w io sc ev d r c) = core3 c"
  "frame (audit_doc w io doc ev d r c) = frame c" "held_calls (audit_doc w io doc ev d r c) = held_calls c"
  "core3 (audit_doc w io doc ev d r c) = core3 c"
  "next_call (audit_in w io sc ev d r c) = next_call c" "next_call (audit_doc w io doc ev d r c) = next_call c"
  by (simp_all add: audit_in_def audit_doc_def framing)

lemma user_framing [framing]:
  "frame (on_chats f c) = frame c" "held_calls (on_chats f c) = held_calls c" "core3 (on_chats f c) = core3 c"
  "frame (set_task t c) = frame c" "held_calls (set_task t c) = held_calls c" "core3 (set_task t c) = core3 c"
  "frame (emit_task c) = frame c" "held_calls (emit_task c) = held_calls c" "core3 (emit_task c) = core3 c"
  "frame (touch h c) = frame c" "held_calls (touch h c) = held_calls c" "core3 (touch h c) = core3 c"
  "frame (record_conversation now c) = frame c" "held_calls (record_conversation now c) = held_calls c"
  "core3 (record_conversation now c) = core3 c"
  "next_call (on_chats f c) = next_call c" "next_call (set_task t c) = next_call c" "next_call (emit_task c) = next_call c"
  "next_call (touch h c) = next_call c" "next_call (record_conversation now c) = next_call c"
  by (simp_all add: on_chats_def set_task_def emit_task_def touch_def record_conversation_def Let_def framing)

lemma write_chat_framing [framing]:
  "frame (write_chat now u ws cv ch c) = frame c" "held_calls (write_chat now u ws cv ch c) = held_calls c"
  "core3 (write_chat now u ws cv ch c) = core3 c"
  "next_call (write_chat now u ws cv ch c) = next_call c"
  by (simp_all add: write_chat_def Let_def framing)

lemma fold_framing:
  "(\<And>x d. x \<in> set xs \<Longrightarrow> frame (f x d) = frame d) \<Longrightarrow> frame (fold f xs c) = frame c"
  "(\<And>x d. x \<in> set xs \<Longrightarrow> held_calls (f x d) = held_calls d) \<Longrightarrow> held_calls (fold f xs c) = held_calls c"
  "(\<And>x d. x \<in> set xs \<Longrightarrow> core3 (f x d) = core3 d) \<Longrightarrow> core3 (fold f xs c) = core3 c"
  "(\<And>x d. x \<in> set xs \<Longrightarrow> next_call (f x d) = next_call d) \<Longrightarrow> next_call (fold f xs c) = next_call c"
  by (induction xs arbitrary: c) auto

section \<open>Documents\<close>

lemma add_document_workspaces [simp]: "workspaces (add_document ac doc ws title a) = workspaces ac"
  by (simp add: add_document_def)

lemma harness_document_framing [framing]:
  "frame (snd (harness_document io h t k c)) = frame c" "held_calls (snd (harness_document io h t k c)) = held_calls c"
  "core3 (snd (harness_document io h t k c)) = core3 c"
  "next_call (snd (harness_document io h t k c)) = next_call c"
  by (simp_all add: harness_document_def Let_def framing split: option.split)

lemma restore_from_dag_framing [framing]:
  "frame (restore_from_dag w doc c) = frame c" "held_calls (restore_from_dag w doc c) = held_calls c"
  "core3 (restore_from_dag w doc c) = core3 c"
  "next_call (restore_from_dag w doc c) = next_call c"
  by (simp_all add: restore_from_dag_def framing split: option.split prod.split sum.split)

lemma doc_for_framing [framing]:
  "frame (snd (doc_for w io h c)) = frame c" "held_calls (snd (doc_for w io h c)) = held_calls c"
  "core3 (snd (doc_for w io h c)) = core3 c"
  "next_call (snd (doc_for w io h c)) = next_call c"
  using harness_document_framing [of io h _ _ c]
  by (simp_all add: doc_for_def Let_def framing case_prod_unfold split: option.split)

section \<open>Replicas\<close>

lemma set_replicas_framing [framing]:
  "frame (set_replicas doc rs c) = frame c" "held_calls (set_replicas doc rs c) = held_calls c"
  "next_call (set_replicas doc rs c) = next_call c"
  by (simp_all add: set_replicas_def framing)

lemma put_replica_framing [framing]:
  "frame (put_replica doc peer r c) = frame c" "held_calls (put_replica doc peer r c) = held_calls c"
  "next_call (put_replica doc peer r c) = next_call c"
  by (simp_all add: put_replica_def Let_def framing)

lemma take_replica_framing [framing]:
  "frame (snd (take_replica w doc peer c)) = frame c" "held_calls (snd (take_replica w doc peer c)) = held_calls c"
  "next_call (snd (take_replica w doc peer c)) = next_call c"
  by (simp_all add: take_replica_def framing split: option.split)

lemma sync_replica_framing [framing]:
  "frame (sync_replica w doc peer c) = frame c" "held_calls (sync_replica w doc peer c) = held_calls c"
  "next_call (sync_replica w doc peer c) = next_call c"
  by (simp_all add: sync_replica_def Let_def framing case_prod_unfold split: option.split)

lemma doc_changed_framing [framing]:
  "frame (doc_changed w doc c) = frame c" "held_calls (doc_changed w doc c) = held_calls c"
  "next_call (doc_changed w doc c) = next_call c"
  by (simp_all add: doc_changed_def fold_framing framing)

section \<open>Calls\<close>

lemma resolve_handoff_framing [framing]:
  "frame (snd (resolve_handoff w io o' ps c)) = frame c" "held_calls (snd (resolve_handoff w io o' ps c)) = held_calls c"
  "core3 (snd (resolve_handoff w io o' ps c)) = core3 c"
  "next_call (snd (resolve_handoff w io o' ps c)) = next_call c"
  by (simp_all add: resolve_handoff_def framing Let_def split: option.split sum.split)

lemma register_artifact_framing [framing]:
  "frame (snd (register_artifact w io o' d k sp fb fl c)) = frame c"
  "held_calls (snd (register_artifact w io o' d k sp fb fl c)) = held_calls c"
  "core3 (snd (register_artifact w io o' d k sp fb fl c)) = core3 c"
  "next_call (snd (register_artifact w io o' d k sp fb fl c)) = next_call c"
  by (simp_all add: register_artifact_def framing Let_def split: option.split prod.split)

lemma set_installed_framing [framing]:
  "frame (set_installed i h c) = frame c" "held_calls (set_installed i h c) = held_calls c" "core3 (set_installed i h c) = core3 c"
  "next_call (set_installed i h c) = next_call c"
  by (simp_all add: set_installed_def framing)

lemma kill_over_budget_framing [framing]:
  "frame (kill_over_budget w io h n c) = frame c" "held_calls (kill_over_budget w io h n c) = held_calls c"
  "core3 (kill_over_budget w io h n c) = core3 c"
  "next_call (kill_over_budget w io h n c) = next_call c"
  by (simp_all add: kill_over_budget_def Let_def framing split: option.split)

lemma run_harness_framing [framing]:
  "frame (snd (run_harness w io o' hs t ps d c)) = frame c" "held_calls (snd (run_harness w io o' hs t ps d c)) = held_calls c"
  "core3 (snd (run_harness w io o' hs t ps d c)) = core3 c"
  "next_call (snd (run_harness w io o' hs t ps d c)) = next_call c"
  by (simp_all add: run_harness_def Let_def framing split: option.split prod.split sum.split)

lemma commit_change_framing [framing]:
  "frame (snd (commit_change w io d h t ps s a r c)) = frame c" "held_calls (snd (commit_change w io d h t ps s a r c)) = held_calls c"
  "next_call (snd (commit_change w io d h t ps s a r c)) = next_call c"
  by (simp_all add: commit_change_def Let_def framing case_prod_unfold)

lemma apply_output_framing [framing]:
  "frame (snd (apply_output w io o' d t ps a out c)) = frame c" "held_calls (snd (apply_output w io o' d t ps a out c)) = held_calls c"
  "next_call (snd (apply_output w io o' d t ps a out c)) = next_call c"
  by (simp_all add: apply_output_def Let_def framing case_prod_unfold split: option.split sum.split)

lemma finish_call_framing [framing]:
  "frame (snd (finish_call w io o' d t dc out k s c)) = frame c" "held_calls (snd (finish_call w io o' d t dc out k s c)) = held_calls c"
  "core3 (snd (finish_call w io o' d t dc out k s c)) = core3 c"
  "next_call (snd (finish_call w io o' d t dc out k s c)) = next_call c"
  by (simp_all add: finish_call_def Let_def framing case_prod_unfold split: option.split sum.split)

lemma execute_framing [framing]:
  "frame (snd (execute w io t o' d ps a dc c)) = frame c" "held_calls (snd (execute w io t o' d ps a dc c)) = held_calls c"
  "next_call (snd (execute w io t o' d ps a dc c)) = next_call c"
  by (simp_all add: execute_def framing fold_framing Let_def case_prod_unfold split: sum.split)

lemma core_tool_framing [framing]:
  "frame (snd (find_capability io ps c)) = frame c" "held_calls (snd (find_capability io ps c)) = held_calls c"
  "core3 (snd (find_capability io ps c)) = core3 c"
  "frame (snd (task_plan ps c)) = frame c" "held_calls (snd (task_plan ps c)) = held_calls c" "core3 (snd (task_plan ps c)) = core3 c"
  "frame (snd (task_note ps c)) = frame c" "held_calls (snd (task_note ps c)) = held_calls c" "core3 (snd (task_note ps c)) = core3 c"
  "frame (snd (web_search io ps c)) = frame c" "held_calls (snd (web_search io ps c)) = held_calls c"
  "core3 (snd (web_search io ps c)) = core3 c"
  "next_call (snd (find_capability io ps c)) = next_call c" "next_call (snd (task_plan ps c)) = next_call c"
  "next_call (snd (task_note ps c)) = next_call c" "next_call (snd (web_search io ps c)) = next_call c"
  by (simp_all add: find_capability_def task_plan_def task_note_def web_search_def Let_def framing
        split: list.split sum.split prod.split option.split)

text \<open>A call held for an answer is of the turn at work, and is the only one added.\<close>

definition held_more :: "('d, 's) core \<Rightarrow> ('d, 's) core \<Rightarrow> bool" where
  "held_more c c' \<longleftrightarrow> (\<forall>k p. (k, p) \<in> set (held_calls c') \<longrightarrow> (k, p) \<in> set (held_calls c) \<or> pc_turn p = c_turn_at_work c)"

lemma held_more_same: "held_calls c' = held_calls c \<Longrightarrow> held_more c c'"
  by (simp add: held_more_def)

lemma set_h_put: "set (h_put k v t) \<subseteq> insert (k, v) (set t)"
  by (induction t) (auto simp: h_put_def)

lemma ask_person_framing [framing]:
  "frame (snd (ask_person pre kind prompt t ps c)) = frame c" "core3 (snd (ask_person pre kind prompt t ps c)) = core3 c"
  by (simp_all add: ask_person_def Let_def framing)

lemma ask_person_held: "held_more c (snd (ask_person pre kind prompt t ps c))"
proof -
  let ?p = "\<lparr>pc_tool = t, pc_params = ps, pc_resume_agent = True, pc_turn = c_turn_at_work c\<rparr>"
  have "held_calls (snd (ask_person pre kind prompt t ps c)) = h_put (pre @ show_nat (us_next_approval (c_us c))) ?p (us_pending (c_us c))"
    by (simp add: ask_person_def Let_def framing)
  then show ?thesis
    by (auto simp: held_more_def held_calls_def dest!: subsetD [OF set_h_put])
qed

lemma web_fetch_framing [framing]:
  "frame (snd (web_fetch w io ps c)) = frame c" "core3 (snd (web_fetch w io ps c)) = core3 c"
  by (simp_all add: web_fetch_def Let_def framing split: egress.split prod.split fetch_result.split)

lemma web_fetch_held: "held_more c (snd (web_fetch w io ps c))"
proof (cases "egress_check (c_gateway c) (str_field ps ''url'')")
  case Allowed
  then have "held_calls (snd (web_fetch w io ps c)) = held_calls c"
    by (simp add: web_fetch_def Let_def framing split: prod.split fetch_result.split)
  then show ?thesis by (rule held_more_same)
qed (simp_all add: web_fetch_def Let_def ask_person_held held_more_same)

lemma call_core_tool_framing [framing]:
  "frame (snd (call_core_tool w io t ps c)) = frame c" "core3 (snd (call_core_tool w io t ps c)) = core3 c"
  by (simp_all add: call_core_tool_def framing)

lemma call_core_tool_held: "held_more c (snd (call_core_tool w io t ps c))"
  by (simp add: call_core_tool_def web_fetch_held held_more_same framing)

lemma gated_call_framing [framing]:
  "frame (snd (gated_call w io t o' d en dc ps a c)) = frame c"
  by (simp_all add: gated_call_def refuse_read_only_def framing split: sum.split)

lemma gated_call_held: "held_more c (snd (gated_call w io t o' d en dc ps a c))"
  by (auto simp: gated_call_def refuse_read_only_def framing ask_person_held split: sum.split intro!: held_more_same)

lemma held_more_trans:
  assumes "held_calls c1 = held_calls c" and "frame c1 = frame c" and "held_more c1 c2"
  shows "held_more c c2"
  using assms by (auto simp: held_more_def frame_def)

lemma call_tool_cases:
  obtains (same) m where "call_tool w io t ps a c = (CallError m, c)"
  | (refused) "call_tool w io t ps a c = refuse_read_only w io t core_harness [] c"
  | (core) "t \<in> set core_tool_names" "call_tool w io t ps a c = call_core_tool w io t ps c"
      "cl_is_viewer (c_active c) \<longrightarrow> builtin_kind t = Some Read" "a = ByAgent \<longrightarrow> core_offers w t c"
  | (no_doc) h m where "call_tool w io t ps a c = (CallError m, snd (doc_for w io h c))"
  | (gated) h d h' decl where "owner_of (c_registry c) t = Some h" "fst (doc_for w io (in_id h) c) = Some d"
      "reg_get (c_registry c) (in_id h) = Some h'" "get_tool (in_tools h') t = Some decl"
      "call_tool w io t ps a c = gated_call w io t (in_id h) d (in_enabled h') decl ps a (snd (doc_for w io (in_id h) c))"
proof (cases "t \<in> set core_tool_names")
  case True
  then show ?thesis using same refused core unfolding call_tool_def by (simp split: if_splits) metis
next
  case False
  show ?thesis
  proof (cases "owner_of (c_registry c) t")
    case None
    then show ?thesis using same False unfolding call_tool_def by simp
  next
    case (Some h)
    obtain d c1 where df: "doc_for w io (in_id h) c = (d, c1)" by fastforce
    show ?thesis
    proof (cases d)
      case None
      then show ?thesis using no_doc [of _ "in_id h"] False Some df unfolding call_tool_def by simp
    next
      case (Some d')
      show ?thesis
      proof (cases "reg_get (c_registry c) (in_id h)")
        case None
        then show ?thesis
          using no_doc [of _ "in_id h"] False \<open>d = Some d'\<close> \<open>owner_of _ _ = _\<close> df unfolding call_tool_def by simp
      next
        case (Some h')
        then show ?thesis
          using no_doc [of _ "in_id h"] gated [of h d' h'] False \<open>d = Some d'\<close> \<open>owner_of _ _ = _\<close> df
          unfolding call_tool_def by (cases "get_tool (in_tools h') t") simp_all
      qed
    qed
  qed
qed

lemma call_tool_framing [framing]:
  "frame (snd (call_tool w io t ps a c)) = frame c"
  by (cases rule: call_tool_cases [of w io t ps a c]; simp add: framing refuse_read_only_def)+

lemma call_tool_held: "held_more c (snd (call_tool w io t ps a c))"
proof (cases rule: call_tool_cases [of w io t ps a c])
  case (gated h d h' decl)
  show ?thesis unfolding gated(5)
    by (rule held_more_trans [OF _ _ gated_call_held]) (simp_all add: framing)
qed (simp_all add: refuse_read_only_def framing call_core_tool_held held_more_same)

lemma task_progress_framing [framing]:
  "frame (task_progress t out c) = frame c" "held_calls (task_progress t out c) = held_calls c"
  "core3 (task_progress t out c) = core3 c"
  "next_call (task_progress t out c) = next_call c"
  by (simp_all add: task_progress_def Let_def framing split: option.split prod.split)

section \<open>Context blocks, the end of a run\<close>

lemma online_framing [framing]:
  "frame (online w io h c) = frame c" "held_calls (online w io h c) = held_calls c" "core3 (online w io h c) = core3 c"
  "next_call (online w io h c) = next_call c"
  by (simp_all add: online_def framing split: option.split prod.split sum.split)

lemma open_doc_framing [framing]:
  "frame (snd (open_doc w io h p)) = frame (snd p)" "held_calls (snd (open_doc w io h p)) = held_calls (snd p)"
  "core3 (snd (open_doc w io h p)) = core3 (snd p)"
  "next_call (snd (open_doc w io h p)) = next_call (snd p)"
  using doc_for_framing [of w io h "snd p"] by (auto simp: open_doc_def split: prod.split option.split)

lemma open_docs_framing [framing]:
  "frame (snd (fold (open_doc w io) hs p)) = frame (snd p)" "held_calls (snd (fold (open_doc w io) hs p)) = held_calls (snd p)"
  "core3 (snd (fold (open_doc w io) hs p)) = core3 (snd p)"
  "next_call (snd (fold (open_doc w io) hs p)) = next_call (snd p)"
  by (induction hs arbitrary: p) (simp_all add: framing)

lemma onlines_framing [framing]:
  "frame (fold (online w io) hs c) = frame c" "held_calls (fold (online w io) hs c) = held_calls c"
  "core3 (fold (online w io) hs c) = core3 c"
  "next_call (fold (online w io) hs c) = next_call c"
  by (induction hs arbitrary: c) (simp_all add: framing)

lemma context_blocks_framing [framing]:
  "frame (snd (context_blocks w io c)) = frame c" "held_calls (snd (context_blocks w io c)) = held_calls c"
  "core3 (snd (context_blocks w io c)) = core3 c"
  "next_call (snd (context_blocks w io c)) = next_call c"
  by (simp_all add: context_blocks_def Let_def case_prod_unfold framing)

lemma settle_plan_framing [framing]:
  "frame (settle_plan c) = frame c" "held_calls (settle_plan c) = held_calls c" "core3 (settle_plan c) = core3 c"
  "frame (propose w r c) = frame c" "held_calls (propose w r c) = held_calls c" "core3 (propose w r c) = core3 c"
  "next_call (settle_plan c) = next_call c" "next_call (propose w r c) = next_call c"
  by (simp_all add: settle_plan_def propose_def Let_def framing)

lemma finish_run_framing [framing]:
  "frame (finish_run w c) = frame c" "held_calls (finish_run w c) = held_calls c" "core3 (finish_run w c) = core3 c"
  "next_call (finish_run w c) = next_call c"
  by (simp_all add: finish_run_def framing split: option.split)

section \<open>Requests about documents\<close>

lemma document_request_framing [framing]:
  "frame (snd (open_document w io h c)) = frame c" "held_calls (snd (open_document w io h c)) = held_calls c"
  "core3 (snd (open_document w io h c)) = core3 c"
  "frame (snd (get_doc_json w io h c)) = frame c" "held_calls (snd (get_doc_json w io h c)) = held_calls c"
  "core3 (snd (get_doc_json w io h c)) = core3 c"
  "frame (snd (refuse_read_only_write w io d c)) = frame c" "held_calls (snd (refuse_read_only_write w io d c)) = held_calls c"
  "core3 (snd (refuse_read_only_write w io d c)) = core3 c"
  "next_call (snd (open_document w io h c)) = next_call c" "next_call (snd (get_doc_json w io h c)) = next_call c"
  "next_call (snd (refuse_read_only_write w io d c)) = next_call c"
  using doc_for_framing [of w io h c]
  by (auto simp: open_document_def get_doc_json_def refuse_read_only_write_def Let_def framing case_prod_unfold
        split: option.split sum.split prod.split)

lemma write_doc_framing [framing]:
  "frame (snd (write_doc w io h v j cm c)) = frame c" "held_calls (snd (write_doc w io h v j cm c)) = held_calls c"
  "next_call (snd (write_doc w io h v j cm c)) = next_call c"
proof -
  obtain d c1 where df: "doc_for w io h c = (d, c1)" by fastforce
  have f: "frame c1 = frame c" "held_calls c1 = held_calls c" "next_call c1 = next_call c"
    using doc_for_framing [of w io h c] by (simp_all add: df)
  show "frame (snd (write_doc w io h v j cm c)) = frame c" "held_calls (snd (write_doc w io h v j cm c)) = held_calls c" "next_call (snd (write_doc w io h v j cm c)) = next_call c"
    by (simp_all add: write_doc_def df f Let_def framing split: option.split sum.split prod.split)
qed

lemma doc_sync_framing [framing]:
  "frame (snd (doc_sync w io d p m c)) = frame c" "held_calls (snd (doc_sync w io d p m c)) = held_calls c"
  "next_call (snd (doc_sync w io d p m c)) = next_call c"
  by (simp_all add: doc_sync_def Let_def framing case_prod_unfold split: sum.split bool.split)

lemma doc_sync_end_framing [framing]:
  "frame (snd (doc_sync_end d p c)) = frame c" "held_calls (snd (doc_sync_end d p c)) = held_calls c"
  "next_call (snd (doc_sync_end d p c)) = next_call c"
  by (simp_all add: doc_sync_end_def framing split: option.split)

lemma store_export_framing [framing]:
  "frame (snd (store_export w io h od k n mi b sc c)) = frame c" "held_calls (snd (store_export w io h od k n mi b sc c)) = held_calls c"
  "next_call (snd (store_export w io h od k n mi b sc c)) = next_call c"
  by (simp_all add: store_export_def Let_def framing case_prod_unfold)

lemma register_export_framing [framing]:
  "frame (snd (register_export w io h d k n mi b kd fs sm c)) = frame c"
  "held_calls (snd (register_export w io h d k n mi b kd fs sm c)) = held_calls c"
  "core3 (snd (register_export w io h d k n mi b kd fs sm c)) = core3 c"
  "next_call (snd (register_export w io h d k n mi b kd fs sm c)) = next_call c"
  by (simp_all add: register_export_def Let_def framing case_prod_unfold split: sum.split option.split)

lemma produce_artifact_framing [framing]:
  "frame (snd (produce_artifact w io h v k n mi b g sm c)) = frame c" "held_calls (snd (produce_artifact w io h v k n mi b g sm c)) = held_calls c"
  "next_call (snd (produce_artifact w io h v k n mi b g sm c)) = next_call c"
proof -
  obtain d c1 where df: "doc_for w io h c = (d, c1)" by fastforce
  have f: "frame c1 = frame c" "held_calls c1 = held_calls c" "next_call c1 = next_call c"
    using doc_for_framing [of w io h c] by (simp_all add: df)
  show "frame (snd (produce_artifact w io h v k n mi b g sm c)) = frame c"
    "held_calls (snd (produce_artifact w io h v k n mi b g sm c)) = held_calls c" "next_call (snd (produce_artifact w io h v k n mi b g sm c)) = next_call c"
    by (simp_all add: produce_artifact_def df f Let_def framing case_prod_unfold split: option.split sum.split)
qed

section \<open>History, conversations, the environment\<close>

lemma apply_revert_framing [framing]:
  "frame (snd (apply_revert w r c)) = frame c" "held_calls (snd (apply_revert w r c)) = held_calls c"
  "next_call (snd (apply_revert w r c)) = next_call c"
  by (simp_all add: apply_revert_def framing split: prod.split sum.split)

lemma move_head_framing [framing]:
  "frame (snd (move_head w n f c)) = frame c" "held_calls (snd (move_head w n f c)) = held_calls c"
  "frame (snd (undo_request w c)) = frame c" "held_calls (snd (undo_request w c)) = held_calls c"
  "frame (snd (redo_request w c)) = frame c" "held_calls (snd (redo_request w c)) = held_calls c"
  "next_call (snd (move_head w n f c)) = next_call c" "next_call (snd (undo_request w c)) = next_call c"
  "next_call (snd (redo_request w c)) = next_call c"
  by (simp_all add: undo_request_def redo_request_def move_head_def framing split: option.split prod.split sum.split)

lemma drop_run_framing [framing]:
  "frame (snd (drop_run_request w run c)) = frame c" "held_calls (snd (drop_run_request w run c)) = held_calls c"
  "next_call (snd (drop_run_request w run c)) = next_call c"
  by (simp_all add: drop_run_request_def Let_def framing fold_framing split: option.split prod.split drop_outcome.split)

lemma doc_blob_framing [framing]:
  "frame (snd (doc_blob w io doc c)) = frame c" "held_calls (snd (doc_blob w io doc c)) = held_calls c"
  "core3 (snd (doc_blob w io doc c)) = core3 c"
  "next_call (snd (doc_blob w io doc c)) = next_call c"
  by (simp_all add: doc_blob_def framing split: option.split sum.split)

lemma environment_framing [framing]:
  "frame (snd (set_network_mode mode c)) = frame c" "held_calls (snd (set_network_mode mode c)) = held_calls c"
  "core3 (snd (set_network_mode mode c)) = core3 c"
  "frame (snd (set_pinned h b c)) = frame c" "held_calls (snd (set_pinned h b c)) = held_calls c" "core3 (snd (set_pinned h b c)) = core3 c"
  "frame (snd (set_harness_enabled h b c)) = frame c" "held_calls (snd (set_harness_enabled h b c)) = held_calls c"
  "core3 (snd (set_harness_enabled h b c)) = core3 c"
  "next_call (snd (set_network_mode mode c)) = next_call c" "next_call (snd (set_pinned h b c)) = next_call c"
  "next_call (snd (set_harness_enabled h b c)) = next_call c"
  by (simp_all add: set_network_mode_def set_pinned_def set_harness_enabled_def Let_def framing split: prod.split option.split)

lemma traces_framing [framing]:
  "frame (fold (\<lambda>i. trace (f i)) xs c) = frame c" "held_calls (fold (\<lambda>i. trace (f i)) xs c) = held_calls c"
  "core3 (fold (\<lambda>i. trace (f i)) xs c) = core3 c"
  "next_call (fold (\<lambda>i. trace (f i)) xs c) = next_call c"
  by (induction xs arbitrary: c) (simp_all add: framing)

lemma idle_tick_framing [framing]:
  "frame (idle_tick io c) = frame c" "held_calls (idle_tick io c) = held_calls c" "core3 (idle_tick io c) = core3 c"
  "next_call (idle_tick io c) = next_call c"
  by (simp_all add: idle_tick_def Let_def framing split: prod.split)

lemma conversation_framing [framing]:
  "frame (snd (show_chat ms i c)) = frame c" "held_calls (snd (show_chat ms i c)) = held_calls c" "core3 (snd (show_chat ms i c)) = core3 c"
  "frame (snd (new_conversation io c)) = frame c" "held_calls (snd (new_conversation io c)) = held_calls c"
  "core3 (snd (new_conversation io c)) = core3 c"
  "frame (snd (select_conversation io i c)) = frame c" "held_calls (snd (select_conversation io i c)) = held_calls c"
  "core3 (snd (select_conversation io i c)) = core3 c"
  "frame (snd (rename_conversation i title c)) = frame c" "held_calls (snd (rename_conversation i title c)) = held_calls c"
  "core3 (snd (rename_conversation i title c)) = core3 c"
  "next_call (snd (show_chat ms i c)) = next_call c" "next_call (snd (new_conversation io c)) = next_call c"
  "next_call (snd (select_conversation io i c)) = next_call c" "next_call (snd (rename_conversation i title c)) = next_call c"
  by (simp_all add: show_chat_def new_conversation_def select_conversation_def rename_conversation_def Let_def framing split: option.split)

lemma require_framing [framing]:
  "frame (snd (require_admin w io ev c)) = frame c" "held_calls (snd (require_admin w io ev c)) = held_calls c"
  "core3 (snd (require_admin w io ev c)) = core3 c"
  "frame (snd (require_workspace_owner w io ws ev c)) = frame c" "held_calls (snd (require_workspace_owner w io ws ev c)) = held_calls c"
  "core3 (snd (require_workspace_owner w io ws ev c)) = core3 c"
  "next_call (snd (require_admin w io ev c)) = next_call c" "next_call (snd (require_workspace_owner w io ws ev c)) = next_call c"
  by (simp_all add: require_admin_def require_workspace_owner_def framing split: option.split)

lemma set_document_acl_workspaces: "set_document_acl ac doc a = Inr ac' \<Longrightarrow> workspaces ac' = workspaces ac"
  by (erule set_document_acl_Inr) simp

lemma set_document_access_framing [framing]:
  "frame (snd (set_document_access w io doc ms c)) = frame c" "held_calls (snd (set_document_access w io doc ms c)) = held_calls c"
  "core3 (snd (set_document_access w io doc ms c)) = core3 c"
  "next_call (snd (set_document_access w io doc ms c)) = next_call c"
  by (auto simp: set_document_access_def Let_def framing set_document_acl_workspaces split: sum.split)

section \<open>Who is active\<close>

lemma fresh_user_frame:
  "c_turns (snd (fresh_user_state now u c)) = c_turns c" "c_next_turn (snd (fresh_user_state now u c)) = c_next_turn c"
  "c_us (snd (fresh_user_state now u c)) = c_us c" "c_users (snd (fresh_user_state now u c)) = c_users c"
  "c_turn_at_work (snd (fresh_user_state now u c)) = c_turn_at_work c" "c_posted (snd (fresh_user_state now u c)) = c_posted c"
  "c_asked (snd (fresh_user_state now u c)) = c_asked c" "us_pending (fst (fresh_user_state now u c)) = []"
  "c_active (snd (fresh_user_state now u c)) = c_active c"
  by (simp_all add: fresh_user_state_def own_workspace_def Let_def)

lemma activate_same:
  "c_turns (activate now cl c) = c_turns c" "c_next_turn (activate now cl c) = c_next_turn c"
  "c_turn_at_work (activate now cl c) = c_turn_at_work c" "c_posted (activate now cl c) = c_posted c"
  "c_asked (activate now cl c) = c_asked c" "c_active (activate now cl c) = cl"
  using fresh_user_frame [of now "cl_user cl" c]
  by (auto simp: activate_def Let_def case_prod_unfold split: option.split)

section \<open>The loop of \<open>schedule\<close>\<close>

lemma schedule_invariant:
  assumes "I c"
    and "\<And>c t st. I c \<Longrightarrow> distinct (map tn_id (c_turns c)) \<Longrightarrow> next_to_move (w_slots w) (c_turns c) = Some (t, st) \<Longrightarrow> I (move_turn w io t st c)"
  shows "I (schedule w io c)"
  using assms
proof (induction w io c rule: schedule.induct)
  case (1 w io c)
  show ?case
  proof (cases "\<not> distinct (map tn_id (c_turns c)) \<or> next_to_move (w_slots w) (c_turns c) = None")
    case True
    then show ?thesis using 1 by (subst schedule.simps) auto
  next
    case False
    then obtain t st where n: "next_to_move (w_slots w) (c_turns c) = Some (t, st)" by auto
    then have "I (move_turn w io t st c)" using 1 False by simp
    then have "I (schedule w io (move_turn w io t st c))" using 1 False n by auto
    then show ?thesis using False n by (subst schedule.simps) auto
  qed
qed

end
