(* ===== verification/CoreStart.thy ===== *)
theory CoreStart
  imports Framing
begin

text \<open>
  How Core starts (\<open>Core::new\<close>, before any package folder is loaded), and that the access it starts with is the database's.
\<close>

definition core_new :: "('d, 'o, 's) world \<Rightarrow> nat \<Rightarrow> gateway_config \<Rightarrow> store \<Rightarrow> dag \<Rightarrow> audit_log \<Rightarrow> ('d, 's) core" where
  "core_new w now cfg st dg al =
     (let user = w_local_user w;
          known = fold (\<lambda>ws ac. add_workspace ac ws) (store_workspaces st) ac_new;
          workspace = ''ws_'' @ user;
          absent = (get_workspace known workspace = None);
          st1 = (if absent then put_workspace (ws_personal user) st else st);
          ac = (if absent then add_workspace known (ws_personal user) else known);
          ch = load st1 user workspace now
      in load_documents w
           \<lparr>c_registry = [], c_docs = ds_new, c_store = db ch, c_dag = dg, c_gateway = gateway_new cfg, c_audit = al,
            c_access = ac, c_providers = empty_cache,
            c_us = \<lparr>us_workspace = workspace, us_break_glass = None, us_focus = None, us_pinned = [], us_touched = [],
                    us_transcript = transcript_of ch, us_pending = [], us_next_approval = 1, us_proposals = [], us_run = None,
                    us_task = task_of (db ch) user workspace, us_chats = ch\<rparr>,
            c_users = [], c_active = caller_local user, c_sync = [], c_sync_clock = 0, c_turns = [], c_next_turn = 1,
            c_turn_at_work = None, c_posted = [], c_asked = [], c_evals_running = False, c_events = []\<rparr>)"

lemma load_records_framing [framing]:
  "frame (load_records w rs c) = frame c" "held_calls (load_records w rs c) = held_calls c" "core3 (load_records w rs c) = core3 c"
  "c_store (load_records w rs c) = c_store c" "c_us (load_records w rs c) = c_us c" "c_registry (load_records w rs c) = c_registry c"
  "c_active (load_records w rs c) = c_active c" "c_sync (load_records w rs c) = c_sync c" "c_dag (load_records w rs c) = c_dag c"
  by (induction w rs c rule: load_records.induct) (simp_all add: framing)

text \<open>Nobody has asked anything, and nothing is held.\<close>

definition no_turns :: "('d, 's) core \<Rightarrow> bool" where
  "no_turns c \<longleftrightarrow> c_turns c = [] \<and> c_turn_at_work c = None \<and> c_posted c = [] \<and> c_asked c = [] \<and> us_pending (c_us c) = [] \<and>
     list_all (\<lambda>(_, u). us_pending u = []) (c_users c)"

lemma no_turns_frame: "frame c' = frame c \<Longrightarrow> held_calls c' = held_calls c \<Longrightarrow> no_turns c' = no_turns c"
  by (simp add: no_turns_def frame_def held_calls_def)

lemma core_new_no_turns: "no_turns (core_new w now cfg st dg al)"
  unfolding core_new_def load_documents_def Let_def
  by (subst no_turns_frame [OF load_records_framing(1,2)]) (simp add: no_turns_def)

lemma core_new_fields [simp]:
  "c_registry (core_new w now cfg st dg al) = []" "c_active (core_new w now cfg st dg al) = caller_local (w_local_user w)"
  "c_sync (core_new w now cfg st dg al) = []" "c_dag (core_new w now cfg st dg al) = dg"
  "us_break_glass (c_us (core_new w now cfg st dg al)) = None"
  by (simp_all add: core_new_def Let_def load_documents_def framing)

text \<open>The conversations are brought in without a change to the tables of documents and workspaces.\<close>

lemma set_current_tables:
  "documents_t (db (Chats.set_current i s)) = documents_t (db s)" "documents_t (db (persist cv s)) = documents_t (db s)"
  by (simp_all add: Chats.set_current_def set_current_conversation_def put_state_def persist_def put_conversation_def)

lemma load_tables: "documents_t (db (load d user workspace now)) = documents_t d"
  by (auto simp: load_def start_def add_chat_def Let_def set_current_tables split: option.split)

text \<open>The access control as it is told of one document.\<close>

definition meta_of :: "string \<Rightarrow> string \<Rightarrow> document_record \<Rightarrow> document_meta" where
  "meta_of home i r = \<lparr>d_id = i, d_workspace = (if dr_workspace r = [] then home else dr_workspace r), d_acl = dr_acl r, d_title = dr_title r\<rparr>"

lemma load_records_documents:
  "distinct (keys rs) \<Longrightarrow> get_document (c_access (load_records w rs c)) doc =
     (case t_get rs doc of Some r \<Rightarrow> Some (meta_of (us_workspace (c_us c)) doc r) | None \<Rightarrow> get_document (c_access c) doc)"
proof (induction w rs c rule: load_records.induct)
  case (2 w i r rs c)
  let ?c = "c\<lparr>c_docs := (if dr_harness r = None then ds_ensure (w_am w) i (dr_kind r) (c_docs c) else c_docs c),
    c_access := add_document (c_access c) i (if dr_workspace r = [] then us_workspace (c_us c) else dr_workspace r) (dr_title r) (dr_acl r)\<rparr>"
  have "t_get rs i = None" using 2(2) by (simp add: keys_def map_of_eq_None_iff)
  moreover have "get_document (c_access ?c) doc = (if doc = i then Some (meta_of (us_workspace (c_us c)) i r) else get_document (c_access c) doc)"
    by (simp add: get_document_def add_document_def h_get_put meta_of_def)
  moreover have "us_workspace (c_us ?c) = us_workspace (c_us c)" by simp
  moreover have "get_document (c_access (load_records w rs ?c)) doc =
      (case t_get rs doc of Some r \<Rightarrow> Some (meta_of (us_workspace (c_us ?c)) doc r) | None \<Rightarrow> get_document (c_access ?c) doc)"
    using 2 by (simp add: keys_def)
  ultimately show ?case by (cases "doc = i") (simp_all only: load_records.simps map_of.simps fst_conv snd_conv fun_upd_apply if_True if_False option.case simp_thms)
qed simp

lemma known_workspaces:
  "distinct (map ws_id wss) \<Longrightarrow> get_workspace (fold (\<lambda>ws ac. add_workspace ac ws) wss ac) i =
     (case List.find (\<lambda>ws. ws_id ws = i) wss of Some ws \<Rightarrow> Some ws | None \<Rightarrow> get_workspace ac i)"
proof (induction wss arbitrary: ac)
  case (Cons ws wss)
  have "List.find (\<lambda>x. ws_id x = ws_id ws) wss = None" using Cons(2) by (auto simp: find_None_iff image_iff)
  moreover have "get_workspace (add_workspace ac ws) i = (if i = ws_id ws then Some ws else get_workspace ac i)"
    by (simp add: get_workspace_def add_workspace_def h_get_put)
  ultimately show ?case using Cons by (auto split: option.split)
qed simp

lemma known_documents: "documents (fold (\<lambda>ws ac. add_workspace ac ws) wss ac) = documents ac"
  by (induction wss arbitrary: ac) (simp_all add: add_workspace_def)

lemma find_by_key: "distinct (keys t) \<Longrightarrow> \<forall>(k, ws) \<in> set t. f ws = k \<Longrightarrow> List.find (\<lambda>ws. f ws = i) (vals t) = t_get t i"
  by (induction t) (auto simp: keys_def vals_def)

lemma access_restored:
  assumes "distinct (keys (documents_t st))" and "distinct (keys (workspaces_t st))" and "\<forall>(k, ws) \<in> set (workspaces_t st). ws_id ws = k"
  shows "get_document (c_access (core_new w now cfg st dg al)) doc = map_option (meta_of (''ws_'' @ w_local_user w) doc) (store_document st doc) \<and>
    get_workspace (c_access (core_new w now cfg st dg al)) i = (case store_workspace st i of Some ws \<Rightarrow> Some ws
      | None \<Rightarrow> if i = ''ws_'' @ w_local_user w then Some (ws_personal (w_local_user w)) else None)"
proof -
  let ?known = "fold (\<lambda>ws ac. add_workspace ac ws) (store_workspaces st) ac_new"
  have ids: "map ws_id (store_workspaces st) = keys (workspaces_t st)"
    using assms(3) by (auto simp: store_workspaces_def vals_def keys_def)
  have known: "get_workspace ?known i = store_workspace st i" for i
    using known_workspaces [of "store_workspaces st" ac_new i] find_by_key [OF assms(2,3), of i] assms(2)
    by (simp add: ids) (auto simp: store_workspaces_def store_workspace_def get_workspace_def ac_new_def split: option.split)
  have docs: "documents ?known = []" by (simp add: known_documents ac_new_def)
  have start: "\<exists>c. core_new w now cfg st dg al = load_documents w c \<and> documents_t (c_store c) = documents_t st \<and>
      us_workspace (c_us c) = ''ws_'' @ w_local_user w \<and>
      c_access c = (if get_workspace ?known (''ws_'' @ w_local_user w) = None then add_workspace ?known (ws_personal (w_local_user w)) else ?known)"
    unfolding core_new_def Let_def by (rule exI, rule conjI, rule refl) (simp add: load_tables put_workspace_def)
  then obtain c where c: "core_new w now cfg st dg al = load_documents w c" "documents_t (c_store c) = documents_t st"
      "us_workspace (c_us c) = ''ws_'' @ w_local_user w"
      "c_access c = (if get_workspace ?known (''ws_'' @ w_local_user w) = None then add_workspace ?known (ws_personal (w_local_user w)) else ?known)"
    by blast
  have "get_workspace (c_access (load_documents w c)) i = get_workspace (c_access c) i"
    using arg_cong [OF load_records_framing(3) [of w "store_documents (c_store c)" c], of "\<lambda>x. snd (snd x)"]
    by (simp add: load_documents_def core3_def get_workspace_def)
  moreover have "get_document (c_access (load_documents w c)) doc = map_option (meta_of (''ws_'' @ w_local_user w) doc) (store_document st doc)"
    using load_records_documents [of "store_documents (c_store c)" w c doc] assms(1) c docs
    by (auto simp: load_documents_def store_documents_def store_document_def get_document_def add_workspace_def split: option.split)
  ultimately show ?thesis
    using c known by (auto simp: get_workspace_def add_workspace_def h_get_put ws_personal_def split: option.split)
qed


section \<open>An example\<close>

text \<open>A computer on which nothing outside answers: documents in the flat heap of \<open>DocStore\<close>, peers that never have anything to say.\<close>

definition example_sync :: "(flat, nat) sync" where
  "example_sync = \<lparr>sy_new = 0, sy_decode_error = (\<lambda>_. None), sy_generate = (\<lambda>d s. (None, d, s)), sy_receive = (\<lambda>d s m. (Inr (), d, s))\<rparr>"

definition example_world :: "(flat, nat, nat) world" where
  "example_world = \<lparr>w_am = flat_automerge, w_sync = example_sync, w_text = (\<lambda>_. ''{}''), w_hash = (\<lambda>b. b), w_record_hash = (\<lambda>_. ''h''),
     w_package_hash = (\<lambda>_. ''h''), w_profile = small_profile, w_set_aside = [], w_slots = 1, w_local_user = ''ann''\<rparr>"

definition example_io :: io where
  "example_io = \<lparr>io_now = 7, io_audit_ms = (\<lambda>n. n), io_commit_ms = (\<lambda>n. (n, n)), io_doc_id = (\<lambda>n. CHR ''d'' # show_nat n), io_ws_id = ''x'',
     io_load = (\<lambda>_. Unparsed), io_call = (\<lambda>_ _ _ _ _. (Inl ''no harness runs'', None)), io_http = (\<lambda>_. NoReply ''no network''), io_http_json = (\<lambda>_. NoReply ''no network''),
     io_lowercase = (\<lambda>s. s), io_rank = (\<lambda>_ _. []), io_context = (\<lambda>_ _ _ _. Inl ''no harness runs''), io_call_block = (\<lambda>_. None)\<rparr>"

definition example_document :: document_record where
  "example_document = \<lparr>dr_title = ''Board'', dr_kind = Crdt, dr_mime = ''application/json'', dr_bytes = 0, dr_hash = [],
     dr_source = FromHarness ''board'', dr_created_ms = 1, dr_workspace = ''ws_team'', dr_harness = Some ''board'', dr_created_by = ''ann'', dr_acl = None\<rparr>"

definition example_store :: store where
  "example_store = put_document ''d0'' example_document (put_workspace (ws_shared_by ''ws_team'' ''Team'' ''bob'' 1) store_empty)"

definition example_core :: "(flat, nat) core" where
  "example_core = core_new example_world 5 default_gateway_config example_store dag_empty in_memory"


lemma example_workspaces:
  "get_workspace (c_access example_core) i =
     (if i = ''ws_team'' then Some (ws_shared_by ''ws_team'' ''Team'' ''bob'' 1) else if i = ''ws_ann'' then Some (ws_personal ''ann'') else None)"
  using access_restored [of example_store example_world 5 default_gateway_config dag_empty in_memory "''d0''" i]
  by (simp add: example_core_def example_store_def put_document_def put_workspace_def store_empty_def keys_def ws_shared_by_def
      store_workspace_def example_world_def)

lemma example_core_fields [simp]:
  "c_registry example_core = []" "c_active example_core = caller_local ''ann''" "c_sync example_core = []" "c_dag example_core = dag_empty"
  by (simp_all add: example_core_def example_world_def)

lemma example_activate [simp]: "activate now (caller_local ''ann'') example_core = example_core"
  by (simp add: activate_def)

lemma example_idle [simp]: "idle_tick io example_core = example_core"
  by (simp add: idle_tick_def unload_idle_def reg_iter_def vals_def Let_def)

lemma example_store_fields [simp]:
  "documents_t (c_store example_core) = [(''d0'', example_document)]" "us_workspace (c_us example_core) = ''ws_ann''"
  "us_break_glass (c_us example_core) = None"
  by (simp_all add: example_core_def core_new_def Let_def load_documents_def framing load_tables example_world_def example_store_def
      put_document_def put_workspace_def store_empty_def)

lemma example_docs [simp]: "c_docs example_core = ds_new"
  by (simp add: example_core_def core_new_def Let_def load_documents_def load_tables example_store_def store_documents_def
      put_document_def put_workspace_def store_empty_def example_document_def)

end
