(* ===== verification/CoreSteps.thy ===== *)
theory CoreSteps
  imports CoreStart
begin

text \<open>
  What every request and every step of an answer keeps: an interface (\<open>core_steps\<close>) for a property of the replicas, the history and
  the workspaces that is kept by the ways these change, and under it, once, that each operation of Core keeps the property.
  \<open>core_changes\<close> adds the requests that change a workspace.  The interpretations are below: the bound on replicas, the history
  that loses nothing, workspaces that only their owners and administrators change.
\<close>

section \<open>How replicas, history and workspaces change\<close>

inductive sync_move :: "(string, (string, 's replica) table) table \<Rightarrow> (string, (string, 's replica) table) table \<Rightarrow> bool" where
  replica_moved: "t_get sy doc = Some rs \<Longrightarrow> t_get rs peer = Some r \<Longrightarrow> sync_move sy (h_put doc (h_put peer r' rs) sy)"
| replica_taken: "t_get sy doc = Some rs \<Longrightarrow> sync_move sy (h_put doc (t_del peer rs) sy)"
| replica_heard: "sync_move sy (h_put doc (h_put peer r (make_room (case t_get sy doc of Some rs \<Rightarrow> rs | None \<Rightarrow> []))) sy)"
| replicas_gone: "sync_move sy (t_del doc sy)"

inductive dag_move :: "(string \<Rightarrow> string) \<Rightarrow> dag \<Rightarrow> dag \<Rightarrow> bool" for hash where
  history_commit: "dag_move hash st (snd (dag_commit hash st doc harness tool params bytes summary author run now now'))"
| history_undo: "dag_move hash st (snd (undo st doc))"
| history_redo: "dag_move hash st (snd (redo st doc))"
| history_drop: "dag_move hash st (snd (drop_run st run))"

lemma withdraw_core3 [framing]: "core3 (withdraw i c) = core3 c"
  by (simp add: withdraw_def Let_def framing fold_framing)

lemma turn_core3 [framing]:
  "core3 (alter_turn i f c) = core3 c" "core3 (set_turn_state i st c) = core3 c" "core3 (snd (stop_turn i c)) = core3 c"
  "core3 (post m c) = core3 c" "core3 (keep io i txt th sp jn why c) = core3 c" "core3 (record_call io i tool params outcome c) = core3 c"
  by (simp_all add: alter_turn_def set_turn_state_def stop_turn_def post_def keep_def record_call_def framing split: option.split)

text \<open>The requests that change a workspace's members or its mode, or make one.\<close>

fun changes_workspaces :: "request \<Rightarrow> bool" where
  "changes_workspaces (CreateWorkspace name) = True"
| "changes_workspaces (SetMember workspace p l) = True"
| "changes_workspaces (RemoveMember workspace p) = True"
| "changes_workspaces (SetAgentWrites workspace mode) = True"
| "changes_workspaces _ = False"

text \<open>
  What happens to Core: a person asks; a message of a turn comes back through the queue; a reading of the model ends; housekeeping.
\<close>

inductive core_step :: "('d, 'o, 's) world \<Rightarrow> ('d, 's) core \<Rightarrow> ('d, 's) core \<Rightarrow> bool" for w where
  step_request: "\<not> cl_is_system cl \<Longrightarrow> core_step w c (snd (handle_as w io cl r c))"
| step_message: "m \<in> set (c_posted c) \<Longrightarrow> core_step w c (handle_internal w io m (c\<lparr>c_posted := remove1 m (c_posted c)\<rparr>))"
| step_reply: "i \<in> set (c_asked c) \<Longrightarrow> core_step w c (handle_internal w io (Replied i se) (c\<lparr>c_asked := remove1 i (c_asked c)\<rparr>))"
| step_idle: "core_step w c (idle_tick io c)"

inductive_cases core_stepE: "core_step w c c'"

inductive core_run :: "('d, 'o, 's) world \<Rightarrow> ('d, 's) core \<Rightarrow> ('d, 's) core \<Rightarrow> bool" for w c0 where
  run_start: "core_run w c0 c0"
| run_step: "core_run w c0 c \<Longrightarrow> core_step w c c' \<Longrightarrow> core_run w c0 c'"

locale core_steps =
  fixes w :: "('d, 'o, 's) world"
    and P :: "(string, (string, 's replica) table) table \<times> dag \<times> (string, workspace) table \<Rightarrow> bool"
  assumes sync: "P (sy, dg, ws) \<Longrightarrow> sync_move sy sy' \<Longrightarrow> P (sy', dg, ws)"
    and hist: "P (sy, dg, ws) \<Longrightarrow> dag_move (w_hash w) dg dg' \<Longrightarrow> P (sy, dg', ws)"
    and own: "P (sy, dg, ws) \<Longrightarrow> t_get ws (''ws_'' @ user) = None \<Longrightarrow> P (sy, dg, h_put (''ws_'' @ user) (ws_personal user) ws)"
begin

lemma sync_core: "P (core3 c) \<Longrightarrow> sync_move (c_sync c) sy \<Longrightarrow> P (sy, snd (core3 c))"
  using sync by (auto simp: core3_def)

lemma hist_core: "P (core3 c) \<Longrightarrow> dag_move (w_hash w) (c_dag c) dg \<Longrightarrow> P (fst (core3 c), dg, snd (snd (core3 c)))"
  using hist by (auto simp: core3_def)

lemma sync_replica_keeps: "P (core3 c) \<Longrightarrow> P (core3 (sync_replica w doc peer c))"
  by (auto simp: sync_replica_def Let_def framing set_replicas_def case_prod_unfold bind_eq_Some_conv
      intro!: sync_core [OF _ replica_moved] split: option.split)

lemma doc_changed_keeps: "P (core3 c) \<Longrightarrow> P (core3 (doc_changed w doc c))"
proof -
  have "P (core3 (fold (sync_replica w doc) ks d))" if "P (core3 d)" for ks and d :: "('d, 's) core"
    using that by (induction ks arbitrary: d) (simp_all add: sync_replica_keeps)
  then show "P (core3 c) \<Longrightarrow> P (core3 (doc_changed w doc c))" by (simp add: doc_changed_def framing)
qed

lemma take_replica_keeps: "P (core3 c) \<Longrightarrow> P (core3 (snd (take_replica w doc peer c)))"
  by (auto simp: take_replica_def set_replicas_def framing intro!: sync_core replica_taken split: option.split)

lemma put_replica_keeps: "P (core3 c) \<Longrightarrow> P (core3 (put_replica doc peer r c))"
  by (auto simp: put_replica_def Let_def set_replicas_def framing intro!: sync_core replica_heard)

lemma commit_change_keeps: "P (core3 c) \<Longrightarrow> P (core3 (snd (commit_change w io d h t ps s a r c)))"
  using hist_core [of c, OF _ history_commit] by (simp add: commit_change_def Let_def case_prod_unfold framing)

lemma apply_output_keeps: "P (core3 c) \<Longrightarrow> P (core3 (snd (apply_output w io o' d t ps a out c)))"
  by (auto simp: apply_output_def Let_def case_prod_unfold framing intro!: doc_changed_keeps commit_change_keeps split: option.split sum.split)

lemma execute_keeps: "P (core3 c) \<Longrightarrow> P (core3 (snd (execute w io t o' d ps a dc c)))"
  by (auto simp: execute_def Let_def case_prod_unfold framing fold_framing intro!: apply_output_keeps split: sum.split)

lemma gated_call_keeps: "P (core3 c) \<Longrightarrow> P (core3 (snd (gated_call w io t o' d en dc ps a c)))"
  by (auto simp: gated_call_def refuse_read_only_def framing intro!: execute_keeps split: sum.split)

lemma call_tool_keeps: "P (core3 c) \<Longrightarrow> P (core3 (snd (call_tool w io t ps a c)))"
  by (cases rule: call_tool_cases [of w io t ps a c]) (auto simp: framing refuse_read_only_def intro!: gated_call_keeps)

section \<open>Documents and history\<close>

lemma write_doc_keeps: "P (core3 c) \<Longrightarrow> P (core3 (snd (write_doc w io h v j cm c)))"
proof -
  assume P: "P (core3 c)"
  obtain d c1 where df: "doc_for w io h c = (d, c1)" by fastforce
  have "core3 c1 = core3 c" using doc_for_framing(3) [of w io h c] by (simp add: df)
  then show ?thesis
    using P by (auto simp: write_doc_def df Let_def framing intro!: doc_changed_keeps commit_change_keeps split: option.split sum.split prod.split)
qed

lemma doc_sync_keeps: "P (core3 c) \<Longrightarrow> P (core3 (snd (doc_sync w io d p m c)))"
  by (auto simp: doc_sync_def Let_def case_prod_unfold framing
      intro!: doc_changed_keeps commit_change_keeps put_replica_keeps take_replica_keeps sync_replica_keeps split: sum.split bool.split)

lemma doc_sync_end_keeps: "P (core3 c) \<Longrightarrow> P (core3 (snd (doc_sync_end d p c)))"
  by (auto simp: doc_sync_end_def set_replicas_def framing intro!: sync_core [OF _ replicas_gone] sync_core [OF _ replica_taken] split: option.split)

lemma store_export_keeps: "P (core3 c) \<Longrightarrow> P (core3 (snd (store_export w io h od k n mi b sc c)))"
  by (auto simp: store_export_def Let_def case_prod_unfold framing intro!: hist_core history_commit)

lemma produce_artifact_keeps: "P (core3 c) \<Longrightarrow> P (core3 (snd (produce_artifact w io h v k n mi b g sm c)))"
proof -
  assume P: "P (core3 c)"
  obtain d c1 where df: "doc_for w io h c = (d, c1)" by fastforce
  have "core3 c1 = core3 c" using doc_for_framing(3) [of w io h c] by (simp add: df)
  then show ?thesis
    using P by (auto simp: produce_artifact_def df Let_def case_prod_unfold framing intro!: store_export_keeps split: option.split sum.split)
qed

lemma apply_revert_keeps: "P (core3 c) \<Longrightarrow> P (core3 (snd (apply_revert w r c)))"
  by (auto simp: apply_revert_def framing intro!: doc_changed_keeps split: prod.split sum.split)

lemma move_head_keeps:
  assumes "P (core3 c)" and "\<And>doc. dag_move (w_hash w) (c_dag c) (snd (f (c_dag c) doc))"
  shows "P (core3 (snd (move_head w n f c)))"
proof (cases "undoable_doc c")
  case (Some doc)
  obtain r dg where f: "f (c_dag c) doc = (r, dg)" by fastforce
  have "P (core3 (c\<lparr>c_dag := dg\<rparr>))" using hist_core [OF assms(1)] assms(2) [of doc] by (simp add: f framing)
  then show ?thesis using Some f by (simp add: move_head_def apply_revert_keeps split: sum.split)
qed (use assms in \<open>simp add: move_head_def\<close>)

lemma undo_redo_keeps: "P (core3 c) \<Longrightarrow> P (core3 (snd (undo_request w c)))" "P (core3 c) \<Longrightarrow> P (core3 (snd (redo_request w c)))"
  by (simp_all add: undo_request_def redo_request_def move_head_keeps history_undo history_redo)

lemma drop_run_keeps: "P (core3 c) \<Longrightarrow> P (core3 (snd (drop_run_request w run c)))"
proof -
  assume P: "P (core3 c)"
  have reverts: "P (core3 (fold (\<lambda>r d. snd (apply_revert w r d)) rs d))" if "P (core3 d)" for rs and d :: "('d, 's) core"
    using that by (induction rs arbitrary: d) (simp_all add: apply_revert_keeps)
  obtain r dg where f: "drop_run (c_dag c) run = (r, dg)" by fastforce
  have "P (core3 (c\<lparr>c_dag := dg\<rparr>))" using hist_core [OF P history_drop] by (metis f framing(1) snd_conv core3_updates(19))
  then show ?thesis
    using P reverts by (auto simp: drop_run_request_def Let_def f framing split: option.split drop_outcome.split)
qed

section \<open>Turns\<close>

lemma own_workspace_keeps: "P (core3 c) \<Longrightarrow> P (core3 (own_workspace user c))"
  using own by (auto simp: own_workspace_def core3_def get_workspace_def add_workspace_def ws_personal_def)

lemma activate_keeps: "P (core3 c) \<Longrightarrow> P (core3 (activate now cl c))"
proof -
  assume P: "P (core3 c)"
  have "core3 (snd (fresh_user_state now u c)) = core3 (own_workspace u c)" for u
    by (simp add: fresh_user_state_def Let_def framing)
  then show ?thesis
    using P own_workspace_keeps [of c "cl_user cl"] by (auto simp: activate_def case_prod_unfold Let_def framing split: option.split)
qed

lemma close_turn_keeps: "P (core3 c) \<Longrightarrow> P (core3 (close_turn w io i how c))"
  by (auto simp: close_turn_def Let_def framing intro!: activate_keeps split: option.split)

lemma send_to_model_keeps: "P (core3 c) \<Longrightarrow> P (core3 (send_to_model w io t c))"
  by (auto simp: send_to_model_def Let_def case_prod_unfold framing)

lemma ask_step_keeps: "P (core3 c) \<Longrightarrow> P (core3 (snd (ask_step w io i c)))"
  by (auto simp: ask_step_def framing intro!: close_turn_keeps send_to_model_keeps split: option.split)

lemma begin_step_keeps: "P (core3 c) \<Longrightarrow> P (core3 (snd (begin_step w io i c)))"
  by (auto simp: begin_step_def Let_def framing intro!: ask_step_keeps activate_keeps split: option.split)

lemma move_turn_keeps: "P (core3 c) \<Longrightarrow> P (core3 (move_turn w io t st c))"
  by (auto simp: move_turn_def Let_def framing intro!: begin_step_keeps activate_keeps)

lemma schedule_keeps: "P (core3 c) \<Longrightarrow> P (core3 (schedule w io c))"
  by (rule schedule_invariant [where I = "\<lambda>c. P (core3 c)"]) (simp_all add: move_turn_keeps)

lemma end_turn_keeps: "P (core3 c) \<Longrightarrow> P (core3 (end_turn w io i how c))"
  by (simp add: end_turn_def schedule_keeps close_turn_keeps)

lemma ask_the_model_keeps: "P (core3 c) \<Longrightarrow> P (core3 (ask_the_model w io i c))"
  by (simp add: ask_the_model_def settle_def schedule_keeps ask_step_keeps)

lemma queue_turn_keeps: "P (core3 c) \<Longrightarrow> P (core3 (queue_turn w io conv continuing c))"
  by (auto simp: queue_turn_def Let_def settle_def framing intro!: schedule_keeps begin_step_keeps)

lemma asked_keeps:
  "P (core3 c) \<Longrightarrow> P (core3 (snd (send_message w io named txt c)))" "P (core3 c) \<Longrightarrow> P (core3 (snd (continue_answer w io named c)))"
  by (auto simp: send_message_def continue_answer_def Let_def framing intro!: queue_turn_keeps split: sum.split)

lemma cancel_turn_keeps: "P (core3 c) \<Longrightarrow> P (core3 (cancel_turn w io named c))"
  by (auto simp: cancel_turn_def stop_turn_def framing intro!: end_turn_keeps split: option.split)

lemma forget_turn_keeps: "P (core3 c) \<Longrightarrow> P (core3 (forget_turn w io conv c))"
  by (auto simp: forget_turn_def framing intro!: end_turn_keeps split: option.split)

lemma resume_keeps: "P (core3 c) \<Longrightarrow> P (core3 (resume io turn tool params outcome c))"
  by (simp add: resume_def framing split: option.split)

lemma declined_keeps: "P (core3 c) \<Longrightarrow> P (core3 (declined w io turn tool c))"
  by (auto simp: declined_def framing intro!: end_turn_keeps split: option.split)

lemma end_stopped_keeps: "P (core3 c) \<Longrightarrow> P (core3 (end_stopped w io qs c))"
  by (induction qs arbitrary: c) (auto simp: end_turn_keeps)

lemma stop_on_leaving_keeps: "P (core3 c) \<Longrightarrow> P (core3 (stop_on_leaving w io workspace c))"
  by (auto simp: stop_on_leaving_def Let_def framing fold_framing intro!: end_stopped_keeps)

lemma attempted_keeps: "P (core3 c) \<Longrightarrow> P (core3 (attempted w io i shown thought block offered c))"
  by (auto simp: attempted_def Let_def framing intro!: ask_the_model_keeps end_turn_keeps split: option.split)

lemma finish_answer_keeps: "P (core3 c) \<Longrightarrow> P (core3 (finish_answer w io i txt full n se t c))"
  by (auto simp: finish_answer_def Let_def framing intro!: end_turn_keeps)

lemma replied_keeps: "P (core3 c) \<Longrightarrow> P (core3 (replied w io i se c))"
  by (auto simp: replied_def Let_def framing intro!: end_turn_keeps attempted_keeps finish_answer_keeps activate_keeps
      split: option.split model_reply.split)

lemma make_call_keeps: "P (core3 c) \<Longrightarrow> P (core3 (make_call w io t call c))"
  by (auto simp: make_call_def Let_def case_prod_unfold framing intro!: call_tool_keeps split: tool_outcome.split)

lemma go_on_keeps: "P (core3 c) \<Longrightarrow> P (core3 (go_on w io i c))"
  by (auto simp: go_on_def Let_def framing intro!: end_turn_keeps ask_the_model_keeps make_call_keeps activate_keeps split: option.split list.split)

lemma internal_keeps: "P (core3 c) \<Longrightarrow> P (core3 (handle_internal w io m c))"
  by (auto simp: handle_internal_def intro!: replied_keeps go_on_keeps split: internal.split)

section \<open>Requests\<close>

lemma approve_keeps: "P (core3 c) \<Longrightarrow> P (core3 (snd (approve w io i granted c)))"
  by (auto simp: approve_def Let_def case_prod_unfold framing intro!: declined_keeps resume_keeps call_tool_keeps split: option.split)

lemma delete_conversation_keeps: "P (core3 c) \<Longrightarrow> P (core3 (snd (delete_conversation_request w io i c)))"
  by (auto simp: delete_conversation_request_def Let_def framing intro!: forget_turn_keeps)

lemma enter_workspace_core3 [framing]: "core3 (snd (enter_workspace w io ws workspace reason c)) = core3 c"
  by (simp add: enter_workspace_def Let_def framing split: option.split bool.split)

lemma move_workspace_keeps: "P (core3 c) \<Longrightarrow> P (core3 (move_workspace w io ws workspace c))"
  by (simp add: move_workspace_def Let_def framing stop_on_leaving_keeps)

lemma select_workspace_keeps: "P (core3 c) \<Longrightarrow> P (core3 (snd (select_workspace w io workspace reason c)))"
proof (cases "get_workspace (c_access c) workspace")
  case (Some ws)
  assume P: "P (core3 c)"
  obtain r c1 where e: "enter_workspace w io ws workspace reason c = (r, c1)" by fastforce
  have "core3 c1 = core3 c" using enter_workspace_core3 [of io ws workspace reason c] by (simp add: e)
  then show ?thesis using P Some e by (simp add: select_workspace_def framing move_workspace_keeps split: sum.split)
qed (simp add: select_workspace_def)

lemma answer_keeps: "\<not> changes_workspaces r \<Longrightarrow> P (core3 c) \<Longrightarrow> P (core3 (snd (answer w io r c)))"
  by (cases r) (simp_all add: framing Let_def chat_response_def case_prod_unfold get_history_def asked_keeps cancel_turn_keeps
      delete_conversation_keeps approve_keeps call_tool_keeps produce_artifact_keeps write_doc_keeps doc_sync_keeps doc_sync_end_keeps
      undo_redo_keeps drop_run_keeps select_workspace_keeps)

lemma prepared_keeps: "P (core3 c) \<Longrightarrow> P (core3 (idle_tick io (activate now cl c)))"
  by (simp add: framing activate_keeps)

lemma handle_as_keeps: "\<not> changes_workspaces r \<Longrightarrow> P (core3 c) \<Longrightarrow> P (core3 (snd (handle_as w io cl r c)))"
proof -
  assume r: "\<not> changes_workspaces r" and P: "P (core3 c)"
  let ?c = "idle_tick io (activate (io_now io) cl c)"
  have c: "P (core3 ?c)" using prepared_keeps [OF P] .
  show ?thesis
  proof (cases "admin_only r")
    case (Some ev)
    obtain q c' where q: "require_admin w io ev ?c = (q, c')" by fastforce
    have "core3 c' = core3 ?c" using require_framing(3) [of w io ev ?c] by (simp add: q)
    then show ?thesis using c r Some q by (simp add: handle_as_def handle_inner_def Let_def answer_keeps split: sum.split)
  qed (use c r in \<open>simp add: handle_as_def handle_inner_def Let_def answer_keeps\<close>)
qed

end

section \<open>Requests about workspaces\<close>

locale core_changes = core_steps w P
  for w :: "('d, 'o, 's) world"
    and P :: "(string, (string, 's replica) table) table \<times> dag \<times> (string, workspace) table \<Rightarrow> bool" +
  assumes shared: "P (sy, dg, ws) \<Longrightarrow> P (sy, dg, ws')"
begin

lemma access_keeps: "P (core3 c) \<Longrightarrow> P (core3 (c\<lparr>c_access := ac\<rparr>))"
  using shared by (auto simp: core3_def)

lemma change_workspace_keeps: "P (core3 c) \<Longrightarrow> P (core3 (change_workspace i ws c))"
  by (auto simp: change_workspace_def persist_workspace_def framing intro!: access_keeps split: option.split)

lemma workspace_requests_keep:
  "P (core3 c) \<Longrightarrow> P (core3 (snd (create_workspace w io name c)))"
  "P (core3 c) \<Longrightarrow> P (core3 (snd (set_member_request w io workspace p l c)))"
  "P (core3 c) \<Longrightarrow> P (core3 (snd (remove_member_request w io workspace p c)))"
  "P (core3 c) \<Longrightarrow> P (core3 (snd (set_agent_writes_request w io workspace mode c)))"
  by (auto simp: create_workspace_def set_member_request_def remove_member_request_def set_agent_writes_request_def require_admin_def
      require_workspace_owner_def Let_def framing intro!: change_workspace_keeps access_keeps
      split: option.split prod.split bool.split)

lemma any_answer_keeps: "P (core3 c) \<Longrightarrow> P (core3 (snd (answer w io r c)))"
  by (cases "changes_workspaces r") (auto simp: answer_keeps workspace_requests_keep elim!: changes_workspaces.elims)

lemma any_request_keeps: "P (core3 c) \<Longrightarrow> P (core3 (snd (handle_as w io cl r c)))"
proof (cases "changes_workspaces r")
  case True
  assume P: "P (core3 c)"
  have "admin_only r = None" using True by (auto simp: admin_only_def elim!: changes_workspaces.elims)
  then show ?thesis by (simp add: handle_as_def handle_inner_def Let_def any_answer_keeps prepared_keeps P)
qed (rule handle_as_keeps)

lemma step_keeps: "core_step w c c' \<Longrightarrow> P (core3 c) \<Longrightarrow> P (core3 c')"
  by (erule core_stepE) (auto simp: any_request_keeps internal_keeps framing)

lemma run_keeps: "core_run w c0 c \<Longrightarrow> P (core3 c0) \<Longrightarrow> P (core3 c)"
  by (induction rule: core_run.induct) (auto intro: step_keeps)

end

section \<open>Replicas\<close>

definition few_replicas :: "(string, (string, 's replica) table) table \<Rightarrow> bool" where
  "few_replicas sy \<longleftrightarrow> (\<forall>doc rs. t_get sy doc = Some rs \<longrightarrow> hashed rs \<and> length rs \<le> max_replicas_per_doc)"

lemma length_h_put: "length (h_put k v t) = (if t_get t k = None then length t + 1 else length t)"
  by (induction t) (auto simp: h_put_def)

lemma length_t_del: "t_get t k \<noteq> None \<Longrightarrow> length (t_del k t) < length t"
  by (auto simp: t_del_def dest!: map_of_SomeD intro: length_filter_less)

lemma length_t_del_le: "length (t_del k t) \<le> length t"
  by (simp add: t_del_def)

lemma oldest_replica_some: "rs \<noteq> [] \<Longrightarrow> \<exists>n. oldest_replica rs = Some n \<and> t_get rs n \<noteq> None"
proof -
  assume "rs \<noteq> []"
  then have "sort_key (\<lambda>(n, r). rp_seen r) rs \<noteq> []" by (metis set_empty set_sort)
  then obtain n r rest where s: "sort_key (\<lambda>(n, r). rp_seen r) rs = (n, r) # rest" by (metis list.exhaust surj_pair)
  then have "(n, r) \<in> set rs" by (metis list.set_intros(1) set_sort)
  then show ?thesis using s by (force simp: oldest_replica_def map_of_eq_None_iff)
qed

lemma make_room_ok:
  assumes "hashed rs" and "length rs \<le> max_replicas_per_doc"
  shows "hashed (make_room rs) \<and> length (make_room rs) < max_replicas_per_doc"
proof (cases "max_replicas_per_doc \<le> length rs")
  case True
  then have "rs \<noteq> []" by (auto simp: max_replicas_per_doc_def)
  then obtain n where "oldest_replica rs = Some n" "t_get rs n \<noteq> None" using oldest_replica_some by blast
  then show ?thesis using assms True length_t_del [of rs n] by (simp add: make_room_def ht.ok_del)
qed (use assms in \<open>simp add: make_room_def\<close>)

lemma few_replicas_put: "few_replicas sy \<Longrightarrow> hashed rs \<Longrightarrow> length rs \<le> max_replicas_per_doc \<Longrightarrow> few_replicas (h_put doc rs sy)"
  by (simp add: few_replicas_def h_get_put)

lemma few_replicas_move: "sync_move sy sy' \<Longrightarrow> few_replicas sy \<Longrightarrow> few_replicas sy'"
proof (induction rule: sync_move.induct)
  case (replica_moved sy doc rs peer r r')
  then have "hashed rs \<and> length rs \<le> max_replicas_per_doc" by (auto simp: few_replicas_def)
  then show ?case using replica_moved by (intro few_replicas_put) (simp_all add: ht.ok_put length_h_put)
next
  case (replica_taken sy doc rs peer)
  then have "hashed rs \<and> length rs \<le> max_replicas_per_doc" by (auto simp: few_replicas_def)
  then show ?case using replica_taken length_t_del_le [of peer rs] by (intro few_replicas_put) (simp_all add: ht.ok_del)
next
  case (replica_heard sy doc peer r)
  let ?rs = "case t_get sy doc of Some rs \<Rightarrow> rs | None \<Rightarrow> []"
  have "hashed ?rs \<and> length ?rs \<le> max_replicas_per_doc" using replica_heard by (auto simp: few_replicas_def split: option.split)
  then have "hashed (make_room ?rs) \<and> length (make_room ?rs) < max_replicas_per_doc" using make_room_ok by blast
  then show ?case using replica_heard by (intro few_replicas_put) (simp_all add: ht.ok_put length_h_put)
next
  case (replicas_gone sy doc)
  then show ?case by (auto simp: few_replicas_def t_get_del)
qed

interpretation replicas: core_changes w "\<lambda>x. few_replicas (fst x)" for w
  by unfold_locales (auto intro: few_replicas_move)

section \<open>History\<close>

text \<open>A history whose log is in order, that files its blobs under their hash, and of whose blobs no other bytes have the hash.\<close>

definition sound_store :: "(string \<Rightarrow> string) \<Rightarrow> dag \<Rightarrow> bool" where
  "sound_store hash dg \<longleftrightarrow> ordered (order dg) \<and> (\<forall>h b. get_blob dg h = Some b \<longrightarrow> h = hash b \<and> (\<forall>b'. hash b' = hash b \<longrightarrow> b' = b))"

text \<open>Whatever the one held is in the other, blobs byte for byte, and the log of the other begins with the log of the one.\<close>

definition holds_all :: "dag \<Rightarrow> dag \<Rightarrow> bool" where
  "holds_all old dg \<longleftrightarrow> ordered (order dg) \<and> (\<exists>more. order dg = order old @ more) \<and>
     (\<forall>h b. get_blob old h = Some b \<longrightarrow> get_blob dg h = Some b) \<and> (\<forall>i. get_commit old i \<noteq> None \<longrightarrow> get_commit dg i \<noteq> None)"

lemma drop_docs_frame: "drop_docs st run in_run ds = Some (rs, st') \<Longrightarrow> commits st' = commits st \<and> blobs st' = blobs st \<and> order st' = order st"
proof (induction ds arbitrary: st rs st')
  case (Cons d ds)
  then show ?case by (fastforce simp: drop_doc_def Let_def split: option.splits)
qed simp

lemma heads_only:
  "commits (snd (undo st doc)) = commits st" "blobs (snd (undo st doc)) = blobs st" "order (snd (undo st doc)) = order st"
  "commits (snd (redo st doc)) = commits st" "blobs (snd (redo st doc)) = blobs st" "order (snd (redo st doc)) = order st"
  "commits (snd (drop_run st run)) = commits st" "blobs (snd (drop_run st run)) = blobs st" "order (snd (drop_run st run)) = order st"
  using drop_docs_frame [of st run]
  by (auto simp: undo_def redo_def drop_run_def Let_def split: option.split sum.split)

lemma holds_all_move:
  assumes "dag_move hash dg dg'" and "sound_store hash old" and "holds_all old dg"
  shows "holds_all old dg'"
  using assms
proof (induction rule: dag_move.induct)
  case (history_commit st doc harness tool params bytes summary author run now now')
  obtain k st' where c: "dag_commit hash st doc harness tool params bytes summary author run now now' = (k, st')" by fastforce
  have st: "ordered (order st)" "\<exists>more. order st = order old @ more" using history_commit(2) by (simp_all add: holds_all_def)
  have "order st' = order st @ [(next_slot st, c_id k)]"
    unfolding commit_effect(5) [OF c] by (rule t_put_last) (use next_slot_above [OF st(1)] in \<open>auto simp: keys_def\<close>)
  moreover have "ordered (order st')" unfolding commit_effect(5) [OF c] by (rule ordered_t_put [OF st(1)])
  moreover have "get_blob st' h = Some b" if "get_blob old h = Some b" for h b
    using that history_commit commit_effect(4) [OF c] by (auto simp: sound_store_def holds_all_def)
  moreover have "get_commit st' i \<noteq> None" if "get_commit old i \<noteq> None" for i
    using that history_commit(2) commit_effect(3) [OF c] by (auto simp: holds_all_def)
  ultimately show ?case using st(2) by (auto simp: c holds_all_def)
qed (simp_all add: holds_all_def get_blob_def get_commit_def heads_only)

interpretation hist: core_changes w "\<lambda>x. sound_store (w_hash w) old \<longrightarrow> holds_all old (fst (snd x))" for w old
  by unfold_locales (auto intro: holds_all_move)

section \<open>Workspaces\<close>

definition same_workspaces :: "(string, workspace) table \<Rightarrow> (string, workspace) table \<Rightarrow> bool" where
  "same_workspaces old ws \<longleftrightarrow> (\<forall>i x. t_get old i = Some x \<longrightarrow> t_get ws i = Some x)"

interpretation places: core_steps w "\<lambda>x. same_workspaces old (snd (snd x))" for w old
  by unfold_locales (auto simp: same_workspaces_def h_get_put)

lemma same_workspaces_get: "same_workspaces (workspaces (c_access c)) (workspaces (c_access c')) \<Longrightarrow>
    get_workspace (c_access c) i = Some x \<Longrightarrow> get_workspace (c_access c') i = Some x"
  by (simp add: same_workspaces_def get_workspace_def)

text \<open>An owner's request gets past the question of who asks only for a shared workspace, from its owner or an administrator.\<close>

definition may_manage :: "workspace \<Rightarrow> caller \<Rightarrow> bool" where
  "may_manage ws cl \<longleftrightarrow> personal_to ws = None \<and>
     (level_of ws \<lparr>i_user = cl_user cl, i_groups = cl_groups cl, i_break_glass = None\<rparr> = Some Owner \<or> cl_is_admin cl)"

lemma level_of_core: "level_of ws (core_identity c) = level_of ws \<lparr>i_user = cl_user (c_active c), i_groups = cl_groups (c_active c), i_break_glass = None\<rparr>"
proof -
  have "id_matches (core_identity c) p = id_matches \<lparr>i_user = cl_user (c_active c), i_groups = cl_groups (c_active c), i_break_glass = None\<rparr> p" for p
    by (cases p) (simp_all add: core_identity_def)
  then show ?thesis by (simp add: level_of_def level_for_def)
qed

lemma owner_passed:
  assumes "require_workspace_owner w io j ev c = (Inr (), c')"
  shows "c' = c \<and> (\<exists>ws. get_workspace (c_access c) j = Some ws \<and> may_manage ws (c_active c))"
  using assms unfolding may_manage_def level_of_core [symmetric]
  by (auto simp: require_workspace_owner_def split: option.splits if_splits)

lemma owner_refused:
  "require_workspace_owner w io j ev c = (Inl r, c') \<Longrightarrow> get_workspace (c_access c') i = get_workspace (c_access c) i"
  by (auto simp: require_workspace_owner_def audit_in_def split: option.splits if_splits)

lemma changed_workspace:
  "get_workspace (c_access (audit_in w io sc ev d r c)) i = get_workspace (c_access c) i"
  "get_workspace (c_access (change_workspace j ws c)) i = (if i = j then Some ws else get_workspace (c_access c) i)"
  by (auto simp: audit_in_def change_workspace_def persist_workspace_def get_workspace_def h_get_put split: option.split)

lemma member_request_changes:
  assumes "r = SetMember j p l \<or> r = RemoveMember j p \<or> r = SetAgentWrites j mode"
    and "get_workspace (c_access (snd (answer w io r c))) i \<noteq> get_workspace (c_access c) i"
  shows "i = j \<and> (\<exists>ws. get_workspace (c_access c) j = Some ws \<and> may_manage ws (c_active c))"
proof -
  let ?ev = "if \<exists>mode. r = SetAgentWrites j mode then ''workspace.agent_writes'' else ''workspace.member''"
  obtain q c' where q: "require_workspace_owner w io j ?ev c = (q, c')" by fastforce
  show ?thesis
  proof (cases q)
    case (Inl refused)
    then show ?thesis using assms q owner_refused [of w io j ?ev c refused c' i]
      by (auto simp: set_member_request_def remove_member_request_def set_agent_writes_request_def)
  next
    case (Inr u)
    then have "c' = c \<and> (\<exists>ws. get_workspace (c_access c) j = Some ws \<and> may_manage ws (c_active c))" using owner_passed [of w io j ?ev c c'] q by (cases u) simp
    then show ?thesis using assms q Inr
      by (auto simp: set_member_request_def remove_member_request_def set_agent_writes_request_def Let_def changed_workspace
          split: if_splits option.splits bool.splits prod.splits)
  qed
qed

lemma create_changes:
  assumes "get_workspace (c_access (snd (create_workspace w io name c))) i \<noteq> get_workspace (c_access c) i"
  shows "cl_is_admin (c_active c) \<and> i = ''ws_'' @ io_ws_id io"
  using assms by (auto simp: create_workspace_def require_admin_def audit_doc_def changed_workspace Let_def get_workspace_def add_workspace_def
      h_get_put ws_shared_by_def audit_in_def split: if_splits)

lemma prepared_workspaces: "get_workspace (c_access c) i = Some ws \<Longrightarrow> get_workspace (c_access (idle_tick io (activate now cl c))) i = Some ws"
  using places.prepared_keeps [of "workspaces (c_access c)" c io now cl]
  by (simp add: core3_def same_workspaces_def get_workspace_def)

lemma request_changes:
  assumes "get_workspace (c_access c) i = Some ws" and "get_workspace (c_access (snd (handle_as w io cl r c))) i \<noteq> Some ws"
  shows "(\<exists>p l mode. r \<in> {SetMember i p l, RemoveMember i p, SetAgentWrites i mode}) \<and> may_manage ws cl
    \<or> (\<exists>name. r = CreateWorkspace name) \<and> cl_is_admin cl \<and> i = ''ws_'' @ io_ws_id io"
proof -
  let ?c = "idle_tick io (activate (io_now io) cl c)"
  have c: "get_workspace (c_access ?c) i = Some ws" using prepared_workspaces [OF assms(1)] .
  have active: "c_active ?c = cl" using frameD(4) [OF idle_tick_framing(1) [of io "activate (io_now io) cl c"]] by (simp add: activate_same)
  have "changes_workspaces r"
    using assms places.handle_as_keeps [of r "workspaces (c_access c)" c w io cl] by (auto simp: core3_def same_workspaces_def get_workspace_def)
  moreover from this have "handle_as w io cl r c = answer w io r ?c"
    by (auto simp: handle_as_def handle_inner_def admin_only_def Let_def elim!: changes_workspaces.elims)
  ultimately consider (create) name where "r = CreateWorkspace name" "get_workspace (c_access (snd (create_workspace w io name ?c))) i \<noteq> Some ws"
    | (member) j p l mode where "r = SetMember j p l \<or> r = RemoveMember j p \<or> r = SetAgentWrites j mode"
        "get_workspace (c_access (snd (answer w io r ?c))) i \<noteq> Some ws"
    using assms(2) by (auto elim!: changes_workspaces.elims)
  then show ?thesis
  proof cases
    case create
    then show ?thesis using create_changes [of w io name ?c i] c active by simp
  next
    case member
    then have "i = j \<and> (\<exists>ws. get_workspace (c_access ?c) j = Some ws \<and> may_manage ws (c_active ?c))"
      using member_request_changes [of r j p l mode w io ?c i] c by simp
    then show ?thesis using member(1) c active by auto
  qed
qed

text \<open>
  (C6) Who may change a workspace.  Whatever happens to Core, a workspace that exists stays as it is, unless a person asked to set
  or remove one of its members or its mode, it is nobody's personal workspace, and the person is its owner or an administrator;
  or an administrator makes a workspace under an identifier that was taken.
\<close>

theorem workspace_change_authorised:
  assumes "core_step w c c'" and "get_workspace (c_access c) i = Some ws" and "get_workspace (c_access c') i \<noteq> Some ws"
  shows "\<exists>io cl r. c' = snd (handle_as w io cl r c) \<and> \<not> cl_is_system cl \<and>
    ((\<exists>p l mode. r \<in> {SetMember i p l, RemoveMember i p, SetAgentWrites i mode}) \<and> may_manage ws cl
     \<or> (\<exists>name. r = CreateWorkspace name) \<and> cl_is_admin cl \<and> i = ''ws_'' @ io_ws_id io)"
  using assms(1)
proof (cases rule: core_step.cases)
  case (step_request cl io r)
  then show ?thesis using request_changes [OF assms(2), of w io cl r] assms(3) by blast
next
  case (step_message m io)
  then show ?thesis using assms(2,3) places.internal_keeps [of "workspaces (c_access c)" "c\<lparr>c_posted := remove1 m (c_posted c)\<rparr>" w io m]
    by (simp add: core3_def same_workspaces_def get_workspace_def)
next
  case (step_reply k io se)
  then show ?thesis using assms(2,3) places.internal_keeps [of "workspaces (c_access c)" "c\<lparr>c_asked := remove1 k (c_asked c)\<rparr>" w io "Replied k se"]
    by (simp add: core3_def same_workspaces_def get_workspace_def)
next
  case (step_idle io)
  then show ?thesis using assms(2,3) frameD(9) [OF idle_tick_framing(1) [of io c]] by (simp add: get_workspace_def)
qed

lemma example_set_member:
  "get_workspace (c_access (snd (handle_as example_world example_io (caller_local ''ann'') (SetMember ''ws_team'' (User ''eve'') Edit) example_core))) ''ws_team''
     = Some (set_member (ws_shared_by ''ws_team'' ''Team'' ''bob'' 1) (User ''eve'') Edit)"
proof -
  have "require_workspace_owner example_world example_io ''ws_team'' ''workspace.member'' example_core = (Inr (), example_core)"
    by (simp add: require_workspace_owner_def example_workspaces ws_shared_by_def cl_is_admin_def caller_local_def)
  then show ?thesis
    by (simp add: handle_as_def handle_inner_def admin_only_def set_member_request_def example_workspaces Let_def changed_workspace)
qed

theorem workspace_change_authorised_witness:
  "\<exists>cl. may_manage (ws_shared_by ''ws_team'' ''Team'' ''bob'' 1) cl"
proof -
  let ?r = "SetMember ''ws_team'' (User ''eve'') Edit"
  have step: "core_step example_world example_core (snd (handle_as example_world example_io (caller_local ''ann'') ?r example_core))"
    by (rule step_request) (simp add: cl_is_system_def caller_local_def caller_system_def)
  have "set_member (ws_shared_by ''ws_team'' ''Team'' ''bob'' 1) (User ''eve'') Edit \<noteq> ws_shared_by ''ws_team'' ''Team'' ''bob'' 1"
    by (simp add: set_member_def ws_shared_by_def owned_by_def)
  moreover have "may_manage (ws_shared_by ''ws_team'' ''Team'' ''bob'' 1) cl" if "cl_is_admin cl" for cl
    using that by (simp add: may_manage_def ws_shared_by_def)
  ultimately show ?thesis
    using workspace_change_authorised [OF step, of "''ws_team''"] example_set_member by (fastforce simp: example_workspaces)
qed

definition replicas_of :: "('d, 's) core \<Rightarrow> string \<Rightarrow> (string, 's replica) table" where
  "replicas_of c doc = (case t_get (c_sync c) doc of Some rs \<Rightarrow> rs | None \<Rightarrow> [])"

text \<open>(C8) However long Core runs, it keeps at most 32 replicas of a document, one for each peer.\<close>

theorem replicas_bounded:
  assumes "core_run w c0 c" and "c_sync c0 = []"
  shows "length (replicas_of c doc) \<le> max_replicas_per_doc \<and> distinct (keys (replicas_of c doc))"
proof -
  have "few_replicas (fst (core3 c))" by (rule replicas.run_keeps [OF assms(1)]) (simp add: core3_def few_replicas_def assms(2))
  then show ?thesis by (auto simp: replicas_of_def few_replicas_def core3_def hashed_def keys_def split: option.split)
qed

theorem replicas_bounded_witness:
  "length (replicas_of (idle_tick example_io (snd (handle_as example_world example_io (caller_local ''ann'') (DocSync ''d0'' ''tab'' ''hello'') example_core))) ''d0'')
     \<le> max_replicas_per_doc"
proof -
  have "core_run example_world example_core (idle_tick example_io
      (snd (handle_as example_world example_io (caller_local ''ann'') (DocSync ''d0'' ''tab'' ''hello'') example_core)))"
    by (rule run_step [OF run_step [OF run_start step_request] step_idle]) (simp add: cl_is_system_def caller_local_def caller_system_def)
  then show ?thesis using replicas_bounded [of example_world example_core] by simp
qed

text \<open>
  (C7) Nothing of the history is lost.  However long Core runs, by calls, undo, redo, dropped runs and imported changes, every blob is
  there byte for byte, every commit can be found, and the log has only grown at its end.  The log was in order, the blobs were
  filed under their hash, and no other bytes have the hash of one of them.
\<close>

theorem history_never_lost:
  assumes "core_run w c0 c" and "sound_store (w_hash w) (c_dag c0)"
  shows "(\<forall>h b. get_blob (c_dag c0) h = Some b \<longrightarrow> get_blob (c_dag c) h = Some b) \<and>
    (\<forall>i. get_commit (c_dag c0) i \<noteq> None \<longrightarrow> get_commit (c_dag c) i \<noteq> None) \<and> (\<exists>more. order (c_dag c) = order (c_dag c0) @ more)"
proof -
  have "sound_store (w_hash w) (c_dag c0) \<longrightarrow> holds_all (c_dag c0) (fst (snd (core3 c)))"
    by (rule hist.run_keeps [OF assms(1)]) (simp add: core3_def holds_all_def sound_store_def)
  then show ?thesis using assms(2) by (auto simp: holds_all_def core3_def)
qed

theorem history_never_lost_witness:
  "let c = snd (handle_as example_world example_io (caller_local ''ann'') Undo (example_core\<lparr>c_dag := demo_two\<rparr>))
   in get_blob (c_dag c) ''two'' = Some ''two'' \<and> get_commit (c_dag c) ''cwbaddtwoSome'' \<noteq> None"
proof -
  let ?c = "example_core\<lparr>c_dag := demo_two\<rparr>"
  have run: "core_run example_world ?c (snd (handle_as example_world example_io (caller_local ''ann'') Undo ?c))"
    by (rule run_step [OF run_start step_request]) (simp add: cl_is_system_def caller_local_def caller_system_def)
  have "blobs demo_two = [(''one'', ''one''), (''two'', ''two'')]" "map fst (order demo_two) = [0, 1]" by code_simp+
  then have "sound_store (w_hash example_world) demo_two"
    by (auto simp: sound_store_def example_world_def get_blob_def ordered_def keys_def split: if_splits)
  moreover have "get_blob demo_two ''two'' = Some ''two''" "get_commit demo_two ''cwbaddtwoSome'' \<noteq> None" by code_simp+
  ultimately show ?thesis using history_never_lost [OF run] by simp
qed

end
