(* ===== verification/TurnOrder.thy ===== *)
theory TurnOrder
  imports CoreSteps
begin

text \<open>
  The order of answers: whatever is asked and whatever comes back, one answer at a time is written for a person, and after
  each step whoever may start has started, save where an approval frees the model.
\<close>

section \<open>The invariant\<close>

text \<open>Of two turns of one person the later one waits.\<close>

definition in_line :: "turn \<Rightarrow> turn \<Rightarrow> bool" where
  "in_line a b \<longleftrightarrow> cl_user (tn_caller a) = cl_user (tn_caller b) \<longrightarrow> waiting b"

definition turns_inv :: "turn list \<Rightarrow> nat \<Rightarrow> bool" where
  "turns_inv ts n \<longleftrightarrow> distinct (map tn_id ts) \<and> (\<forall>t \<in> set ts. tn_id t < n) \<and> sorted_wrt in_line ts"

text \<open>The turns a held call, the call at work, a posted message or a reading of the model is of have left the queue.\<close>

definition left_queue :: "turn list \<Rightarrow> nat \<Rightarrow> nat \<Rightarrow> bool" where
  "left_queue ts n i \<longleftrightarrow> i < n \<and> (\<forall>t \<in> set ts. tn_id t = i \<longrightarrow> \<not> waiting t)"

definition calls_of :: "(string, pending_call) table \<Rightarrow> nat set" where
  "calls_of ps = {i. \<exists>k p. (k, p) \<in> set ps \<and> pc_turn p = Some i}"

fun message_turn :: "internal \<Rightarrow> nat" where
  "message_turn (Replied i _) = i"
| "message_turn (GoOn i) = i"

definition referred :: "('d, 's) core \<Rightarrow> nat set" where
  "referred c = calls_of (held_calls c) \<union> (\<Union>u \<in> snd ` set (c_users c). calls_of (us_pending u))
     \<union> set_option (c_turn_at_work c) \<union> message_turn ` set (c_posted c) \<union> set (c_asked c)"

definition turns_ok :: "('d, 's) core \<Rightarrow> bool" where
  "turns_ok c \<longleftrightarrow> turns_inv (c_turns c) (c_next_turn c) \<and> (\<forall>i \<in> referred c. left_queue (c_turns c) (c_next_turn c) i)"

lemma turns_okI:
  assumes "turns_inv (c_turns c) (c_next_turn c)" and "\<And>i. i \<in> referred c \<Longrightarrow> left_queue (c_turns c) (c_next_turn c) i"
  shows "turns_ok c"
  using assms by (simp add: turns_ok_def)

lemma turns_okD:
  assumes "turns_ok c"
  shows "turns_inv (c_turns c) (c_next_turn c)" "distinct (map tn_id (c_turns c))" "i \<in> referred c \<Longrightarrow> left_queue (c_turns c) (c_next_turn c) i"
  using assms by (simp_all add: turns_ok_def turns_inv_def)

lemma turns_ok_held_more:
  assumes "turns_ok c" and f: "frame c' = frame c" and h: "held_more c c'"
  shows "turns_ok c'"
proof -
  have "calls_of (held_calls c') \<subseteq> calls_of (held_calls c) \<union> set_option (c_turn_at_work c)"
    using h by (fastforce simp: held_more_def calls_of_def)
  then have "referred c' \<subseteq> referred c" by (auto simp: referred_def frameD [OF f])
  then show ?thesis using assms(1) by (auto simp: turns_ok_def frameD [OF f])
qed

lemma turns_ok_frame:
  assumes "turns_ok c" and "frame c' = frame c" and "held_calls c' = held_calls c"
  shows "turns_ok c'"
proof -
  have "calls_of (held_calls c') \<subseteq> calls_of (held_calls c)" using assms(3) by simp
  then have "referred c' \<subseteq> referred c" using assms(3) by (simp add: referred_def frameD [OF assms(2)])
  then show ?thesis using assms(1) by (auto simp: turns_ok_def frameD [OF assms(2)])
qed

text \<open>What the order of the turns depends on: who they are, whose, and whether they wait.\<close>

definition turn_key :: "turn \<Rightarrow> nat \<times> string \<times> bool" where
  "turn_key t = (tn_id t, cl_user (tn_caller t), waiting t)"

lemma turns_inv_keys:
  "turns_inv ts n \<longleftrightarrow> distinct (map fst (map turn_key ts)) \<and> (\<forall>k \<in> set (map turn_key ts). fst k < n) \<and>
     sorted_wrt (\<lambda>a b. fst (snd a) = fst (snd b) \<longrightarrow> snd (snd b)) (map turn_key ts)"
  by (simp add: turns_inv_def sorted_wrt_map turn_key_def in_line_def [abs_def] comp_def)

lemma left_queue_keys:
  "left_queue ts n i \<longleftrightarrow> i < n \<and> (\<forall>k \<in> set (map turn_key ts). fst k = i \<longrightarrow> \<not> snd (snd k))"
  by (simp add: left_queue_def turn_key_def)

lemma turns_inv_map: "turns_inv ts n \<Longrightarrow> map turn_key ts' = map turn_key ts \<Longrightarrow> turns_inv ts' n"
  by (simp add: turns_inv_keys)

lemma left_queue_map: "left_queue ts n i \<Longrightarrow> map turn_key ts' = map turn_key ts \<Longrightarrow> left_queue ts' n i"
  by (simp add: left_queue_keys)

lemma remove_first_set: "set (remove_first p xs) \<subseteq> set xs"
  by (induction xs) auto

lemma remove_first_sorted: "sorted_wrt r xs \<Longrightarrow> sorted_wrt r (remove_first p xs)"
  using remove_first_set by (induction xs) (fastforce)+

lemma remove_first_distinct: "distinct (map f xs) \<Longrightarrow> distinct (map f (remove_first p xs))"
  using remove_first_set by (induction xs) fastforce+

lemma turns_inv_remove: "turns_inv ts n \<Longrightarrow> turns_inv (remove_first p ts) n"
  by (auto simp: turns_inv_def remove_first_sorted remove_first_distinct dest: subsetD [OF remove_first_set])

lemma left_queue_remove: "left_queue ts n i \<Longrightarrow> left_queue (remove_first p ts) n i"
  by (auto simp: left_queue_def dest: subsetD [OF remove_first_set])

text \<open>Who leaves the queue is the first of its person.\<close>

lemma turns_inv_start:
  assumes inv: "turns_inv ts n" and i: "i < length ts" and first: "\<forall>j < i. cl_user (tn_caller (ts ! j)) \<noteq> cl_user (tn_caller (ts ! i))"
  shows "turns_inv (ts[i := (ts ! i)\<lparr>tn_state := Writing\<rparr>]) n"
proof -
  let ?ts = "ts[i := (ts ! i)\<lparr>tn_state := Writing\<rparr>]"
  have ids: "map tn_id ?ts = map tn_id ts" using i by (simp add: map_update list_update_same_conv)
  have u: "cl_user (tn_caller (?ts ! k)) = cl_user (tn_caller (ts ! k))" if "k < length ts" for k
    using that i by (simp add: nth_list_update)
  have "in_line (?ts ! a) (?ts ! b)" if ab: "a < b" "b < length ts" for a b
  proof (cases "b = i")
    case True
    then show ?thesis using first ab u [of a] u [of b] by (simp add: in_line_def)
  next
    case False
    have "in_line (ts ! a) (ts ! b)" using inv ab by (simp add: turns_inv_def sorted_wrt_iff_nth_less)
    then show ?thesis using False u [of a] ab by (simp add: in_line_def)
  qed
  moreover have "\<forall>t \<in> set ?ts. tn_id t < n"
  proof -
    have "\<forall>x \<in> set (map tn_id ts). x < n" using inv by (simp add: turns_inv_def)
    then show ?thesis unfolding ids [symmetric] by simp
  qed
  ultimately show ?thesis using inv by (simp add: turns_inv_def sorted_wrt_iff_nth_less ids)
qed

lemma left_queue_start: "left_queue ts n k \<Longrightarrow> left_queue (ts[i := (ts ! i)\<lparr>tn_state := Writing\<rparr>]) n k"
  by (cases "i < length ts") (auto simp: left_queue_def waiting_def dest!: subsetD [OF set_update_subset_insert])

lemma turns_inv_append:
  assumes "turns_inv ts n" and "tn_id t = n" and "\<forall>s \<in> set ts. cl_user (tn_caller s) = cl_user (tn_caller t) \<longrightarrow> waiting t"
  shows "turns_inv (ts @ [t]) (n + 1)"
  using assms by (auto simp: turns_inv_def in_line_def sorted_wrt_append less_Suc_eq)

lemma left_queue_append: "left_queue ts n i \<Longrightarrow> tn_id t = n \<Longrightarrow> left_queue (ts @ [t]) (n + 1) i"
  by (auto simp: left_queue_def)

section \<open>Steps on Core\<close>

text \<open>The invariant is one of the projection and the held calls: what leaves both alone keeps it by rewriting.\<close>

definition out :: "('d, 's) core \<Rightarrow> nat \<Rightarrow> bool" where
  "out c i \<longleftrightarrow> left_queue (c_turns c) (c_next_turn c) i"

fun okf :: "(string, workspace) table \<times> turn list \<times> nat \<times> nat option \<times> caller \<times>
    (string, user_state) table \<times> string \<times> break_glass option \<times> internal list \<times> nat list \<Rightarrow> (string, pending_call) table \<Rightarrow> bool" where
  "okf (wss, ts, n, tw, cl, us, ws, bg, ps, ks) calls \<longleftrightarrow> turns_inv ts n \<and>
     (\<forall>i \<in> calls_of calls \<union> (\<Union>u \<in> snd ` set us. calls_of (us_pending u)) \<union> set_option tw \<union> message_turn ` set ps \<union> set ks. left_queue ts n i)"

fun outf :: "(string, workspace) table \<times> turn list \<times> nat \<times> nat option \<times> caller \<times>
    (string, user_state) table \<times> string \<times> break_glass option \<times> internal list \<times> nat list \<Rightarrow> nat \<Rightarrow> bool" where
  "outf (wss, ts, n, rest) i \<longleftrightarrow> left_queue ts n i"

lemma turns_ok_okf: "turns_ok c \<longleftrightarrow> okf (frame c) (held_calls c)"
  by (simp add: turns_ok_def referred_def frame_def)

lemma out_outf: "out c i \<longleftrightarrow> outf (frame c) i"
  by (simp add: out_def frame_def)

lemma turns_ok_same [simp]:
  "turns_ok (emit ev c) = turns_ok c" "turns_ok (emit_all ev c) = turns_ok c" "turns_ok (trace l c) = turns_ok c"
  "turns_ok (notice lv l c) = turns_ok c" "turns_ok (emit_environment c) = turns_ok c" "turns_ok (broadcast_environment c) = turns_ok c"
  "turns_ok (audit_in w io sc e d r c) = turns_ok c" "turns_ok (audit_doc w io doc e d r c) = turns_ok c"
  "turns_ok (on_chats f c) = turns_ok c" "turns_ok (set_task t c) = turns_ok c" "turns_ok (emit_task c) = turns_ok c"
  "turns_ok (record_conversation now c) = turns_ok c" "turns_ok (write_chat now u ws cv ch c) = turns_ok c"
  "turns_ok (finish_run w c) = turns_ok c" "turns_ok (task_progress tool outcome c) = turns_ok c"
  "turns_ok (snd (context_blocks w io c)) = turns_ok c"
  by (simp_all add: turns_ok_okf framing)

lemma out_same [simp]:
  "out (emit ev c) i = out c i" "out (emit_all ev c) i = out c i" "out (trace l c) i = out c i"
  "out (notice lv l c) i = out c i" "out (emit_environment c) i = out c i" "out (broadcast_environment c) i = out c i"
  "out (audit_in w io sc e d r c) i = out c i" "out (audit_doc w io doc e d r c) i = out c i"
  "out (on_chats f c) i = out c i" "out (set_task t c) i = out c i" "out (emit_task c) i = out c i"
  "out (record_conversation now c) i = out c i" "out (write_chat now u ws cv ch c) i = out c i"
  "out (finish_run w c) i = out c i" "out (task_progress tool outcome c) i = out c i"
  "out (snd (context_blocks w io c)) i = out c i"
  by (simp_all add: out_outf framing)

lemma turns_ok_less:
  assumes "turns_ok c" and "c_turns c' = c_turns c" and "c_next_turn c' = c_next_turn c" and "referred c' \<subseteq> referred c"
  shows "turns_ok c'"
  using assms by (auto simp: turns_ok_def)

lemma out_referred: "turns_ok c \<Longrightarrow> i \<in> referred c \<Longrightarrow> out c i"
  by (simp add: turns_ok_def out_def)

lemma turns_ok_keys:
  assumes "turns_ok c" and "map turn_key ts = map turn_key (c_turns c)"
  shows "turns_ok (c\<lparr>c_turns := ts\<rparr>)" "out (c\<lparr>c_turns := ts\<rparr>) i \<longleftrightarrow> out c i"
proof -
  have r: "referred (c\<lparr>c_turns := ts\<rparr>) = referred c" by (simp add: referred_def framing)
  show "turns_ok (c\<lparr>c_turns := ts\<rparr>)"
    using assms turns_inv_map [OF _ assms(2)] left_queue_map [OF _ assms(2)] by (simp add: turns_ok_def r)
  show "out (c\<lparr>c_turns := ts\<rparr>) i \<longleftrightarrow> out c i" using assms(2) by (simp add: out_def left_queue_keys)
qed

lemma alter_first_map_on: "(\<And>x. x \<in> set xs \<Longrightarrow> p x \<Longrightarrow> f (g x) = f x) \<Longrightarrow> map f (alter_first p g xs) = map f xs"
  by (induction xs) auto

lemma alter_turn_ok:
  assumes "turns_ok c" and "\<And>t. t \<in> set (c_turns c) \<Longrightarrow> tn_id t = i \<Longrightarrow> turn_key (f t) = turn_key t"
  shows "turns_ok (alter_turn i f c)" "out (alter_turn i f c) k \<longleftrightarrow> out c k"
  using turns_ok_keys [OF assms(1), of "alter_first (\<lambda>t. tn_id t = i) f (c_turns c)"]
    alter_first_map_on [of "c_turns c" "\<lambda>t. tn_id t = i" turn_key f, OF assms(2)]
  by (simp_all add: alter_turn_def)

lemma calls_of_Nil [simp]: "calls_of [] = {}"
  by (simp add: calls_of_def)

lemma calls_of_mono: "set ps \<subseteq> set qs \<Longrightarrow> calls_of ps \<subseteq> calls_of qs"
  by (fastforce simp: calls_of_def)

lemma set_t_del: "set (t_del k t) \<subseteq> set t"
  by (auto simp: t_del_def)

lemma t_get_in: "t_get t k = Some v \<Longrightarrow> (k, v) \<in> set t"
  by (rule map_of_SomeD)

lemma referred_activate: "referred (activate now cl c) \<subseteq> referred c"
proof (cases "cl_user (c_active c) = cl_user cl")
  case False
  have calls: "calls_of (held_calls c) = calls_of (us_pending (c_us c))" by (simp add: held_calls_def)
  show ?thesis
  proof (cases "t_get (c_users c) (cl_user cl)")
    case None
    let ?us = "h_put (cl_user (c_active c)) (c_us c) (c_users c)"
    have "(\<Union>u \<in> snd ` set ?us. calls_of (us_pending u)) \<subseteq> calls_of (us_pending (c_us c)) \<union> (\<Union>u \<in> snd ` set (c_users c). calls_of (us_pending u))"
      using set_h_put [of "cl_user (c_active c)" "c_us c" "c_users c"] by force
    moreover have "c_us (activate now cl c) = fst (fresh_user_state now (cl_user cl) c)" "c_users (activate now cl c) = ?us"
      using False None fresh_user_frame [of now "cl_user cl" c] by (simp_all add: activate_def case_prod_unfold Let_def)
    ultimately show ?thesis
      unfolding referred_def activate_same held_calls_def by (simp add: fresh_user_frame) blast
  next
    case (Some u)
    let ?us = "h_put (cl_user (c_active c)) (c_us c) (t_del (cl_user cl) (c_users c))"
    have "set ?us \<subseteq> insert (cl_user (c_active c), c_us c) (set (c_users c))"
      using set_h_put [of "cl_user (c_active c)" "c_us c" "t_del (cl_user cl) (c_users c)"] set_t_del [of "cl_user cl" "c_users c"] by blast
    then have "(\<Union>u \<in> snd ` set ?us. calls_of (us_pending u)) \<subseteq> calls_of (us_pending (c_us c)) \<union> (\<Union>u \<in> snd ` set (c_users c). calls_of (us_pending u))"
      by force
    moreover have "calls_of (us_pending u) \<subseteq> (\<Union>u \<in> snd ` set (c_users c). calls_of (us_pending u))" using t_get_in [OF Some] by force
    moreover have "c_us (activate now cl c) = u" "c_users (activate now cl c) = ?us"
      using False Some by (simp_all add: activate_def)
    ultimately show ?thesis unfolding referred_def activate_same held_calls_def by auto
  qed
qed (simp add: activate_def referred_def held_calls_def)

lemma activate_ok: "turns_ok c \<Longrightarrow> turns_ok (activate now cl c)" "out (activate now cl c) i \<longleftrightarrow> out c i"
  using referred_activate [of now cl c] by (auto simp: activate_same out_def intro: turns_ok_less)

section \<open>Steps of a turn\<close>

lemma turns_ok_shrink:
  fixes c c' :: "('d, 's) core"
  assumes "turns_ok c" and "frame c' = frame c" and "set (held_calls c') \<subseteq> set (held_calls c)"
  shows "turns_ok c'"
proof -
  have "held_more c c'" using assms(3) by (auto simp: held_more_def)
  then show ?thesis using turns_ok_held_more assms(1,2) by blast
qed

lemma withdraw_frame: "frame (withdraw i c) = frame c" "set (held_calls (withdraw i c)) \<subseteq> set (held_calls c)"
proof -
  let ?f = "\<lambda>k d. emit (ApprovalWithdrawn k) (d\<lparr>c_us := (c_us d)\<lparr>us_pending := t_del k (us_pending (c_us d))\<rparr>\<rparr>)"
  have f: "frame (fold ?f ks d) = frame d" "set (held_calls (fold ?f ks d)) \<subseteq> set (held_calls d)" for ks and d :: "('a, 'b) core"
  proof (induction ks arbitrary: d)
    case (Cons k ks)
    { case 1 show ?case using Cons(1) by (simp add: framing) }
    { case 2 show ?case using Cons(2) [of "?f k d"] set_t_del [of k "held_calls d"] by (simp add: framing) }
  qed simp_all
  show "frame (withdraw i c) = frame c" "set (held_calls (withdraw i c)) \<subseteq> set (held_calls c)"
    using f by (auto simp: withdraw_def Let_def framing)
qed

lemma withdraw_ok: "turns_ok c \<Longrightarrow> turns_ok (withdraw i c)" "out (withdraw i c) k \<longleftrightarrow> out c k"
  using withdraw_frame [of i c] by (auto intro: turns_ok_shrink simp: out_outf)

lemma turns_ok_turns:
  assumes "turns_ok c" and "turns_inv ts (c_next_turn c)" and "\<And>k. out c k \<Longrightarrow> left_queue ts (c_next_turn c) k"
  shows "turns_ok (c\<lparr>c_turns := ts\<rparr>)"
proof -
  have "referred (c\<lparr>c_turns := ts\<rparr>) = referred c" by (simp add: referred_def framing)
  then show ?thesis using assms by (auto simp: turns_ok_def out_def)
qed

lemma remove_turn_ok: "turns_ok c \<Longrightarrow> turns_ok (c\<lparr>c_turns := remove_first p (c_turns c)\<rparr>)"
  by (rule turns_ok_turns) (auto simp: turns_ok_def turns_inv_remove out_def intro: left_queue_remove)

lemma close_turn_ok: "turns_ok c \<Longrightarrow> turns_ok (close_turn w io i how c)"
  by (auto simp: close_turn_def Let_def intro!: withdraw_ok(1) activate_ok(1) remove_turn_ok split: option.split)

lemma turns_ok_add:
  assumes "turns_ok c" and "out c i"
  shows "turns_ok (c\<lparr>c_asked := c_asked c @ [i]\<rparr>)" "message_turn m = i \<Longrightarrow> turns_ok (post m c)" "turns_ok (c\<lparr>c_turn_at_work := Some i\<rparr>)"
  using assms by (auto simp: turns_ok_def referred_def out_def post_def framing)

lemma turn_of_id: "turn_of i c = Some t \<Longrightarrow> tn_id t = i \<and> t \<in> set (c_turns c)"
  by (auto simp: turn_of_def find_Some_iff)

lemma send_to_model_ok:
  assumes "turns_ok c" and "out c (tn_id t)"
  shows "turns_ok (send_to_model w io t c)"
  using assms by (auto simp: send_to_model_def Let_def case_prod_unfold turn_key_def waiting_def intro!: turns_ok_add(1) alter_turn_ok(1) alter_turn_ok(2) [THEN iffD2])

lemma ask_step_ok: "turns_ok c \<Longrightarrow> out c i \<Longrightarrow> turns_ok (snd (ask_step w io i c))"
  using turn_of_id [of i c] by (auto simp: ask_step_def intro!: close_turn_ok send_to_model_ok split: option.split)

lemma user_same [simp]:
  "us_pending us = us_pending (c_us c) \<Longrightarrow> us_workspace us = us_workspace (c_us c) \<Longrightarrow> us_break_glass us = us_break_glass (c_us c) \<Longrightarrow>
     turns_ok (c\<lparr>c_us := us\<rparr>) = turns_ok c"
  "us_workspace us = us_workspace (c_us c) \<Longrightarrow> us_break_glass us = us_break_glass (c_us c) \<Longrightarrow> out (c\<lparr>c_us := us\<rparr>) i = out c i"
  by (simp_all add: turns_ok_okf out_outf framing)

lemma begin_step_ok: "turns_ok c \<Longrightarrow> out c i \<Longrightarrow> turns_ok (snd (begin_step w io i c))"
  by (auto simp: begin_step_def Let_def turn_key_def waiting_def activate_ok(2) intro!: ask_step_ok activate_ok(1) alter_turn_ok(1) alter_turn_ok(2) [THEN iffD2]
      split: option.split)

lemma set_turn_state_ok:
  assumes "turns_ok c" and "out c i" and "st \<notin> {WaitsForAnotherChat, WaitsForTheModel}"
  shows "turns_ok (set_turn_state i st c)" "out (set_turn_state i st c) k \<longleftrightarrow> out c k"
proof -
  have k: "turn_key (t\<lparr>tn_state := st\<rparr>) = turn_key t" if "t \<in> set (c_turns c)" "tn_id t = i" for t
    using assms(2,3) that by (simp add: turn_key_def out_def left_queue_def waiting_def)
  show "turns_ok (set_turn_state i st c)" "out (set_turn_state i st c) k \<longleftrightarrow> out c k"
    using alter_turn_ok [OF assms(1), of i "\<lambda>t. t\<lparr>tn_state := st\<rparr>"] k assms(1) by (auto simp: set_turn_state_def split: option.split)
qed

lemma set_turn_state_eq:
  assumes "distinct (map tn_id (c_turns c))" and "i < length (c_turns c)" and "tn_state (c_turns c ! i) \<noteq> st"
  shows "\<exists>ev. set_turn_state (tn_id (c_turns c ! i)) st c = emit ev (c\<lparr>c_turns := (c_turns c)[i := (c_turns c ! i)\<lparr>tn_state := st\<rparr>]\<rparr>)"
  using assms by (auto simp: set_turn_state_def turn_of_def find_nth_distinct alter_turn_def alter_first_nth)

lemma nth_in_take: "j < i \<Longrightarrow> i \<le> length xs \<Longrightarrow> xs ! j \<in> set (take i xs)"
  by (metis in_set_conv_nth length_take min.absorb2 nth_take)

lemma where_it_goes_writing:
  "where_it_goes slots ts i = Writing \<Longrightarrow> i < length ts \<Longrightarrow> j < i \<Longrightarrow> cl_user (tn_caller (ts ! j)) \<noteq> cl_user (tn_caller (ts ! i))"
  using nth_in_take [of j i ts] by (auto simp: where_it_goes_def list_ex_iff split: if_splits)

lemma left_queue_started:
  assumes "distinct (map tn_id ts)" and "i < length ts" and "tn_id (ts ! i) < n"
  shows "left_queue (ts[i := (ts ! i)\<lparr>tn_state := Writing\<rparr>]) n (tn_id (ts ! i))"
proof -
  have "\<not> waiting t" if t: "t \<in> set (ts[i := (ts ! i)\<lparr>tn_state := Writing\<rparr>])" "tn_id t = tn_id (ts ! i)" for t
  proof -
    obtain k where k: "k < length ts" "t = ts[i := (ts ! i)\<lparr>tn_state := Writing\<rparr>] ! k"
      using t(1) by (auto simp: in_set_conv_nth)
    show ?thesis
    proof (cases "k = i")
      case False
      then have "tn_id (ts ! k) = tn_id (ts ! i)" using t(2) k by simp
      then show ?thesis using assms(1,2) k(1) False by (metis distinct_conv_nth length_map nth_map)
    qed (use assms(2) k in \<open>simp add: waiting_def\<close>)
  qed
  then show ?thesis using assms(3) by (auto simp: left_queue_def)
qed

lemma move_turn_ok:
  assumes ok: "turns_ok c" and n: "next_to_move slots (c_turns c) = Some (t, st)"
  shows "turns_ok (move_turn w io t st c)"
proof -
  obtain i where i: "i < length (c_turns c)" "t = c_turns c ! i" "waiting t" "st = where_it_goes slots (c_turns c) i" "st \<noteq> tn_state t"
    using next_to_move_nth [OF n] by auto
  let ?a = "activate (io_now io) (tn_caller t) c"
  let ?ts = "(c_turns c)[i := t\<lparr>tn_state := st\<rparr>]"
  have a: "turns_ok ?a" "c_turns ?a = c_turns c" "c_next_turn ?a = c_next_turn c"
    using activate_ok(1) [OF ok] by (simp_all add: activate_same)
  have inv: "turns_inv (c_turns c) (c_next_turn c)" "distinct (map tn_id (c_turns c))" using turns_okD [OF ok] by simp_all
  obtain ev where s: "set_turn_state (tn_id t) st ?a = emit ev (?a\<lparr>c_turns := ?ts\<rparr>)"
    using set_turn_state_eq [of ?a i st] a i inv by auto
  show ?thesis
  proof (cases "st = Writing")
    case True
    have ts: "turns_inv ?ts (c_next_turn c)"
      using turns_inv_start [OF inv(1) i(1)] where_it_goes_writing [of slots "c_turns c" i] i True by simp
    have "left_queue ?ts (c_next_turn c) k" if "out ?a k" for k
      using left_queue_start [of "c_turns c" "c_next_turn c" k i] that i True by (simp add: out_def activate_same)
    then have ok1: "turns_ok (?a\<lparr>c_turns := ?ts\<rparr>)" using turns_ok_turns [OF a(1)] ts a by simp
    have "tn_id t < c_next_turn c" using inv(1) i by (simp add: turns_inv_def)
    then have "out (?a\<lparr>c_turns := ?ts\<rparr>) (tn_id t)"
      using left_queue_started [OF inv(2) i(1)] i True by (simp add: out_def activate_same)
    then show ?thesis using begin_step_ok [of "emit ev (?a\<lparr>c_turns := ?ts\<rparr>)"] ok1 True s by (simp add: move_turn_def)
  next
    case False
    have "st \<in> {WaitsForAnotherChat, WaitsForTheModel}" using i(4) False by (auto simp: where_it_goes_def split: if_splits)
    then have "map turn_key ?ts = map turn_key (c_turns ?a)"
      using i a by (simp add: map_update list_update_same_conv turn_key_def waiting_def)
    then show ?thesis using turns_ok_keys(1) [OF a(1)] False s by (simp add: move_turn_def)
  qed
qed

lemma schedule_ok: "turns_ok c \<Longrightarrow> turns_ok (schedule w io c)"
proof (induction w io c rule: schedule.induct)
  case (1 w io c)
  show ?case
  proof (cases "next_to_move (w_slots w) (c_turns c)")
    case None
    then show ?thesis using 1 by (subst schedule.simps) simp
  next
    case (Some p)
    then have "turns_ok (move_turn w io (fst p) (snd p) c)" using move_turn_ok [of c "w_slots w" "fst p" "snd p"] 1 by simp
    then show ?thesis using 1 Some by (subst schedule.simps) (auto split: prod.splits)
  qed
qed

lemma end_turn_ok: "turns_ok c \<Longrightarrow> turns_ok (end_turn w io i how c)"
  by (simp add: end_turn_def schedule_ok close_turn_ok)

lemma settle_ok: "turns_ok (snd p) \<Longrightarrow> turns_ok (settle w io p)"
  by (simp add: settle_def schedule_ok)

lemma ask_the_model_ok: "turns_ok c \<Longrightarrow> out c i \<Longrightarrow> turns_ok (ask_the_model w io i c)"
  by (simp add: ask_the_model_def settle_ok ask_step_ok)

lemma alter_first_last:
  assumes "\<forall>x \<in> set xs. \<not> p x" and "p y"
  shows "alter_first p f (xs @ [y]) = xs @ [f y]"
  using assms by (induction xs) auto

lemma queue_turn_ok:
  assumes ok: "turns_ok c"
  shows "turns_ok (queue_turn w io conv continuing c)"
proof -
  let ?n = "c_next_turn c" and ?new = "new_turn conv continuing c"
  let ?c1 = "c\<lparr>c_next_turn := ?n + 1, c_turns := c_turns c @ [?new]\<rparr>"
  let ?st = "where_it_goes (w_slots w) (c_turns ?c1) (length (c_turns c))"
  let ?t = "?new\<lparr>tn_state := ?st\<rparr>"
  let ?c2 = "emit (TurnChanged conv ?st) (alter_turn ?n (\<lambda>t. t\<lparr>tn_state := ?st\<rparr>) ?c1)"
  have new: "tn_id ?new = ?n" by (simp add: new_turn_def)
  have inv: "turns_inv (c_turns c) ?n" using turns_okD(1) [OF ok] .
  have fresh: "\<forall>t \<in> set (c_turns c). tn_id t \<noteq> ?n" using inv by (auto simp: turns_inv_def)
  have ts: "c_turns ?c2 = c_turns c @ [?t]"
    using alter_first_last [of "c_turns c" "\<lambda>t. tn_id t = ?n" ?new] fresh new by (simp add: keeps_turns alter_turn_def)
  have behind: "waiting ?t" if "s \<in> set (c_turns c)" "cl_user (tn_caller s) = cl_user (tn_caller ?t)" for s
    using that by (auto simp: where_it_goes_def list_ex_iff nth_append waiting_def new_turn_def)
  have c2: "c_next_turn ?c2 = ?n + 1" "referred ?c2 = referred c"
    by (simp_all add: alter_turn_def emit_def emit_to_def referred_def framing)
  have "turns_inv (c_turns ?c2) (?n + 1)"
    unfolding ts by (rule turns_inv_append [OF inv]) (use behind new in auto)
  moreover have "left_queue (c_turns ?c2) (?n + 1) i" if "i \<in> referred c" for i
    unfolding ts by (rule left_queue_append) (use turns_okD(3) [OF ok that] new in simp_all)
  ultimately have ok2: "turns_ok ?c2" using c2 by (simp add: turns_ok_def)
  show ?thesis
  proof (cases "?st = Writing")
    case True
    have "out ?c2 ?n" unfolding out_def c2 ts using fresh True new by (auto simp: left_queue_def waiting_def)
    then show ?thesis using ok2 True by (simp add: queue_turn_def Let_def settle_ok begin_step_ok)
  next
    case False
    then show ?thesis using ok2 by (simp add: queue_turn_def Let_def)
  qed
qed

section \<open>What a person asks of an answer, and what comes back\<close>

lemma turn_said_same [simp]:
  "turns_ok (keep io i txt th st jn why c) = turns_ok c" "turns_ok (record_call io i tool params outcome c) = turns_ok c"
  "out (keep io i txt th st jn why c) k = out c k" "out (record_call io i tool params outcome c) k = out c k"
  by (simp_all add: keep_def record_call_def split: option.split)

lemma mark_turn_ok:
  assumes "turns_ok c"
  shows "turns_ok (alter_turn i (\<lambda>t. t\<lparr>tn_stop := b\<rparr>) c)" "turns_ok (alter_turn i (\<lambda>t. t\<lparr>tn_refused := b\<rparr>) c)"
    "turns_ok (alter_turn i (\<lambda>t. t\<lparr>tn_calls := cs\<rparr>) c)" "turns_ok (alter_turn i (\<lambda>t. t\<lparr>tn_steps := Suc (tn_steps t)\<rparr>) c)"
    "out (alter_turn i (\<lambda>t. t\<lparr>tn_stop := b\<rparr>) c) k = out c k" "out (alter_turn i (\<lambda>t. t\<lparr>tn_refused := b\<rparr>) c) k = out c k"
    "out (alter_turn i (\<lambda>t. t\<lparr>tn_calls := cs\<rparr>) c) k = out c k" "out (alter_turn i (\<lambda>t. t\<lparr>tn_steps := Suc (tn_steps t)\<rparr>) c) k = out c k"
  by (auto simp: turn_key_def waiting_def intro!: alter_turn_ok(1) [OF assms] alter_turn_ok(2) [OF assms])

lemma stop_turn_ok: "turns_ok c \<Longrightarrow> turns_ok (snd (stop_turn i c))"
  by (simp add: stop_turn_def mark_turn_ok)

lemma send_message_ok: "turns_ok c \<Longrightarrow> turns_ok (snd (send_message w io named txt c))"
  by (simp add: send_message_def queue_turn_ok split: sum.split)

lemma continue_answer_ok: "turns_ok c \<Longrightarrow> turns_ok (snd (continue_answer w io named c))"
  by (simp add: continue_answer_def Let_def queue_turn_ok split: sum.split)

lemma cancel_turn_ok: "turns_ok c \<Longrightarrow> turns_ok (cancel_turn w io named c)"
proof -
  assume ok: "turns_ok c"
  let ?conv = "case named of Some i \<Rightarrow> i | None \<Rightarrow> current (us_chats (c_us c))"
  show ?thesis
  proof (cases "turn_in ?conv c")
    case (Some i)
    obtain st c1 where s: "stop_turn i c = (st, c1)" by fastforce
    then have "turns_ok c1" using stop_turn_ok [OF ok, of i] by simp
    then show ?thesis using Some s by (simp add: cancel_turn_def end_turn_ok split: option.split)
  qed (use ok in \<open>simp add: cancel_turn_def\<close>)
qed

lemma forget_turn_ok: "turns_ok c \<Longrightarrow> turns_ok (forget_turn w io conv c)"
  by (simp add: forget_turn_def stop_turn_ok end_turn_ok split: option.split)

lemma resume_ok: "turns_ok c \<Longrightarrow> (\<And>i. turn = Some i \<Longrightarrow> out c i) \<Longrightarrow> turns_ok (resume io turn tool params outcome c)"
  by (auto simp: resume_def set_turn_state_ok intro!: turns_ok_add(2) split: option.split)

lemma declined_ok: "turns_ok c \<Longrightarrow> turns_ok (declined w io turn tool c)"
  by (simp add: declined_def end_turn_ok split: option.split)

lemma end_stopped_ok: "turns_ok c \<Longrightarrow> turns_ok (end_stopped w io qs c)"
  by (induction w io qs c rule: end_stopped.induct) (auto simp: end_turn_ok)

lemma stop_on_leaving_ok: "turns_ok c \<Longrightarrow> turns_ok (stop_on_leaving w io workspace c)"
proof -
  assume ok: "turns_ok c"
  have "turns_ok (fold (\<lambda>i. snd \<circ> stop_turn i) is c)" for "is"
    using ok by (induction "is" arbitrary: c) (simp_all add: stop_turn_ok)
  then show ?thesis using ok by (simp add: stop_on_leaving_def Let_def end_stopped_ok)
qed

lemma attempted_ok: "turns_ok c \<Longrightarrow> out c i \<Longrightarrow> turns_ok (attempted w io i shown thought block offered c)"
  by (auto simp: attempted_def Let_def ask_the_model_ok end_turn_ok mark_turn_ok split: option.split)

lemma finish_answer_ok: "turns_ok c \<Longrightarrow> turns_ok (finish_answer w io i txt full n se t c)"
  by (simp add: finish_answer_def Let_def end_turn_ok)

lemma replied_ok:
  assumes "turns_ok c" and "out c i"
  shows "turns_ok (replied w io i se c)"
proof -
  have "turns_ok (activate now cl c)" "out (activate now cl c) i" for now cl
    using assms by (simp_all add: activate_ok)
  then show ?thesis
    using assms by (auto simp: replied_def Let_def end_turn_ok finish_answer_ok attempted_ok mark_turn_ok intro!: turns_ok_add(2)
        split: option.split model_reply.split)
qed

lemma make_call_ok:
  assumes ok: "turns_ok c" and out: "out c (tn_id t)"
  shows "turns_ok (make_call w io t call c)"
proof -
  let ?c1 = "(emit (ToolCallStarted (tn_conversation t) (pl_id call) (pl_tool call) (pl_params call)) c)\<lparr>c_turn_at_work := Some (tn_id t)\<rparr>"
  let ?e = "emit (ToolCallStarted (tn_conversation t) (pl_id call) (pl_tool call) (pl_params call)) c"
  have "out ?e (tn_id t)" "turns_ok ?e" using ok out by simp_all
  then have c1: "turns_ok ?c1" "out ?c1 (tn_id t)" using turns_ok_add(3) [of ?e "tn_id t"] by (simp_all add: out_def)
  obtain outcome c2 where call: "call_tool w io (pl_tool call) (pl_params call) ByAgent ?c1 = (outcome, c2)" by fastforce
  have f: "frame c2 = frame ?c1" "held_more ?c1 c2"
    using call_tool_framing(1) [of w io "pl_tool call" "pl_params call" ByAgent ?c1] call_tool_held [of ?c1 w io "pl_tool call" "pl_params call" ByAgent]
    by (simp_all add: call)
  have "turns_ok c2" "out c2 (tn_id t)" using turns_ok_held_more [OF c1(1) f] c1(2) f(1) by (simp_all add: out_outf)
  then have "turns_ok (c2\<lparr>c_turn_at_work := None\<rparr>)" "out (c2\<lparr>c_turn_at_work := None\<rparr>) (tn_id t)"
    by (auto simp: out_def referred_def framing intro!: turns_ok_less [of c2])
  then show ?thesis
    by (auto simp: make_call_def Let_def call set_turn_state_ok intro!: turns_ok_add(2) split: tool_outcome.split)
qed

lemma go_on_ok:
  assumes "turns_ok c" and "out c i"
  shows "turns_ok (go_on w io i c)"
proof -
  have "turns_ok (activate now cl c)" "out (activate now cl c) i" for now cl
    using assms by (simp_all add: activate_ok)
  then show ?thesis
    using assms turn_of_id [of i c]
    by (auto simp: go_on_def Let_def end_turn_ok mark_turn_ok intro!: ask_the_model_ok make_call_ok split: option.split list.split)
qed

lemma handle_internal_ok: "turns_ok c \<Longrightarrow> out c (message_turn m) \<Longrightarrow> turns_ok (handle_internal w io m c)"
  by (cases m) (simp_all add: handle_internal_def replied_ok go_on_ok)

section \<open>Requests\<close>

lemma elsewhere_ok [simp]:
  "turns_ok (c\<lparr>c_access := ac\<rparr>) = turns_ok c" "us_pending us = us_pending (c_us c) \<Longrightarrow> turns_ok (c\<lparr>c_us := us\<rparr>) = turns_ok c"
  "turns_ok (c\<lparr>c_store := st\<rparr>) = turns_ok c" "turns_ok (c\<lparr>c_registry := r\<rparr>) = turns_ok c" "turns_ok (c\<lparr>c_gateway := g\<rparr>) = turns_ok c"
  by (simp_all add: turns_ok_def referred_def held_calls_def)

lemma requests_ok [simp]:
  "turns_ok (idle_tick io c) = turns_ok c" "turns_ok (snd (open_document w io h c)) = turns_ok c"
  "turns_ok (snd (get_doc_json w io h c)) = turns_ok c" "turns_ok (snd (write_doc w io h v j cm c)) = turns_ok c"
  "turns_ok (snd (doc_sync w io d p m c)) = turns_ok c" "turns_ok (snd (doc_sync_end d p c)) = turns_ok c"
  "turns_ok (snd (produce_artifact w io h v k n mi b g sm c)) = turns_ok c" "turns_ok (snd (undo_request w c)) = turns_ok c"
  "turns_ok (snd (redo_request w c)) = turns_ok c" "turns_ok (snd (drop_run_request w run c)) = turns_ok c"
  "turns_ok (snd (doc_blob w io d c)) = turns_ok c" "turns_ok (snd (set_network_mode mode c)) = turns_ok c"
  "turns_ok (snd (set_pinned h pin c)) = turns_ok c" "turns_ok (snd (set_harness_enabled h pin c)) = turns_ok c"
  "turns_ok (snd (new_conversation io c)) = turns_ok c" "turns_ok (snd (select_conversation io i c)) = turns_ok c"
  "turns_ok (snd (rename_conversation i title c)) = turns_ok c" "turns_ok (snd (show_chat ms i c)) = turns_ok c"
  "turns_ok (snd (require_admin w io ev c)) = turns_ok c" "turns_ok (snd (require_workspace_owner w io ws ev c)) = turns_ok c"
  "turns_ok (snd (set_document_access w io d members c)) = turns_ok c"
  by (simp_all add: turns_ok_okf framing)

lemma call_tool_ok: "turns_ok c \<Longrightarrow> turns_ok (snd (call_tool w io tool params a c))"
  using turns_ok_held_more [of c] by (simp add: call_tool_framing call_tool_held)

lemma workspace_requests_ok [simp]:
  "turns_ok (change_workspace i ws c) = turns_ok c" "turns_ok (snd (create_workspace w io name c)) = turns_ok c"
  "turns_ok (snd (set_member_request w io workspace p l c)) = turns_ok c"
  "turns_ok (snd (remove_member_request w io workspace p c)) = turns_ok c"
  "turns_ok (snd (set_agent_writes_request w io workspace mode c)) = turns_ok c"
  by (auto simp: change_workspace_def persist_workspace_def create_workspace_def set_member_request_def remove_member_request_def
      set_agent_writes_request_def require_admin_def require_workspace_owner_def Let_def split: option.split prod.split bool.split)

lemma move_workspace_ok: "turns_ok c \<Longrightarrow> turns_ok (move_workspace w io ws workspace c)"
  by (simp add: move_workspace_def Let_def stop_on_leaving_ok)

lemma enter_workspace_ok [simp]: "turns_ok (snd (enter_workspace w io ws workspace reason c)) = turns_ok c"
  by (auto simp: enter_workspace_def Let_def split: option.split bool.split)

lemma select_workspace_ok: "turns_ok c \<Longrightarrow> turns_ok (snd (select_workspace w io workspace reason c))"
proof (cases "get_workspace (c_access c) workspace")
  case (Some ws)
  assume "turns_ok c"
  moreover obtain r c1 where e: "enter_workspace w io ws workspace reason c = (r, c1)" by fastforce
  ultimately have "turns_ok c1" using enter_workspace_ok [of w io ws workspace reason c] by simp
  then show ?thesis using Some e by (simp add: select_workspace_def move_workspace_ok split: sum.split)
qed (simp add: select_workspace_def)

lemma delete_conversation_ok: "turns_ok c \<Longrightarrow> turns_ok (snd (delete_conversation_request w io i c))"
  by (simp add: delete_conversation_request_def Let_def forget_turn_ok)

text \<open>A call that was held is taken out of the table before it runs; its turn has left the queue.\<close>

lemma called_ok:
  assumes "call_tool w io tool params a c = (outcome, c')" and "turns_ok c"
  shows "turns_ok c'" "out c' k \<longleftrightarrow> out c k"
  using call_tool_ok [OF assms(2), of w io tool params a] call_tool_framing(1) [of w io tool params a c] assms(1) by (simp_all add: out_outf)

lemma out_elsewhere [simp]: "out (c\<lparr>c_gateway := g\<rparr>) k = out c k" "out (c\<lparr>c_us := us\<rparr>) k = out c k"
  by (simp_all add: out_def)

lemma approve_ok:
  assumes "turns_ok c0"
  shows "turns_ok (snd (approve w io i granted c0))"
proof (cases "t_get (us_pending (c_us c0)) i")
  case (Some p)
  let ?c = "c0\<lparr>c_us := (c_us c0)\<lparr>us_pending := t_del i (us_pending (c_us c0))\<rparr>\<rparr>"
  have mine: "out c0 k" if "pc_turn p = Some k" for k
    using out_referred [OF assms, of k] t_get_in [OF Some] that by (force simp: referred_def calls_of_def held_calls_def)
  have "referred ?c \<subseteq> referred c0"
    using calls_of_mono [OF set_t_del, of i "us_pending (c_us c0)"] by (auto simp: referred_def held_calls_def)
  then have c: "turns_ok ?c" using turns_ok_less [OF assms, of ?c] by simp
  show ?thesis
  proof (cases granted)
    case True
    define c1 where "c1 = (case Option.bind (Option.bind (if starts_with ''egress:'' i then jget (pc_params p) ''url'' else None) as_str) host_of of
        Some domain \<Rightarrow> ?c\<lparr>c_gateway := approve_domain domain (c_gateway ?c)\<rparr> | None \<Rightarrow> ?c)"
    have c1: "turns_ok c1" "out c1 k \<longleftrightarrow> out c0 k" for k using c by (simp_all add: c1_def split: option.split)
    obtain outcome c2 where call: "call_tool w io (pc_tool p) (pc_params p) ByUser c1 = (outcome, c2)" by fastforce
    have c2: "turns_ok c2" "\<And>k. pc_turn p = Some k \<Longrightarrow> out c2 k" using called_ok [OF call c1(1)] c1(2) mine by blast+
    have "snd (approve w io i granted c0) =
        (let conv = (case Option.bind (pc_turn p) (\<lambda>k. turn_of k c2) of Some t \<Rightarrow> tn_conversation t | None \<Rightarrow> current (us_chats (c_us c2)));
             c3 = emit (ToolCallFinished conv i (pc_tool p) outcome) c2
         in if pc_resume_agent p then resume io (pc_turn p) (pc_tool p) (pc_params p) outcome c3 else c3)"
      unfolding approve_def Some option.case Let_def c1_def [symmetric] call prod.case using True by simp
    then show ?thesis using c2 by (simp add: Let_def resume_ok)
  qed (use c Some in \<open>simp add: approve_def Let_def declined_ok\<close>)
qed (use assms in \<open>simp add: approve_def\<close>)

lemma answer_ok: "turns_ok c \<Longrightarrow> turns_ok (snd (answer w io r c))"
  by (cases r) (simp_all add: Let_def chat_response_def case_prod_unfold get_history_def call_tool_ok send_message_ok continue_answer_ok
      cancel_turn_ok delete_conversation_ok approve_ok select_workspace_ok)

lemma handle_as_ok: "turns_ok c \<Longrightarrow> turns_ok (snd (handle_as w io cl r c))"
proof -
  assume "turns_ok c"
  then have c: "turns_ok (idle_tick io (activate (io_now io) cl c))" by (simp add: activate_ok)
  show ?thesis
  proof (cases "admin_only r")
    case (Some ev)
    obtain q c' where q: "require_admin w io ev (idle_tick io (activate (io_now io) cl c)) = (q, c')" by fastforce
    have "turns_ok c'" using c requests_ok(19) [of w io ev "idle_tick io (activate (io_now io) cl c)"] by (simp add: q)
    then show ?thesis using Some q by (simp add: handle_as_def handle_inner_def Let_def answer_ok split: sum.split)
  qed (use c in \<open>simp add: handle_as_def handle_inner_def Let_def answer_ok\<close>)
qed

text \<open>What is taken off the queue, or comes back from the model, is of a turn that has left the queue.\<close>

lemma taken_ok:
  assumes "turns_ok c" and "referred c' \<subseteq> referred c" and "c_turns c' = c_turns c" and "c_next_turn c' = c_next_turn c" and "i \<in> referred c"
  shows "turns_ok c'" "out c' i"
  using assms out_referred [OF assms(1,5)] by (auto intro: turns_ok_less simp: out_def)

lemma core_step_ok: "core_step w c c' \<Longrightarrow> turns_ok c \<Longrightarrow> turns_ok c'"
proof (induction rule: core_step.induct)
  case (step_message m c io)
  let ?c = "c\<lparr>c_posted := remove1 m (c_posted c)\<rparr>"
  have "referred ?c \<subseteq> referred c" using set_remove1_subset [of m "c_posted c"] by (auto simp: referred_def framing)
  moreover have "message_turn m \<in> referred c" using step_message by (simp add: referred_def)
  ultimately show ?case using taken_ok [OF step_message(2), of ?c "message_turn m"] by (simp add: handle_internal_ok)
next
  case (step_reply i c io se)
  let ?c = "c\<lparr>c_asked := remove1 i (c_asked c)\<rparr>"
  have "referred ?c \<subseteq> referred c" using set_remove1_subset [of i "c_asked c"] by (auto simp: referred_def framing)
  moreover have "i \<in> referred c" using step_reply by (simp add: referred_def)
  ultimately show ?case using taken_ok [OF step_reply(2), of ?c i] by (simp add: handle_internal_ok)
qed (simp_all add: handle_as_ok)

lemma core_run_ok: "core_run w c0 c \<Longrightarrow> turns_ok c0 \<Longrightarrow> turns_ok c"
  by (induction rule: core_run.induct) (auto intro: core_step_ok)

section \<open>Properties\<close>

lemma no_turns_ok: "no_turns c \<Longrightarrow> turns_ok c"
  by (force simp: no_turns_def turns_ok_def turns_inv_def referred_def held_calls_def calls_of_def list_all_iff)

text \<open>
  (C4) One answer at a time for a person.  However requests, messages of turns and readings of the model are mixed, from a Core
  nobody has asked anything: no two turns share an identifier, of a person's turns only the first may have left the queue,
  so at most one of them is written or waits for the person's word, and no turn is read, goes on or holds a call while it waits.
\<close>

theorem one_answer_per_person:
  assumes "core_run w c0 c" and "no_turns c0"
  shows "distinct (map tn_id (c_turns c)) \<and>
    length (filter (\<lambda>t. \<not> waiting t \<and> cl_user (tn_caller t) = u) (c_turns c)) \<le> 1 \<and>
    (\<forall>i j. i < j \<and> j < length (c_turns c) \<and> cl_user (tn_caller (c_turns c ! i)) = cl_user (tn_caller (c_turns c ! j)) \<longrightarrow> waiting (c_turns c ! j)) \<and>
    (\<forall>t \<in> set (c_turns c). tn_id t \<in> set (c_asked c) \<union> message_turn ` set (c_posted c) \<union> calls_of (us_pending (c_us c)) \<longrightarrow> \<not> waiting t)"
proof -
  have ok: "turns_ok c" using core_run_ok [OF assms(1) no_turns_ok [OF assms(2)]] .
  note inv = turns_okD(1) [OF ok]
  have "length (filter (\<lambda>t. \<not> waiting t \<and> cl_user (tn_caller t) = u) ts) \<le> 1" if "sorted_wrt in_line ts" for ts
    using that
  proof (induction ts)
    case (Cons t ts)
    show ?case
    proof (cases "cl_user (tn_caller t) = u")
      case True
      then have "filter (\<lambda>t. \<not> waiting t \<and> cl_user (tn_caller t) = u) ts = []"
        using Cons(2) by (auto simp: filter_empty_conv in_line_def)
      then show ?thesis by simp
    qed (use Cons in simp)
  qed simp
  moreover have "waiting (c_turns c ! j)"
    if "i < j" "j < length (c_turns c)" "cl_user (tn_caller (c_turns c ! i)) = cl_user (tn_caller (c_turns c ! j))" for i j
    using inv that sorted_wrt_nth_less [of in_line "c_turns c" i j] by (simp add: turns_inv_def in_line_def)
  moreover have "\<not> waiting t" if "t \<in> set (c_turns c)"
      "tn_id t \<in> set (c_asked c) \<union> message_turn ` set (c_posted c) \<union> calls_of (us_pending (c_us c))" for t
  proof -
    have "tn_id t \<in> referred c" using that(2) by (auto simp: referred_def held_calls_def)
    then show ?thesis using turns_okD(3) [OF ok] that(1) by (auto simp: left_queue_def)
  qed
  ultimately show ?thesis using inv unfolding turns_inv_def by blast
qed

theorem one_answer_per_person_witness:
  "let c1 = snd (handle_as example_world example_io (caller_local ''ann'') (SendMessage ''one'' None) example_core);
       c2 = snd (handle_as example_world example_io (caller_local ''ann'') (SendMessage ''two'' None) c1)
   in length (filter (\<lambda>t. \<not> waiting t \<and> cl_user (tn_caller t) = ''ann'') (c_turns c2)) \<le> 1"
proof -
  have ann: "\<not> cl_is_system (caller_local ''ann'')" by (simp add: cl_is_system_def caller_local_def caller_system_def)
  let ?c1 = "snd (handle_as example_world example_io (caller_local ''ann'') (SendMessage ''one'' None) example_core)"
  have "core_run example_world example_core (snd (handle_as example_world example_io (caller_local ''ann'') (SendMessage ''two'' None) ?c1))"
    by (rule run_step [OF run_step [OF run_start step_request [OF ann]] step_request [OF ann]])
  moreover have "no_turns example_core" by (simp add: example_core_def core_new_no_turns)
  ultimately show ?thesis using one_answer_per_person [of example_world example_core] by (simp add: Let_def)
qed

text \<open>The loop of \<open>schedule\<close> ends with nobody to move, as no two turns share an identifier.\<close>

lemma schedule_rests: "turns_ok c \<Longrightarrow> next_to_move (w_slots w) (c_turns (schedule w io c)) = None"
proof (induction w io c rule: schedule.induct)
  case (1 w io c)
  note d = turns_okD(2) [OF 1(2)]
  show ?case
  proof (cases "next_to_move (w_slots w) (c_turns c)")
    case None
    then show ?thesis using d by (subst schedule.simps) simp
  next
    case (Some p)
    then have "turns_ok (move_turn w io (fst p) (snd p) c)" using move_turn_ok [OF 1(2), of "w_slots w" "fst p" "snd p"] by simp
    then show ?thesis using 1(1) Some d by (subst schedule.simps) (auto split: prod.splits)
  qed
qed

text \<open>
  (C5) The queue comes to rest.  In every state Core can reach, \<open>schedule\<close> ends, and then a turn waits for exactly one of two reasons:
  an earlier turn of the same person, or every place at the model is taken.
\<close>

theorem schedule_settles:
  assumes "core_run w c0 c" and "no_turns c0"
  shows "let ts = c_turns (schedule w io c)
    in \<forall>i < length ts. waiting (ts ! i) \<longrightarrow>
      (if \<exists>j < i. cl_user (tn_caller (ts ! j)) = cl_user (tn_caller (ts ! i)) then tn_state (ts ! i) = WaitsForAnotherChat
       else tn_state (ts ! i) = WaitsForTheModel \<and> max (w_slots w) 1 \<le> length (filter (\<lambda>t. tn_state t = Writing) ts))"
proof -
  define ts where "ts = c_turns (schedule w io c)"
  have "next_to_move (w_slots w) ts = None"
    using schedule_rests [OF core_run_ok [OF assms(1) no_turns_ok [OF assms(2)]]] by (simp add: ts_def)
  then have at: "tn_state (ts ! i) = where_it_goes (w_slots w) ts i" if "i < length ts" "waiting (ts ! i)" for i
    using that by (auto simp: next_to_move_def find_None_iff)
  have ex: "list_ex (\<lambda>t. cl_user (tn_caller t) = u) (take i ts) \<longleftrightarrow> (\<exists>j < i. cl_user (tn_caller (ts ! j)) = u)" if "i < length ts" for i u
    using that in_set_conv_nth [of _ "take i ts"] by (auto simp: list_ex_iff) (metis length_take min.absorb2 nth_take less_imp_le_nat)+
  have "if \<exists>j < i. cl_user (tn_caller (ts ! j)) = cl_user (tn_caller (ts ! i)) then tn_state (ts ! i) = WaitsForAnotherChat
       else tn_state (ts ! i) = WaitsForTheModel \<and> max (w_slots w) 1 \<le> length (filter (\<lambda>t. tn_state t = Writing) ts)"
    if i: "i < length ts" "waiting (ts ! i)" for i
    using at [OF i] i(2) ex [OF i(1)] unfolding where_it_goes_def waiting_def by (auto split: if_splits)
  then show ?thesis unfolding Let_def ts_def [symmetric] by blast
qed

theorem schedule_settles_witness:
  "let ts = c_turns (schedule example_world example_io (snd (handle_as example_world example_io (caller_local ''ann'') (SendMessage ''one'' None) example_core)))
   in \<forall>i < length ts. waiting (ts ! i) \<longrightarrow>
     (if \<exists>j < i. cl_user (tn_caller (ts ! j)) = cl_user (tn_caller (ts ! i)) then tn_state (ts ! i) = WaitsForAnotherChat
      else tn_state (ts ! i) = WaitsForTheModel \<and> max (w_slots example_world) 1 \<le> length (filter (\<lambda>t. tn_state t = Writing) ts))"
proof -
  let ?c = "snd (handle_as example_world example_io (caller_local ''ann'') (SendMessage ''one'' None) example_core)"
  have "core_run example_world example_core ?c"
    by (rule run_step [OF run_start step_request]) (simp add: cl_is_system_def caller_local_def caller_system_def)
  moreover have "no_turns example_core" by (simp add: example_core_def core_new_no_turns)
  ultimately show ?thesis
    by (rule schedule_settles)
qed

end
