(* ===== verification/Gate.thy ===== *)
theory Gate
  imports CoreStart
begin

text \<open>
  What a call of a tool does to the history: nothing, or one commit on the document of the tool's harness, after the whole gate.
\<close>

fun commit_of :: "tool_outcome \<Rightarrow> string option" where
  "commit_of (CallOk summary result commit) = commit"
| "commit_of _ = None"

text \<open>One commit more, made by that call, which is now the head of the document.\<close>

definition one_commit :: "(string \<Rightarrow> string) \<Rightarrow> string \<Rightarrow> string \<Rightarrow> json \<Rightarrow> author \<Rightarrow> string \<Rightarrow> dag \<Rightarrow> dag \<Rightarrow> bool" where
  "one_commit hash doc tool params author i dg dg' \<longleftrightarrow> head dg' doc = Some i \<and>
     (\<exists>harness bytes summary run now now'. dg' = snd (dag_commit hash dg doc harness tool params bytes summary author run now now'))"

definition committed :: "(string \<Rightarrow> string) \<Rightarrow> string \<Rightarrow> string \<Rightarrow> json \<Rightarrow> author \<Rightarrow> string option \<Rightarrow> dag \<Rightarrow> dag \<Rightarrow> bool" where
  "committed hash doc tool params author k dg dg' \<longleftrightarrow>
     (case k of None \<Rightarrow> dg' = dg | Some i \<Rightarrow> one_commit hash doc tool params author i dg dg')"

lemma committed_None [simp]: "committed hash doc tool params author None dg dg' \<longleftrightarrow> dg' = dg"
  by (simp add: committed_def)

lemma core3D: "core3 c' = core3 c \<Longrightarrow> c_dag c' = c_dag c"
  by (simp add: core3_def)

lemma doc_changed_dag [simp]: "c_dag (doc_changed w doc c) = c_dag c"
proof -
  have "c_dag (sync_replica w doc peer d) = c_dag d" for peer d
    by (simp add: sync_replica_def set_replicas_def emit_to_def case_prod_unfold Let_def split: option.split)
  then have "c_dag (fold (sync_replica w doc) ks d) = c_dag d" for ks d
    by (induction ks arbitrary: d) simp_all
  then show ?thesis by (simp add: doc_changed_def emit_all_def emit_to_def)
qed

lemma committedI:
  assumes "dag_commit hash dg doc harness tool params bytes summary author run now now' = (k, dg')"
  shows "committed hash doc tool params author (Some (c_id k)) dg dg'"
proof -
  have "dg' = snd (dag_commit hash dg doc harness tool params bytes summary author run now now')" using assms by simp
  then have "\<exists>harness bytes summary run now now'. dg' = snd (dag_commit hash dg doc harness tool params bytes summary author run now now')" by blast
  then show ?thesis using commit_effect(1) [OF assms, of doc] by (simp add: committed_def one_commit_def)
qed

lemma commit_change_committed:
  "committed (w_hash w) doc tool params author (Some (fst (commit_change w io doc h tool params summary author run c)))
     (c_dag c) (c_dag (snd (commit_change w io doc h tool params summary author run c)))"
  by (simp add: commit_change_def Let_def case_prod_unfold committedI [OF prod.collapse [symmetric]])

lemma apply_output_committed:
  assumes "apply_output w io h doc tool params author out c = (r, c')"
  shows "committed (w_hash w) doc tool params author (case r of Inl e \<Rightarrow> None | Inr p \<Rightarrow> fst p) (c_dag c) (c_dag c')"
proof -
  have "committed (w_hash w) doc tool params author (Some (fst (commit_change w io doc h tool params summary author run (c\<lparr>c_docs := ds\<rparr>))))
     (c_dag c) (c_dag (snd (commit_change w io doc h tool params summary author run (c\<lparr>c_docs := ds\<rparr>))))" for summary run ds
    using commit_change_committed [of w doc tool params author io h summary run "c\<lparr>c_docs := ds\<rparr>"] by simp
  then show ?thesis using assms by (auto simp: apply_output_def Let_def case_prod_unfold split: option.splits sum.splits if_splits)
qed

lemma finish_call_commit:
  "c_dag (snd (finish_call w io h doc tool decl out k s c)) = c_dag c" "commit_of (fst (finish_call w io h doc tool decl out k s c)) = k"
proof -
  show "c_dag (snd (finish_call w io h doc tool decl out k s c)) = c_dag c" by (rule core3D) (simp add: framing)
  show "commit_of (fst (finish_call w io h doc tool decl out k s c)) = k"
    by (auto simp: finish_call_def Let_def split: option.split prod.split sum.split)
qed

lemma execute_committed:
  assumes "execute w io tool h doc params author decl c = (out, c')"
  shows "committed (w_hash w) doc tool params author (commit_of out) (c_dag c) (c_dag c')"
proof -
  obtain r1 c1 where h1: "resolve_handoff w io h params c = (r1, c1)" by fastforce
  have d1: "c_dag c1 = c_dag c" using core3D [OF resolve_handoff_framing(3) [of w io h params c]] by (simp add: h1)
  show ?thesis
  proof (cases r1)
    case (Inr handoff)
    note r1 = Inr
    obtain r2 c2 where h2: "run_harness w io h handoff tool params (ds_json (w_am w) (w_hash w) (c_docs c) doc) c1 = (r2, c2)" by fastforce
    have d2: "c_dag c2 = c_dag c"
      using core3D [OF run_harness_framing(3) [of w io h handoff tool params "ds_json (w_am w) (w_hash w) (c_docs c) doc" c1]] d1 by (simp add: h2)
    show ?thesis
    proof (cases "\<exists>o1. r2 = Inr (Inr o1) \<and> ho_ok o1")
      case True
      then obtain o1 where o1: "r2 = Inr (Inr o1)" "ho_ok o1" by blast
      let ?c3 = "fold (\<lambda>line. trace (''['' @ h @ ''] '' @ line)) (ho_logs o1) c2"
      have d3: "c_dag ?c3 = c_dag c" using core3D [OF traces_framing(3), of "\<lambda>line. ''['' @ h @ ''] '' @ line" "ho_logs o1" c2] d2 by simp
      obtain r4 c4 where a: "apply_output w io h doc tool params author o1 ?c3 = (r4, c4)" by fastforce
      note m = apply_output_committed [OF a]
      show ?thesis
      proof (cases r4)
        case (Inr p)
        have "finish_call w io h doc tool decl o1 (fst p) (snd p) c4 = (out, c')"
          using assms r1 Inr by (cases p) (simp add: execute_def Let_def h1 h2 o1 a del: append_Cons append_Nil)
        then show ?thesis using m d3 Inr finish_call_commit [of w io h doc tool decl o1 "fst p" "snd p" c4] by simp
      next
        case (Inl e)
        have "out = CallError e" "c' = c4"
          using assms r1 Inl by (simp_all add: execute_def Let_def h1 h2 o1 a del: append_Cons append_Nil)
        then show ?thesis using m d3 Inl by simp
      qed
    next
      case False
      have a: "c_dag (audit_doc w io doc ev dt res c2) = c_dag c2" for ev dt res by (rule core3D) (simp add: framing)
      have t: "c_dag (fold (\<lambda>line. trace (f line)) ls c2) = c_dag c2" for f ls by (rule core3D) (simp add: framing)
      have "commit_of out = None \<and> c_dag c' = c_dag c"
      proof (cases "\<exists>m. r2 = Inl m")
        case True
        then have "\<exists>m. out = CallError m" "c' = c2"
          using assms r1 h2 by (auto simp: execute_def Let_def h1 run_harness_def split: option.splits prod.splits sum.splits)
        then show ?thesis using d2 by auto
      next
        case later: False
        then obtain q where q: "r2 = Inr q" by (cases r2) auto
        then have "\<exists>m. out = CallError m" "c_dag c' = c_dag c2"
          using assms r1 False a t by (auto simp: execute_def Let_def h1 h2 split: sum.splits if_splits)
        then show ?thesis using d2 by auto
      qed
      then show ?thesis by simp
    qed
  qed (use assms d1 in \<open>auto simp: execute_def Let_def h1\<close>)
qed

lemma core_tool_no_commit: "commit_of (fst (call_core_tool w io tool params c)) = None"
  by (auto simp: call_core_tool_def find_capability_def task_plan_def task_note_def web_search_def web_fetch_def ask_person_def Let_def
      split: list.split sum.split prod.split egress.split fetch_result.split)

text \<open>What the gate lets a call through on.\<close>

definition let_through :: "('d, 'o, 's) world \<Rightarrow> string \<Rightarrow> string \<Rightarrow> bool \<Rightarrow> tool_decl \<Rightarrow> json \<Rightarrow> author \<Rightarrow> ('d, 's) core \<Rightarrow> bool" where
  "let_through w tool doc enabled decl params author c \<longleftrightarrow> enabled
     \<and> (cl_is_viewer (c_active c) \<longrightarrow> td_kind decl = Read)
     \<and> \<not> isl (check (c_access c) (core_identity c) doc (if td_kind decl = tool_kind.Write then Edit else View))
     \<and> \<not> isl (validate_params (w_text w) (td_params decl) params)
     \<and> (author = ByAgent \<longrightarrow> tool \<in> set (map et_name (as_tools (core_active_set w c)))
          \<and> \<not> (td_confirm decl = Always \<or> td_confirm decl = Destructive \<and> td_kind decl = tool_kind.Write))"

lemma gated_call_committed:
  assumes "gated_call w io tool h doc enabled decl params author c = (out, c')"
  shows "committed (w_hash w) doc tool params author (commit_of out) (c_dag c) (c_dag c') \<and>
    (commit_of out \<noteq> None \<longrightarrow> let_through w tool doc enabled decl params author c)"
proof (cases "let_through w tool doc enabled decl params author c")
  case True
  then have "execute w io tool h doc params author decl c = (out, c')"
    using assms by (auto simp: let_through_def gated_call_def needed_level_def needs_confirm_def isl_def split: sum.splits confirm.splits if_splits)
  then show ?thesis using execute_committed True by blast
next
  case False
  have a: "c_dag (audit_doc w io doc ev dt res c) = c_dag c" for ev dt res by (rule core3D) (simp add: framing)
  have p: "c_dag (snd (ask_person pre k pr tool params c)) = c_dag c" for pre k pr by (rule core3D) (simp add: framing)
  show ?thesis
    using assms False a p by (auto simp: let_through_def gated_call_def refuse_read_only_def needed_level_def needs_confirm_def ask_person_def Let_def
        emit_def emit_to_def split: sum.splits confirm.splits if_splits)
qed

text \<open>
  (C3) The single mutation path.  A call of a tool changes the history only by making one commit, which it names in its outcome: on the
  document of the tool's harness, recorded with the tool, its arguments and who called, and now the head of that document.  It makes
  it only past the whole gate: the harness enabled, a read tool if the account only reads, edit on the document for a write and view
  for a read, arguments that fit the schema, and for the agent a tool of this turn's set that nobody has to confirm.  Every other
  outcome, an error, a refusal or a question, leaves the history as it was.
\<close>

theorem call_commits_past_gate:
  assumes "call_tool w io tool params author c = (out, c')"
  shows "case commit_of out of None \<Rightarrow> c_dag c' = c_dag c
    | Some i \<Rightarrow> tool \<notin> set core_tool_names \<and>
        (\<exists>h h' doc decl c1. owner_of (c_registry c) tool = Some h \<and> reg_get (c_registry c) (in_id h) = Some h' \<and>
           get_tool (in_tools h') tool = Some decl \<and> doc_for w io (in_id h) c = (Some doc, c1) \<and>
           let_through w tool doc (in_enabled h') decl params author c1 \<and>
           one_commit (w_hash w) doc tool params author i (c_dag c) (c_dag c'))"
proof (cases rule: call_tool_cases [of w io tool params author c])
  case (same m)
  then show ?thesis using assms by auto
next
  case refused
  then show ?thesis using assms core3D [OF audit_framing(6), of w io "[]" _ _ _ c] by (auto simp: refuse_read_only_def)
next
  case core
  have "c_dag (snd (call_core_tool w io tool params c)) = c_dag c" by (rule core3D) (simp add: framing)
  then show ?thesis using assms core core_tool_no_commit [of w io tool params c] by simp
next
  case (no_doc h m)
  then show ?thesis using assms core3D [OF doc_for_framing(3) [of w io h c]] by auto
next
  case (gated h d h' decl)
  obtain c1 where df: "doc_for w io (in_id h) c = (Some d, c1)" using gated(2) by (cases "doc_for w io (in_id h) c") simp
  have d1: "c_dag c1 = c_dag c" using core3D [OF doc_for_framing(3) [of w io "in_id h" c]] by (simp add: df)
  have g: "gated_call w io tool (in_id h) d (in_enabled h') decl params author c1 = (out, c')" using assms gated(5) df by simp
  have "tool \<notin> set core_tool_names" if "commit_of out \<noteq> None"
    using assms that core_tool_no_commit [of w io tool params c]
    by (auto simp: call_tool_def refuse_read_only_def split: if_splits)
  then show ?thesis
    using gated_call_committed [OF g] gated(1,3,4) df d1 by (cases "commit_of out") (auto simp: committed_def)
qed

section \<open>An example\<close>

definition example_board :: installed where
  "example_board = \<lparr>in_manifest = example_manifest, in_tools = [example_tool ''board.add'' True], in_dir = [], in_enabled = True,
     in_degraded = None, in_loaded = True, in_last_used = 5, in_idle_unload = 300, in_types = []\<rparr>"

definition gate_world :: "(flat, nat, nat) world" where
  "gate_world = example_world\<lparr>w_am := flat_automerge\<lparr>am_save := (\<lambda>d. (''saved'', d))\<rparr>\<rparr>"

definition gate_io :: io where
  "gate_io = example_io\<lparr>io_call := (\<lambda>_ _ _ _ _. (Inr \<lparr>ho_ok = True, ho_result = JNull, ho_error = None, ho_diff_summary = Some ''one note'',
     ho_doc = Some (JObj [(''note'', JStr ''a'')]), ho_logs = []\<rparr>, None))\<rparr>"

definition gate_core :: "(flat, nat) core" where
  "gate_core = example_core\<lparr>c_registry := [(''io.localspace.whiteboard'', example_board)]\<rparr>"

definition gate_opened :: "(flat, nat) core" where
  "gate_opened = gate_core\<lparr>c_store := put_document ''d1'' (harness_record gate_io ''io.localspace.whiteboard'' ''Whiteboard'' Crdt gate_core) (c_store gate_core),
     c_docs := ds_put_as Crdt ''d1'' (DCrdt [MapNode []]) ds_new,
     c_access := add_document (c_access gate_core) ''d1'' ''ws_ann'' ''Whiteboard'' None\<rparr>"

lemma example_board_fields [simp]:
  "in_id example_board = ''io.localspace.whiteboard''" "in_doc_kind example_board = Crdt" "is_harness (mf_package (in_manifest example_board))"
  "hm_title (mf_harness (in_manifest example_board)) = ''Whiteboard''" "get_tool (in_tools example_board) ''board.add'' = Some (example_tool ''board.add'' True)"
  "in_enabled example_board" "in_loaded example_board"
  by (simp_all add: example_board_def in_id_def in_doc_kind_def example_manifest_def is_harness_def default_contributes_def get_tool_def
      example_tool_def default_resources_def)

lemma gate_open: "doc_for gate_world gate_io ''io.localspace.whiteboard'' gate_core = (Some ''d1'', gate_opened)"
proof -
  have "existing_document_of ''io.localspace.whiteboard'' gate_core = None"
    by (simp add: existing_document_of_def gate_core_def store_documents_def example_document_def)
  moreover have "show_nat 1 = ''1''" by code_simp
  then have "io_doc_id gate_io (length (store_documents (c_store gate_core))) = ''d1''"
    by (simp add: gate_io_def example_io_def gate_core_def store_documents_def)
  ultimately have "harness_document gate_io ''io.localspace.whiteboard'' ''Whiteboard'' Crdt gate_core =
      (''d1'', gate_core\<lparr>c_store := put_document ''d1'' (harness_record gate_io ''io.localspace.whiteboard'' ''Whiteboard'' Crdt gate_core) (c_store gate_core)\<rparr>)"
    by (simp add: harness_document_def Let_def)
  then show ?thesis
    by (simp add: doc_for_def gate_core_def reg_get_def Let_def ds_exists_def ds_new_def restore_from_dag_def head_def dag_empty_def gate_opened_def
        ds_ensure_def gate_world_def flat_automerge_def)
qed

lemma gate_applied:
  assumes "c_docs d = c_docs gate_opened"
  shows "\<exists>k summary c. apply_output gate_world gate_io ''io.localspace.whiteboard'' ''d1'' ''board.add'' (JObj []) ByUser
     \<lparr>ho_ok = True, ho_result = JNull, ho_error = None, ho_diff_summary = Some ''one note'', ho_doc = Some (JObj [(''note'', JStr ''a'')]), ho_logs = []\<rparr> d =
     (Inr (Some k, summary), c)"
proof -
  have "\<exists>ds. apply_json (w_am gate_world) (w_text gate_world) ''d1'' (JObj [(''note'', JStr ''a'')]) (c_docs gate_opened) = (Inr one_added, ds)"
    by (simp add: apply_json_def gate_opened_def ds_put_as_def ds_put_def ds_new_def gate_world_def flat_automerge_def reconcile_map.simps
        reconcile_prop.simps put_json.simps keys_def counted_def current_of_def flat_get_def flat_at_def flat_write_def one_added_def no_changes_def merge_changes_def h_get_put)
  then obtain ds where "apply_json (w_am gate_world) (w_text gate_world) ''d1'' (JObj [(''note'', JStr ''a'')]) (c_docs d) = (Inr one_added, ds)"
    using assms by auto
  then show ?thesis by (simp add: apply_output_def Let_def case_prod_unfold changes_is_empty_def one_added_def)
qed

lemma gate_gated:
  "gated_call gate_world gate_io ''board.add'' ''io.localspace.whiteboard'' ''d1'' True (example_tool ''board.add'' True) (JObj []) ByUser gate_opened =
   execute gate_world gate_io ''board.add'' ''io.localspace.whiteboard'' ''d1'' (JObj []) ByUser (example_tool ''board.add'' True) gate_opened"
proof -
  have code: "list_max [Owner] = Some Owner" "Edit \<le> Owner" by code_simp+
  have "\<not> isl (check (c_access gate_opened) (core_identity gate_opened) ''d1'' Edit)"
    using example_workspaces [of "''ws_ann''"] code
    by (simp add: check_def gate_opened_def gate_core_def add_document_def core_identity_def h_get_put get_workspace_def held_def
        glass_opens_def level_of_def level_for_def ws_personal_def owned_by_def caller_local_def Let_def)
  moreover have "\<not> isl (validate_params (w_text gate_world) (td_params (example_tool ''board.add'' True)) (JObj []))"
    by (simp add: example_tool_def empty_schema_def validate_params_def jget_def)
  moreover have "\<not> cl_is_viewer (c_active gate_opened)" by (simp add: gate_opened_def gate_core_def cl_is_viewer_def caller_local_def)
  ultimately show ?thesis
    by (auto simp: gated_call_def needed_level_def example_tool_def isl_def split: sum.splits)
qed

lemma gate_call: "commit_of (fst (call_tool gate_world gate_io ''board.add'' (JObj []) ByUser gate_core)) \<noteq> None"
proof -
  have "reg_iter (c_registry gate_core) = [example_board]" "reg_get (c_registry gate_core) ''io.localspace.whiteboard'' = Some example_board"
    by (simp_all add: gate_core_def reg_iter_def vals_def reg_get_def)
  then have "call_tool gate_world gate_io ''board.add'' (JObj []) ByUser gate_core =
    execute gate_world gate_io ''board.add'' ''io.localspace.whiteboard'' ''d1'' (JObj []) ByUser (example_tool ''board.add'' True) gate_opened"
    by (simp add: call_tool_def core_tool_names_def owner_of_def gate_open gate_gated)
  moreover have "commit_of (fst (execute gate_world gate_io ''board.add'' ''io.localspace.whiteboard'' ''d1'' (JObj []) ByUser (example_tool ''board.add'' True) gate_opened)) \<noteq> None"
  proof -
    let ?h = "example_board\<lparr>in_last_used := io_now gate_io\<rparr>"
    let ?out = "\<lparr>ho_ok = True, ho_result = JNull, ho_error = None, ho_diff_summary = Some ''one note'', ho_doc = Some (JObj [(''note'', JStr ''a'')]), ho_logs = []\<rparr>"
    let ?d = "set_installed ''io.localspace.whiteboard'' ?h gate_opened"
    have "reg_get (c_registry gate_opened) ''io.localspace.whiteboard'' = Some example_board"
      by (simp add: gate_opened_def gate_core_def reg_get_def)
    then have run: "run_harness gate_world gate_io ''io.localspace.whiteboard'' [] ''board.add'' (JObj []) seen gate_opened = (Inr (Inr ?out), ?d)" for seen
      by (simp add: run_harness_def ensure_runtime_def gate_io_def)
    have "c_docs ?d = c_docs gate_opened" by (simp add: set_installed_def)
    from gate_applied [OF this] obtain k summary c where
      applied: "apply_output gate_world gate_io ''io.localspace.whiteboard'' ''d1'' ''board.add'' (JObj []) ByUser ?out ?d = (Inr (Some k, summary), c)" by blast
    have "resolve_handoff gate_world gate_io ''io.localspace.whiteboard'' (JObj []) gate_opened = (Inr [], gate_opened)"
      by (simp add: resolve_handoff_def jget_def)
    then show ?thesis using run applied by (simp add: execute_def Let_def finish_call_commit(2) jget_def del: append_Cons append_Nil)
  qed
  ultimately show ?thesis by simp
qed

theorem call_commits_past_gate_witness:
  "\<exists>i. commit_of (fst (call_tool gate_world gate_io ''board.add'' (JObj []) ByUser gate_core)) = Some i \<and>
     (\<exists>doc. one_commit (w_hash gate_world) doc ''board.add'' (JObj []) ByUser i dag_empty (c_dag (snd (call_tool gate_world gate_io ''board.add'' (JObj []) ByUser gate_core))))"
proof -
  obtain out c' where call: "call_tool gate_world gate_io ''board.add'' (JObj []) ByUser gate_core = (out, c')" by fastforce
  then obtain i where i: "commit_of out = Some i" using gate_call by auto
  have "c_dag gate_core = dag_empty" by (simp add: gate_core_def)
  then show ?thesis using call_commits_past_gate [OF call] i by (auto simp: call)
qed

end
