(* ===== verification/Presence.thy ===== *)
theory Presence
  imports CoreStart
begin

text \<open>
  Who has which board open (\<open>crates/localspace-core/src/presence.rs\<close>, the request \<open>Presence\<close> of \<open>lib.rs\<close>): the table of
  windows, what an announcement does to it and which places it reports, who is at a place, in the order of arrival.  The
  contents of the table are related to the announcements made: what a window shows is what it said last, unless it has been
  silent for longer than the time to live.
\<close>

section \<open>The table\<close>

datatype place = Place (pl_workspace: string) (pl_board: string)

instantiation place :: linorder
begin

definition less_eq_place :: "place \<Rightarrow> place \<Rightarrow> bool" where
  "less_eq_place a b \<longleftrightarrow> (pl_workspace a, pl_board a) \<le> (pl_workspace b, pl_board b)"

definition less_place :: "place \<Rightarrow> place \<Rightarrow> bool" where
  "less_place a b \<longleftrightarrow> (pl_workspace a, pl_board a) < (pl_workspace b, pl_board b)"

instance
proof
  fix a b c :: place
  show "a < b \<longleftrightarrow> a \<le> b \<and> \<not> b \<le> a" by (auto simp: less_eq_place_def less_place_def)
  show "a \<le> a" by (simp add: less_eq_place_def)
  show "a \<le> b \<Longrightarrow> b \<le> c \<Longrightarrow> a \<le> c" unfolding less_eq_place_def by (rule order_trans)
  show "a \<le> b \<Longrightarrow> b \<le> a \<Longrightarrow> a = b" by (cases a; cases b) (auto simp: less_eq_place_def)
  show "a \<le> b \<or> b \<le> a" unfolding less_eq_place_def by (rule linear)
qed

end

text \<open>Instants are numbers of a clock that does not go back; \<open>saturating_duration_since\<close> is subtraction that stops at zero.\<close>

record entry =
  en_user :: string
  en_place :: place
  en_since :: nat
  en_at :: nat

type_synonym presence = "(string, entry) table"

text \<open>A set of places is a \<open>BTreeSet\<close>: the places in order, each once.\<close>

definition place_insert :: "place \<Rightarrow> place list \<Rightarrow> place list" where
  "place_insert p ps = keys (t_put p () (map (\<lambda>q. (q, ())) ps))"

definition alive :: "nat \<Rightarrow> nat \<Rightarrow> entry \<Rightarrow> bool" where
  "alive now ttl e \<longleftrightarrow> now - en_at e \<le> ttl"

definition sweep :: "nat \<Rightarrow> nat \<Rightarrow> presence \<Rightarrow> place list \<times> presence" where
  "sweep now ttl t =
     (fold place_insert (map en_place (filter (\<lambda>e. \<not> alive now ttl e) (vals t))) [],
      filter (\<lambda>b. alive now ttl (snd b)) t)"

definition announce :: "string \<Rightarrow> string \<Rightarrow> string \<Rightarrow> string option \<Rightarrow> nat \<Rightarrow> nat \<Rightarrow> presence \<Rightarrow> place list \<times> presence" where
  "announce peer user workspace board now ttl t0 =
     (let (changed, t1) = sweep now ttl t0;
          previous = t_get t1 peer;
          t2 = t_del peer t1
      in case board of
           None \<Rightarrow> (case previous of Some old \<Rightarrow> place_insert (en_place old) changed | None \<Rightarrow> changed, t2)
         | Some b \<Rightarrow>
             (let place = Place workspace b;
                  same = (case previous of Some old \<Rightarrow> en_place old = place \<and> en_user old = user | None \<Rightarrow> False);
                  since = (case previous of Some old \<Rightarrow> if same then en_since old else now | None \<Rightarrow> now);
                  changed' = (case previous of Some old \<Rightarrow> if same then changed else place_insert (en_place old) changed | None \<Rightarrow> changed);
                  t3 = h_put peer \<lparr>en_user = user, en_place = place, en_since = since, en_at = now\<rparr> t2
              in (if same then changed' else place_insert place changed', t3)))"

fun users_in_order :: "entry list \<Rightarrow> string list \<Rightarrow> string list" where
  "users_in_order [] us = us"
| "users_in_order (e # es) us = users_in_order es (if en_user e \<in> set us then us else us @ [en_user e])"

definition users_at :: "place \<Rightarrow> presence \<Rightarrow> string list" where
  "users_at place t = users_in_order (sort_key en_since (filter (\<lambda>e. en_place e = place) (vals t))) []"

section \<open>What the table holds\<close>

lemma place_insert_set [simp]: "set (place_insert p ps) = insert p (set ps)"
  by (simp add: place_insert_def keys_t_put) (simp add: keys_def image_image)

lemma place_fold_set [simp]: "set (fold place_insert qs ps) = set qs \<union> set ps"
  by (induction qs arbitrary: ps) auto

lemma sweep_table: "snd (sweep now ttl t) = filter (\<lambda>b. alive now ttl (snd b)) t"
  by (simp add: sweep_def)

lemma sweep_places: "set (fst (sweep now ttl t)) = en_place ` {e \<in> set (vals t). \<not> alive now ttl e}"
  by (simp add: sweep_def)

lemma hashed_filter: "hashed t \<Longrightarrow> hashed (filter P t)"
  by (simp add: hashed_def keys_def distinct_map_filter)

lemma get_filter:
  "hashed t \<Longrightarrow> t_get (filter P t) k = (case t_get t k of Some v \<Rightarrow> if P (k, v) then Some v else None | None \<Rightarrow> None)"
proof (induction t)
  case (Cons b t)
  then have "t_get t (fst b) = None" by (simp add: hashed_def keys_def map_of_eq_None_iff)
  with Cons show ?case by (cases b) (auto simp: hashed_def keys_def split: option.splits)
qed simp

lemma hashed_announce: "hashed t \<Longrightarrow> hashed (snd (announce peer user ws board now ttl t))"
  by (auto simp: announce_def Let_def sweep_table hashed_filter ht.ok_del ht.ok_put case_prod_unfold split: option.split)

text \<open>The table after an announcement, as a map.\<close>

lemma announce_get:
  assumes "hashed t"
  shows "t_get (snd (announce peer user ws board now ttl t)) k =
    (if k = peer
     then map_option (\<lambda>b. \<lparr>en_user = user, en_place = Place ws b,
            en_since = (case t_get t peer of Some old \<Rightarrow> if alive now ttl old \<and> en_place old = Place ws b \<and> en_user old = user
               then en_since old else now | None \<Rightarrow> now), en_at = now\<rparr>) board
     else (case t_get t k of Some e \<Rightarrow> if alive now ttl e then Some e else None | None \<Rightarrow> None))"
  using assms
  by (auto simp: announce_def Let_def sweep_table get_filter ht.get_put ht.get_del case_prod_unfold split: option.split)

text \<open>A window's entry never lies about its times.\<close>

definition times_ok :: "nat \<Rightarrow> presence \<Rightarrow> bool" where
  "times_ok now t \<longleftrightarrow> (\<forall>e \<in> set (vals t). en_since e \<le> en_at e \<and> en_at e \<le> now)"

lemma times_okD: "times_ok now t \<Longrightarrow> t_get t k = Some e \<Longrightarrow> en_since e \<le> en_at e \<and> en_at e \<le> now"
  by (auto simp: times_ok_def vals_def dest!: map_of_SomeD)

lemma times_okI:
  assumes "hashed t" and "\<And>k e. t_get t k = Some e \<Longrightarrow> en_since e \<le> en_at e \<and> en_at e \<le> now"
  shows "times_ok now t"
  using assms by (auto simp: times_ok_def vals_get)

lemma times_ok_announce:
  assumes "hashed t" "times_ok before t" "before \<le> now"
  shows "times_ok now (snd (announce peer user ws board now ttl t))"
proof (rule times_okI [OF hashed_announce [OF assms(1)]])
  fix k e
  assume e: "t_get (snd (announce peer user ws board now ttl t)) k = Some e"
  have old: "en_since e' \<le> en_at e' \<and> en_at e' \<le> now" if "t_get t k' = Some e'" for k' e'
    using times_okD [OF assms(2) that] assms(3) by simp
  show "en_since e \<le> en_at e \<and> en_at e \<le> now"
  proof (cases "k = peer")
    case True
    with e assms(1) obtain b where
      "e = \<lparr>en_user = user, en_place = Place ws b, en_since = (case t_get t peer of Some old \<Rightarrow>
          if alive now ttl old \<and> en_place old = Place ws b \<and> en_user old = user then en_since old else now | None \<Rightarrow> now), en_at = now\<rparr>"
      by (auto simp: announce_get)
    then show ?thesis using old [of peer] by (auto split: option.split)
  next
    case False
    with e assms(1) show ?thesis using old [of k e] by (auto simp: announce_get split: option.splits if_splits)
  qed
qed

section \<open>What is reported\<close>

text \<open>The company of a place: its windows, whose they are and since when they show it.\<close>

definition company :: "place \<Rightarrow> presence \<Rightarrow> string \<Rightarrow> (string \<times> nat) option" where
  "company place t k = (case t_get t k of
     Some e \<Rightarrow> if en_place e = place then Some (en_user e, en_since e) else None | None \<Rightarrow> None)"

lemma announce_places:
  "set (fst (announce peer user ws board now ttl t)) =
     en_place ` {e \<in> set (vals t). \<not> alive now ttl e} \<union>
     (case t_get (snd (sweep now ttl t)) peer of
        None \<Rightarrow> (case board of None \<Rightarrow> {} | Some b \<Rightarrow> {Place ws b})
      | Some old \<Rightarrow> (case board of None \<Rightarrow> {en_place old}
          | Some b \<Rightarrow> if en_place old = Place ws b \<and> en_user old = user then {} else {en_place old, Place ws b}))"
  by (auto simp: announce_def Let_def case_prod_unfold sweep_places split: option.splits)

lemma announce_company:
  assumes "hashed t"
  shows "company P (snd (announce peer user ws board now ttl t)) k =
    (if k = peer
     then (case board of None \<Rightarrow> None | Some b \<Rightarrow> if P \<noteq> Place ws b then None else
        Some (user, case t_get t peer of Some old \<Rightarrow> if alive now ttl old \<and> en_place old = P \<and> en_user old = user
               then en_since old else now | None \<Rightarrow> now))
     else (case t_get t k of Some e \<Rightarrow> if alive now ttl e then company P t k else None | None \<Rightarrow> None))"
  using assms by (auto simp: company_def announce_get split: option.split)

lemma swept_get: "hashed t \<Longrightarrow> t_get (snd (sweep now ttl t)) k =
    (case t_get t k of Some e \<Rightarrow> if alive now ttl e then Some e else None | None \<Rightarrow> None)"
  by (simp add: sweep_table get_filter split: option.split)

lemma one_of: "(\<exists>k. Q k) \<longleftrightarrow> Q p \<or> (\<exists>k. k \<noteq> p \<and> Q k)"
  by (cases "Q p") metis+

lemma one_apart: "(\<exists>k. Q k) \<or> X \<longleftrightarrow> (Q p \<or> X) \<or> (\<exists>k. k \<noteq> p \<and> Q k)"
  by (cases "Q p") metis+

text \<open>
  The places an announcement reports, so that the people there are told anew, are exactly those whose company changed: a
  window came, left, changed hands or was forgotten.  An announcement that repeats the last one in time reports nothing.
\<close>

theorem reported_places_changed:
  assumes "hashed t" and "times_ok now t"
  shows "P \<in> set (fst (announce peer user ws board now ttl t)) \<longleftrightarrow>
    (\<exists>k. company P (snd (announce peer user ws board now ttl t)) k \<noteq> company P t k)"
proof -
  let ?t = "snd (announce peer user ws board now ttl t)"
  have silent: "en_place ` {e \<in> set (vals t). \<not> alive now ttl e} = {P. \<exists>k e. t_get t k = Some e \<and> \<not> alive now ttl e \<and> en_place e = P}"
    using assms(1) by (auto simp: vals_get)
  have other: "company P ?t k \<noteq> company P t k \<longleftrightarrow> (\<exists>e. t_get t k = Some e \<and> \<not> alive now ttl e \<and> en_place e = P)" if "k \<noteq> peer" for k
    unfolding announce_company [OF assms(1)] using that by (auto simp: company_def split: option.split)
  have young: "\<not> alive now ttl e \<Longrightarrow> en_since e \<noteq> now" if "t_get t peer = Some e" for e
    using times_okD [OF assms(2) that] by (auto simp: alive_def)
  have mine: "company P ?t peer \<noteq> company P t peer \<longleftrightarrow>
     (\<exists>e. t_get t peer = Some e \<and> \<not> alive now ttl e \<and> en_place e = P) \<or>
     P \<in> (case t_get (snd (sweep now ttl t)) peer of
        None \<Rightarrow> (case board of None \<Rightarrow> {} | Some b \<Rightarrow> {Place ws b})
      | Some old \<Rightarrow> (case board of None \<Rightarrow> {en_place old}
          | Some b \<Rightarrow> if en_place old = Place ws b \<and> en_user old = user then {} else {en_place old, Place ws b}))"
  proof (cases "t_get t peer")
    case None
    then show ?thesis unfolding announce_company [OF assms(1)] swept_get [OF assms(1)]
      by (auto simp: company_def split: option.split)
  next
    case (Some e)
    then show ?thesis unfolding announce_company [OF assms(1)] swept_get [OF assms(1)]
      using young [OF Some] by (cases "alive now ttl e") (auto simp: company_def split: option.split)
  qed
  let ?Q = "\<lambda>k. \<exists>e. t_get t k = Some e \<and> \<not> alive now ttl e \<and> en_place e = P"
  let ?X = "P \<in> (case t_get (snd (sweep now ttl t)) peer of
        None \<Rightarrow> (case board of None \<Rightarrow> {} | Some b \<Rightarrow> {Place ws b})
      | Some old \<Rightarrow> (case board of None \<Rightarrow> {en_place old}
          | Some b \<Rightarrow> if en_place old = Place ws b \<and> en_user old = user then {} else {en_place old, Place ws b}))"
  have "P \<in> set (fst (announce peer user ws board now ttl t)) \<longleftrightarrow> (\<exists>k. ?Q k) \<or> ?X"
    by (simp only: announce_places silent Un_iff mem_Collect_eq)
  also have "\<dots> \<longleftrightarrow> (?Q peer \<or> ?X) \<or> (\<exists>k. k \<noteq> peer \<and> ?Q k)" by (rule one_apart [of ?Q ?X peer])
  also have "?Q peer \<or> ?X \<longleftrightarrow> company P ?t peer \<noteq> company P t peer" by (rule mine [symmetric])
  also have "(\<exists>k. k \<noteq> peer \<and> ?Q k) \<longleftrightarrow> (\<exists>k. k \<noteq> peer \<and> company P ?t k \<noteq> company P t k)"
    by (simp add: other cong: conj_cong)
  also have "company P ?t peer \<noteq> company P t peer \<or> \<dots> \<longleftrightarrow> (\<exists>k. company P ?t k \<noteq> company P t k)"
    by (rule one_of [symmetric])
  finally show ?thesis .
qed

lemma reported_places_changed_witness:
  "Place ''ws'' ''board'' \<in> set (fst (announce ''w1'' ''anna'' ''ws'' None 20 45
       [(''w1'', \<lparr>en_user = ''anna'', en_place = Place ''ws'' ''board'', en_since = 3, en_at = 12\<rparr>)])) \<longleftrightarrow>
   (\<exists>k. company (Place ''ws'' ''board'') (snd (announce ''w1'' ''anna'' ''ws'' None 20 45
       [(''w1'', \<lparr>en_user = ''anna'', en_place = Place ''ws'' ''board'', en_since = 3, en_at = 12\<rparr>)])) k \<noteq>
     company (Place ''ws'' ''board'') [(''w1'', \<lparr>en_user = ''anna'', en_place = Place ''ws'' ''board'', en_since = 3, en_at = 12\<rparr>)] k)"
  by (rule reported_places_changed) (simp_all add: hashed_def keys_def times_ok_def vals_def)

section \<open>Who is at a place\<close>

lemma users_in_order_set: "set (users_in_order es us) = en_user ` set es \<union> set us"
  by (induction es arbitrary: us) auto

lemma users_in_order_distinct: "distinct us \<Longrightarrow> distinct (users_in_order es us)"
  by (induction es arbitrary: us) auto

lemma users_at_set: "hashed t \<Longrightarrow> set (users_at place t) = {u. \<exists>k s. company place t k = Some (u, s)}"
  by (force simp: users_at_def users_in_order_set vals_get company_def split: option.splits)

text \<open>A person's arrival at a place: the first of the times since when their windows show it.\<close>

definition arrival :: "place \<Rightarrow> presence \<Rightarrow> string \<Rightarrow> nat" where
  "arrival place t u = Min {s. \<exists>k. company place t k = Some (u, s)}"

definition first_since :: "entry list \<Rightarrow> string \<Rightarrow> nat" where
  "first_since es u = Min (en_since ` {e \<in> set es. en_user e = u})"

lemma users_in_order_snoc:
  "users_in_order (es @ [e]) us = (let vs = users_in_order es us in if en_user e \<in> set vs then vs else vs @ [en_user e])"
  by (induction es arbitrary: us) (simp_all add: Let_def)

lemma first_since_snoc:
  assumes "\<forall>x \<in> set es. en_since x \<le> en_since e"
  shows "u \<in> en_user ` set es \<Longrightarrow> first_since (es @ [e]) u = first_since es u"
    and "en_user e \<notin> en_user ` set es \<Longrightarrow> first_since (es @ [e]) (en_user e) = en_since e"
proof -
  assume u: "u \<in> en_user ` set es"
  let ?S = "en_since ` {x \<in> set es. en_user x = u}"
  have ne: "finite ?S" "?S \<noteq> {}" using u by auto
  have "Min ?S \<le> en_since e" using assms Min_in [OF ne] by auto
  then have "Min (insert (en_since e) ?S) = Min ?S" using ne by (simp add: min_absorb2)
  moreover have "en_since ` {x \<in> set (es @ [e]). en_user x = u} = (if en_user e = u then insert (en_since e) ?S else ?S)" by auto
  ultimately show "first_since (es @ [e]) u = first_since es u"
    by (cases "en_user e = u") (simp_all add: first_since_def del: set_append)
next
  assume "en_user e \<notin> en_user ` set es"
  then have "{x \<in> set (es @ [e]). en_user x = en_user e} = {e}" by (auto simp: image_iff)
  then show "first_since (es @ [e]) (en_user e) = en_since e" by (simp add: first_since_def)
qed

lemma users_in_order_sorted:
  "sorted (map en_since es) \<Longrightarrow> sorted (map (first_since es) (users_in_order es []))"
proof (induction es rule: rev_induct)
  case (snoc e es)
  let ?us = "users_in_order es []"
  have le: "\<forall>x \<in> set es. en_since x \<le> en_since e" and IH: "sorted (map (first_since es) ?us)"
    using snoc by (auto simp: sorted_append)
  have us: "set ?us = en_user ` set es" by (simp add: users_in_order_set)
  have same: "map (first_since (es @ [e])) ?us = map (first_since es) ?us"
    using first_since_snoc(1) [OF le] us by simp
  show ?case
  proof (cases "en_user e \<in> set ?us")
    case False
    have "first_since es u \<le> en_since e" if u: "u \<in> set ?us" for u
    proof -
      obtain x where "x \<in> set es" "en_user x = u" using u us by auto
      then have "first_since es u \<le> en_since x" unfolding first_since_def by (intro Min_le) auto
      then show ?thesis using le \<open>x \<in> set es\<close> by force
    qed
    with False show ?thesis using IH us first_since_snoc(2) [OF le]
      by (simp add: users_in_order_snoc Let_def same sorted_append)
  qed (simp add: users_in_order_snoc Let_def same IH)
qed simp

lemma arrival_since:
  "hashed t \<Longrightarrow> arrival place t u = first_since (sort_key en_since (filter (\<lambda>e. en_place e = place) (vals t))) u"
proof -
  assume "hashed t"
  then have "{s. \<exists>k. company place t k = Some (u, s)} = en_since ` {x \<in> set (sort_key en_since (filter (\<lambda>e. en_place e = place) (vals t))). en_user x = u}"
    by (force simp: vals_get company_def split: option.splits)
  then show ?thesis by (simp add: arrival_def first_since_def)
qed

text \<open>The people at a place: each once, those with a window that shows it and nobody else, in the order in which they came.\<close>

theorem users_at_spec:
  assumes "hashed t"
  shows "distinct (users_at place t) \<and> set (users_at place t) = {u. \<exists>k s. company place t k = Some (u, s)} \<and>
    sorted (map (arrival place t) (users_at place t))"
proof -
  let ?es = "sort_key en_since (filter (\<lambda>e. en_place e = place) (vals t))"
  have "arrival place t = first_since ?es" using arrival_since [OF assms] by blast
  then have "sorted (map (arrival place t) (users_at place t))"
    unfolding users_at_def using users_in_order_sorted [of ?es] by (simp only: sorted_sort_key)
  then show ?thesis using users_at_set [OF assms] users_in_order_distinct [of "[]" ?es] by (simp add: users_at_def)
qed

lemma users_at_spec_witness:
  "distinct (users_at (Place ''ws'' ''b'') [(''w1'', \<lparr>en_user = ''anna'', en_place = Place ''ws'' ''b'', en_since = 3, en_at = 12\<rparr>)]) \<and>
   set (users_at (Place ''ws'' ''b'') [(''w1'', \<lparr>en_user = ''anna'', en_place = Place ''ws'' ''b'', en_since = 3, en_at = 12\<rparr>)]) =
     {u. \<exists>k s. company (Place ''ws'' ''b'') [(''w1'', \<lparr>en_user = ''anna'', en_place = Place ''ws'' ''b'', en_since = 3, en_at = 12\<rparr>)] k = Some (u, s)} \<and>
   sorted (map (arrival (Place ''ws'' ''b'') [(''w1'', \<lparr>en_user = ''anna'', en_place = Place ''ws'' ''b'', en_since = 3, en_at = 12\<rparr>)])
     (users_at (Place ''ws'' ''b'') [(''w1'', \<lparr>en_user = ''anna'', en_place = Place ''ws'' ''b'', en_since = 3, en_at = 12\<rparr>)]))"
  by (rule users_at_spec) (simp add: hashed_def keys_def)

section \<open>The table and what was announced\<close>

record announcement =
  an_window :: string
  an_user :: string
  an_workspace :: string
  an_board :: "string option"
  an_now :: nat

definition hear :: "nat \<Rightarrow> announcement \<Rightarrow> presence \<Rightarrow> presence" where
  "hear ttl a t = snd (announce (an_window a) (an_user a) (an_workspace a) (an_board a) (an_now a) ttl t)"

text \<open>What a window said last, if it named a board and has not been silent since for longer than the time to live.\<close>

definition last_word :: "nat \<Rightarrow> announcement list \<Rightarrow> string \<Rightarrow> (string \<times> place \<times> nat) option" where
  "last_word ttl as k = (case List.find (\<lambda>a. an_window a = k) (rev as) of
     None \<Rightarrow> None
   | Some a \<Rightarrow> (case an_board a of
        Some b \<Rightarrow> if an_now (last as) - an_now a \<le> ttl then Some (an_user a, Place (an_workspace a) b, an_now a) else None
      | None \<Rightarrow> None))"

definition shown :: "presence \<Rightarrow> string \<Rightarrow> (string \<times> place \<times> nat) option" where
  "shown t k = map_option (\<lambda>e. (en_user e, en_place e, en_at e)) (t_get t k)"

lemma hashed_hear: "hashed t \<Longrightarrow> hashed (hear ttl a t)"
  by (simp add: hear_def hashed_announce)

lemma hashed_heard: "hashed t \<Longrightarrow> hashed (fold (hear ttl) as t)"
  by (induction as arbitrary: t) (simp_all add: hashed_hear)

lemma shown_hear:
  "hashed t \<Longrightarrow> shown (hear ttl a t) k =
    (if k = an_window a then map_option (\<lambda>b. (an_user a, Place (an_workspace a) b, an_now a)) (an_board a)
     else (case shown t k of Some (u, p, s) \<Rightarrow> if an_now a - s \<le> ttl then Some (u, p, s) else None | None \<Rightarrow> None))"
  by (auto simp: shown_def hear_def announce_get alive_def option.map_comp comp_def split: option.split)

text \<open>
  (C34) The table is what the windows said: for every window it holds the person, the board and the time of the window's last
  announcement, and nothing once the window left or fell silent.
\<close>

theorem table_is_last_word:
  assumes "sorted (map an_now as)"
  shows "shown (fold (hear ttl) as []) k = last_word ttl as k"
  using assms
proof (induction as rule: rev_induct)
  case Nil
  show ?case by (simp add: shown_def last_word_def)
next
  case (snoc a as)
  have h: "hashed (fold (hear ttl) as [])" by (simp add: hashed_heard)
  have IH: "shown (fold (hear ttl) as []) k = last_word ttl as k" using snoc by (simp add: sorted_append)
  show ?case
  proof (cases "k = an_window a")
    case True
    then show ?thesis by (simp add: shown_hear [OF h] last_word_def split: option.split)
  next
    case False
    have "an_now x \<le> an_now (last as) \<and> an_now (last as) \<le> an_now a" if "x \<in> set as" for x
    proof -
      have "as \<noteq> []" using that by auto
      then show ?thesis using that snoc.prems sorted_le_last [of "map an_now as" "an_now x"]
        by (auto simp: sorted_append last_map)
    qed
    then have "an_now a - an_now x \<le> ttl \<Longrightarrow> an_now (last as) - an_now x \<le> ttl" if "x \<in> set as" for x
      using that by fastforce
    moreover have "List.find (\<lambda>a. an_window a = k) (rev as) = Some x \<Longrightarrow> x \<in> set as" for x
      by (auto dest!: find_SomeD)
    ultimately show ?thesis using False
      by (simp add: shown_hear [OF h] IH last_word_def split: option.split)
  qed
qed

lemma table_is_last_word_witness:
  "shown (fold (hear 45) [\<lparr>an_window = ''w1'', an_user = ''anna'', an_workspace = ''ws'', an_board = Some ''b'', an_now = 3\<rparr>,
      \<lparr>an_window = ''w2'', an_user = ''bek'', an_workspace = ''ws'', an_board = Some ''b'', an_now = 60\<rparr>] []) ''w1'' =
   last_word 45 [\<lparr>an_window = ''w1'', an_user = ''anna'', an_workspace = ''ws'', an_board = Some ''b'', an_now = 3\<rparr>,
      \<lparr>an_window = ''w2'', an_user = ''bek'', an_workspace = ''ws'', an_board = Some ''b'', an_now = 60\<rparr>] ''w1''"
  by (rule table_is_last_word) simp

section \<open>The request\<close>

text \<open>
  \<open>Presence\<close>: a window is named by its person and the name the client gives it, joined by a unit separator, which no
  accepted name holds.  Core's field \<open>presence\<close> is passed beside the rest of its state.
\<close>

definition is_alnum :: "char \<Rightarrow> bool" where
  "is_alnum ch \<longleftrightarrow> is_ascii_digit ch \<or> is_ascii_lower ch \<or> is_ascii_upper ch"

definition window_name :: "string \<Rightarrow> bool" where
  "window_name peer \<longleftrightarrow> peer \<noteq> [] \<and> length peer \<le> 64 \<and> list_all is_alnum peer"

definition window_of :: "string \<Rightarrow> string \<Rightarrow> string" where
  "window_of user peer = user @ [char_of (31 :: nat)] @ peer"

definition display_name :: "store \<Rightarrow> string \<Rightarrow> string" where
  "display_name st user = (case get_user st user of
     Some r \<Rightarrow> if trim (u_name r) \<noteq> [] then u_name r else user | None \<Rightarrow> user)"

definition tell_place :: "presence \<Rightarrow> place \<Rightarrow> ('d, 's) core \<Rightarrow> ('d, 's) core" where
  "tell_place t place c =
     (let us = users_at place t;
          ev = PresenceChanged (pl_board place) (map (\<lambda>u. (u, display_name (c_store c) u)) us)
      in fold (\<lambda>u. emit_to (ToUser u) ev) us c)"

definition may_show :: "('d, 'o, 's) world \<Rightarrow> io \<Rightarrow> string option \<Rightarrow> ('d, 's) core \<Rightarrow> (string, unit) result \<times> ('d, 's) core" where
  "may_show w io board c =
     (case board of
        None \<Rightarrow> (Inr (), c)
      | Some harness \<Rightarrow>
          (case doc_for w io harness c of
             (None, c') \<Rightarrow> (Inl (''no harness '' @ tick harness), c')
           | (Some doc, c') \<Rightarrow>
               (case check (c_access c') (core_identity c') doc View of
                  Inl denied \<Rightarrow> (Inl (denied_text denied), c')
                | Inr _ \<Rightarrow> (Inr (), c'))))"

definition presence_request ::
    "('d, 'o, 's) world \<Rightarrow> io \<Rightarrow> nat \<Rightarrow> string option \<Rightarrow> string \<Rightarrow> presence \<times> ('d, 's) core \<Rightarrow> (string, unit) result \<times> presence \<times> ('d, 's) core" where
  "presence_request w io ttl board peer s =
     (let (t, c) = s in
      if \<not> window_name peer then (Inl ''a window is named by one to sixty-four letters or digits'', t, c)
      else
        (case may_show w io board c of
           (Inl e, c') \<Rightarrow> (Inl e, t, c')
         | (Inr _, c') \<Rightarrow>
             (let user = cl_user (c_active c');
                  (changed, t') = announce (window_of user peer) user (us_workspace (c_us c')) board (io_now io) ttl t
              in (Inr (), t', fold (tell_place t') changed c'))))"

text \<open>Two windows are the same only when their persons and their names are.\<close>

lemma window_of_tail:
  assumes "window_name p"
  shows "takeWhile (\<lambda>ch. ch \<noteq> char_of (31 :: nat)) (rev (window_of u p)) = rev p"
    and "drop (Suc (length p)) (rev (window_of u p)) = rev u"
proof -
  have sep: "\<not> is_alnum (char_of (31 :: nat))"
    by (simp add: is_alnum_def is_ascii_digit_def is_ascii_lower_def is_ascii_upper_def)
  have "x \<noteq> char_of (31 :: nat)" if "x \<in> set p" for x
    using assms sep that by (auto simp: window_name_def list_all_iff)
  then show "takeWhile (\<lambda>ch. ch \<noteq> char_of (31 :: nat)) (rev (window_of u p)) = rev p"
    by (auto simp: window_of_def takeWhile_append)
  show "drop (Suc (length p)) (rev (window_of u p)) = rev u" by (simp add: window_of_def)
qed

lemma window_of_inject:
  assumes "window_name p" "window_name q" "window_of u p = window_of v q"
  shows "u = v \<and> p = q"
  using window_of_tail [OF assms(1), of u] window_of_tail [OF assms(2), of v] assms(3) by simp

lemma tell_framing [framing]:
  "frame (fold (\<lambda>u. emit_to (ToUser u) ev) us c) = frame c" "frame (tell_place t place c) = frame c"
proof -
  show *: "frame (fold (\<lambda>u. emit_to (ToUser u) ev) us c) = frame c" for us ev by (induction us arbitrary: c) (simp_all add: framing)
  show "frame (tell_place t place c) = frame c" by (simp add: tell_place_def Let_def *)
qed

lemma may_show_framing [framing]: "frame (snd (may_show w io board c)) = frame c"
  using doc_for_framing [of w io _ c] by (auto simp: may_show_def split: option.split prod.split sum.split) (metis snd_conv)+

text \<open>
  A person moves only their own windows: whatever they ask for, another person's window shows what it showed, unless it had
  been silent for too long; and a window shows a board only to one who may view the board's document.
\<close>

theorem windows_are_ones_own:
  assumes "hashed t" and "presence_request w io ttl board peer (t, c) = (r, t', c')"
  shows "(shown t' k = shown t k) \<or>
     (\<exists>u P s. shown t k = Some (u, P, s) \<and> ttl < io_now io - s \<and> shown t' k = None) \<or>
     (\<forall>v q. window_name q \<and> k = window_of v q \<longrightarrow> v = cl_user (c_active c) \<and> q = peer) \<and>
     (shown t' k = None \<or>
       (\<exists>b doc c1 l. board = Some b \<and> shown t' k = Some (cl_user (c_active c), Place (us_workspace (c_us c)) b, io_now io) \<and>
          doc_for w io b c = (Some doc, c1) \<and> check (c_access c1) (core_identity c1) doc View = Inr l))"
proof (cases "window_name peer \<and> (\<exists>x. fst (may_show w io board c) = Inr x)")
  case True
  then obtain c1 where m: "may_show w io board c = (Inr (), c1)" by (metis old.unit.exhaust prod.collapse)
  have f: "frame c1 = frame c" using may_show_framing [of w io board c] by (simp add: m)
  let ?a = "\<lparr>an_window = window_of (cl_user (c_active c)) peer, an_user = cl_user (c_active c),
    an_workspace = us_workspace (c_us c), an_board = board, an_now = io_now io\<rparr>"
  have t': "t' = hear ttl ?a t"
    using assms(2) True by (auto simp: presence_request_def m hear_def frameD [OF f] Let_def split: prod.splits)
  show ?thesis
  proof (cases "k = window_of (cl_user (c_active c)) peer")
    case mine: True
    have "v = cl_user (c_active c) \<and> q = peer" if "window_name q" "k = window_of v q" for v q
      using window_of_inject [OF that(1), of peer v] True mine that(2) by metis
    moreover have "shown t' k = None \<or> (\<exists>b doc c1 l. board = Some b \<and> shown t' k = Some (cl_user (c_active c), Place (us_workspace (c_us c)) b, io_now io) \<and>
          doc_for w io b c = (Some doc, c1) \<and> check (c_access c1) (core_identity c1) doc View = Inr l)"
      using m by (auto simp: t' mine shown_hear [OF assms(1)] may_show_def split: option.splits prod.splits sum.splits)
    ultimately show ?thesis by blast
  next
    case False
    then show ?thesis by (auto simp: t' shown_hear [OF assms(1)] split: option.split)
  qed
next
  case False
  then have "t' = t" using assms(2)
    by (auto simp: presence_request_def Let_def split: if_splits prod.splits sum.splits)
  then show ?thesis by simp
qed

lemma windows_are_ones_own_witness:
  "shown (fst (snd (presence_request example_world example_io 45 None ''w1''
      ([(window_of ''bob'' ''w1'', \<lparr>en_user = ''bob'', en_place = Place ''ws_team'' ''b'', en_since = 3, en_at = 3\<rparr>)], example_core))))
     (window_of ''bob'' ''w1'') = Some (''bob'', Place ''ws_team'' ''b'', 3)"
proof -
  let ?t = "[(window_of ''bob'' ''w1'', \<lparr>en_user = ''bob'', en_place = Place ''ws_team'' ''b'', en_since = 3, en_at = 3\<rparr>)]"
  have "hashed ?t" by (simp add: hashed_def keys_def)
  note here = windows_are_ones_own [OF this, of example_world example_io 45 None "''w1''" example_core
      "fst (presence_request example_world example_io 45 None ''w1'' (?t, example_core))"
      "fst (snd (presence_request example_world example_io 45 None ''w1'' (?t, example_core)))"
      "snd (snd (presence_request example_world example_io 45 None ''w1'' (?t, example_core)))" "window_of ''bob'' ''w1''"]
  have "window_name ''w1''" by (simp add: window_name_def is_alnum_def is_ascii_digit_def is_ascii_lower_def is_ascii_upper_def code_def)
  then have "\<exists>v q. window_name q \<and> window_of ''bob'' ''w1'' = window_of v q \<and> v \<noteq> ''ann''"
    by (intro exI [of _ "''bob''"] exI [of _ "''w1''"]) simp
  moreover have "shown ?t (window_of ''bob'' ''w1'') = Some (''bob'', Place ''ws_team'' ''b'', 3)" by (simp add: shown_def)
  moreover have "cl_user (c_active example_core) = ''ann''" "io_now example_io = 7" by (simp_all add: caller_local_def example_io_def)
  ultimately show ?thesis using here by auto
qed

end
