(* ===== verification/Switches.thy ===== *)
theory Switches
  imports Database
begin

text \<open>
  The switched features of an installation (\<open>crates/localspace-core/src/features.rs\<close>) and what the shell remembers for a person
  (the requests \<open>GetPreferences\<close> and \<open>SetPreference\<close> of \<open>lib.rs\<close>).  Reading TOML text is the library's: a file is the value it
  denotes.
\<close>

section \<open>Features\<close>

datatype feature = Themes | Translation | Lfm3

primrec feature_rank :: "feature \<Rightarrow> nat" where
  "feature_rank Themes = 0"
| "feature_rank Translation = 1"
| "feature_rank Lfm3 = 2"

instantiation feature :: linorder
begin

definition less_eq_feature :: "feature \<Rightarrow> feature \<Rightarrow> bool" where
  "less_eq_feature f g \<longleftrightarrow> feature_rank f \<le> feature_rank g"

definition less_feature :: "feature \<Rightarrow> feature \<Rightarrow> bool" where
  "less_feature f g \<longleftrightarrow> feature_rank f < feature_rank g"

lemma feature_rank_inject: "feature_rank f = feature_rank g \<longleftrightarrow> f = g"
  by (cases f; cases g) simp_all

instance
  by standard (auto simp: less_eq_feature_def less_feature_def feature_rank_inject [symmetric])

end

definition all_features :: "feature list" where
  "all_features = [Themes, Translation, Lfm3]"

primrec name_of :: "feature \<Rightarrow> string" where
  "name_of Themes = ''themes''"
| "name_of Translation = ''translation''"
| "name_of Lfm3 = ''lfm3''"

definition named :: "string \<Rightarrow> feature option" where
  "named name = List.find (\<lambda>f. name_of f = name) all_features"

text \<open>A TOML value, as far as the file of the channels is looked at.\<close>

datatype toml = TomlStr string | TomlArr "toml list" | TomlTable "(string \<times> toml) list" | TomlOther

fun toml_table :: "toml \<Rightarrow> (string \<times> toml) list option" where
  "toml_table (TomlTable t) = Some t"
| "toml_table _ = None"

fun toml_array :: "toml \<Rightarrow> toml list option" where
  "toml_array (TomlArr xs) = Some xs"
| "toml_array _ = None"

fun feature_list :: "toml list \<Rightarrow> (string, feature list) result" where
  "feature_list [] = Inr []"
| "feature_list (TomlStr n # xs) = (case named n of
     None \<Rightarrow> Inl (''`'' @ n @ ''` is not a feature'')
   | Some f \<Rightarrow> bind_result (feature_list xs) (\<lambda>fs. Inr (f # fs)))"
| "feature_list (x # xs) = Inl ''a feature's name is a string''"

definition defaults :: "(string, (string \<times> toml) list) result \<Rightarrow> string \<Rightarrow> (string, feature list) result" where
  "defaults toml channel =
     bind_result toml (\<lambda>t. case Option.bind (map_of t ''channels'') toml_table of
        None \<Rightarrow> Inl ''features.toml has no [channels]''
      | Some channels \<Rightarrow> (case map_of channels channel of
          None \<Rightarrow> Inl (''features.toml has no channel `'' @ channel @ ''`'')
        | Some l \<Rightarrow> (case toml_array l of
            None \<Rightarrow> Inl (''channel `'' @ channel @ ''` is not a list'')
          | Some names \<Rightarrow> bind_result (feature_list names) (\<lambda>on. Inr (remdups_adj (sort on))))))"

text \<open>The file as checked in.\<close>

definition features_toml :: "(string \<times> toml) list" where
  "features_toml = [(''channels'', TomlTable [(''dev'', TomlArr []), (''preview'', TomlArr [TomlStr ''themes'', TomlStr ''lfm3'']),
     (''stable'', TomlArr [])])]"

definition override_part :: "string \<Rightarrow> feature list \<Rightarrow> feature list" where
  "override_part part on =
     (let (turn_on, name) = (case strip_prefix ''-'' part of
            Some n \<Rightarrow> (False, n)
          | None \<Rightarrow> (True, case strip_prefix ''+'' part of Some n \<Rightarrow> n | None \<Rightarrow> part))
      in case named name of
           None \<Rightarrow> on
         | Some f \<Rightarrow> filter (\<lambda>g. g \<noteq> f) on @ (if turn_on then [f] else []))"

definition overridden :: "feature list \<Rightarrow> string \<Rightarrow> feature list" where
  "overridden on spec = sort (fold override_part (filter (\<lambda>p. p \<noteq> []) (map trim (split_on (\<lambda>ch. ch = CHR '','') spec))) on)"

text \<open>
  A build has its channel and, when it is a development build in whose environment the variable stands, an override.  A
  list of defaults that cannot be read leaves every feature off.
\<close>

record build =
  bd_channel :: string
  bd_override :: "string option"

definition stored_or_default :: "build \<Rightarrow> store \<Rightarrow> feature list" where
  "stored_or_default bd st = (case store_features st of
     Some names \<Rightarrow> remdups_adj (sort (List.map_filter named names))
   | None \<Rightarrow> (case defaults (Inr features_toml) (bd_channel bd) of Inr on \<Rightarrow> on | Inl _ \<Rightarrow> []))"

record features =
  ft_on :: "feature list"
  ft_locked :: "feature list"

definition current_features :: "build \<Rightarrow> store \<Rightarrow> features" where
  "current_features bd st =
     \<lparr>ft_on = (case bd_override bd of Some spec \<Rightarrow> overridden (stored_or_default bd st) spec | None \<Rightarrow> stored_or_default bd st),
      ft_locked = []\<rparr>"

definition switch :: "build \<Rightarrow> feature \<Rightarrow> bool \<Rightarrow> store \<Rightarrow> (string, features) result \<times> store" where
  "switch bd f turn_on st =
     (let now = current_features bd st
      in if f \<in> set (ft_locked now) then (Inl (''`'' @ name_of f @ ''` is set by your organisation''), st)
         else
           (let names = map name_of (sort (filter (\<lambda>g. g \<noteq> f) (ft_on now) @ (if turn_on then [f] else [])));
                st' = set_features names st
            in (Inr (current_features bd st'), st')))"

section \<open>What is on\<close>

lemma named_name_of [simp]: "named (name_of f) = Some f"
  by (cases f) (simp_all add: named_def all_features_def)

lemma map_filter_names [simp]: "List.map_filter named (map name_of fs) = fs"
  by (induction fs) (simp_all add: List.map_filter_simps)

lemma store_features_set [simp]: "store_features (set_features fs st) = Some fs"
  by (simp add: store_features_def set_features_def table_simps)

lemma remdups_adj_sorted_distinct: "sorted xs \<Longrightarrow> distinct (remdups_adj xs) \<and> sorted (remdups_adj xs)" for xs :: "'a::linorder list"
  by (induction xs rule: remdups_adj.induct) (auto simp: less_le)

lemma stored_or_default_ok: "distinct (stored_or_default bd st) \<and> sorted (stored_or_default bd st)"
proof -
  have "distinct on \<and> sorted on" if "defaults toml ch = Inr on" for toml ch and on :: "feature list"
    using that by (auto simp: defaults_def remdups_adj_sorted_distinct split: option.splits sum.splits dest!: bind_result_Inr)
  then show ?thesis by (auto simp: stored_or_default_def remdups_adj_sorted_distinct split: option.split sum.split)
qed

lemma override_part_distinct: "distinct fs \<Longrightarrow> distinct (override_part p fs)"
  by (auto simp: override_part_def Let_def split: option.split prod.split)

lemma fold_override_distinct: "distinct fs \<Longrightarrow> distinct (fold override_part ps fs)"
  by (induction ps arbitrary: fs) (simp_all add: override_part_distinct)

lemma current_ok: "distinct (ft_on (current_features bd st)) \<and> sorted (ft_on (current_features bd st))"
  using stored_or_default_ok [of bd st]
  by (auto simp: current_features_def overridden_def fold_override_distinct split: option.split)

text \<open>Every channel of the file as checked in can be read, and only the preview has features on.\<close>

lemma shipped_channels:
  "defaults (Inr features_toml) ''dev'' = Inr []" "defaults (Inr features_toml) ''stable'' = Inr []"
  "defaults (Inr features_toml) ''preview'' = Inr [Themes, Lfm3]"
  by (simp_all add: defaults_def features_toml_def named_def all_features_def less_eq_feature_def)

text \<open>
  Turning a switch in a build without an override turns that feature and no other, is kept, and leaves each feature listed
  once and in order.
\<close>

theorem switch_turns_one:
  assumes "bd_override bd = None"
  shows "\<exists>now st'. switch bd f turn_on st = (Inr now, st') \<and> now = current_features bd st' \<and> distinct (ft_on now) \<and> sorted (ft_on now) \<and>
    (g \<in> set (ft_on now) \<longleftrightarrow> (if g = f then turn_on else g \<in> set (ft_on (current_features bd st))))"
proof -
  let ?on = "sort (filter (\<lambda>g. g \<noteq> f) (ft_on (current_features bd st)) @ (if turn_on then [f] else []))"
  let ?st = "set_features (map name_of ?on) st"
  have sw: "switch bd f turn_on st = (Inr (current_features bd ?st), ?st)" by (simp add: switch_def current_features_def Let_def)
  have "set (ft_on (current_features bd ?st)) = set ?on" by (simp add: current_features_def stored_or_default_def assms)
  then have g: "g \<in> set (ft_on (current_features bd ?st)) \<longleftrightarrow> (if g = f then turn_on else g \<in> set (ft_on (current_features bd st)))"
    by (cases turn_on; cases "g = f") (simp_all del: set_map)
  show ?thesis using current_ok [of bd ?st] by (intro exI conjI) (rule sw, rule refl, erule conjunct1, erule conjunct2, rule g)
qed

definition stable_build :: build where
  "stable_build = \<lparr>bd_channel = ''stable'', bd_override = None\<rparr>"

lemma switch_turns_one_witness:
  "ft_on (projr (fst (switch stable_build Themes True store_empty))) = [Themes]"
proof -
  have n: "bd_override stable_build = None" by (simp add: stable_build_def)
  let ?now = "projr (fst (switch stable_build Themes True store_empty))"
  have s: "distinct (ft_on ?now)" "g \<in> set (ft_on ?now) \<longleftrightarrow> (if g = Themes then True else g \<in> set (ft_on (current_features stable_build store_empty)))" for g
    using switch_turns_one [OF n, of Themes True store_empty g] by (elim exE conjE; simp only: fst_conv sum.sel)+
  have "ft_on (current_features stable_build store_empty) = []"
    by (simp add: current_features_def stored_or_default_def stable_build_def store_features_def store_empty_def shipped_channels)
  then have "g \<in> set (ft_on ?now) \<longleftrightarrow> g = Themes" for g using s(2) [of g] by (cases "g = Themes") simp_all
  then have "set (ft_on ?now) = {Themes}" by blast
  then have "ft_on ?now = [Themes]" using s(1) by (cases "ft_on ?now" rule: remdups_adj.cases) auto
  then show ?thesis .
qed

text \<open>
  In a development build the override of the environment is written to the database with the first switch that is turned,
  and stays when the variable is gone.
\<close>

lemma override_is_stored:
  "ft_on (current_features \<lparr>bd_channel = ''stable'', bd_override = None\<rparr>
     (snd (switch \<lparr>bd_channel = ''stable'', bd_override = Some ''+themes''\<rparr> Translation True store_empty))) = [Themes, Translation]"
proof -
  have "trim ''+themes'' = ''+themes''" by (simp add: trim_def is_cont_def code_def is_white_byte)
  then have o: "overridden fs ''+themes'' = sort (filter (\<lambda>g. g \<noteq> Themes) fs @ [Themes])" for fs
    by (simp add: overridden_def override_part_def named_def all_features_def)
  show ?thesis
    by (simp add: switch_def current_features_def Let_def o stored_or_default_def shipped_channels store_features_def store_empty_def
        set_features_def named_def all_features_def less_eq_feature_def List.map_filter_simps)
qed

section \<open>What the shell remembers\<close>

definition preference_keys :: "string list" where
  "preference_keys = [''rail_collapsed'', ''language'', ''theme'', ''mode'']"

definition palettes :: "string list" where
  "palettes = [''indigo'', ''violet'', ''teal'']"

definition modes :: "string list" where
  "modes = [''system'', ''light'', ''dark'']"

definition is_ascii_letter :: "char \<Rightarrow> bool" where
  "is_ascii_letter ch \<longleftrightarrow> is_ascii_lower ch \<or> is_ascii_upper ch"

definition language_choice_ok :: "string \<Rightarrow> bool" where
  "language_choice_ok v \<longleftrightarrow> v = ''system'' \<or>
     (v \<noteq> [] \<and> length v \<le> 35 \<and> is_ascii_letter (hd v) \<and>
      list_all (\<lambda>ch. is_ascii_letter ch \<or> is_ascii_digit ch \<or> ch = CHR ''-'') v)"

definition preference_error :: "string \<Rightarrow> string \<Rightarrow> string option" where
  "preference_error k v =
     (if k \<notin> set preference_keys then Some (''`'' @ k @ ''` is not something the shell remembers'')
      else if 200 < char_count v then Some ''a preference is at most 200 characters''
      else if k = ''language'' \<and> \<not> language_choice_ok v then Some (''`'' @ v @ ''` is not a language'')
      else if k = ''theme'' \<and> v \<notin> set palettes then Some (''`'' @ v @ ''` is not a palette'')
      else if k = ''mode'' \<and> v \<notin> set modes then Some (''`'' @ v @ ''` is not light, dark or system'')
      else None)"

definition set_preference_request :: "string \<Rightarrow> string \<Rightarrow> string \<Rightarrow> store \<Rightarrow> (string, (string \<times> string) list) result \<times> store" where
  "set_preference_request user k v st =
     (case preference_error k v of
        Some e \<Rightarrow> (Inl e, st)
      | None \<Rightarrow> (let st' = set_preference user k v st in (Inr (preferences st' user), st')))"

text \<open>What the shell remembers is a map: the bindings of the keys under a person's prefix.\<close>

lemma get_filter_keys: "t_get (filter (\<lambda>b. P (fst b)) t) k = (if P k then t_get t k else None)"
  by (induction t) auto

lemma drop_prefix_inject: "starts_with p a \<Longrightarrow> starts_with p b \<Longrightarrow> drop (length p) a = drop (length p) b \<Longrightarrow> a = b"
  by (auto simp: starts_with_iff)

lemma map_of_dropped:
  assumes "\<And>b. b \<in> set t \<Longrightarrow> starts_with p (fst b)"
  shows "map_of (map (\<lambda>(k, v). (drop (length p) k, f v)) t) k = map_option f (t_get t (p @ k))"
  using assms
proof (induction t)
  case (Cons b t)
  obtain r where "fst b = p @ r" using Cons.prems [of b] by (auto simp: starts_with_iff)
  with Cons show ?case by (cases b) auto
qed simp

lemma preferences_get:
  assumes "ordered (user_state st)"
  shows "map_of (preferences st user) k =
    map_option (\<lambda>v. case v of Text s \<Rightarrow> s | Ledger _ \<Rightarrow> []) (t_get (user_state st) (scoped user [] (''pref:'' @ k)))"
proof -
  obtain p where p: "p = ''pref:''" by simp
  have "scoped user [] p @ k = scoped user [] (p @ k)" by (simp add: scoped_def)
  moreover have "starts_with (scoped user [] p) (scoped user [] p @ k)" by (auto simp: starts_with_iff)
  ultimately show ?thesis
    unfolding preferences_def Let_def range_prefix_eq [OF assms] p [symmetric]
    by (subst map_of_dropped) (simp_all add: get_filter_keys)
qed

text \<open>
  A preference that is accepted is read back, nothing else the shell remembers changes, for the person or for anyone
  else, and what is accepted is one of the known keys with a value of its kind; a refusal changes nothing.
\<close>

theorem preference_read_back:
  assumes "ordered (user_state st)" and "plain user" "plain user'"
    and "set_preference_request user k v st = (r, st')"
  shows "map_of (preferences st' user') k' =
      (if r = Inr (preferences st' user) \<and> user' = user \<and> k' = k then Some v else map_of (preferences st user') k') \<and>
    ((\<exists>e. r = Inl e) \<and> st' = st \<or>
     r = Inr (preferences st' user) \<and> k \<in> set preference_keys \<and> char_count v \<le> 200 \<and>
       (k = ''language'' \<longrightarrow> language_choice_ok v) \<and> (k = ''theme'' \<longrightarrow> v \<in> set palettes) \<and> (k = ''mode'' \<longrightarrow> v \<in> set modes))"
proof (cases "preference_error k v")
  case (Some e)
  then show ?thesis using assms(4) by (auto simp: set_preference_request_def)
next
  case None
  have eq: "scoped user' [] (''pref:'' @ k') = scoped user [] (''pref:'' @ k) \<longleftrightarrow> user' = user \<and> k' = k"
    using scoped_eq_iff [of user' user "[]" "[]"] assms(2,3) by (simp add: plain_def)
  have st': "st' = set_preference user k v st" "r = Inr (preferences st' user)"
    using assms(4) None by (auto simp: set_preference_request_def Let_def)
  have "ordered (user_state st')" using assms(1) by (simp add: st' set_preference_def put_state_def ot.ok_put)
  then have "map_of (preferences st' user') k' = (if user' = user \<and> k' = k then Some v else map_of (preferences st user') k')"
    using assms(1) eq by (simp add: preferences_get st'(1) set_preference_def put_state_def table_simps)
  moreover have "k \<in> set preference_keys \<and> char_count v \<le> 200 \<and> (k = ''language'' \<longrightarrow> language_choice_ok v) \<and>
      (k = ''theme'' \<longrightarrow> v \<in> set palettes) \<and> (k = ''mode'' \<longrightarrow> v \<in> set modes)"
    using None by (simp add: preference_error_def split: if_splits)
  ultimately show ?thesis using st'(2) by simp
qed

lemma preference_read_back_witness:
  "map_of (preferences (snd (set_preference_request ''ann'' ''mode'' ''dark'' store_empty)) ''ann'') ''mode'' = Some ''dark''"
proof -
  have p: "plain ''ann''" and o: "ordered (user_state store_empty)" by (simp_all add: plain_def sep_def char_of_def store_empty_def)
  have "preference_error ''mode'' ''dark'' = None" by code_simp
  then have r: "fst (set_preference_request ''ann'' ''mode'' ''dark'' store_empty) =
      Inr (preferences (snd (set_preference_request ''ann'' ''mode'' ''dark'' store_empty)) ''ann'')"
    by (simp add: set_preference_request_def Let_def)
  show ?thesis using preference_read_back [OF o p p prod.collapse [symmetric], of "''mode''" "''dark''" "''mode''"] r by simp
qed

end
