(* ===== verification/Counting.thy ===== *)
theory Counting
  imports Tools
begin

text \<open>
  What words cost in what the model reads, one character at a time (\<open>prompt.rs\<close>, \<open>Counted\<close>), and what of an attached text file
  the model reads: the words of a text, the part that fits, the shares of several files (\<open>text_file.rs\<close>).  Which characters
  beyond ASCII are numbers is a table of Unicode's, an argument here.
\<close>

section \<open>The running count\<close>

datatype run = NoRun | WordRun | MarksRun | SpacesRun | LinesRun

record running_count =
  ct_done :: nat
  ct_run :: run
  ct_run_bytes :: nat
  ct_run_last :: nat
  ct_run_chars :: nat
  ct_all_bytes :: nat

definition counted_default :: running_count where
  "counted_default = \<lparr>ct_done = 0, ct_run = NoRun, ct_run_bytes = 0, ct_run_last = 0, ct_run_chars = 0, ct_all_bytes = 0\<rparr>"

definition div_ceil :: "nat \<Rightarrow> nat \<Rightarrow> nat" where
  "div_ceil a b = (a + b - 1) div b"

definition is_ascii_punctuation :: "char \<Rightarrow> bool" where
  "is_ascii_punctuation ch \<longleftrightarrow> (33 \<le> code ch \<and> code ch \<le> 47) \<or> (58 \<le> code ch \<and> code ch \<le> 64) \<or>
     (91 \<le> code ch \<and> code ch \<le> 96) \<or> (123 \<le> code ch \<and> code ch \<le> 126)"

definition one_byte :: "(char \<Rightarrow> bool) \<Rightarrow> string \<Rightarrow> bool" where
  "one_byte p c \<longleftrightarrow> (case c of [b] \<Rightarrow> p b | _ \<Rightarrow> False)"

definition run_of :: "string \<Rightarrow> run" where
  "run_of c =
     (if one_byte (\<lambda>b. code b = 10 \<or> code b = 13) c then LinesRun
      else if is_white c then SpacesRun
      else if one_byte is_ascii_punctuation c then MarksRun
      else WordRun)"

text \<open>A digit, and the Uzbek letters U+02BB and U+02BC, are one piece; a digit beyond ASCII is read byte by byte.\<close>

definition uzbek_marks :: "string list" where
  "uzbek_marks = [map char_of [202, 187 :: nat], map char_of [202, 188 :: nat]]"

definition digit_of :: "(string \<Rightarrow> bool) \<Rightarrow> string \<Rightarrow> nat option" where
  "digit_of numeric c =
     (if one_byte is_ascii_digit c \<or> c \<in> set uzbek_marks then Some 1
      else if numeric c then Some (length c) else None)"

definition run_cost :: "running_count \<Rightarrow> nat" where
  "run_cost k = (case ct_run k of
     NoRun \<Rightarrow> 0
   | WordRun \<Rightarrow> div_ceil (ct_run_bytes k) 4
   | MarksRun \<Rightarrow> max (div_ceil (ct_run_bytes k) 4) 1
   | SpacesRun \<Rightarrow> div_ceil (ct_run_bytes k - 1) 4
   | LinesRun \<Rightarrow> max (div_ceil (ct_run_bytes k - 1) 4) 1)"

definition counted_add :: "(string \<Rightarrow> bool) \<Rightarrow> string \<Rightarrow> running_count \<Rightarrow> running_count" where
  "counted_add numeric c k0 =
     (let k = k0\<lparr>ct_all_bytes := ct_all_bytes k0 + length c\<rparr>
      in case digit_of numeric c of
           Some digit \<Rightarrow>
             (let before = (if ct_run k = SpacesRun
                   then (if 1 < ct_run_chars k
                         then max (div_ceil (ct_run_bytes k - ct_run_last k) 20) 1 + ct_run_last k else ct_run_last k)
                   else run_cost k)
              in k\<lparr>ct_done := ct_done k + before + digit, ct_run := NoRun, ct_run_bytes := 0, ct_run_chars := 0\<rparr>)
         | None \<Rightarrow>
             (let joins = run_of c = ct_run k \<or> (ct_run k = SpacesRun \<and> run_of c = LinesRun);
                  k' = (if joins then k else k\<lparr>ct_done := ct_done k + run_cost k, ct_run_bytes := 0, ct_run_chars := 0\<rparr>)
              in k'\<lparr>ct_run := run_of c, ct_run_bytes := ct_run_bytes k' + length c, ct_run_last := length c,
                    ct_run_chars := ct_run_chars k' + 1\<rparr>))"

definition counted_tokens :: "running_count \<Rightarrow> nat" where
  "counted_tokens k = max (ct_done k + run_cost k) (div_ceil (ct_all_bytes k) 4)"

definition tokens_of :: "(string \<Rightarrow> bool) \<Rightarrow> string \<Rightarrow> nat" where
  "tokens_of numeric s = counted_tokens (fold (counted_add numeric) (chars s) counted_default)"

section \<open>Words, and the part that fits\<close>

text \<open>The number a character's bytes encode; the ranges of Chinese and Japanese are by it.\<close>

definition char_value :: "string \<Rightarrow> nat" where
  "char_value c = (case map code c of
     [a] \<Rightarrow> a
   | [a, b] \<Rightarrow> (a - 192) * 64 + (b - 128)
   | [a, b, d] \<Rightarrow> (a - 224) * 4096 + (b - 128) * 64 + (d - 128)
   | [a, b, d, e] \<Rightarrow> (a - 240) * 262144 + (b - 128) * 4096 + (d - 128) * 64 + (e - 128)
   | _ \<Rightarrow> 65533)"

definition is_cjk :: "string \<Rightarrow> bool" where
  "is_cjk c \<longleftrightarrow> (let v = char_value c in (12352 \<le> v \<and> v \<le> 12543) \<or> (13312 \<le> v \<and> v \<le> 19903) \<or>
     (19968 \<le> v \<and> v \<le> 40959) \<or> (63744 \<le> v \<and> v \<le> 64255))"

definition count_words :: "string \<Rightarrow> nat" where
  "count_words s = sum_list (map (\<lambda>w. let n = length (filter is_cjk (chars w)) in if n = 0 then 1 else n) (split_whitespace s))"

record read =
  rd_chars :: nat
  rd_words :: nat
  rd_tokens :: nat

definition read_whole :: "(string \<Rightarrow> bool) \<Rightarrow> string \<Rightarrow> read" where
  "read_whole numeric s = \<lparr>rd_chars = char_count s, rd_words = count_words s, rd_tokens = tokens_of numeric s\<rparr>"

text \<open>The characters before the first one with which the count is over \<open>tokens\<close>.\<close>

fun fitting :: "(string \<Rightarrow> bool) \<Rightarrow> nat \<Rightarrow> running_count \<Rightarrow> string list \<Rightarrow> string list" where
  "fitting numeric tokens k [] = []"
| "fitting numeric tokens k (c # cs) =
     (let k' = counted_add numeric c k
      in if tokens < counted_tokens k' then [] else c # fitting numeric tokens k' cs)"

text \<open>\<open>rfind\<close> of a line feed: the text up to it and with it, and its position.\<close>

definition last_line_break :: "string \<Rightarrow> nat option" where
  "last_line_break s = map_option (\<lambda>i. length s - 1 - i) (position (\<lambda>ch. code ch = 10) (rev s))"

definition cut_at_line :: "string \<Rightarrow> string" where
  "cut_at_line s = (case last_line_break s of
     Some i \<Rightarrow> if length s * 9 \<le> i * 10 then take (i + 1) s else s | None \<Rightarrow> s)"

definition read_within :: "(string \<Rightarrow> bool) \<Rightarrow> string \<Rightarrow> nat \<Rightarrow> read" where
  "read_within numeric s tokens =
     (if tokens_of numeric s \<le> tokens then read_whole numeric s
      else read_whole numeric (cut_at_line (concat (fitting numeric tokens counted_default (chars s)))))"

definition first_chars :: "string \<Rightarrow> nat \<Rightarrow> string" where
  "first_chars s n = take_chars n s"

section \<open>Shares\<close>

text \<open>
  The files by what they need, least first (a stable sort by key); each takes what it needs or an equal part of what is left
  for it and those after it.
\<close>

fun share_loop :: "nat \<Rightarrow> nat list \<Rightarrow> nat list \<Rightarrow> nat list \<Rightarrow> nat list" where
  "share_loop left needs [] shares = shares"
| "share_loop left needs (i # order) shares =
     (let s = min (needs ! i) (left div (length order + 1))
      in share_loop (left - s) needs order (shares[i := s]))"

definition share :: "nat \<Rightarrow> nat list \<Rightarrow> nat list" where
  "share budget needs = share_loop budget needs (sort_key (\<lambda>i. needs ! i) [0..<length needs]) (replicate (length needs) 0)"

section \<open>The shares are fair\<close>

text \<open>What the loop gives out, in its order.\<close>

fun quotas :: "nat \<Rightarrow> nat list \<Rightarrow> nat list" where
  "quotas left [] = []"
| "quotas left (n # ns) = (let s = min n (left div (length ns + 1)) in s # quotas (left - s) ns)"

lemma share_loop_quotas:
  assumes "distinct order" and "set order \<subseteq> {..<length shares}"
  shows "length (share_loop left needs order shares) = length shares \<and>
    map (\<lambda>i. share_loop left needs order shares ! i) order = quotas left (map ((!) needs) order) \<and>
    (\<forall>j. j \<notin> set order \<longrightarrow> share_loop left needs order shares ! j = shares ! j)"
  using assms
proof (induction order arbitrary: left shares)
  case (Cons i order)
  let ?s = "min (needs ! i) (left div (length order + 1))"
  have "i < length shares" "i \<notin> set order" "distinct order" "set order \<subseteq> {..<length (shares[i := ?s])}" using Cons.prems by auto
  with Cons.IH [of "shares[i := ?s]" "left - ?s"] show ?case by (simp add: Let_def)
qed simp

lemma quotas_length [simp]: "length (quotas left ns) = length ns"
  by (induction ns arbitrary: left) (simp_all add: Let_def)

lemma quotas_le: "i < length ns \<Longrightarrow> quotas left ns ! i \<le> ns ! i"
  by (induction ns arbitrary: left i) (auto simp: Let_def nth_Cons split: nat.split)

lemma quotas_sum: "sum_list (quotas left ns) \<le> left"
proof (induction ns arbitrary: left)
  case (Cons n ns)
  let ?s = "min n (left div (length ns + 1))"
  have "?s \<le> left" by (meson div_le_dividend min.coboundedI2)
  then show ?case using Cons [of "left - ?s"] by (simp add: Let_def)
qed simp

text \<open>Once nobody left needs less than an equal part, all of it is given out, in parts that differ by one at most.\<close>

lemma equal_part:
  fixes left n m :: nat
  assumes "left \<le> n * Suc m"
  shows "left - left div Suc m \<le> n * m"
proof (cases "n \<le> left div Suc m")
  case True
  then have "n * Suc m \<le> left" by (metis le_trans mult_le_mono1 times_div_less_eq_dividend mult.commute)
  with assms have l: "left = n * Suc m" by simp
  then have "left div Suc m = n" using nonzero_mult_div_cancel_right [of "Suc m" n] by simp
  with l show ?thesis by simp
next
  case False
  then have "left div Suc m + 1 \<le> n" by simp
  then have "(left div Suc m + 1) * m \<le> n * m" by (rule mult_le_mono1)
  moreover have "left \<le> left div Suc m * Suc m + m"
    using div_mult_mod_eq [of left "Suc m"] mod_less_divisor [of "Suc m" left] by linarith
  ultimately show ?thesis by (simp add: algebra_simps)
qed

lemma later_parts:
  fixes left m :: nat
  assumes "0 < m"
  shows "left div Suc m \<le> (left - left div Suc m) div m"
    and "div_ceil (left - left div Suc m) m \<le> div_ceil left (Suc m)"
proof -
  obtain q r where qr: "left div Suc m = q" "left mod Suc m = r" by blast
  have l: "left = q * Suc m + r" using div_mult_mod_eq [of left "Suc m"] qr by simp
  then have e: "left - q = q * m + r" by simp
  show "left div Suc m \<le> (left - left div Suc m) div m" using assms by (simp add: qr e)
  have r: "r \<le> m" using mod_less_divisor [of "Suc m" left] qr by linarith
  have "div_ceil (left - q) m = q + div_ceil r m"
  proof -
    have "left - q + m - 1 = (r + m - 1) + q * m" using assms e by simp
    then have "div_ceil (left - q) m = ((r + m - 1) + q * m) div m" unfolding div_ceil_def by (rule arg_cong)
    also have "\<dots> = q + div_ceil r m" using assms unfolding div_ceil_def by (intro div_mult_self1) simp
    finally show ?thesis .
  qed
  moreover have "div_ceil left (Suc m) = q + div_ceil r (Suc m)"
  proof -
    have "left + Suc m - 1 = (r + Suc m - 1) + q * Suc m" using l by simp
    then have "div_ceil left (Suc m) = ((r + Suc m - 1) + q * Suc m) div Suc m" unfolding div_ceil_def by (rule arg_cong)
    also have "\<dots> = q + div_ceil r (Suc m)" unfolding div_ceil_def by (intro div_mult_self1) simp
    finally show ?thesis .
  qed
  moreover have "div_ceil r m \<le> div_ceil r (Suc m)"
  proof (cases "r = 0")
    case False
    then have "r + m - 1 < 2 * m" "Suc m \<le> r + Suc m - 1" using r assms by linarith+
    then have "(r + m - 1) div m < 2" "1 \<le> (r + Suc m - 1) div Suc m"
      using assms div_le_mono [of "Suc m" "r + Suc m - 1" "Suc m"] by (simp_all add: less_mult_imp_div_less)
    then show ?thesis unfolding div_ceil_def by linarith
  qed (use assms in \<open>simp add: div_ceil_def\<close>)
  ultimately show "div_ceil (left - left div Suc m) m \<le> div_ceil left (Suc m)" by (simp add: qr)
qed

lemma quotas_equal:
  assumes "ns \<noteq> []" and "\<forall>n \<in> set ns. left \<le> n * length ns"
  shows "sum_list (quotas left ns) = left \<and>
    (\<forall>x \<in> set (quotas left ns). left div length ns \<le> x \<and> x \<le> div_ceil left (length ns))"
  using assms
proof (induction ns arbitrary: left)
  case (Cons n ns)
  let ?q = "left div Suc (length ns)"
  have "left \<le> n * Suc (length ns)" using Cons.prems by simp
  then have "?q \<le> n" by (metis div_le_mono nonzero_mult_div_cancel_right nat.simps(3))
  then have q: "quotas left (n # ns) = ?q # quotas (left - ?q) ns" by (simp add: Let_def min_absorb2)
  have ceil: "?q \<le> div_ceil left (Suc (length ns))" unfolding div_ceil_def by (rule div_le_mono) simp
  show ?case
  proof (cases "ns = []")
    case False
    have "\<forall>n' \<in> set ns. left - ?q \<le> n' * length ns" using Cons.prems(2) equal_part by simp
    from Cons.IH [OF False this]
    have IH: "sum_list (quotas (left - ?q) ns) = left - ?q"
        "\<forall>x \<in> set (quotas (left - ?q) ns). (left - ?q) div length ns \<le> x \<and> x \<le> div_ceil (left - ?q) (length ns)" by auto
    have "0 < length ns" using False by simp
    note lp = later_parts [OF this, of left]
    have "\<forall>x \<in> set (quotas (left - ?q) ns). ?q \<le> x \<and> x \<le> div_ceil left (Suc (length ns))"
      using IH(2) lp by (meson le_trans)
    then show ?thesis using IH(1) q ceil by simp
  qed (use Cons.prems in \<open>simp add: Let_def div_ceil_def\<close>)
qed simp

lemma sorted_later: "sorted (n # ns) \<Longrightarrow> left \<le> n * k \<Longrightarrow> \<forall>n' \<in> set (n # ns). left \<le> n' * k" for n k left :: nat
  by (auto intro: le_trans mult_le_mono1)

lemma quotas_capped:
  assumes "sorted ns" and "i < length ns" and "quotas left ns ! i < ns ! i"
  shows "sum_list (quotas left ns) = left \<and> left div length ns \<le> quotas left ns ! i \<and>
    (\<forall>j < length ns. quotas left ns ! j \<le> quotas left ns ! i + 1)"
  using assms
proof (induction ns arbitrary: left i)
  case (Cons n ns)
  let ?m = "Suc (length ns)" and ?q = "left div Suc (length ns)"
  show ?case
  proof (cases "left < n * ?m")
    case True
    have "\<forall>n' \<in> set (n # ns). left \<le> n' * length (n # ns)" using sorted_later [of n ns left ?m] Cons.prems(1) True by simp
    then have e: "sum_list (quotas left (n # ns)) = left" "\<forall>x \<in> set (quotas left (n # ns)). ?q \<le> x \<and> x \<le> div_ceil left ?m"
      using quotas_equal [of "n # ns" left] by (simp_all del: quotas.simps)
    have c: "div_ceil left ?m \<le> ?q + 1"
    proof -
      have "div_ceil left ?m \<le> (left + ?m) div ?m" unfolding div_ceil_def by (rule div_le_mono) simp
      also have "\<dots> = ?q + 1" using div_add_self2 [of ?m left] by simp
      finally show ?thesis .
    qed
    have "quotas left (n # ns) ! j \<in> set (quotas left (n # ns))" if "j < length (n # ns)" for j
      by (rule nth_mem) (use that in \<open>simp only: quotas_length\<close>)
    then have "?q \<le> quotas left (n # ns) ! i" "\<forall>j < length (n # ns). quotas left (n # ns) ! j \<le> ?q + 1"
      using e(2) c Cons.prems(2) by (blast, meson le_trans)
    then show ?thesis using e(1) by force
  next
    case False
    then have nq: "n \<le> ?q" by (metis div_le_mono nonzero_mult_div_cancel_right nat.simps(3) not_less)
    then have q: "quotas left (n # ns) = n # quotas (left - n) ns" by (simp add: Let_def min_absorb1)
    obtain k where k: "i = Suc k" "k < length ns" "quotas (left - n) ns ! k < ns ! k"
      using Cons.prems(2,3) unfolding q by (cases i) auto
    then have "0 < length ns" by auto
    have IH: "sum_list (quotas (left - n) ns) = left - n" "(left - n) div length ns \<le> quotas (left - n) ns ! k"
        "\<forall>j < length ns. quotas (left - n) ns ! j \<le> quotas (left - n) ns ! k + 1"
      using Cons.IH [of k "left - n"] Cons.prems(1) k by auto
    have "(left - ?q) div length ns \<le> (left - n) div length ns" using nq by (intro div_le_mono) simp
    with later_parts(1) [OF \<open>0 < length ns\<close>, of left] IH(2) have "?q \<le> quotas (left - n) ns ! k" by linarith
    moreover have "n \<le> left" using nq div_le_dividend [of left ?m] by linarith
    ultimately show ?thesis using IH nq by (auto simp: q k(1) nth_Cons split: nat.split)
  qed
qed simp

text \<open>
  The files of a message share what there is fairly: none gets more than it needs or all together more than there is; and
  when one gets less than it needs, everything is given out and no other gets more by more than one token.
\<close>

theorem share_fair:
  assumes "i < length needs"
  shows "length (share budget needs) = length needs \<and> share budget needs ! i \<le> needs ! i \<and> sum_list (share budget needs) \<le> budget \<and>
    (share budget needs ! i < needs ! i \<longrightarrow>
       sum_list (share budget needs) = budget \<and> (\<forall>j < length needs. share budget needs ! j \<le> share budget needs ! i + 1))"
proof -
  let ?o = "sort_key (\<lambda>i. needs ! i) [0..<length needs]"
  let ?ns = "map ((!) needs) ?o"
  have o: "distinct ?o" "set ?o = {..<length needs}" "length ?o = length needs" by auto
  have l: "length (share budget needs) = length needs" "map (\<lambda>i. share budget needs ! i) ?o = quotas budget ?ns"
    using share_loop_quotas [of ?o "replicate (length needs) 0" budget needs] o by (auto simp: share_def)
  have at_o: "share budget needs ! (?o ! k) = quotas budget ?ns ! k" if "k < length needs" for k
    using arg_cong [OF l(2), of "\<lambda>xs. xs ! k"] that o(3) by simp
  have place: "\<exists>k < length needs. ?o ! k = j" if "j < length needs" for j
    using that o by (metis in_set_conv_nth lessThan_iff)
  have sum: "sum_list (share budget needs) = sum_list (quotas budget ?ns)"
  proof -
    have "sum_list (share budget needs) = (\<Sum>i = 0..<length needs. share budget needs ! i)"
      using l(1) by (simp add: sum_list_sum_nth)
    also have "\<dots> = (\<Sum>i \<in> set ?o. share budget needs ! i)" by (simp add: atLeast0LessThan)
    also have "\<dots> = sum_list (map (\<lambda>i. share budget needs ! i) ?o)" using o(1) by (simp add: sum_list_distinct_conv_sum_set)
    finally show ?thesis using l(2) by simp
  qed
  have sorted: "sorted ?ns" by (rule sorted_sort_key)
  obtain k where k: "k < length needs" "?o ! k = i" using place assms by blast
  have nk: "?ns ! k = needs ! i" using k o(3) by simp
  have le: "quotas budget ?ns ! k \<le> needs ! i" using quotas_le [of k ?ns budget] k o(3) nk by simp
  have "sum_list (quotas budget ?ns) = budget \<and> (\<forall>j < length needs. share budget needs ! j \<le> share budget needs ! i + 1)"
    if "share budget needs ! i < needs ! i"
  proof -
    have c: "quotas budget ?ns ! k < ?ns ! k" using that at_o [OF k(1)] k(2) nk by simp
    have "\<forall>j < length ?ns. quotas budget ?ns ! j \<le> quotas budget ?ns ! k + 1" "sum_list (quotas budget ?ns) = budget"
      using quotas_capped [OF sorted _ c] k(1) o(3) by simp_all
    moreover have "share budget needs ! j \<le> share budget needs ! i + 1" if j: "j < length needs" for j
    proof -
      obtain k' where "k' < length needs" "?o ! k' = j" using place [OF j] by blast
      with calculation(1) show ?thesis using at_o [of k'] at_o [OF k(1)] k(2) o(3) by simp
    qed
    ultimately show ?thesis by simp
  qed
  then show ?thesis using l(1) sum quotas_sum [of budget ?ns] le at_o [OF k(1)] k(2) by simp
qed

lemma share_fair_witness:
  "share 100 [80, 10, 50] = [45, 10, 45] \<and> sum_list (share 100 [80, 10, 50]) = 100"
proof -
  have s: "share 100 [80, 10, 50] = [45, 10, 45]" by code_simp
  show ?thesis using share_fair [of 0 "[80, 10, 50]" 100] by (simp add: s)
qed

section \<open>What is read fits\<close>

text \<open>A start of a text, cut between characters, has the characters of that start.\<close>

lemma chars_take: "chars (concat (take n (chars s))) = take n (chars s)"
proof (induction s arbitrary: n rule: chars.induct)
  case (2 b bs)
  show ?case
  proof (cases n)
    case (Suc k)
    let ?rest = "concat (take k (chars (dropWhile is_cont bs)))"
    have hd: "?rest = [] \<or> \<not> is_cont (hd ?rest)"
    proof (cases "dropWhile is_cont bs")
      case (Cons d ds)
      then have "\<not> is_cont d" by (metis hd_dropWhile list.distinct(1) list.sel(1))
      with Cons show ?thesis by (cases k) auto
    next
      case Nil
      then have "?rest = []" by (simp only: chars.simps take_Nil concat.simps)
      then show ?thesis by (rule disjI1)
    qed
    have split: "takeWhile is_cont (takeWhile is_cont bs @ r) = takeWhile is_cont bs \<and> dropWhile is_cont (takeWhile is_cont bs @ r) = r"
      if "r = [] \<or> \<not> is_cont (hd r)" for r
      using that by (cases r) (auto simp: takeWhile_append dropWhile_append dest: set_takeWhileD)
    have "takeWhile is_cont (takeWhile is_cont bs @ ?rest) = takeWhile is_cont bs" "dropWhile is_cont (takeWhile is_cont bs @ ?rest) = ?rest"
      using split [OF hd] by (blast, blast)
    then show ?thesis using 2 [of k] Suc by simp
  qed simp
qed simp

lemma take_chars_all: "take_chars n (concat (take n (chars s))) = concat (take n (chars s))"
  by (simp add: take_chars_def chars_take)

text \<open>In text that is UTF-8 an ASCII character stands alone.\<close>

definition ascii_alone :: "string \<Rightarrow> bool" where
  "ascii_alone s \<longleftrightarrow> list_all (\<lambda>c. code (hd c) < 128 \<longrightarrow> length c = 1) (chars s)"

lemma fitting_take:
  "\<exists>m. fitting numeric n k cs = take m cs \<and> (\<forall>j \<le> m. counted_tokens k \<le> n \<longrightarrow> counted_tokens (fold (counted_add numeric) (take j cs) k) \<le> n)"
proof (induction cs arbitrary: k)
  case (Cons c cs)
  show ?case
  proof (cases "n < counted_tokens (counted_add numeric c k)")
    case True
    then show ?thesis by (intro exI [of _ 0]) simp
  next
    case False
    obtain m where m: "fitting numeric n (counted_add numeric c k) cs = take m cs"
        "\<forall>j \<le> m. counted_tokens (counted_add numeric c k) \<le> n \<longrightarrow>
           counted_tokens (fold (counted_add numeric) (take j cs) (counted_add numeric c k)) \<le> n"
      using Cons by blast
    have "counted_tokens k \<le> n \<longrightarrow> counted_tokens (fold (counted_add numeric) (take j (c # cs)) k) \<le> n" if "j \<le> Suc m" for j
      using m(2) False that by (cases j) (auto simp: not_less)
    with m(1) False show ?thesis by (intro exI [of _ "Suc m"]) (simp add: not_less Let_def)
  qed
qed simp

lemma counted_default_tokens [simp]: "counted_tokens counted_default = 0"
  by (simp add: counted_tokens_def counted_default_def run_cost_def div_ceil_def)

text \<open>A line break is a character of its own, so a text may be cut after it.\<close>

lemma cut_in_concat:
  assumes "list_all (\<lambda>c. c \<noteq> [] \<and> list_all is_cont (tl c) \<and> (code (hd c) < 128 \<longrightarrow> length c = 1)) cs"
    and "i < length (concat cs)" and "code (concat cs ! i) = 10"
  shows "\<exists>j. take (Suc i) (concat cs) = concat (take j cs)"
  using assms
proof (induction cs arbitrary: i)
  case (Cons c cs)
  have no: "code x \<noteq> 10" if "is_cont x" for x using that by (auto simp: is_cont_def)
  show ?case
  proof (cases "i < length c")
    case True
    then have "code (c ! i) = 10" using Cons.prems(3) by (simp add: nth_append)
    moreover have "is_cont (c ! i)" if "0 < i"
      using Cons.prems(1) True that by (cases c) (auto simp: list_all_length nth_Cons split: nat.split)
    ultimately have "i = 0" using no by blast
    moreover have "c \<noteq> []" using Cons.prems(1) by simp
    ultimately have "length c = 1" using Cons.prems(1) \<open>code (c ! i) = 10\<close> by (simp add: hd_conv_nth)
    then show ?thesis using \<open>i = 0\<close> by (intro exI [of _ 1]) simp
  next
    case False
    with Cons.prems have "i - length c < length (concat cs)" "code (concat cs ! (i - length c)) = 10"
      by (auto simp: nth_append)
    with Cons obtain j where "take (Suc (i - length c)) (concat cs) = concat (take j cs)" by force
    with False show ?thesis by (intro exI [of _ "Suc j"]) (simp add: Suc_diff_le)
  qed
qed simp

lemma chars_shape: "list_all (\<lambda>c. c \<noteq> [] \<and> list_all is_cont (tl c)) (chars s)"
  by (induction s rule: chars.induct) (auto simp: list_all_iff dest: set_takeWhileD)

lemma cut_at_line_take:
  assumes "ascii_alone s"
  shows "\<exists>j. cut_at_line (concat (take m (chars s))) = concat (take j (take m (chars s)))"
proof -
  let ?cs = "take m (chars s)"
  have shape: "list_all (\<lambda>c. c \<noteq> [] \<and> list_all is_cont (tl c) \<and> (code (hd c) < 128 \<longrightarrow> length c = 1)) ?cs"
    using assms chars_shape [of s] by (auto simp: ascii_alone_def list_all_iff dest: in_set_takeD)
  show ?thesis
  proof (cases "last_line_break (concat ?cs)")
    case None
    then show ?thesis by (intro exI [of _ m]) (simp add: cut_at_line_def)
  next
    case (Some i)
    then obtain k where k: "position (\<lambda>ch. code ch = 10) (rev (concat ?cs)) = Some k" "i = length (concat ?cs) - 1 - k"
      by (auto simp: last_line_break_def)
    then have "k < length (concat ?cs)" "code (rev (concat ?cs) ! k) = 10" using position_Some [OF k(1)] by (simp_all del: rev_concat)
    then have "i < length (concat ?cs)" "code (concat ?cs ! i) = 10" using k(2) by (simp_all add: rev_nth del: rev_concat)
    from cut_in_concat [OF shape this] obtain j where "take (Suc i) (concat ?cs) = concat (take j ?cs)" by blast
    then show ?thesis
      using Some by (cases "length (concat ?cs) * 9 \<le> i * 10")
        (force simp: cut_at_line_def, intro exI [of _ m], simp add: cut_at_line_def)
  qed
qed

text \<open>
  What a message says the model reads of a file is what it is given: the first characters of the text, as many as are noted,
  are a start of it that costs the tokens noted, no more than allowed, and has the words noted; a text that fits is read whole.
\<close>

theorem read_within_given:
  assumes "ascii_alone s"
  shows "read_within numeric s n = read_whole numeric (first_chars s (rd_chars (read_within numeric s n))) \<and>
    rd_tokens (read_within numeric s n) \<le> n \<and>
    (tokens_of numeric s \<le> n \<longrightarrow> first_chars s (rd_chars (read_within numeric s n)) = s) \<and>
    (\<exists>rest. s = first_chars s (rd_chars (read_within numeric s n)) @ rest)"
proof (cases "tokens_of numeric s \<le> n")
  case True
  then show ?thesis by (simp add: read_within_def read_whole_def first_chars_def take_chars_def char_count_def)
next
  case False
  obtain m where m: "fitting numeric n counted_default (chars s) = take m (chars s)"
      "\<forall>j \<le> m. counted_tokens (fold (counted_add numeric) (take j (chars s)) counted_default) \<le> n"
    using fitting_take [of numeric n counted_default "chars s"] by auto
  obtain j where j: "cut_at_line (concat (take m (chars s))) = concat (take j (take m (chars s)))"
    using cut_at_line_take [OF assms] by blast
  let ?j = "min (min j m) (length (chars s))" and ?p = "concat (take (min j m) (chars s))"
  have p: "?p = concat (take ?j (chars s))" by (metis min.commute min.left_commute min_def_raw order_refl take_all take_all_iff take_take)
  have r: "read_within numeric s n = read_whole numeric ?p" using False m(1) j by (simp add: read_within_def min.commute)
  have c: "chars ?p = take (min j m) (chars s)" by (rule chars_take)
  have k: "first_chars s (char_count ?p) = ?p"
    by (simp add: first_chars_def take_chars_def char_count_def c) (metis min_def nat_le_linear take_all take_take)
  have "tokens_of numeric ?p \<le> n" using m(2) by (simp add: tokens_of_def c)
  moreover have "s = ?p @ concat (drop (min j m) (chars s))" by (metis append_take_drop_id concat_append concat_chars)
  ultimately show ?thesis using False k by (auto simp: r read_whole_def)
qed

lemmas count_ascii = read_within_def read_whole_def tokens_of_def counted_add_def counted_default_def counted_tokens_def run_cost_def
  digit_of_def run_of_def one_byte_def is_ascii_digit_def is_ascii_punctuation_def is_white_byte uzbek_marks_def code_def is_cont_def div_ceil_def

lemma read_within_given_witness:
  "rd_tokens (read_within (\<lambda>_. False) ''hello 12'' 3) \<le> 3 \<and> first_chars ''hello 12'' (rd_chars (read_within (\<lambda>_. False) ''hello 12'' 3)) = ''hello ''"
proof -
  have a: "ascii_alone ''hello 12''" by (simp add: ascii_alone_def is_cont_def code_def)
  have "rd_chars (read_within (\<lambda>_. False) ''hello 12'' 3) = 6"
    by (simp add: count_ascii cut_at_line_def last_line_break_def char_count_def)
  moreover have "first_chars ''hello 12'' 6 = ''hello ''" by (simp add: first_chars_def take_chars_def is_cont_def code_def)
  moreover have "rd_tokens (read_within (\<lambda>_. False) ''hello 12'' 3) \<le> 3" using read_within_given [OF a, of "\<lambda>_. False" 3] by blast
  ultimately show ?thesis by simp
qed

text \<open>
  The part read is not always the longest start that fits: a digit after many spaces makes the count less, so a longer start
  may fit although a shorter one does not.
\<close>

lemma longer_start_fits:
  "rd_chars (read_within (\<lambda>_. False) ''1              1 1'' 4) = 14 \<and>
   tokens_of (\<lambda>_. False) (take_chars 16 ''1              1 1'') = 4"
  by (simp add: count_ascii cut_at_line_def last_line_break_def char_count_def take_chars_def)

end
