(* ===== verification/TextFiles.thy ===== *)
theory TextFiles
  imports Counting
begin

text \<open>
  Reading an attached file into text (\<open>crates/localspace-core/src/text_file.rs\<close>, \<open>decode\<close>): marks, UTF-16 told by its zeros,
  UTF-8 or nearly, Windows-1251; and what of Rust's standard library it rests on: the pieces of bytes that are meant as UTF-8, the
  pairs of UTF-16, the encoding of a scalar value.
\<close>

section \<open>UTF-8 and UTF-16\<close>

definition bytes :: "nat list \<Rightarrow> string" where
  "bytes ns = map char_of ns"

definition encode_utf8 :: "nat \<Rightarrow> string" where
  "encode_utf8 v = bytes
     (if v < 128 then [v]
      else if v < 2048 then [192 + v div 64, 128 + v mod 64]
      else if v < 65536 then [224 + v div 4096, 128 + v div 64 mod 64, 128 + v mod 64]
      else [240 + v div 262144, 128 + v div 4096 mod 64, 128 + v div 64 mod 64, 128 + v mod 64])"

definition scalar_value :: "nat \<Rightarrow> bool" where
  "scalar_value v \<longleftrightarrow> v < 55296 \<or> (57344 \<le> v \<and> v < 1114112)"

definition replacement :: nat where
  "replacement = 65533"

text \<open>
  The next piece of bytes: whether it is a character, and how many bytes it has.  A sequence that goes wrong ends before the
  byte that cannot follow.
\<close>

definition second_ok :: "nat \<Rightarrow> nat \<Rightarrow> bool" where
  "second_ok a b \<longleftrightarrow>
     (if a = 224 then 160 \<le> b \<and> b \<le> 191 else if a = 237 then 128 \<le> b \<and> b \<le> 159
      else if a = 240 then 144 \<le> b \<and> b \<le> 191 else if a = 244 then 128 \<le> b \<and> b \<le> 143
      else 128 \<le> b \<and> b \<le> 191)"

definition cont_byte :: "nat \<Rightarrow> bool" where
  "cont_byte b \<longleftrightarrow> 128 \<le> b \<and> b \<le> 191"

definition seq_len :: "nat \<Rightarrow> nat" where
  "seq_len a = (if a < 128 then 1 else if 194 \<le> a \<and> a \<le> 223 then 2 else if 224 \<le> a \<and> a \<le> 239 then 3
     else if 240 \<le> a \<and> a \<le> 244 then 4 else 0)"

fun conts :: "nat \<Rightarrow> nat \<Rightarrow> nat list \<Rightarrow> bool \<times> nat" where
  "conts 0 got bs = (True, got)"
| "conts (Suc need) got [] = (False, got)"
| "conts (Suc need) got (b # bs) = (if cont_byte b then conts need (got + 1) bs else (False, got))"

fun next_piece :: "nat list \<Rightarrow> bool \<times> nat" where
  "next_piece [] = (False, 0)"
| "next_piece (a # r) =
     (if seq_len a \<le> 1 then (seq_len a = 1, 1)
      else (case r of
          [] \<Rightarrow> (False, 1)
        | b # r' \<Rightarrow> if second_ok a b then conts (seq_len a - 2) 2 r' else (False, 1)))"

lemma conts_length: "got \<le> snd (conts need got bs) \<and> snd (conts need got bs) \<le> got + length bs"
  by (induction need got bs rule: conts.induct) auto

lemma next_piece_pos: "bs \<noteq> [] \<Longrightarrow> 0 < snd (next_piece bs) \<and> snd (next_piece bs) \<le> length bs"
proof (induction bs rule: next_piece.induct)
  case (2 a r)
  show ?case using conts_length [of 2 "seq_len a - 2" "tl r"] by (auto split: list.split)
qed simp

function utf8_pieces :: "string \<Rightarrow> (bool \<times> string) list" where
  "utf8_pieces s = (if s = [] then [] else
     (let (good, n) = next_piece (map code s) in (good, take n s) # utf8_pieces (drop n s)))"
  by pat_completeness auto
termination
proof (relation "measure length")
  fix s x good n
  assume s: "s \<noteq> []" "x = next_piece (map code s)" "(good, n) = x"
  then have "0 < n" using next_piece_pos [of "map code s"] by (metis Nil_is_map_conv snd_conv)
  then show "(drop n s, s) \<in> measure length" using s(1) by simp
qed simp

declare utf8_pieces.simps [simp del]

definition from_utf8_lossy :: "string \<Rightarrow> string" where
  "from_utf8_lossy s = concat (map (\<lambda>(good, p). if good then p else encode_utf8 replacement) (utf8_pieces s))"

definition from_utf8 :: "string \<Rightarrow> string option" where
  "from_utf8 s = (if list_all fst (utf8_pieces s) then Some s else None)"

fun units :: "bool \<Rightarrow> string \<Rightarrow> nat list" where
  "units little (a # b # s) = (if little then code a + 256 * code b else 256 * code a + code b) # units little s"
| "units little _ = []"

definition high_surrogate :: "nat \<Rightarrow> bool" where
  "high_surrogate u \<longleftrightarrow> 55296 \<le> u \<and> u < 56320"

definition low_surrogate :: "nat \<Rightarrow> bool" where
  "low_surrogate u \<longleftrightarrow> 56320 \<le> u \<and> u < 57344"

fun decode_utf16 :: "nat list \<Rightarrow> nat list" where
  "decode_utf16 [] = []"
| "decode_utf16 [u] = [if high_surrogate u \<or> low_surrogate u then replacement else u]"
| "decode_utf16 (u # v # us) =
     (if high_surrogate u
      then (if low_surrogate v then (65536 + (u - 55296) * 1024 + (v - 56320)) # decode_utf16 us
            else replacement # decode_utf16 (v # us))
      else (if low_surrogate u then replacement else u) # decode_utf16 (v # us))"

definition utf16 :: "string \<Rightarrow> bool \<Rightarrow> string" where
  "utf16 s little = concat (map encode_utf8 (decode_utf16 (units little s)))"

section \<open>The guesses\<close>

datatype encoding = Utf8 | Utf16Le | Utf16Be | Windows1251

primrec encoding_name :: "encoding \<Rightarrow> string" where
  "encoding_name Utf8 = ''UTF-8''"
| "encoding_name Utf16Le = ''UTF-16 (little-endian)''"
| "encoding_name Utf16Be = ''UTF-16 (big-endian)''"
| "encoding_name Windows1251 = ''Windows-1251''"

record decoded =
  dc_text :: string
  dc_encoding :: encoding

datatype not_text = EmptyFile | BinaryFile

definition cp1251_high :: "nat list" where
  "cp1251_high = [0x402, 0x403, 0x201A, 0x453, 0x201E, 0x2026, 0x2020, 0x2021, 0x20AC, 0x2030, 0x409, 0x2039, 0x40A, 0x40C, 0x40B, 0x40F,
     0x452, 0x2018, 0x2019, 0x201C, 0x201D, 0x2022, 0x2013, 0x2014, 0x98, 0x2122, 0x459, 0x203A, 0x45A, 0x45C, 0x45B, 0x45F,
     0xA0, 0x40E, 0x45E, 0x408, 0xA4, 0x490, 0xA6, 0xA7, 0x401, 0xA9, 0x404, 0xAB, 0xAC, 0xAD, 0xAE, 0x407,
     0xB0, 0xB1, 0x406, 0x456, 0x491, 0xB5, 0xB6, 0xB7, 0x451, 0x2116, 0x454, 0xBB, 0x458, 0x405, 0x455, 0x457]"

definition windows_1251_char :: "nat \<Rightarrow> nat" where
  "windows_1251_char b = (if b < 128 then b else if b < 192 then cp1251_high ! (b - 128) else 0x410 + (b - 192))"

definition windows_1251 :: "string \<Rightarrow> string" where
  "windows_1251 s = concat (map (\<lambda>ch. encode_utf8 (windows_1251_char (code ch))) s)"

text \<open>Every other byte of a list, the first of them or not.\<close>

fun every_other :: "bool \<Rightarrow> 'a list \<Rightarrow> 'a list" where
  "every_other take_it [] = []"
| "every_other take_it (x # xs) = (if take_it then x # every_other False xs else every_other True xs)"

definition zeros :: "string \<Rightarrow> nat" where
  "zeros s = length (filter (\<lambda>ch. code ch = 0) s)"

definition utf16_without_mark :: "string \<Rightarrow> bool option" where
  "utf16_without_mark s =
     (let sample = take (min (length s) 4096 div 2 * 2) s
      in if length sample < 4 then None
         else (let pairs = length sample div 2;
                   zeros_odd = zeros (every_other False sample);
                   zeros_even = zeros (every_other True sample)
               in if pairs * 6 \<le> zeros_odd * 10 \<and> zeros_even * 10 \<le> pairs then Some True
                  else if pairs * 6 \<le> zeros_even * 10 \<and> zeros_odd * 10 \<le> pairs then Some False
                  else None))"

definition control_char :: "string \<Rightarrow> bool" where
  "control_char c \<longleftrightarrow> (let v = char_value c in v < 32 \<or> (127 \<le> v \<and> v < 160))"

definition allowed_control :: "string \<Rightarrow> bool" where
  "allowed_control c \<longleftrightarrow> char_value c \<in> {9, 10, 13, 12, 27}"

definition looks_like_text :: "string \<Rightarrow> bool" where
  "looks_like_text s \<longleftrightarrow> list_all (\<lambda>ch. code ch \<noteq> 0) s \<and>
     (let cs = take 65536 (chars s)
      in length (filter (\<lambda>c. control_char c \<and> \<not> allowed_control c) cs) * 100 \<le> length cs)"

definition mostly_utf8 :: "string \<Rightarrow> string option" where
  "mostly_utf8 s = (case from_utf8 s of
     Some t \<Rightarrow> Some t
   | None \<Rightarrow>
       (let good = length (filter (\<lambda>(g, p). g \<and> 1 < length p) (utf8_pieces s));
            bad = length (filter (\<lambda>(g, p). \<not> g) (utf8_pieces s))
        in if bad < good then Some (from_utf8_lossy s) else None))"

definition guess :: "string \<Rightarrow> decoded" where
  "guess s =
     (case strip_prefix (bytes [0xEF, 0xBB, 0xBF]) s of
        Some rest \<Rightarrow> \<lparr>dc_text = from_utf8_lossy rest, dc_encoding = Utf8\<rparr>
      | None \<Rightarrow> (case strip_prefix (bytes [0xFF, 0xFE]) s of
        Some rest \<Rightarrow> \<lparr>dc_text = utf16 rest True, dc_encoding = Utf16Le\<rparr>
      | None \<Rightarrow> (case strip_prefix (bytes [0xFE, 0xFF]) s of
        Some rest \<Rightarrow> \<lparr>dc_text = utf16 rest False, dc_encoding = Utf16Be\<rparr>
      | None \<Rightarrow> (case utf16_without_mark s of
        Some little \<Rightarrow> \<lparr>dc_text = utf16 s little, dc_encoding = if little then Utf16Le else Utf16Be\<rparr>
      | None \<Rightarrow> (case mostly_utf8 s of
        Some t \<Rightarrow> \<lparr>dc_text = t, dc_encoding = Utf8\<rparr>
      | None \<Rightarrow> \<lparr>dc_text = windows_1251 s, dc_encoding = Windows1251\<rparr>)))))"

definition decode :: "string \<Rightarrow> (not_text, decoded) result" where
  "decode s =
     (let d = guess s
      in if trim (dc_text d) = [] then Inl EmptyFile
         else if \<not> looks_like_text (dc_text d) then Inl BinaryFile
         else Inr d)"

section \<open>What is read is text\<close>

text \<open>Text: the encodings of scalar values, one after the other.\<close>

definition encoded :: "nat list \<Rightarrow> string" where
  "encoded vs = concat (map encode_utf8 vs)"

definition is_utf8 :: "string \<Rightarrow> bool" where
  "is_utf8 s \<longleftrightarrow> (\<exists>vs. list_all scalar_value vs \<and> s = encoded vs)"

lemma is_utf8_Nil [simp]: "is_utf8 []"
  by (auto simp: is_utf8_def encoded_def intro: exI [of _ "[]"])

lemma is_utf8_append: "is_utf8 a \<Longrightarrow> is_utf8 b \<Longrightarrow> is_utf8 (a @ b)"
  unfolding is_utf8_def encoded_def by (elim exE conjE) (rule_tac x = "vs @ vsa" in exI, simp)

lemma is_utf8_one: "scalar_value v \<Longrightarrow> is_utf8 (encode_utf8 v)"
  unfolding is_utf8_def encoded_def by (rule exI [of _ "[v]"]) simp

lemma is_utf8_concat: "list_all is_utf8 ps \<Longrightarrow> is_utf8 (concat ps)"
  by (induction ps) (simp_all add: is_utf8_append)

text \<open>A piece that is a character is the encoding of a scalar value.\<close>

lemma conts_True: "conts need got bs = (True, n) \<Longrightarrow> n = got + need \<and> need \<le> length bs \<and> (\<forall>b \<in> set (take need bs). cont_byte b)"
  by (induction need got bs rule: conts.induct) (auto split: if_splits)

lemma digits64:
  fixes x y z u :: nat
  assumes "y < 64" "z < 64" "u < 64"
  shows "(x * 64 + y) div 64 = x" "(x * 64 + y) mod 64 = y"
    "(x * 4096 + y * 64 + z) div 4096 = x" "(x * 4096 + y * 64 + z) div 64 = x * 64 + y" "(x * 4096 + y * 64 + z) mod 64 = z"
    "(x * 262144 + y * 4096 + z * 64 + u) div 262144 = x" "(x * 262144 + y * 4096 + z * 64 + u) div 4096 = x * 64 + y"
    "(x * 262144 + y * 4096 + z * 64 + u) div 64 = x * 4096 + y * 64 + z" "(x * 262144 + y * 4096 + z * 64 + u) mod 64 = u"
proof -
  have one: "(v * 64 + w) div 64 = v" "(v * 64 + w) mod 64 = w" if "w < 64" for v w :: nat using that by simp_all
  have three: "x * 4096 + y * 64 + z = (x * 64 + y) * 64 + z" by simp
  have four: "x * 262144 + y * 4096 + z * 64 + u = ((x * 64 + y) * 64 + z) * 64 + u" by simp
  show "(x * 64 + y) div 64 = x" "(x * 64 + y) mod 64 = y" using one assms by blast+
  show t: "(x * 4096 + y * 64 + z) div 64 = x * 64 + y" "(x * 4096 + y * 64 + z) mod 64 = z" unfolding three using one assms by blast+
  show "(x * 4096 + y * 64 + z) div 4096 = x" using div_mult2_eq [of "x * 4096 + y * 64 + z" 64 64] one assms by (simp add: t)
  show f: "(x * 262144 + y * 4096 + z * 64 + u) div 64 = x * 4096 + y * 64 + z" "(x * 262144 + y * 4096 + z * 64 + u) mod 64 = u"
    unfolding three four using one assms by blast+
  show g: "(x * 262144 + y * 4096 + z * 64 + u) div 4096 = x * 64 + y"
    using div_mult2_eq [of "x * 262144 + y * 4096 + z * 64 + u" 64 64] by (simp only: f t) simp
  show "(x * 262144 + y * 4096 + z * 64 + u) div 262144 = x"
    using div_mult2_eq [of "x * 262144 + y * 4096 + z * 64 + u" 4096 64] one assms by (simp only: g)
qed

lemma cont_digit: "cont_byte b \<Longrightarrow> \<exists>y < 64. b = 128 + y"
  by (auto simp: cont_byte_def intro: exI [of _ "b - 128"])

lemma second_digit: "second_ok a b \<Longrightarrow> \<exists>y < 64. b = 128 + y"
  by (auto simp: second_ok_def split: if_splits intro: exI [of _ "b - 128"])

lemma encode_two:
  assumes "194 \<le> a" "a \<le> 223" "cont_byte b"
  shows "\<exists>v. scalar_value v \<and> encode_utf8 v = bytes [a, b]"
proof -
  obtain x where x: "a = 192 + x" "2 \<le> x" "x < 32" using assms(1,2) by (intro that [of "a - 192"]) simp_all
  obtain y where y: "y < 64" "b = 128 + y" using cont_digit assms(3) by blast
  have "128 \<le> x * 64 + y" "x * 64 + y < 2048" using x y by simp_all
  then have "scalar_value (x * 64 + y) \<and> encode_utf8 (x * 64 + y) = bytes [a, b]"
    using digits64(1,2) [of y 0 0 x] x(1) y by (simp add: encode_utf8_def scalar_value_def)
  then show ?thesis by blast
qed

lemma encode_three:
  assumes "224 \<le> a" "a \<le> 239" "second_ok a b" "cont_byte d"
  shows "\<exists>v. scalar_value v \<and> encode_utf8 v = bytes [a, b, d]"
proof -
  obtain x where x: "a = 224 + x" "x < 16" using assms(1,2) by (intro that [of "a - 224"]) simp_all
  obtain y where y: "y < 64" "b = 128 + y" using second_digit assms(3) by blast
  obtain z where z: "z < 64" "d = 128 + z" using cont_digit assms(4) by blast
  let ?v = "x * 4096 + y * 64 + z"
  have "x = 0 \<Longrightarrow> 32 \<le> y" "x = 13 \<Longrightarrow> y < 32" using assms(3) x(1) y(2) by (auto simp: second_ok_def split: if_splits)
  then have r: "2048 \<le> ?v" "?v < 65536" "scalar_value ?v" using x(2) y(1) z(1) by (cases "x = 0"; cases "x = 13"; simp add: scalar_value_def; arith)+
  note d = digits64 [OF y(1) z(1) y(1), of x]
  have "encode_utf8 ?v = bytes [224 + x, 128 + (x * 64 + y) mod 64, 128 + z]"
    using r by (simp only: encode_utf8_def d) simp
  then show ?thesis using r(3) x(1) y(2) z(2) d(2) by auto
qed

lemma encode_four:
  assumes "240 \<le> a" "a \<le> 244" "second_ok a b" "cont_byte d" "cont_byte e"
  shows "\<exists>v. scalar_value v \<and> encode_utf8 v = bytes [a, b, d, e]"
proof -
  obtain x where x: "a = 240 + x" "x \<le> 4" using assms(1,2) by (intro that [of "a - 240"]) simp_all
  obtain y where y: "y < 64" "b = 128 + y" using second_digit assms(3) by blast
  obtain z where z: "z < 64" "d = 128 + z" using cont_digit assms(4) by blast
  obtain u where u: "u < 64" "e = 128 + u" using cont_digit assms(5) by blast
  let ?v = "x * 262144 + y * 4096 + z * 64 + u"
  have "x = 0 \<Longrightarrow> 16 \<le> y" "x = 4 \<Longrightarrow> y < 16" using assms(3) x(1) y(2) by (auto simp: second_ok_def split: if_splits)
  then have r: "65536 \<le> ?v" "?v < 1114112" using x(2) y(1) z(1) u(1) by (cases "x = 0"; cases "x = 4"; simp; arith)+
  note d = digits64 [OF y(1) z(1) u(1), of x]
  have "encode_utf8 ?v = bytes [240 + x, 128 + (x * 64 + y) mod 64, 128 + (x * 4096 + y * 64 + z) mod 64, 128 + u]"
    using r by (simp only: encode_utf8_def d) simp
  moreover have "scalar_value ?v" using r by (simp add: scalar_value_def)
  ultimately show ?thesis using x(1) y(2) z(2) u(2) d(2,5) by auto
qed

lemma seq_len_cases:
  "seq_len a = 1 \<longleftrightarrow> a < 128"
  "\<not> seq_len a \<le> 1 \<Longrightarrow> (194 \<le> a \<and> a \<le> 223 \<and> seq_len a = 2) \<or> (224 \<le> a \<and> a \<le> 239 \<and> seq_len a = 3) \<or> (240 \<le> a \<and> a \<le> 244 \<and> seq_len a = 4)"
proof -
  show "seq_len a = 1 \<longleftrightarrow> a < 128" unfolding seq_len_def by presburger
  show "\<not> seq_len a \<le> 1 \<Longrightarrow> (194 \<le> a \<and> a \<le> 223 \<and> seq_len a = 2) \<or> (224 \<le> a \<and> a \<le> 239 \<and> seq_len a = 3) \<or> (240 \<le> a \<and> a \<le> 244 \<and> seq_len a = 4)"
    unfolding seq_len_def by presburger
qed

lemma good_piece:
  assumes "next_piece bs = (True, n)"
  shows "\<exists>v. scalar_value v \<and> encode_utf8 v = bytes (take n bs)"
proof (cases bs)
  case (Cons a r)
  show ?thesis
  proof (cases "seq_len a \<le> 1")
    case True
    then have "seq_len a = 1" "n = 1" using assms Cons by simp_all
    then have "a < 128" using seq_len_cases(1) by blast
    then show ?thesis using \<open>n = 1\<close> Cons by (intro exI [of _ a]) (simp add: scalar_value_def encode_utf8_def)
  next
    case False
    then obtain b r' where r: "r = b # r'" and s: "second_ok a b" and c: "conts (seq_len a - 2) 2 r' = (True, n)"
      using assms Cons by (auto split: list.splits if_splits)
    note ct = conts_True [OF c]
    consider (two) "194 \<le> a" "a \<le> 223" "seq_len a = 2" | (three) "224 \<le> a" "a \<le> 239" "seq_len a = 3"
      | (four) "240 \<le> a" "a \<le> 244" "seq_len a = 4"
      using seq_len_cases(2) [OF False] by blast
    then show ?thesis
    proof cases
      case two
      then have "cont_byte b" "n = 2" using s ct by (auto simp: second_ok_def cont_byte_def)
      with encode_two [OF two(1,2)] show ?thesis using Cons r by auto
    next
      case three
      then obtain d r'' where "r' = d # r''" "cont_byte d" "n = 3" using ct by (cases r') auto
      with encode_three [OF three(1,2) s] show ?thesis using Cons r by auto
    next
      case four
      then obtain d e r'' where "r' = d # e # r''" "cont_byte d" "cont_byte e" "n = 4" using ct by (cases r' rule: remdups_adj.cases) auto
      with encode_four [OF four(1,2) s] show ?thesis using Cons r by auto
    qed
  qed
qed (use assms in simp)

lemma bytes_code [simp]: "bytes (map code s) = s"
  by (induction s) (simp_all add: bytes_def code_def)

lemma pieces_good: "(True, p) \<in> set (utf8_pieces s) \<Longrightarrow> is_utf8 p"
proof (induction s rule: utf8_pieces.induct)
  case (1 s)
  obtain g n where n: "next_piece (map code s) = (g, n)" by fastforce
  have p: "is_utf8 (take n s)" if "g"
  proof -
    have "next_piece (map code s) = (True, n)" using n that by simp
    from good_piece [OF this] show ?thesis by (metis bytes_code is_utf8_one take_map)
  qed
  show ?case
  proof (cases "s = []")
    case False
    then have "utf8_pieces s = (g, take n s) # utf8_pieces (drop n s)" by (subst utf8_pieces.simps) (simp add: n)
    with 1 False n p show ?thesis by auto
  qed (use 1 in \<open>simp add: utf8_pieces.simps\<close>)
qed

lemma pieces_concat: "concat (map snd (utf8_pieces s)) = s"
proof (induction s rule: utf8_pieces.induct)
  case (1 s)
  then show ?case by (subst utf8_pieces.simps) (auto split: prod.split)
qed

lemma lossy_utf8: "is_utf8 (from_utf8_lossy s)"
  unfolding from_utf8_lossy_def
  by (rule is_utf8_concat) (auto simp: list_all_iff pieces_good is_utf8_one scalar_value_def replacement_def)

lemma from_utf8_utf8: "from_utf8 s = Some t \<Longrightarrow> t = s \<and> is_utf8 s"
proof -
  assume a: "from_utf8 s = Some t"
  then have t: "t = s" "list_all fst (utf8_pieces s)" by (auto simp: from_utf8_def split: if_splits)
  then have "list_all is_utf8 (map snd (utf8_pieces s))" using pieces_good by (fastforce simp: list_all_iff)
  from is_utf8_concat [OF this] show ?thesis using t(1) by (simp add: pieces_concat)
qed

lemma code_less: "code ch < 256"
  by (simp add: code_def)

lemma units_less: "list_all (\<lambda>u. u < 65536) (units little s)"
proof (induction little s rule: units.induct)
  case (1 little a b s)
  then show ?case using code_less [of a] code_less [of b] by auto
qed simp_all

lemma utf16_scalars: "list_all (\<lambda>u. u < 65536) us \<Longrightarrow> list_all scalar_value (decode_utf16 us)"
  by (induction us rule: decode_utf16.induct)
     (auto simp: scalar_value_def high_surrogate_def low_surrogate_def replacement_def)

lemma cp1251_scalar: "scalar_value (windows_1251_char (code ch))"
proof -
  have "list_all scalar_value cp1251_high" "length cp1251_high = 64" by (simp_all add: cp1251_high_def scalar_value_def)
  then have "i < 64 \<Longrightarrow> scalar_value (cp1251_high ! i)" for i by (simp add: list_all_length)
  then show ?thesis using code_less [of ch] by (auto simp: windows_1251_char_def scalar_value_def)
qed

lemma guess_utf8: "is_utf8 (dc_text (guess s))"
proof -
  have u16: "is_utf8 (utf16 t little)" for t little
    using utf16_scalars [OF units_less] by (auto simp: utf16_def is_utf8_def encoded_def)
  have cp: "is_utf8 (windows_1251 t)" for t
    unfolding windows_1251_def by (rule is_utf8_concat) (auto simp: list_all_iff is_utf8_one cp1251_scalar)
  have "is_utf8 t" if "mostly_utf8 s = Some t" for t
    using that from_utf8_utf8 [of s] lossy_utf8 [of s] by (auto simp: mostly_utf8_def Let_def split: option.splits if_splits)
  then show ?thesis by (auto simp: guess_def lossy_utf8 u16 cp split: option.split)
qed

text \<open>The characters of an encoded text are its encoded values; an ASCII character stands alone in it.\<close>

lemma encode_shape:
  assumes "scalar_value v"
  shows "\<exists>b bs. encode_utf8 v = b # bs \<and> list_all is_cont bs \<and> \<not> is_cont b \<and> (code b < 128 \<longrightarrow> bs = []) \<and> (code b = 0 \<longleftrightarrow> v = 0)"
proof -
  have c: "is_cont (char_of (128 + k mod 64))" for k :: nat by (simp add: is_cont_def)
  consider "v < 128" | "128 \<le> v" "v < 2048" | "2048 \<le> v" "v < 65536" | "65536 \<le> v" "v < 1114112"
    using assms by (fastforce simp: scalar_value_def)
  then show ?thesis
  proof cases
    case 1
    then show ?thesis by (simp add: encode_utf8_def bytes_def is_cont_def)
  next
    case 2
    then have "v div 64 < 32" "2 \<le> v div 64" by auto
    with 2 show ?thesis using c by (simp add: encode_utf8_def bytes_def is_cont_def)
  next
    case 3
    then have "v div 4096 < 16" by auto
    with 3 show ?thesis using c by (simp add: encode_utf8_def bytes_def is_cont_def)
  next
    case 4
    then have "v div 262144 < 5" by auto
    with 4 show ?thesis using c by (simp add: encode_utf8_def bytes_def is_cont_def)
  qed
qed

lemma chars_encoded: "list_all scalar_value vs \<Longrightarrow> chars (encoded vs) = map encode_utf8 vs"
proof (induction vs)
  case (Cons v vs)
  obtain b bs where e: "encode_utf8 v = b # bs" "list_all is_cont bs" using encode_shape [of v] Cons.prems by auto
  have hd: "encoded vs = [] \<or> \<not> is_cont (hd (encoded vs))"
    using Cons.prems by (cases vs) (use encode_shape in \<open>fastforce simp: encoded_def\<close>)+
  have "takeWhile is_cont (bs @ encoded vs) = bs" "dropWhile is_cont (bs @ encoded vs) = encoded vs"
    using e(2) hd by (cases "encoded vs"; simp add: list_all_iff takeWhile_append dropWhile_append)+
  then show ?case using Cons e by (simp add: encoded_def)
qed (simp add: encoded_def)

lemma utf8_ascii_alone: "is_utf8 s \<Longrightarrow> ascii_alone s"
proof -
  assume "is_utf8 s"
  then obtain vs where vs: "list_all scalar_value vs" "s = encoded vs" by (auto simp: is_utf8_def)
  have "code (hd (encode_utf8 v)) < 128 \<longrightarrow> length (encode_utf8 v) = 1" if "v \<in> set vs" for v
    using encode_shape [of v] vs(1) that by (auto simp: list_all_iff)
  then show ?thesis unfolding ascii_alone_def vs(2) chars_encoded [OF vs(1)] by (auto simp: list_all_iff)
qed

lemma rebuild64:
  fixes v :: nat
  shows "v div 4096 * 4096 + v div 64 mod 64 * 64 + v mod 64 = v"
    and "v div 262144 * 262144 + v div 4096 mod 64 * 4096 + v div 64 mod 64 * 64 + v mod 64 = v"
proof -
  have d: "v div 4096 = v div 64 div 64" "v div 262144 = v div 64 div 64 div 64"
    using div_mult2_eq [of v 64 64] div_mult2_eq [of v 4096 64] by simp_all
  have m: "n div 64 * 64 + n mod 64 = n" for n :: nat by (rule div_mult_mod_eq)
  show "v div 4096 * 4096 + v div 64 mod 64 * 64 + v mod 64 = v"
    using m [of v] m [of "v div 64"] unfolding d by linarith
  show "v div 262144 * 262144 + v div 4096 mod 64 * 4096 + v div 64 mod 64 * 64 + v mod 64 = v"
    using m [of v] m [of "v div 64"] m [of "v div 64 div 64"] unfolding d by linarith
qed

lemma char_value_encode:
  assumes "scalar_value v"
  shows "char_value (encode_utf8 v) = v"
proof -
  consider "v < 128" | "128 \<le> v" "v < 2048" | "2048 \<le> v" "v < 65536" | "65536 \<le> v" "v < 1114112"
    using assms by (fastforce simp: scalar_value_def)
  then show ?thesis
  proof cases
    case 1
    then show ?thesis by (simp add: encode_utf8_def bytes_def char_value_def)
  next
    case 2
    then have "v div 64 < 32" by auto
    with 2 show ?thesis by (simp add: encode_utf8_def bytes_def char_value_def)
  next
    case 3
    then have "v div 4096 < 16" by auto
    then show ?thesis using 3 rebuild64(1) [of v] by (simp add: encode_utf8_def bytes_def char_value_def)
  next
    case 4
    then have "v div 262144 < 5" by auto
    then show ?thesis using 4 rebuild64(2) [of v] by (simp add: encode_utf8_def bytes_def char_value_def)
  qed
qed

text \<open>
  Whatever the bytes of a file, what is taken from it is text: a sequence of Unicode's scalar values, with no zero among them
  and something in it that is not white space, of which at most one character in a hundred is a control character that has no
  place in text.
\<close>

theorem decoded_is_text:
  assumes "decode s = Inr d"
  shows "\<exists>vs. list_all scalar_value vs \<and> dc_text d = encoded vs \<and> 0 \<notin> set vs \<and> trim (dc_text d) \<noteq> [] \<and>
    (let cs = take 65536 vs in length (filter (\<lambda>v. (v < 32 \<or> (127 \<le> v \<and> v < 160)) \<and> v \<notin> {9, 10, 12, 13, 27}) cs) * 100 \<le> length cs)"
proof -
  have d: "d = guess s" "trim (dc_text d) \<noteq> []" "looks_like_text (dc_text d)"
    using assms by (auto simp: decode_def Let_def split: if_splits)
  obtain vs where vs: "list_all scalar_value vs" "dc_text d = encoded vs" using guess_utf8 [of s] by (auto simp: d(1) is_utf8_def)
  have "\<exists>b \<in> set (encoded vs). code b = 0" if "0 \<in> set vs"
    using that by (auto simp: encoded_def encode_utf8_def bytes_def intro!: bexI [of _ 0])
  moreover have "\<forall>b \<in> set (encoded vs). code b \<noteq> 0" using d(3) unfolding looks_like_text_def vs(2) list_all_iff by (rule conjunct1)
  ultimately have z: "0 \<notin> set vs" by blast
  have same: "filter (\<lambda>c. control_char c \<and> \<not> allowed_control c) (map encode_utf8 us) =
      map encode_utf8 (filter (\<lambda>v. (v < 32 \<or> (127 \<le> v \<and> v < 160)) \<and> v \<notin> {9, 10, 12, 13, 27}) us)" if "list_all scalar_value us" for us
    using that by (induction us) (auto simp: control_char_def allowed_control_def char_value_encode Let_def)
  have "list_all scalar_value (take 65536 vs)" using vs(1) by (auto simp: list_all_iff dest: in_set_takeD)
  from same [OF this] have "length (filter (\<lambda>v. (v < 32 \<or> (127 \<le> v \<and> v < 160)) \<and> v \<notin> {9, 10, 12, 13, 27}) (take 65536 vs)) * 100 \<le> length (take 65536 vs)"
    using d(3) by (simp only: looks_like_text_def vs(2) chars_encoded [OF vs(1)] take_map Let_def length_map)
  then show ?thesis using vs z d(2) unfolding Let_def by blast
qed

lemma char_of_eq: "n < 256 \<Longrightarrow> char_of n = c \<longleftrightarrow> code c = n"
  using eq_char_of [of n c] by auto

lemma decoded_is_text_witness:
  "decode ''Hi'' = Inr \<lparr>dc_text = ''Hi'', dc_encoding = Utf8\<rparr> \<and> (\<exists>vs. list_all scalar_value vs \<and> 0 \<notin> set vs \<and> ''Hi'' = encoded vs)"
proof -
  have p: "utf8_pieces ''Hi'' = [(True, ''H''), (True, ''i'')]"
    by (subst utf8_pieces.simps, simp add: code_def seq_len_def)+
  have "guess ''Hi'' = \<lparr>dc_text = ''Hi'', dc_encoding = Utf8\<rparr>"
    by (simp add: guess_def bytes_def char_of_eq code_def utf16_without_mark_def mostly_utf8_def from_utf8_def p)
  then have d: "decode ''Hi'' = Inr \<lparr>dc_text = ''Hi'', dc_encoding = Utf8\<rparr>"
    by (simp add: decode_def trim_def is_cont_def code_def is_white_byte looks_like_text_def control_char_def char_value_def)
  from decoded_is_text [OF this] show ?thesis using d by auto
qed

text \<open>UTF-16, as a program writes it.\<close>

definition unit_bytes :: "bool \<Rightarrow> nat \<Rightarrow> string" where
  "unit_bytes little u = bytes (if little then [u mod 256, u div 256] else [u div 256, u mod 256])"

definition utf16_units :: "nat \<Rightarrow> nat list" where
  "utf16_units v = (if v < 65536 then [v] else [55296 + (v - 65536) div 1024, 56320 + (v - 65536) mod 1024])"

definition encoded16 :: "bool \<Rightarrow> nat list \<Rightarrow> string" where
  "encoded16 little vs = concat (map (unit_bytes little) (concat (map utf16_units vs)))"

lemma units_unit_bytes: "list_all (\<lambda>u. u < 65536) us \<Longrightarrow> units little (concat (map (unit_bytes little) us)) = us"
  by (induction us) (auto simp: unit_bytes_def bytes_def less_mult_imp_div_less code_def)

lemma decode_utf16_plain: "\<not> high_surrogate u \<Longrightarrow> \<not> low_surrogate u \<Longrightarrow> decode_utf16 (u # us) = u # decode_utf16 us"
  by (cases us) auto

lemma decode_utf16_units: "list_all scalar_value vs \<Longrightarrow> decode_utf16 (concat (map utf16_units vs)) = vs"
proof (induction vs)
  case (Cons v vs)
  show ?case
  proof (cases "v < 65536")
    case True
    then have "\<not> high_surrogate v" "\<not> low_surrogate v" using Cons.prems by (auto simp: scalar_value_def high_surrogate_def low_surrogate_def)
    with True Cons show ?thesis by (simp add: utf16_units_def decode_utf16_plain)
  next
    case False
    then have v: "65536 \<le> v" "v < 1114112" using Cons.prems by (auto simp: scalar_value_def)
    then have "(v - 65536) div 1024 < 1024" by auto
    then have "high_surrogate (55296 + (v - 65536) div 1024)" "low_surrogate (56320 + (v - 65536) mod 1024)"
      by (simp_all add: high_surrogate_def low_surrogate_def)
    moreover have "65536 + (v - 65536) div 1024 * 1024 + (v - 65536) mod 1024 = v" using v by simp
    ultimately show ?thesis using False Cons by (simp add: utf16_units_def)
  qed
qed simp

lemma utf16_encoded16: "list_all scalar_value vs \<Longrightarrow> utf16 (encoded16 little vs) little = encoded vs"
proof -
  assume s: "list_all scalar_value vs"
  have "list_all (\<lambda>u. u < 65536) (concat (map utf16_units vs))"
    using s by (auto simp: list_all_iff utf16_units_def scalar_value_def)
  then show ?thesis by (simp add: utf16_def encoded16_def units_unit_bytes decode_utf16_units [OF s] encoded_def)
qed

text \<open>UTF-8, as a program writes it: each character is one piece.\<close>

lemma conts_two: "cont_byte a \<Longrightarrow> cont_byte b \<Longrightarrow> conts 2 2 (a # b # r) = (True, 4)"
  by (simp add: numeral_2_eq_2)

lemma next_piece_encode:
  assumes "scalar_value v"
  shows "next_piece (map code (encode_utf8 v) @ r) = (True, length (encode_utf8 v))"
proof -
  have m: "k mod 64 < 64" for k :: nat by simp
  consider "v < 128" | "128 \<le> v" "v < 2048" | "2048 \<le> v" "v < 65536" | "65536 \<le> v" "v < 1114112"
    using assms by (fastforce simp: scalar_value_def)
  then show ?thesis
  proof cases
    case 1
    then show ?thesis by (simp add: encode_utf8_def bytes_def seq_len_def)
  next
    case 2
    obtain x y where xy: "v div 64 = x" "v mod 64 = y" by blast
    then have "2 \<le> x" "x < 32" "y < 64" using 2 by auto
    then show ?thesis using 2 xy by (simp add: encode_utf8_def bytes_def seq_len_def second_ok_def)
  next
    case 3
    obtain x y z where xyz: "v div 4096 = x" "v div 64 mod 64 = y" "v mod 64 = z" by blast
    then have v: "v = x * 4096 + y * 64 + z" using rebuild64(1) [of v] by simp
    have b: "x < 16" "y < 64" "z < 64" using 3 xyz by auto
    have "x = 0 \<Longrightarrow> 32 \<le> y" "x = 13 \<Longrightarrow> y < 32" using 3 assms b v by (auto simp: scalar_value_def)
    then have "seq_len (224 + x) = 3" "second_ok (224 + x) (128 + y)" "cont_byte (128 + z)"
      using b by (auto simp: seq_len_def second_ok_def cont_byte_def)
    then show ?thesis using 3 b by (simp add: encode_utf8_def bytes_def xyz)
  next
    case 4
    obtain x y z u where xyz: "v div 262144 = x" "v div 4096 mod 64 = y" "v div 64 mod 64 = z" "v mod 64 = u" by blast
    then have v: "v = x * 262144 + y * 4096 + z * 64 + u" using rebuild64(2) [of v] by simp
    have b: "x < 5" "y < 64" "z < 64" "u < 64" using 4 xyz by auto
    have "x = 0 \<Longrightarrow> 16 \<le> y" "x = 4 \<Longrightarrow> y < 16" using 4 b v by auto
    then have "seq_len (240 + x) = 4" "second_ok (240 + x) (128 + y)" "cont_byte (128 + z)" "cont_byte (128 + u)"
      using b by (auto simp: seq_len_def second_ok_def cont_byte_def)
    then show ?thesis using 4 b by (simp add: encode_utf8_def bytes_def xyz conts_two)
  qed
qed

lemma pieces_encoded: "list_all scalar_value vs \<Longrightarrow> utf8_pieces (encoded vs) = map (\<lambda>v. (True, encode_utf8 v)) vs"
proof (induction vs)
  case (Cons v vs)
  have e: "encoded (v # vs) = encode_utf8 v @ encoded vs" by (simp add: encoded_def)
  obtain b bs where "encode_utf8 v = b # bs" using encode_shape [of v] Cons.prems by auto
  then have ne: "encode_utf8 v @ encoded vs \<noteq> []" by simp
  show ?case unfolding e
    using ne Cons next_piece_encode [of v "map code (encoded vs)"] by (subst utf8_pieces.simps) (simp add: Let_def)
qed (simp add: encoded_def utf8_pieces.simps)

lemma encode_lead: "scalar_value v \<Longrightarrow> encode_utf8 v = b # bs \<Longrightarrow> code b < 248"
proof -
  assume a: "scalar_value v" "encode_utf8 v = b # bs"
  have "v < 2048 \<Longrightarrow> v div 64 < 32" "v < 65536 \<Longrightarrow> v div 4096 < 16" "v < 1114112 \<Longrightarrow> v div 262144 < 5" by auto
  with a show ?thesis by (auto simp: encode_utf8_def bytes_def scalar_value_def split: if_splits)
qed



end
