(* ===== verification/Attachments.thy ===== *)
theory Attachments
  imports TextFiles Tables
begin

text \<open>
  What people attach to their messages (\<open>crates/localspace-core/src/attachments.rs\<close>, \<open>picture.rs\<close>): a file made ready and kept
  under the person's own folder, taken into the chat's folder with a message, all of it or nothing, read for the prompt, found
  again, forgotten with the chat.  The image library, the hash and the disk's answers are parameters; a record (\<open>.json\<close>) is the
  value it holds.
\<close>

section \<open>What is known of a file\<close>

datatype attachment_kind = PictureKind | TextKind

record text_file =
  tf_encoding :: string
  tf_chars :: nat
  tf_words :: nat
  tf_read_chars :: nat
  tf_read_words :: nat
  tf_read_tokens :: nat

record attachment =
  at_id :: string
  at_kind :: attachment_kind
  at_name :: string
  at_mime :: string
  at_bytes :: nat
  at_width :: nat
  at_height :: nat
  at_text :: "text_file option"

datatype attachment_refusal =
    TooLarge nat
  | TooManyPixels nat nat
  | NotAPicture
  | UnreadableFile
  | TooMany nat
  | AttachmentNotFound
  | NotTextFile
  | EmptyTextFile
  | TextTooLarge nat

section \<open>Pictures\<close>

datatype image_format = Png | Jpeg | WebP | OtherFormat

record 'p image_lib =
  il_format :: "string \<Rightarrow> (string, image_format) result"
  il_header :: "string \<Rightarrow> (string, nat \<times> nat) result"
  il_decode :: "string \<Rightarrow> (string, 'p) result"
  il_size :: "'p \<Rightarrow> nat \<times> nat"
  il_resize :: "nat \<Rightarrow> 'p \<Rightarrow> 'p"
  il_jpeg :: "'p \<Rightarrow> (string, string) result"
  il_png :: "'p \<Rightarrow> (string, string) result"

record limits =
  lm_max_bytes :: nat
  lm_max_pixels :: nat
  lm_longest_side :: nat

definition default_limits :: limits where
  "default_limits = \<lparr>lm_max_bytes = 30 * 1024 * 1024, lm_max_pixels = 60000000, lm_longest_side = 1280\<rparr>"

record prepared =
  pp_bytes :: string
  pp_mime :: string
  pp_width :: nat
  pp_height :: nat

datatype picture_refusal = FileTooLarge nat | PixelsTooMany nat nat | NoPicture | PictureUnreadable string

definition read_or :: "(string, 'a) result \<Rightarrow> (picture_refusal, 'a) result" where
  "read_or r = (case r of Inl e \<Rightarrow> Inl (PictureUnreadable e) | Inr a \<Rightarrow> Inr a)"

text \<open>\<open>from_decoder\<close> and \<open>apply_orientation\<close> are one step of the library here.\<close>

definition prepare_with :: "'p image_lib \<Rightarrow> limits \<Rightarrow> string \<Rightarrow> (picture_refusal, prepared) result" where
  "prepare_with lib lms bs =
     (if lm_max_bytes lms < length bs then Inl (FileTooLarge (div_ceil (length bs) (1024 * 1024)))
      else bind_result (read_or (il_format lib bs)) (\<lambda>fmt.
        if fmt = OtherFormat then Inl NoPicture
        else bind_result (read_or (il_header lib bs)) (\<lambda>(w, h).
          if lm_max_pixels lms < w * h then Inl (PixelsTooMany w h)
          else bind_result (read_or (il_decode lib bs)) (\<lambda>p0.
            let p = (if lm_longest_side lms < max (fst (il_size lib p0)) (snd (il_size lib p0))
                     then il_resize lib (lm_longest_side lms) p0 else p0)
            in bind_result (read_or (if fmt = Jpeg then il_jpeg lib p else il_png lib p)) (\<lambda>out_bytes.
              Inr \<lparr>pp_bytes = out_bytes, pp_mime = (if fmt = Jpeg then ''image/jpeg'' else ''image/png''),
                   pp_width = fst (il_size lib p), pp_height = snd (il_size lib p)\<rparr>)))))"

definition prepare :: "'p image_lib \<Rightarrow> string \<Rightarrow> (picture_refusal, prepared) result" where
  "prepare lib bs = prepare_with lib default_limits bs"

section \<open>Names on the disk\<close>

definition is_ascii_alnum :: "char \<Rightarrow> bool" where
  "is_ascii_alnum ch \<longleftrightarrow> is_ascii_digit ch \<or> is_ascii_lower ch \<or> is_ascii_upper ch"

definition plain_name :: "string \<Rightarrow> bool" where
  "plain_name name \<longleftrightarrow> name \<noteq> [] \<and> length name \<le> 64 \<and> list_all (\<lambda>ch. is_ascii_alnum ch \<or> ch = CHR ''-'' \<or> ch = CHR ''_'') name"

definition folder :: "(string \<Rightarrow> string) \<Rightarrow> string \<Rightarrow> string" where
  "folder hash name = (if plain_name name then name else take 32 (hash name))"

definition is_id :: "string \<Rightarrow> bool" where
  "is_id i \<longleftrightarrow> length i = 32 \<and> list_all (\<lambda>ch. is_ascii_digit ch \<or> (97 \<le> code ch \<and> code ch \<le> 102)) i"

definition extension :: "string \<Rightarrow> string" where
  "extension mime = (if mime = ''image/jpeg'' then ''jpg'' else if mime = ''text/plain'' then ''txt'' else ''png'')"

definition file_of :: "attachment \<Rightarrow> string" where
  "file_of a = at_id a @ ''.'' @ extension (at_mime a)"

definition record_of :: "string \<Rightarrow> string" where
  "record_of i = i @ ''.json''"

definition file_id :: "(string \<Rightarrow> string) \<Rightarrow> string \<Rightarrow> string \<Rightarrow> string" where
  "file_id hash name bs = take 32 (hash (name @ [char_of (0 :: nat)] @ bs))"

definition text_max_bytes :: nat where
  "text_max_bytes = 2 * 1024 * 1024"

definition is_picture :: "string \<Rightarrow> string \<Rightarrow> bool" where
  "is_picture name bs \<longleftrightarrow>
     starts_with (bytes [0x89, 80, 78, 71]) bs \<or> starts_with (bytes [0xFF, 0xD8, 0xFF]) bs \<or>
     (12 \<le> length bs \<and> take 4 bs = ''RIFF'' \<and> take 4 (drop 8 bs) = ''WEBP'') \<or>
     (case rsplit_once ''.'' name of
        Some (_, ext) \<Rightarrow> to_ascii_lowercase ext \<in> {''png'', ''jpg'', ''jpeg'', ''webp''} | None \<Rightarrow> False)"

section \<open>The files\<close>

text \<open>
  A person's folder, a folder in it (a chat's, or \<open>pending\<close>), a file's name; what the disk refuses is said beforehand.
\<close>

type_synonym path = "string \<times> string \<times> string"

datatype stored = KeptBytes string | AttachmentRecord attachment

type_synonym files = "(path, stored) table"

record attachment_disk =
  dk_write :: "path \<Rightarrow> bool"
  dk_move :: "path \<Rightarrow> bool"
  dk_remove :: "path \<Rightarrow> bool"
  dk_dir :: "string \<Rightarrow> bool"

definition pending_dir :: string where
  "pending_dir = ''pending''"

definition write_file :: "attachment_disk \<Rightarrow> path \<Rightarrow> stored \<Rightarrow> files \<Rightarrow> bool \<times> files" where
  "write_file d p v fs = (if dk_write d p then (True, h_put p v fs) else (False, fs))"

definition move_file :: "attachment_disk \<Rightarrow> path \<Rightarrow> path \<Rightarrow> files \<Rightarrow> bool \<times> files" where
  "move_file d src dst fs = (case t_get fs src of
     Some v \<Rightarrow> if dk_move d src then (True, h_put dst v (t_del src fs)) else (False, fs)
   | None \<Rightarrow> (False, fs))"

definition clear_pending :: "files \<Rightarrow> files" where
  "clear_pending fs = filter (\<lambda>b. fst (snd (fst b)) \<noteq> pending_dir) fs"

definition keep_pending :: "(string \<Rightarrow> string) \<Rightarrow> attachment_disk \<Rightarrow> string \<Rightarrow> attachment \<Rightarrow> string \<Rightarrow> files \<Rightarrow> (attachment_refusal, unit) result \<times> files" where
  "keep_pending hash d user a bs fs =
     (let p = folder hash user
      in if \<not> dk_dir d pending_dir then (Inl UnreadableFile, fs)
         else (case write_file d (p, pending_dir, file_of a) (KeptBytes bs) fs of
            (False, fs1) \<Rightarrow> (Inl UnreadableFile, fs1)
          | (True, fs1) \<Rightarrow> (case write_file d (p, pending_dir, record_of (at_id a)) (AttachmentRecord a) fs1 of
              (False, fs2) \<Rightarrow> (Inl UnreadableFile, fs2)
            | (True, fs2) \<Rightarrow> (Inr (), fs2))))"

definition text_attachment :: "(string \<Rightarrow> bool) \<Rightarrow> (string \<Rightarrow> string) \<Rightarrow> string \<Rightarrow> string \<Rightarrow> decoded \<Rightarrow> attachment" where
  "text_attachment numeric hash name bs dc =
     (let whole = read_whole numeric (dc_text dc)
      in \<lparr>at_id = file_id hash name bs, at_kind = TextKind, at_name = take_chars 200 name, at_mime = ''text/plain'',
          at_bytes = length (dc_text dc), at_width = 0, at_height = 0,
          at_text = Some \<lparr>tf_encoding = encoding_name (dc_encoding dc), tf_chars = rd_chars whole, tf_words = rd_words whole,
             tf_read_chars = rd_chars whole, tf_read_words = rd_words whole, tf_read_tokens = rd_tokens whole\<rparr>\<rparr>)"

definition add_text :: "(string \<Rightarrow> bool) \<Rightarrow> (string \<Rightarrow> string) \<Rightarrow> attachment_disk \<Rightarrow> string \<Rightarrow> string \<Rightarrow> string \<Rightarrow> files \<Rightarrow>
    (attachment_refusal, attachment) result \<times> files" where
  "add_text numeric hash d user name bs fs =
     (if text_max_bytes < length bs
      then (Inl (if decode (take (64 * 1024) bs) = Inl BinaryFile then NotTextFile else TextTooLarge (length bs)), fs)
      else (case decode bs of
          Inl EmptyFile \<Rightarrow> (Inl EmptyTextFile, fs)
        | Inl BinaryFile \<Rightarrow> (Inl NotTextFile, fs)
        | Inr dc \<Rightarrow>
            (let a = text_attachment numeric hash name bs dc
             in case keep_pending hash d user a (dc_text dc) fs of
                  (Inl e, fs') \<Rightarrow> (Inl e, fs')
                | (Inr _, fs') \<Rightarrow> (Inr a, fs'))))"

definition refusal_of :: "picture_refusal \<Rightarrow> attachment_refusal" where
  "refusal_of r = (case r of
     FileTooLarge m \<Rightarrow> TooLarge m | PixelsTooMany w h \<Rightarrow> TooManyPixels w h | NoPicture \<Rightarrow> NotAPicture | PictureUnreadable _ \<Rightarrow> UnreadableFile)"

definition add :: "'p image_lib \<Rightarrow> (string \<Rightarrow> bool) \<Rightarrow> (string \<Rightarrow> string) \<Rightarrow> attachment_disk \<Rightarrow> string \<Rightarrow> string \<Rightarrow> string \<Rightarrow> files \<Rightarrow>
    (attachment_refusal, attachment) result \<times> files" where
  "add lib numeric hash d user name bs fs =
     (if \<not> is_picture name bs then add_text numeric hash d user name bs fs
      else (case prepare lib bs of
          Inl r \<Rightarrow> (Inl (refusal_of r), fs)
        | Inr ready \<Rightarrow>
            (let a = \<lparr>at_id = take 32 (hash (pp_bytes ready)), at_kind = PictureKind, at_name = take_chars 200 name,
                      at_mime = pp_mime ready, at_bytes = length (pp_bytes ready), at_width = pp_width ready,
                      at_height = pp_height ready, at_text = None\<rparr>
             in case keep_pending hash d user a (pp_bytes ready) fs of
                  (Inl e, fs') \<Rightarrow> (Inl e, fs')
                | (Inr _, fs') \<Rightarrow> (Inr a, fs'))))"

definition read_meta :: "files \<Rightarrow> string \<Rightarrow> string \<Rightarrow> string \<Rightarrow> attachment option" where
  "read_meta fs p dir i =
     (if \<not> is_id i then None
      else (case t_get fs (p, dir, record_of i) of
          Some (AttachmentRecord a) \<Rightarrow> if at_id a = i then Some a else None
        | _ \<Rightarrow> None))"

definition pending :: "(string \<Rightarrow> string) \<Rightarrow> string \<Rightarrow> string list \<Rightarrow> files \<Rightarrow> attachment list" where
  "pending hash user ids fs = List.map_filter (read_meta fs (folder hash user) pending_dir) ids"

fun collect :: "files \<Rightarrow> string \<Rightarrow> string list \<Rightarrow> attachment list \<Rightarrow> attachment list option" where
  "collect fs p [] taken = Some taken"
| "collect fs p (i # ids) taken =
     (if i \<in> set (map at_id taken) then collect fs p ids taken
      else (case read_meta fs p pending_dir i of None \<Rightarrow> None | Some a \<Rightarrow> collect fs p ids (taken @ [a])))"

fun put_back :: "attachment_disk \<Rightarrow> string \<Rightarrow> string \<Rightarrow> string list \<Rightarrow> files \<Rightarrow> files" where
  "put_back d p chat [] fs = fs"
| "put_back d p chat (n # ns) fs = put_back d p chat ns (snd (move_file d (p, chat, n) (p, pending_dir, n) fs))"

fun move_in :: "attachment_disk \<Rightarrow> string \<Rightarrow> string \<Rightarrow> string list \<Rightarrow> string list \<Rightarrow> string list \<Rightarrow> files \<Rightarrow> string list option \<times> files" where
  "move_in d p chat [] moved had fs = (Some had, fs)"
| "move_in d p chat (n # ns) moved had fs =
     (if t_get fs (p, chat, n) \<noteq> None then move_in d p chat ns moved (had @ [n]) fs
      else (case move_file d (p, pending_dir, n) (p, chat, n) fs of
          (True, fs') \<Rightarrow> move_in d p chat ns (moved @ [n]) had fs'
        | (False, fs') \<Rightarrow> (None, put_back d p chat (rev moved) fs')))"

definition drop_copy :: "attachment_disk \<Rightarrow> string \<Rightarrow> string \<Rightarrow> files \<Rightarrow> files" where
  "drop_copy d p n fs = (if dk_remove d (p, pending_dir, n) then t_del (p, pending_dir, n) fs else fs)"

definition most_per_message :: nat where
  "most_per_message = 4"

definition take_in :: "(string \<Rightarrow> string) \<Rightarrow> attachment_disk \<Rightarrow> string \<Rightarrow> string \<Rightarrow> string list \<Rightarrow> files \<Rightarrow>
    (attachment_refusal, attachment list) result \<times> files" where
  "take_in hash d user conversation ids fs =
     (let p = folder hash user; chat = folder hash conversation
      in if most_per_message < length ids then (Inl (TooMany most_per_message), fs)
         else (case collect fs p ids [] of
            None \<Rightarrow> (Inl AttachmentNotFound, fs)
          | Some taken \<Rightarrow>
              if \<not> dk_dir d chat then (Inl AttachmentNotFound, fs)
              else (case move_in d p chat (concat (map (\<lambda>a. [file_of a, record_of (at_id a)]) taken)) [] [] fs of
                  (None, fs') \<Rightarrow> (Inl AttachmentNotFound, fs')
                | (Some had, fs') \<Rightarrow> (Inr taken, fold (drop_copy d p) had fs'))))"

definition attached_text :: "(string \<Rightarrow> string) \<Rightarrow> string \<Rightarrow> string \<Rightarrow> attachment \<Rightarrow> files \<Rightarrow> string option" where
  "attached_text hash user conversation a fs =
     (if at_kind a \<noteq> TextKind \<or> \<not> is_id (at_id a) then None
      else (case t_get fs (folder hash user, folder hash conversation, file_of a) of
          Some (KeptBytes bs) \<Rightarrow>
            Some (from_utf8_lossy (case at_text a of Some t \<Rightarrow> take (tf_read_chars t * 4) bs | None \<Rightarrow> bs))
        | _ \<Rightarrow> None))"

definition update_record :: "(string \<Rightarrow> string) \<Rightarrow> attachment_disk \<Rightarrow> string \<Rightarrow> string \<Rightarrow> attachment \<Rightarrow> files \<Rightarrow> files" where
  "update_record hash d user conversation a fs =
     (if \<not> is_id (at_id a) then fs
      else snd (write_file d (folder hash user, folder hash conversation, record_of (at_id a)) (AttachmentRecord a) fs))"

definition attached_bytes :: "(string \<Rightarrow> string) \<Rightarrow> string \<Rightarrow> string \<Rightarrow> attachment \<Rightarrow> files \<Rightarrow> string option" where
  "attached_bytes hash user conversation a fs =
     (if \<not> is_id (at_id a) then None
      else (case t_get fs (folder hash user, folder hash conversation, file_of a) of Some (KeptBytes bs) \<Rightarrow> Some bs | _ \<Rightarrow> None))"

fun find_in :: "files \<Rightarrow> string \<Rightarrow> string \<Rightarrow> string list \<Rightarrow> (attachment \<times> string) option" where
  "find_in fs p i [] = None"
| "find_in fs p i (dir # dirs) =
     (case read_meta fs p dir i of
        Some a \<Rightarrow> (case t_get fs (p, dir, file_of a) of Some (KeptBytes bs) \<Rightarrow> Some (a, bs) | _ \<Rightarrow> find_in fs p i dirs)
      | None \<Rightarrow> find_in fs p i dirs)"

definition find_own :: "(string \<Rightarrow> string) \<Rightarrow> string \<Rightarrow> string \<Rightarrow> files \<Rightarrow> (attachment \<times> string) option" where
  "find_own hash user i fs =
     (if \<not> is_id i then None
      else find_in fs (folder hash user) i (remdups (map (\<lambda>k. fst (snd k)) (filter (\<lambda>k. fst k = folder hash user) (keys fs)))))"

definition forget_chat :: "(string \<Rightarrow> string) \<Rightarrow> string \<Rightarrow> string \<Rightarrow> files \<Rightarrow> files" where
  "forget_chat hash user conversation fs =
     filter (\<lambda>b. \<not> (fst (fst b) = folder hash user \<and> fst (snd (fst b)) = folder hash conversation)) fs"

section \<open>All of it or nothing\<close>

lemma hashed_move: "hashed fs \<Longrightarrow> hashed (snd (move_file d a b fs))"
  by (auto simp: move_file_def ht.ok_put ht.ok_del split: option.split)

lemma move_file_get:
  "move_file d a b fs = (True, fs') \<Longrightarrow> a \<noteq> b \<Longrightarrow>
   \<exists>v. t_get fs a = Some v \<and> t_get fs' k = (if k = a then None else if k = b then Some v else t_get fs k)"
  by (auto simp: move_file_def ht.get_put ht.get_del split: option.splits if_splits)

lemma move_file_False: "move_file d a b fs = (False, fs') \<Longrightarrow> fs' = fs"
  by (auto simp: move_file_def split: option.splits if_splits)

text \<open>The files \<open>ns\<close> have moved from \<open>pending\<close> to the chat, and nothing else has.\<close>

definition moved_in :: "string \<Rightarrow> string \<Rightarrow> string set \<Rightarrow> files \<Rightarrow> files \<Rightarrow> bool" where
  "moved_in p chat ns fs0 fs \<longleftrightarrow>
     (\<forall>n \<in> ns. t_get fs0 (p, chat, n) = None \<and> t_get fs0 (p, pending_dir, n) \<noteq> None) \<and>
     (\<forall>k. t_get fs k = (if \<exists>n \<in> ns. k = (p, pending_dir, n) then None
        else if \<exists>n \<in> ns. k = (p, chat, n) then t_get fs0 (p, pending_dir, snd (snd k)) else t_get fs0 k))"

lemma moved_in_get:
  "moved_in p chat ns fs0 fs \<Longrightarrow> t_get fs k = (if \<exists>n \<in> ns. k = (p, pending_dir, n) then None
      else if \<exists>n \<in> ns. k = (p, chat, n) then t_get fs0 (p, pending_dir, snd (snd k)) else t_get fs0 k)"
  unfolding moved_in_def by blast

lemma moved_in_from: "moved_in p chat ns fs0 fs \<Longrightarrow> n \<in> ns \<Longrightarrow> t_get fs0 (p, chat, n) = None \<and> t_get fs0 (p, pending_dir, n) \<noteq> None"
  unfolding moved_in_def by blast

lemma moved_inI:
  assumes "\<And>n. n \<in> ns \<Longrightarrow> t_get fs0 (p, chat, n) = None \<and> t_get fs0 (p, pending_dir, n) \<noteq> None"
    and "\<And>k. t_get fs k = (if \<exists>n \<in> ns. k = (p, pending_dir, n) then None
        else if \<exists>n \<in> ns. k = (p, chat, n) then t_get fs0 (p, pending_dir, snd (snd k)) else t_get fs0 k)"
  shows "moved_in p chat ns fs0 fs"
  using assms unfolding moved_in_def by blast

lemma moved_in_none: "moved_in p chat {} fs fs"
  by (rule moved_inI) simp_all

lemma moved_in_step:
  assumes "moved_in p chat ns fs0 fs" and "chat \<noteq> pending_dir" and "t_get fs (p, chat, n) = None"
    and "move_file d (p, pending_dir, n) (p, chat, n) fs = (True, fs')"
  shows "moved_in p chat (insert n ns) fs0 fs' \<and> n \<notin> ns"
proof -
  obtain v where v: "t_get fs (p, pending_dir, n) = Some v"
      "\<And>k. t_get fs' k = (if k = (p, pending_dir, n) then None else if k = (p, chat, n) then Some v else t_get fs k)"
    using move_file_get [OF assms(4)] assms(2) by (metis prod.inject)
  note g = moved_in_get [OF assms(1)]
  have n: "n \<notin> ns" using g [of "(p, pending_dir, n)"] v(1) by (auto split: if_splits)
  then have pv: "t_get fs0 (p, pending_dir, n) = Some v" using g [of "(p, pending_dir, n)"] v(1) assms(2) by (auto split: if_splits)
  moreover have "t_get fs0 (p, chat, n) = None" using g [of "(p, chat, n)"] assms(2,3) n by (auto split: if_splits)
  ultimately have pn: "t_get fs0 (p, chat, n) = None \<and> t_get fs0 (p, pending_dir, n) \<noteq> None" by simp
  have from_n: "t_get fs0 (p, chat, m) = None \<and> t_get fs0 (p, pending_dir, m) \<noteq> None" if "m \<in> insert n ns" for m
    using moved_in_from [OF assms(1), of m] that pn by auto
  have "moved_in p chat (insert n ns) fs0 fs'"
  proof (rule moved_inI [OF from_n])
    fix k
    show "t_get fs' k = (if \<exists>m \<in> insert n ns. k = (p, pending_dir, m) then None
        else if \<exists>m \<in> insert n ns. k = (p, chat, m) then t_get fs0 (p, pending_dir, snd (snd k)) else t_get fs0 k)"
      unfolding v(2) g using pv assms(2) by auto
  qed
  with n show ?thesis by blast
qed

lemma put_back_restores:
  assumes "moved_in p chat (set ns) fs0 fs" and "distinct ns" and "chat \<noteq> pending_dir" and "\<And>k. dk_move d k"
  shows "t_get (put_back d p chat ns fs) k = t_get fs0 k"
  using assms
proof (induction ns arbitrary: fs)
  case (Cons n ns)
  note g = moved_in_get [OF Cons.prems(1)]
  have f: "t_get fs0 (p, chat, n) = None" "t_get fs0 (p, pending_dir, n) \<noteq> None" using moved_in_from [OF Cons.prems(1), of n] by auto
  then obtain v where v: "t_get fs0 (p, pending_dir, n) = Some v" by blast
  have c: "t_get fs (p, chat, n) = Some v" using g [of "(p, chat, n)"] Cons.prems(3) v by auto
  let ?fs = "h_put (p, pending_dir, n) v (t_del (p, chat, n) fs)"
  have m: "move_file d (p, chat, n) (p, pending_dir, n) fs = (True, ?fs)" using c Cons.prems(4) by (simp add: move_file_def)
  have "moved_in p chat (set ns) fs0 ?fs"
  proof (rule moved_inI)
    show "m \<in> set ns \<Longrightarrow> t_get fs0 (p, chat, m) = None \<and> t_get fs0 (p, pending_dir, m) \<noteq> None" for m
      using moved_in_from [OF Cons.prems(1), of m] by simp
    show "t_get ?fs k = (if \<exists>m \<in> set ns. k = (p, pending_dir, m) then None
        else if \<exists>m \<in> set ns. k = (p, chat, m) then t_get fs0 (p, pending_dir, snd (snd k)) else t_get fs0 k)" for k
      unfolding ht.get_put ht.get_del g using Cons.prems(2,3) f(1) v by auto
  qed
  then have "t_get (put_back d p chat ns ?fs) k = t_get fs0 k" using Cons by simp
  then show ?case using m by simp
next
  case Nil
  then show ?case using moved_in_get [of p chat "{}" fs0 fs k] by simp
qed

lemma move_in_result:
  assumes "moved_in p chat (set moved) fs0 fs" and "distinct moved" and "chat \<noteq> pending_dir" and "\<And>k. dk_move d k"
    and "\<forall>n \<in> set had. t_get fs0 (p, chat, n) \<noteq> None \<or> n \<in> set moved" and "move_in d p chat ns moved had fs = (r, fs')"
  shows "(r = None \<and> (\<forall>k. t_get fs' k = t_get fs0 k)) \<or>
    (\<exists>had' moved'. r = Some had' \<and> moved_in p chat (set moved') fs0 fs' \<and> set moved' \<union> set had' = set ns \<union> set moved \<union> set had \<and>
       (\<forall>n \<in> set had'. t_get fs0 (p, chat, n) \<noteq> None \<or> n \<in> set moved'))"
  using assms
proof (induction ns arbitrary: moved had fs)
  case (Cons n ns)
  have in_chat: "t_get fs (p, chat, n) \<noteq> None \<longleftrightarrow> t_get fs0 (p, chat, n) \<noteq> None \<or> n \<in> set moved"
    unfolding moved_in_get [OF Cons.prems(1)] using moved_in_from [OF Cons.prems(1)] Cons.prems(3) by auto
  show ?case
  proof (cases "t_get fs (p, chat, n) \<noteq> None")
    case True
    then have e: "move_in d p chat ns moved (had @ [n]) fs = (r, fs')" using Cons.prems(6) by simp
    have h: "\<forall>m \<in> set (had @ [n]). t_get fs0 (p, chat, m) \<noteq> None \<or> m \<in> set moved" using True in_chat Cons.prems(5) by simp
    have "set ns \<union> set moved \<union> set (had @ [n]) = set (n # ns) \<union> set moved \<union> set had" by auto
    with Cons.IH [OF Cons.prems(1-4) h e] show ?thesis by simp
  next
    case absent: False
    show ?thesis
    proof (cases "move_file d (p, pending_dir, n) (p, chat, n) fs")
      case (Pair ok fs1)
      show ?thesis
      proof (cases ok)
        case True
        note st = moved_in_step [OF Cons.prems(1,3)] 
        have s: "moved_in p chat (insert n (set moved)) fs0 fs1 \<and> n \<notin> set moved" using st absent Pair True by auto
        have e: "move_in d p chat ns (moved @ [n]) had fs1 = (r, fs')" using Cons.prems(6) absent Pair True by simp
        have m: "moved_in p chat (set (moved @ [n])) fs0 fs1" "distinct (moved @ [n])" using s Cons.prems(2) by auto
        have h: "\<forall>m \<in> set had. t_get fs0 (p, chat, m) \<noteq> None \<or> m \<in> set (moved @ [n])" using Cons.prems(5) by auto
        have "set ns \<union> set (moved @ [n]) \<union> set had = set (n # ns) \<union> set moved \<union> set had" by auto
        with Cons.IH [OF m Cons.prems(3,4) h e] show ?thesis by simp
      next
        case False
        then have "fs1 = fs" using Pair move_file_False [of d _ _ fs fs1] by simp
        then have "r = None" "fs' = put_back d p chat (rev moved) fs" using Cons.prems(6) absent Pair False by auto
        then show ?thesis using put_back_restores [of p chat "rev moved" fs0 fs d] Cons.prems(1-4) by simp
      qed
    qed
  qed
qed auto

lemma drop_copies_get:
  assumes "\<And>k. dk_remove d k"
  shows "t_get (fold (drop_copy d p) ns fs) k = (if \<exists>n \<in> set ns. k = (p, pending_dir, n) then None else t_get fs k)"
  using assms by (induction ns arbitrary: fs) (auto simp: drop_copy_def ht.get_del)

lemma collect_ids:
  "collect fs p ids taken = Some as \<Longrightarrow>
    set (map at_id as) = set (map at_id taken) \<union> set ids \<and> (distinct (map at_id taken) \<longrightarrow> distinct (map at_id as)) \<and>
    (\<forall>a \<in> set as. a \<in> set taken \<or> t_get fs (p, pending_dir, record_of (at_id a)) = Some (AttachmentRecord a) \<and> is_id (at_id a))"
proof (induction fs p ids taken rule: collect.induct)
  case (2 fs p i ids taken)
  show ?case
  proof (cases "i \<in> set (map at_id taken)")
    case True
    then show ?thesis using 2 by auto
  next
    case False
    then obtain a where a: "read_meta fs p pending_dir i = Some a" "collect fs p ids (taken @ [a]) = Some as"
      using 2(3) by (auto split: option.splits)
    then have "at_id a = i" "t_get fs (p, pending_dir, record_of i) = Some (AttachmentRecord a)" "is_id i"
      by (auto simp: read_meta_def split: if_splits option.splits stored.splits)
    with 2(2) [OF False a] False show ?thesis by auto
  qed
qed simp


definition easy_disk :: attachment_disk where
  "easy_disk = \<lparr>dk_write = (\<lambda>_. True), dk_move = (\<lambda>_. True), dk_remove = (\<lambda>_. True), dk_dir = (\<lambda>_. True)\<rparr>"

definition note_file :: attachment where
  "note_file = \<lparr>at_id = replicate 32 CHR ''a'', at_kind = TextKind, at_name = ''note.txt'', at_mime = ''text/plain'', at_bytes = 2,
     at_width = 0, at_height = 0,
     at_text = Some \<lparr>tf_encoding = ''UTF-8'', tf_chars = 2, tf_words = 1, tf_read_chars = 2, tf_read_words = 1, tf_read_tokens = 1\<rparr>\<rparr>"

definition note_files :: files where
  "note_files = [((''ann'', ''pending'', file_of note_file), KeptBytes ''Hi''),
     ((''ann'', ''pending'', record_of (at_id note_file)), AttachmentRecord note_file)]"

lemma plain_examples: "plain_name ''ann''" "plain_name ''c1''" "is_id (at_id note_file)"
  by (simp_all add: plain_name_def is_ascii_alnum_def is_ascii_digit_def is_ascii_lower_def is_ascii_upper_def code_def is_id_def
      note_file_def list_all_iff)


section \<open>One's own folder\<close>

definition others :: "string \<Rightarrow> files \<Rightarrow> files" where
  "others p fs = filter (\<lambda>b. fst (fst b) \<noteq> p) fs"

definition own :: "string \<Rightarrow> files \<Rightarrow> files" where
  "own p fs = filter (\<lambda>b. fst (fst b) = p) fs"

lemma others_h_put: "fst k = p \<Longrightarrow> others p (h_put k v fs) = others p fs"
  by (induction fs) (auto simp: others_def h_put_def)

lemma others_t_del: "fst k = p \<Longrightarrow> others p (t_del k fs) = others p fs"
  by (induction fs) (auto simp: others_def t_del_def)

lemma others_move: "others p (snd (move_file d (p, a) (p, b) fs)) = others p fs"
  by (auto simp: move_file_def others_h_put others_t_del split: option.split)

lemma others_put_back: "others p (put_back d p chat ns fs) = others p fs"
  by (induction ns arbitrary: fs) (simp_all add: others_move)

lemma others_move_in: "others p (snd (move_in d p chat ns moved had fs)) = others p fs"
proof (induction ns arbitrary: moved had fs)
  case (Cons n ns)
  have "others p fs' = others p fs" if "move_file d (p, pending_dir, n) (p, chat, n) fs = (ok, fs')" for ok fs'
    using others_move [of p d "(pending_dir, n)" "(chat, n)" fs] that by simp
  then show ?case using Cons by (auto simp: others_put_back split: prod.split bool.split)
qed simp

lemma others_drop: "others p (fold (drop_copy d p) ns fs) = others p fs"
  by (induction ns arbitrary: fs) (auto simp: drop_copy_def others_t_del)

lemma others_write: "others p (snd (write_file d (p, a) v fs)) = others p fs"
  by (simp add: write_file_def others_h_put)

lemma others_keep: "others (folder hash user) (snd (keep_pending hash d user a bs fs)) = others (folder hash user) fs"
  by (auto simp: keep_pending_def Let_def write_file_def others_h_put)

lemma others_take: "others (folder hash user) (snd (take_in hash d user conversation ids fs)) = others (folder hash user) fs"
proof -
  have "others (folder hash user) fs' = others (folder hash user) fs"
    if "move_in d (folder hash user) (folder hash conversation) ns [] [] fs = (r, fs')" for ns r fs'
    using others_move_in [of "folder hash user" d "folder hash conversation" ns "[]" "[]" fs] that by simp
  then show ?thesis by (auto simp: take_in_def Let_def others_drop split: option.split prod.split)
qed

lemma own_get: "t_get (own p fs) (p, k) = t_get fs (p, k)"
  by (induction fs) (auto simp: own_def)

lemma own_meta: "read_meta (own p fs) p dir i = read_meta fs p dir i"
  by (simp add: read_meta_def own_get)

lemma own_meta_fun: "read_meta (own p fs) p dir = read_meta fs p dir"
  using own_meta by blast

lemma own_keys: "filter (\<lambda>k. fst k = p) (keys (own p fs)) = filter (\<lambda>k. fst k = p) (keys fs)"
  by (induction fs) (auto simp: own_def keys_def)

lemma own_find: "find_in (own p fs) p i dirs = find_in fs p i dirs"
  by (induction dirs) (auto simp: own_meta own_get split: option.split stored.split)


section \<open>What the model is given of a file\<close>

lemma pieces_append: "list_all scalar_value vs \<Longrightarrow> utf8_pieces (encoded vs @ r) = map (\<lambda>v. (True, encode_utf8 v)) vs @ utf8_pieces r"
proof (induction vs)
  case (Cons v vs)
  have e: "encoded (v # vs) @ r = encode_utf8 v @ (encoded vs @ r)" by (simp add: encoded_def)
  obtain b bs where "encode_utf8 v = b # bs" using encode_shape [of v] Cons.prems by auto
  then have ne: "encode_utf8 v @ (encoded vs @ r) \<noteq> []" by simp
  show ?case unfolding e
    using ne Cons next_piece_encode [of v "map code (encoded vs @ r)"] by (subst utf8_pieces.simps) (simp add: Let_def)
qed (simp add: encoded_def)

lemma encode_length: "length (encode_utf8 v) \<le> 4"
  by (simp add: encode_utf8_def bytes_def)

lemma encoded_length: "length (encoded vs) \<le> 4 * length vs"
proof (induction vs)
  case (Cons v vs)
  then show ?case using encode_length [of v] by (simp add: encoded_def)
qed (simp add: encoded_def)

text \<open>Four bytes for each character are enough to read the first characters of a text.\<close>

lemma first_chars_of_start:
  assumes "is_utf8 s"
  shows "first_chars (from_utf8_lossy (take (n * 4) s)) n = first_chars s n"
proof -
  obtain vs where vs: "list_all scalar_value vs" "s = encoded vs" using assms by (auto simp: is_utf8_def)
  let ?us = "take n vs" and ?ws = "drop n vs"
  have us: "list_all scalar_value ?us" using vs(1) by (auto simp: list_all_iff dest: in_set_takeD)
  have "s = encoded ?us @ encoded ?ws" using vs(2) by (simp add: encoded_def flip: concat_append map_append)
  moreover have "length (encoded ?us) \<le> n * 4" using encoded_length [of ?us] by simp
  ultimately obtain r where r: "take (n * 4) s = encoded ?us @ r" "n < length vs \<or> r = []"
    by (cases "n < length vs") (auto simp: encoded_def)
  obtain xs where xs: "list_all scalar_value xs" "from_utf8_lossy r = encoded xs" using lossy_utf8 [of r] by (auto simp: is_utf8_def)
  have "from_utf8_lossy (take (n * 4) s) = encoded ?us @ from_utf8_lossy r"
    by (simp add: r(1) from_utf8_lossy_def pieces_append [OF us]) (simp add: encoded_def comp_def)
  then have l: "from_utf8_lossy (take (n * 4) s) = encoded (?us @ xs)" using xs(2) by (simp add: encoded_def)
  have "xs = []" if "length vs \<le> n"
  proof (cases xs)
    case (Cons x ys)
    have "from_utf8_lossy r = []" using r(2) that by (auto simp: from_utf8_lossy_def utf8_pieces.simps)
    then show ?thesis using Cons xs encode_shape [of x] by (auto simp: encoded_def)
  qed simp
  then have "take n (?us @ xs) = ?us" by (cases "length vs \<le> n") auto
  moreover have "list_all scalar_value (?us @ xs)" using us xs(1) by simp
  ultimately have c: "take n (chars (encoded (?us @ xs))) = map encode_utf8 ?us" by (simp only: chars_encoded take_map)
  then show ?thesis unfolding first_chars_def take_chars_def l by (simp only: vs(2) chars_encoded [OF vs(1)] take_map)
qed

text \<open>
  The part of a text file the model is given is the part that was decided when the message was sent: read again from the
  bytes that are kept, it has the characters, words and tokens noted, it is a start of the file's text, and it costs no more
  than the file's share.
\<close>

theorem text_file_given:
  assumes "is_utf8 s" and "at_kind a = TextKind" and "is_id (at_id a)" and "at_text a = Some t"
    and "tf_read_chars t = rd_chars (read_within numeric s most)"
    and "t_get fs (folder hash user, folder hash conversation, file_of a) = Some (KeptBytes s)"
  shows "\<exists>x rest. attached_text hash user conversation a fs = Some x \<and> s = first_chars x (tf_read_chars t) @ rest \<and>
    read_whole numeric (first_chars x (tf_read_chars t)) = read_within numeric s most \<and>
    tokens_of numeric (first_chars x (tf_read_chars t)) \<le> most"
proof -
  let ?x = "from_utf8_lossy (take (tf_read_chars t * 4) s)"
  have "attached_text hash user conversation a fs = Some ?x" using assms by (simp add: attached_text_def)
  moreover have f: "first_chars ?x (tf_read_chars t) = first_chars s (rd_chars (read_within numeric s most))"
    using first_chars_of_start [OF assms(1)] assms(5) by simp
  moreover note read_within_given [OF utf8_ascii_alone [OF assms(1)], of numeric most]
  ultimately show ?thesis by (metis read.select_convs(3) read_whole_def)
qed

lemma text_file_given_witness:
  "attached_text (\<lambda>s. s) ''ann'' ''c1'' note_file [((''ann'', ''c1'', file_of note_file), KeptBytes ''Hi'')] = Some ''Hi'' \<and>
   tokens_of (\<lambda>_. False) (first_chars ''Hi'' 2) \<le> 5"
proof -
  have f: "folder (\<lambda>s. s) ''ann'' = ''ann''" "folder (\<lambda>s. s) ''c1'' = ''c1''" by (simp_all add: folder_def plain_examples)
  have u: "is_utf8 ''Hi''" unfolding is_utf8_def
    by (rule exI [of _ "[72, 105]"]) (simp add: scalar_value_def encoded_def encode_utf8_def bytes_def eq_char_of code_def)
  have r: "rd_chars (read_within (\<lambda>_. False) ''Hi'' 5) = 2" by (simp add: count_ascii char_count_def)
  obtain tf where tf: "at_text note_file = Some tf" "tf_read_chars tf = 2" by (simp add: note_file_def)
  have k: "at_kind note_file = TextKind" by (simp add: note_file_def)
  have g: "t_get [((''ann'', ''c1'', file_of note_file), KeptBytes ''Hi'')] (folder (\<lambda>s. s) ''ann'', folder (\<lambda>s. s) ''c1'', file_of note_file) = Some (KeptBytes ''Hi'')"
    by (simp add: f)
  have e: "tf_read_chars tf = rd_chars (read_within (\<lambda>_. False) ''Hi'' 5)" using tf r by simp
  obtain x rest where x: "attached_text (\<lambda>s. s) ''ann'' ''c1'' note_file [((''ann'', ''c1'', file_of note_file), KeptBytes ''Hi'')] = Some x"
      "''Hi'' = first_chars x 2 @ rest" "tokens_of (\<lambda>_. False) (first_chars x 2) \<le> 5"
    using text_file_given [OF u k plain_examples(3) tf(1) e g] tf(2) by auto
  have p: "utf8_pieces ''Hi'' = [(True, ''H''), (True, ''i'')]"
    by (subst utf8_pieces.simps, simp add: code_def seq_len_def)+
  have "x = ''Hi''" using x(1) g tf(2) tf(1) k plain_examples(3) f by (simp add: attached_text_def from_utf8_lossy_def p)
  then show ?thesis using x by simp
qed

end
