(* ===== verification/Spec2Isabelle.thy ===== *)
theory Spec2Isabelle
  imports Acl Dag AuditLog Database Accounts Versions Deps Chats Packages Tools Registry Exposure Briefing DocStore Gateway TurnOrder Gate Presence Switches
    Prompting
begin

text \<open>
  A model of the core of localSpace: the crate \<open>crates/localspace-core\<close> and the types of \<open>crates/localspace-proto\<close> it works
  on.  localSpace is an environment in which people and an agent work on documents through packages (harnesses); its core
  decides who may do what, keeps every change in a history, records what happened, and writes answers with a model.

  \<^bold>\<open>The parts and how they meet.\<close>  A request of a person reaches \<open>Core::handle_as\<close> (\<open>lib.rs\<close>), which makes that person's state
  the active one and dispatches.  A call of a tool, whoever makes it, passes one gate (\<open>call_tool\<close>: read-only accounts, the tools
  offered in this turn, the access check, the schema, confirmation), runs the harness's logic on the JSON of its document,
  applies what came back to the document and commits it.  Commits form the history that undo, redo and dropping a run walk.
  The agent's answers are turns: queued, started one per person while the engine has slots, asking the model step by step, making
  its calls through the same gate, waiting for approvals.

  \<^bold>\<open>Theories and sources\<close> (all under \<open>crates/localspace-core/src\<close> unless said otherwise):

  \<^item> \<open>Prelude\<close>, \<open>Tables\<close>, \<open>Json\<close>: results with errors, text, the two kinds of table (ordered ones for redb and \<open>BTreeMap\<close>, tables in
    insertion order for \<open>HashMap\<close>) behind the locale \<open>kv_table\<close>, JSON values.
  \<^item> \<open>Acl\<close> (\<open>acl.rs\<close>), \<open>Dag\<close> (\<open>dag.rs\<close>), \<open>Calendar\<close> and \<open>AuditLog\<close> (\<open>audit.rs\<close>), \<open>Database\<close> (\<open>store.rs\<close>), \<open>Accounts\<close> (\<open>identity.rs\<close>),
    \<open>Chats\<close> (\<open>conversations.rs\<close>).
  \<^item> \<open>Versions\<close> and \<open>Deps\<close> (\<open>deps.rs\<close>), \<open>Packages\<close> (\<open>manifest.rs\<close>), \<open>Tools\<close> (\<open>tools.rs\<close>), \<open>Registry\<close> (\<open>registry.rs\<close>, \<open>types.rs\<close>).
  \<^item> \<open>Fitting\<close> and \<open>Exposure\<close> (\<open>exposure.rs\<close>, \<open>profile.rs\<close>, \<open>grammar.rs\<close>), \<open>Budgets\<close> and \<open>Briefing\<close> (\<open>context.rs\<close>, \<open>task.rs\<close>).
  \<^item> \<open>Docs\<close>, \<open>Reconcile\<close>, \<open>DocStore\<close> (\<open>docs.rs\<close>): the reconciliation of a JSON value into an Automerge document, what it rests on, and
    that it does what it says.  \<open>Gateway\<close> (\<open>gateway.rs\<close>): the only way out.
  \<^item> \<open>CoreState\<close>, \<open>CoreCalls\<close>, \<open>Requests\<close> (\<open>lib.rs\<close>): Core's state, the gate and the calls, the requests.  \<open>Turns\<close> (\<open>agent.rs\<close>,
    \<open>turns.rs\<close>): the answers.  \<open>Framing\<close>: what each operation leaves alone.
  \<^item> \<open>CoreStart\<close> (\<open>Core::new\<close> in \<open>lib.rs\<close>): how Core starts, and the example on which the properties of Core are applied.  \<open>CoreSteps\<close>: everything
    that can happen to Core as a step relation, the locales \<open>core_steps\<close> and \<open>core_changes\<close> under which each operation is shown once to keep
    a property of replicas, history and workspaces, and their interpretations.  \<open>TurnOrder\<close>: the queue of answers along every run.
    \<open>Gate\<close>: what a call of a tool may do to the history.
  \<^item> \<open>Presence\<close> (\<open>presence.rs\<close>, its request in \<open>lib.rs\<close>): who shows which board.  \<open>Switches\<close> (\<open>features.rs\<close>, preferences in \<open>lib.rs\<close>).
  \<^item> \<open>Counting\<close> (\<open>prompt.rs\<close>, \<open>text_file.rs\<close>): the count of tokens, and what of a text fits.  \<open>TextFiles\<close> (\<open>text_file.rs\<close>): which encoding a
    file is in, and its text.  \<open>Attachments\<close> (\<open>attachments.rs\<close>, \<open>picture.rs\<close>): the files a person attaches, pending and with their chat.
    \<open>Prompting\<close> (\<open>prompt.rs\<close>, and of \<open>agent.rs\<close> the text files and the budget of a chat): what the model reads.

  A struct is a record with the source's fields, an enum a datatype with the source's constructors; a function of the source has a
  definition of its name, suffixed where the name is taken.  An operation on \<open>&mut self\<close> takes the state last and returns the new
  one; a \<open>Result\<close> is a sum with the error on the left, and an operation that may fail after it has written returns both the
  result and the state.  Text is a list of bytes, as in the source.  Counters of a fixed width are kept below their bound where the
  code relies on it, wrapped or saturated where it does not.

  \<^bold>\<open>What the theorems show.\<close>  Access: the check is the policy, a list on a document never gives more than its workspace, break-glass
  only views (\<open>Acl\<close>).  History: undo and redo are inverse, dropping a run is exact, the log stays well formed, undo reaches the start
  (\<open>Dag\<close>).  Audit: whatever the writer and the disk do, what is read back is a chain; tampering is found (\<open>AuditLog\<close>).  Accounts:
  the directory stays consistent along every run, locks count right, sessions end with rights (\<open>Accounts\<close>).  Conversations are
  written through and isolated (\<open>Chats\<close>).  Packages: the gate confines a manifest, updates that do not ask gain nothing, resolution
  is sound, the registry holds only what was accepted (\<open>Packages\<close>, \<open>Deps\<close>, \<open>Registry\<close>).  Turns of the model: the tool set fits its
  budget and shows what is due, context is the same with the cache as without (\<open>Exposure\<close>, \<open>Briefing\<close>); lint and argument checks
  are exactly their specification (\<open>Tools\<close>).  Documents: a written JSON value reads back, a snapshot restores (\<open>DocStore\<close>).  Network:
  nothing is asked but what the policy lets through, within the limits, whatever the session does (\<open>Gateway\<close>).
  Core as a whole: a call makes one commit past the whole gate or none (\<open>Gate\<close>); along every run at most one answer is under way for
  a person and the queue comes to rest with nobody waiting who could start (\<open>TurnOrder\<close>); the history only grows, replicas stay
  within their bound, and a workspace changes only at the word of its owner or an administrator (\<open>CoreSteps\<close>); a restart brings back
  the access the database holds (\<open>CoreStart\<close>).
  What the model reads: the reading of a chat begins with something the person said, moves in big steps and fits its budget, the next
  prompt begins with all of this one, pictures stay with their words, text files take half (\<open>Prompting\<close>); attachments are taken all
  or none, and only a person's own folder is touched (\<open>Attachments\<close>); text is read back from every encoding (\<open>TextFiles\<close>), shares are
  fair (\<open>Counting\<close>).  The table of windows is everyone's last word (\<open>Presence\<close>); a switch turns one feature (\<open>Switches\<close>).

  \<^bold>\<open>Parameters.\<close>  Hashes (blake3), password hashing (argon2), random numbers, the clock, the text of a JSON value, Automerge and its
  sync protocol, HTTP, a harness's logic, the model's reply and lowercasing of text outside ASCII are arguments.  What the code
  relies on is a named hypothesis, satisfied by a concrete instance in each witness: \<open>automerge_ok\<close> (\<open>Reconcile\<close>) by the flat
  documents of \<open>DocStore\<close>, hash functions without collisions on the values at hand by readable ones.  The clock is read once per
  record: times are functions of the record's number.

  \<^bold>\<open>Termination and bounds.\<close>  Every definition is total without fuel: loops recurse on their data or by a measure (the fitting loop
  by the tools left, the resolver by the fuel of its source, the loop of \<open>schedule\<close> by the turns, then those waiting, then those
  told a wrong place).  Constants of the source are kept: 20-token markers, 24 steps of an answer, 32 replicas, 200 MiB, lock
  times.

  \<^bold>\<open>Not modelled, and why.\<close>  Loading and installing packages on disk, model files, the engine's process, streams, hardware,
  evals, widgets, the transport, server, clients and SDKs: input and output, floating point estimates, or glue.  Of pictures the
  library that decodes them is a parameter.  Failures of redb are not modelled (a transaction either is made or Core stops).  The ranking of
  capabilities and the provider cache's hit rate are floats.  In \<open>Core\<close>, the requests about packages, models and views are left out; those about accounts are in \<open>Accounts\<close>.

  \<^bold>\<open>Next.\<close>  The remaining requests of \<open>handle_inner\<close>, the environment's lock.
\<close>

end
